(* ===== verification/Go_Prelude.thy ===== *)
theory Go_Prelude
  imports Main "HOL-Library.AList" "HOL-Library.Multiset"
begin

section \<open>Go library fragments and shared automation\<close>

text \<open>
  What the components share: the collections of rewrite rules, the part of the Go language and
  of its standard library the sources use (buffered channels, decimal printing, 64-bit signed
  wrap-around), and generic facts on lists and association lists.

  A Go map whose size or iteration matters is an association list with distinct keys, read with
  \<^const>\<open>map_of\<close> and changed with \<^const>\<open>AList.update\<close> and \<^const>\<open>AList.delete\<close>. A map that is
  only looked up is a partial function.
\<close>

named_theorems ctl_defs \<open>operations of the actor control block\<close>
named_theorems rt_defs \<open>operations of the actor runtime and the group\<close>
named_theorems lease_defs \<open>operations of the persistence drivers\<close>
named_theorems place_defs \<open>operations of the placement strategies\<close>

subsection \<open>Buffered channels\<close>

text \<open>
  A channel made by \<open>make(chan T, cap)\<close>. Sending on a closed channel panics, closing a closed
  channel panics, receiving from a closed and drained channel yields the zero value with
  \<open>ok = false\<close>. Only the buffer is modelled: a rendezvous on a channel of capacity 0 is not.
\<close>

record 'm chan =
  items :: "'m list"
  capacity :: nat
  chan_closed :: bool

datatype 'c send_result = Sent 'c | Full | PanicSend

datatype 'm recv_result = Got 'm "'m chan" | WouldBlock | RecvClosed

definition make_chan :: "nat \<Rightarrow> 'm chan" where
  "make_chan n = \<lparr>items = [], capacity = n, chan_closed = False\<rparr>"

definition chan_send :: "'m \<Rightarrow> 'm chan \<Rightarrow> 'm chan send_result" where
  "chan_send m c =
     (if chan_closed c then PanicSend
      else if length (items c) < capacity c then Sent (c\<lparr>items := items c @ [m]\<rparr>)
      else Full)"

definition chan_recv :: "'m chan \<Rightarrow> 'm recv_result" where
  "chan_recv c =
     (case items c of
        m # ms \<Rightarrow> Got m (c\<lparr>items := ms\<rparr>)
      | [] \<Rightarrow> if chan_closed c then RecvClosed else WouldBlock)"

text \<open>\<open>close(ch)\<close>: \<^const>\<open>None\<close> is the panic of closing twice.\<close>

definition chan_close :: "'m chan \<Rightarrow> 'm chan option" where
  "chan_close c = (if chan_closed c then None else Some (c\<lparr>chan_closed := True\<rparr>))"

lemma make_chan_sel [simp]:
  "items (make_chan n) = []" "capacity (make_chan n) = n" "\<not> chan_closed (make_chan n)"
  by (simp_all add: make_chan_def)

lemma chan_send_Sent_iff:
  "chan_send m c = Sent c' \<longleftrightarrow>
     \<not> chan_closed c \<and> length (items c) < capacity c \<and> c' = c\<lparr>items := items c @ [m]\<rparr>"
  by (auto simp: chan_send_def)

lemma chan_send_Full_iff:
  "chan_send m c = Full \<longleftrightarrow> \<not> chan_closed c \<and> capacity c \<le> length (items c)"
  by (auto simp: chan_send_def)

lemma chan_send_Panic_iff: "chan_send m c = PanicSend \<longleftrightarrow> chan_closed c"
  by (auto simp: chan_send_def)

lemmas chan_send_iffs = chan_send_Sent_iff chan_send_Full_iff chan_send_Panic_iff

subsection \<open>Decimal printing\<close>

text \<open>\<open>strconv.Itoa\<close> and \<open>fmt\<close>'s \<open>%d\<close>.\<close>

fun nat_dec :: "nat \<Rightarrow> string" where
  "nat_dec n = (if n < 10 then [char_of (48 + n)] else nat_dec (n div 10) @ [char_of (48 + n mod 10)])"

declare nat_dec.simps [simp del]

definition Itoa :: "int \<Rightarrow> string" where
  "Itoa i = (if i < 0 then CHR ''-'' # nat_dec (nat (- i)) else nat_dec (nat i))"

definition dec_val :: "string \<Rightarrow> nat" where
  "dec_val s = foldl (\<lambda>v c. 10 * v + (of_char c - 48)) 0 s"

lemma dec_val_snoc: "dec_val (s @ [c]) = 10 * dec_val s + (of_char c - 48)"
  by (simp add: dec_val_def)

lemma of_char_digit [simp]: "n < 10 \<Longrightarrow> (of_char (char_of (48 + n) :: char) :: nat) = 48 + n"
  by (simp add: of_char_of)

lemma dec_val_nat_dec: "dec_val (nat_dec n) = n"
proof (induction n rule: nat_dec.induct)
  case (1 n)
  show ?case
  proof (cases "n < 10")
    case True
    then show ?thesis by (simp add: nat_dec.simps [of n] dec_val_def)
  next
    case False
    with "1.IH" show ?thesis
      by (simp add: nat_dec.simps [of n] dec_val_snoc)
  qed
qed

lemma nat_dec_inject [simp]: "nat_dec m = nat_dec n \<longleftrightarrow> m = n"
  by (metis dec_val_nat_dec)

lemma nat_dec_digits: "c \<in> set (nat_dec n) \<Longrightarrow> 48 \<le> (of_char c :: nat) \<and> (of_char c :: nat) < 58"
proof (induction n rule: nat_dec.induct)
  case (1 n)
  show ?case
  proof (cases "n < 10")
    case True
    with "1.prems" show ?thesis by (auto simp: nat_dec.simps [of n])
  next
    case False
    with "1.prems" have "c \<in> set (nat_dec (n div 10)) \<or> c = char_of (48 + n mod 10)"
      by (subst (asm) nat_dec.simps) auto
    with False "1.IH" show ?thesis by auto
  qed
qed

lemma nat_dec_nonempty [simp]: "nat_dec n \<noteq> []"
  by (subst nat_dec.simps) simp

lemma minus_not_in_nat_dec: "CHR ''-'' \<notin> set (nat_dec n)"
  by (auto dest: nat_dec_digits)

lemma Itoa_inject [simp]: "Itoa i = Itoa j \<longleftrightarrow> i = j"
proof
  assume eq: "Itoa i = Itoa j"
  have "CHR ''-'' # xs \<noteq> nat_dec n" for xs n
    by (metis list.set_intros(1) minus_not_in_nat_dec)
  with eq show "i = j" by (auto simp: Itoa_def split: if_splits) metis
qed simp

subsection \<open>Strings\<close>

text \<open>\<open>strings.Split\<close> at a single character and \<open>strings.Join\<close>.\<close>

fun split_on :: "char \<Rightarrow> string \<Rightarrow> string list" where
  "split_on c [] = [[]]"
| "split_on c (x # xs) =
     (if x = c then [] # split_on c xs
      else (case split_on c xs of [] \<Rightarrow> [[x]] | p # ps \<Rightarrow> (x # p) # ps))"

fun join_with :: "string \<Rightarrow> string list \<Rightarrow> string" where
  "join_with sep [] = []"
| "join_with sep [p] = p"
| "join_with sep (p # q # ps) = p @ sep @ join_with sep (q # ps)"

lemma split_on_nonempty [simp]: "split_on c s \<noteq> []"
  by (induction s) (auto split: list.splits)

lemma split_on_word [simp]: "c \<notin> set s \<Longrightarrow> split_on c s = [s]"
  by (induction s) auto

lemma split_on_append: "c \<notin> set s \<Longrightarrow> split_on c (s @ c # t) = s # split_on c t"
  by (induction s) auto

lemma split_on_parts: "p \<in> set (split_on c s) \<Longrightarrow> c \<notin> set p \<and> set p \<subseteq> set s"
  by (induction s arbitrary: p) (fastforce split: if_splits list.splits)+

lemma join_split [simp]: "join_with [c] (split_on c s) = s"
proof (induction s)
  case (Cons x s)
  obtain p ps where "split_on c s = p # ps" by (meson neq_Nil_conv split_on_nonempty)
  with Cons show ?case by (cases ps) auto
qed simp

lemma split_on_join: "ps \<noteq> [] \<Longrightarrow> \<forall>p\<in>set ps. c \<notin> set p \<Longrightarrow> split_on c (join_with [c] ps) = ps"
  by (induction "[c]" ps rule: join_with.induct) (simp_all add: split_on_append)

lemma set_join_with: "set (join_with sep ps) \<subseteq> set sep \<union> \<Union> (set ` set ps)"
  by (induction sep ps rule: join_with.induct) auto

subsection \<open>Paths\<close>

text \<open>\<open>filepath.Join\<close> on Unix: join the non-empty elements and clean the result.\<close>

fun split_path :: "string \<Rightarrow> string \<Rightarrow> string list" where
  "split_path [] acc = [acc]"
| "split_path (c # cs) acc = (if c = CHR ''/'' then acc # split_path cs [] else split_path cs (acc @ [c]))"

fun clean_parts :: "bool \<Rightarrow> string list \<Rightarrow> string list \<Rightarrow> string list" where
  "clean_parts rooted acc [] = acc"
| "clean_parts rooted acc (p # ps) =
     clean_parts rooted
       (if p = [] \<or> p = ''.'' then acc
        else if p = ''..'' then
          (if acc \<noteq> [] \<and> last acc \<noteq> ''..'' then butlast acc else if rooted then acc else acc @ [p])
        else acc @ [p]) ps"

fun join_slash :: "string list \<Rightarrow> string" where
  "join_slash [] = []"
| "join_slash [p] = p"
| "join_slash (p # ps) = p @ ''/'' @ join_slash ps"

definition Clean :: "string \<Rightarrow> string" where
  "Clean path =
     (let rooted = (path \<noteq> [] \<and> hd path = CHR ''/'');
          body = join_slash (clean_parts rooted [] (split_path path []))
      in if rooted then CHR ''/'' # body else if body = [] then ''.'' else body)"

definition Join :: "string list \<Rightarrow> string" where
  "Join elems = (let es = filter (\<lambda>e. e \<noteq> []) elems in if es = [] then [] else Clean (join_slash es))"

subsection \<open>64-bit signed integers\<close>

definition MaxInt :: int where
  "MaxInt = 2 ^ 63 - 1"

definition MinInt :: int where
  "MinInt = - (2 ^ 63)"

definition wrap64 :: "int \<Rightarrow> int" where
  "wrap64 x = (x + 2 ^ 63) mod 2 ^ 64 - 2 ^ 63"

lemma wrap64_id: "MinInt \<le> x \<Longrightarrow> x \<le> MaxInt \<Longrightarrow> wrap64 x = x"
  by (simp add: wrap64_def MinInt_def MaxInt_def)

lemma wrap64_MaxInt: "wrap64 (MaxInt + 1) = MinInt"
  by (simp add: wrap64_def MinInt_def MaxInt_def)

lemma wrap64_range: "MinInt \<le> wrap64 x \<and> wrap64 x \<le> MaxInt"
proof -
  have "0 \<le> (x + 2 ^ 63) mod 2 ^ 64" "(x + 2 ^ 63) mod 2 ^ 64 < (2 ^ 64 :: int)" by simp_all
  then show ?thesis by (simp add: wrap64_def MinInt_def MaxInt_def)
qed

subsection \<open>Lists and association lists\<close>

lemma map_of_delete_conv: "map_of (AList.delete k al) k' = (if k' = k then None else map_of al k')"
  by (simp add: delete_conv)

lemma map_of_update_conv:
  "map_of (AList.update k v al) k' = (if k' = k then Some v else map_of al k')"
  by (simp add: update_conv)

lemmas alist_lookup = map_of_delete_conv map_of_update_conv

lemma set_delete_subset: "set (AList.delete k al) \<subseteq> set al"
  by (auto simp: AList.delete_eq)

lemma length_update:
  "length (AList.update k v al) = (if map_of al k = None then Suc (length al) else length al)"
  by (induction al) auto

lemma length_delete:
  "distinct (map fst al) \<Longrightarrow>
     length (AList.delete k al) = (if map_of al k = None then length al else length al - 1)"
proof (induction al)
  case (Cons x al)
  then show ?case
    by (cases x; cases al) (auto simp: delete_id map_of_eq_None_iff image_iff split: if_splits)
qed simp

lemma filter_complement_perm:
  "length (filter P xs) + length (filter (\<lambda>x. \<not> P x) xs) = length xs"
  by (rule sum_length_filter_compl)

end
