(* ===== verification/Actor_Types.thy ===== *)
theory Actor_Types
  imports Go_Prelude
begin

section \<open>Identities, errors and request provenance\<close>

text \<open>
  \<open>actor/types.go\<close>, \<open>actor/errors.go\<close> and \<open>actor/trace.go\<close>. An actor identity is any type with
  equality (Go's \<open>comparable\<close>), the type variable \<open>'a\<close>; the two methods every identity has are a
  value of \<open>id_ops\<close>, passed where the code calls them. An error value is a \<open>goerr\<close>: one
  constructor per error struct of the package, \<open>ContextErr\<close> for \<open>ctx.Err()\<close>, \<open>RuntimeErr\<close> for a
  panic of the Go runtime and \<open>UserErr\<close> for an error made by a handler or another package.
\<close>

subsection \<open>types.go\<close>

record 'a id_ops =
  ActorType :: "'a \<Rightarrow> string"
  IdString :: "'a \<Rightarrow> string"

definition actorTypeOf :: "'a id_ops \<Rightarrow> 'a \<Rightarrow> string" where
  "actorTypeOf ops zero = ActorType ops zero"

definition actorNameOf :: "'a id_ops \<Rightarrow> 'a \<Rightarrow> string" where
  "actorNameOf ops i = ActorType ops i @ ''.'' @ IdString ops i"

text \<open>
  A request: its \<open>ReqType\<close> string and payload, or the framework's own \<open>PanicReq\<close>, which carries
  the recovered error (\<^const>\<open>None\<close> when the panic value was no \<open>error\<close>).
\<close>

datatype ('q, 'e) request = UserReq string 'q | PanicReq "'e option"

fun reqTypeOf :: "('q, 'e) request \<Rightarrow> string" where
  "reqTypeOf (UserReq t _) = t"
| "reqTypeOf (PanicReq _) = ''__panic__''"

definition TimerId_String :: "int \<Rightarrow> string" where
  "TimerId_String t = Itoa t"

subsection \<open>errors.go\<close>

datatype ('a, 'e) goerr =
    GroupNotFoundError 'a
  | GroupClosedError "'a option"
  | ActorNotFoundError 'a
  | ActorClosedError 'a
  | ActorBusyError 'a
  | ActorPostponeError 'a
  | HandlerNotFoundError 'a string
  | HandlerNotAllowedError 'a string
  | HandlerCallError 'a string "('a, 'e) goerr option"
  | ContextErr string
  | RuntimeErr string
  | UserErr 'e

fun Error_String :: "'a id_ops \<Rightarrow> ('e \<Rightarrow> string) \<Rightarrow> ('a, 'e) goerr \<Rightarrow> string" where
  "Error_String ops ue (GroupNotFoundError i) = ''actor group not found: '' @ IdString ops i"
| "Error_String ops ue (GroupClosedError (Some i)) = ''actor group closed: '' @ IdString ops i"
| "Error_String ops ue (GroupClosedError None) = ''actor group closed: %!s(<nil>)''"
| "Error_String ops ue (ActorNotFoundError i) = ''actor not found: '' @ IdString ops i"
| "Error_String ops ue (ActorClosedError i) = ''actor closed: '' @ IdString ops i"
| "Error_String ops ue (ActorBusyError i) = ''actor busy: '' @ IdString ops i"
| "Error_String ops ue (ActorPostponeError i) = ''actor postpone: '' @ IdString ops i"
| "Error_String ops ue (HandlerNotFoundError i r) =
     ''handler not found: '' @ IdString ops i @ '':'' @ r"
| "Error_String ops ue (HandlerNotAllowedError i r) =
     ''handler not allowed: '' @ IdString ops i @ '':'' @ r"
| "Error_String ops ue (HandlerCallError i r c) =
     ''handler call error ['' @ IdString ops i @ '']: '' @
       (case c of None \<Rightarrow> ''<nil>'' | Some e \<Rightarrow> Error_String ops ue e)"
| "Error_String ops ue (ContextErr s) = s"
| "Error_String ops ue (RuntimeErr s) = s"
| "Error_String ops ue (UserErr e) = ue e"

text \<open>\<open>HandlerCallError\<close> is the only error with an \<open>Unwrap\<close> method.\<close>

fun Unwrap :: "('a, 'e) goerr \<Rightarrow> ('a, 'e) goerr option" where
  "Unwrap (HandlerCallError _ _ c) = c"
| "Unwrap _ = None"

text \<open>\<open>errors.As\<close>: the first error of the \<open>Unwrap\<close> chain that has the wanted type.\<close>

fun errors_As :: "(('a, 'e) goerr \<Rightarrow> bool) \<Rightarrow> ('a, 'e) goerr \<Rightarrow> ('a, 'e) goerr option" where
  "errors_As P (HandlerCallError i r (Some c)) =
     (if P (HandlerCallError i r (Some c)) then Some (HandlerCallError i r (Some c))
      else errors_As P c)"
| "errors_As P e = (if P e then Some e else None)"

definition is_ActorBusyError :: "('a, 'e) goerr option \<Rightarrow> bool" where
  "is_ActorBusyError err = (case err of Some (ActorBusyError _) \<Rightarrow> True | _ \<Rightarrow> False)"

fun is_ActorNotFoundError :: "('a, 'e) goerr \<Rightarrow> bool" where
  "is_ActorNotFoundError (ActorNotFoundError _) = True"
| "is_ActorNotFoundError _ = False"

fun is_GroupNotFoundError :: "('a, 'e) goerr \<Rightarrow> bool" where
  "is_GroupNotFoundError (GroupNotFoundError _) = True"
| "is_GroupNotFoundError _ = False"

lemma is_ActorBusyError_simps [simp]:
  "\<not> is_ActorBusyError None"
  "is_ActorBusyError (Some (ActorBusyError i))"
  "\<not> is_ActorBusyError (Some (ActorPostponeError i))"
  "\<not> is_ActorBusyError (Some (GroupNotFoundError i))"
  "\<not> is_ActorBusyError (Some (ActorNotFoundError i))"
  "\<not> is_ActorBusyError (Some (UserErr e))"
  by (simp_all add: is_ActorBusyError_def)

lemma is_ActorBusyErrorE:
  assumes "is_ActorBusyError err"
  obtains i where "err = Some (ActorBusyError i)"
  using assms by (auto simp: is_ActorBusyError_def split: option.splits goerr.splits)

lemma errors_As_sound: "errors_As P e = Some x \<Longrightarrow> P x"
  by (induction P e rule: errors_As.induct) (auto split: if_splits)

lemma errors_As_self: "P e \<Longrightarrow> errors_As P e = Some e"
  by (induction P e rule: errors_As.induct) auto

subsection \<open>The per-target results of a multicast\<close>

record ('a, 'e) IdErr =
  ieId :: 'a
  ieErr :: "('a, 'e) goerr option"

fun CountNoErr :: "('a, 'e) IdErr list \<Rightarrow> int" where
  "CountNoErr [] = 0"
| "CountNoErr (x # xs) = (if ieErr x = None then 1 else 0) + CountNoErr xs"

lemma CountNoErr_filter: "CountNoErr xs = int (length (filter (\<lambda>x. ieErr x = None) xs))"
  by (induction xs) auto

lemma CountNoErr_append [simp]: "CountNoErr (xs @ ys) = CountNoErr xs + CountNoErr ys"
  by (induction xs) auto

subsection \<open>trace.go\<close>

record From =
  Origin :: string
  ReqSeq :: string

definition From_String :: "From \<Rightarrow> string" where
  "From_String f = Origin f @ '':'' @ ReqSeq f"

definition OriginFrom :: "string \<Rightarrow> From" where
  "OriginFrom s = \<lparr>Origin = s, ReqSeq = s\<rparr>"

definition MakeFrom :: "'a id_ops \<Rightarrow> 'a \<Rightarrow> string \<Rightarrow> From" where
  "MakeFrom ops i sq = (let r = actorNameOf ops i @ ''.'' @ sq in \<lparr>Origin = r, ReqSeq = r\<rparr>)"

text \<open>
  The closure \<open>fromSeq\<close> built by \<open>newActorContext\<close>: it numbers the requests an actor sends
  during one activation and keeps the origin of the request being served.
\<close>

definition fromSeq :: "string \<Rightarrow> int \<Rightarrow> From \<Rightarrow> From \<times> int" where
  "fromSeq name counter f =
     (let c = counter + 1; r = name @ ''.'' @ Itoa c;
          org = (if Origin f = [] then r else Origin f)
      in (\<lparr>Origin = org, ReqSeq = r\<rparr>, c))"

lemma fromSeq_counter [simp]: "snd (fromSeq n c f) = c + 1"
  by (simp add: fromSeq_def Let_def)

lemma fromSeq_ReqSeq_inject:
  "ReqSeq (fst (fromSeq n c f)) = ReqSeq (fst (fromSeq n c' f')) \<longleftrightarrow> c = c'"
  by (auto simp: fromSeq_def Let_def)

end
