(* ===== verification/Actor_Control.thy ===== *)
theory Actor_Control
  imports Actor_Types
begin

section \<open>The actor control block\<close>

text \<open>
  \<open>actor/actor_control.go\<close>: the part of an activation that does not depend on the actor's own
  types. It keeps the \<open>active\<close> flag, the quit hook, the timers and the postpone queue of messages
  whose target was busy.

  Everything outside the activation (the manager with its groups and mailboxes) is a world \<open>'w\<close>
  that the send operations thread; the manager's own \<open>FPost\<close>, \<open>FCall\<close> and \<open>FMulticast\<close> are
  arguments, so that this component is verified against their contract (the locale \<open>mailer\<close>
  below) and \<open>Actor_Manager\<close> supplies them. A queued closure \<open>fn func() error\<close> is the data it
  captures, target and request. A quit hook maps the hooks' own state \<open>'x\<close> to the state after it
  and says whether it panicked. Timer callbacks are code pointers \<open>'k\<close>, or the framework's own
  postpone flush. \<open>runtimeTimers\<close> and \<open>nextTimer\<close> are the \<open>time\<close> package's scheduled timers and
  its next timer object. The loggers of the struct are not modelled.
\<close>

subsection \<open>State\<close>

record timerItem =
  timer :: nat
  tfrom :: From
  tname :: string

datatype 'k callback = UserFn 'k | PostponeFlush

record 'k timerStub =
  stubFn :: "'k callback"
  stubId :: int
  stubT :: nat
  stubDelay :: int

record ('a, 'q) postponeItem =
  pid :: 'a
  preq :: 'q

record ('a, 'q, 'x, 'k) ActorControl =
  selfName :: string
  seqCounter :: int
  cfrom :: From
  active :: bool
  OnQuit :: "('x \<Rightarrow> bool \<times> 'x) option"
  timers :: "(int \<times> timerItem) list"
  timerId :: int
  postpone :: "('a, 'q) postponeItem list"
  postponeSet :: "'a set"
  postponeTimer :: int
  ctxCancelled :: bool
  runtimeTimers :: "'k timerStub list"
  nextTimer :: nat

type_synonym ('a, 'q, 'e, 'w) fpost = "'w \<Rightarrow> From \<Rightarrow> 'a \<Rightarrow> 'q \<Rightarrow> ('a, 'e) goerr option \<times> 'w"
type_synonym ('a, 'q, 'e, 'r, 'w) fcall =
  "'w \<Rightarrow> From \<Rightarrow> 'a \<Rightarrow> 'q \<Rightarrow> ('r option \<times> ('a, 'e) goerr option) \<times> 'w"
type_synonym ('a, 'q, 'e, 'w) fmulticast =
  "'w \<Rightarrow> From \<Rightarrow> 'a list \<Rightarrow> 'q \<Rightarrow> (('a, 'e) goerr + ('a, 'e) IdErr list) \<times> 'w"

text \<open>\<open>newActorContext\<close> builds the control block of a new activation.\<close>

definition newActorControl :: "string \<Rightarrow> ('a, 'q, 'x, 'k) ActorControl" where
  "newActorControl name =
     \<lparr>selfName = name, seqCounter = 0, cfrom = \<lparr>Origin = [], ReqSeq = []\<rparr>, active = False,
      OnQuit = None, timers = [], timerId = 0, postpone = [], postponeSet = {},
      postponeTimer = 0, ctxCancelled = False, runtimeTimers = [], nextTimer = 0\<rparr>"

definition next_from :: "('a, 'q, 'x, 'k) ActorControl \<Rightarrow> From \<times> ('a, 'q, 'x, 'k) ActorControl" where
  "next_from a =
     (let (f, c) = fromSeq (selfName a) (seqCounter a) (cfrom a) in (f, a\<lparr>seqCounter := c\<rparr>))"

definition invokeLogger :: "From \<Rightarrow> ('a, 'q, 'x, 'k) ActorControl \<Rightarrow> ('a, 'q, 'x, 'k) ActorControl" where
  "invokeLogger f a = a\<lparr>cfrom := f\<rparr>"

definition PushOnQuit ::
  "('x \<Rightarrow> bool \<times> 'x) option \<Rightarrow> ('a, 'q, 'x, 'k) ActorControl \<Rightarrow> ('a, 'q, 'x, 'k) ActorControl" where
  "PushOnQuit fn a =
     (case fn of
        None \<Rightarrow> a
      | Some f \<Rightarrow>
          (case OnQuit a of
             None \<Rightarrow> a\<lparr>OnQuit := Some f\<rparr>
           | Some old \<Rightarrow>
               a\<lparr>OnQuit := Some (\<lambda>x. case f x of (panicked, x') \<Rightarrow> if panicked then (True, x') else old x')\<rparr>))"

definition Quit :: "('a, 'q, 'x, 'k) ActorControl \<Rightarrow> ('a, 'q, 'x, 'k) ActorControl" where
  "Quit a = a\<lparr>active := False\<rparr>"

definition Open :: "('a, 'q, 'x, 'k) ActorControl \<Rightarrow> ('a, 'q, 'x, 'k) ActorControl" where
  "Open a = a\<lparr>active := True\<rparr>"

subsection \<open>Timers\<close>

definition postponeFlushInterval :: int where
  "postponeFlushInterval = 100 * 1000000"

definition next_id :: "int \<Rightarrow> int" where
  "next_id i = (if i = MaxInt then 1 else wrap64 (i + 1))"

text \<open>
  The probing loop of \<open>Timer\<close>. Each turn that goes on has met an occupied slot, so \<open>length\<close> of the
  timer table is enough fuel (\<open>probe_total\<close> below); the loop's own exit when it comes back to
  \<open>start\<close> is kept.
\<close>

fun probe :: "nat \<Rightarrow> (int \<times> timerItem) list \<Rightarrow> int \<Rightarrow> int \<Rightarrow> int option" where
  "probe fuel ts start i =
     (if map_of ts i = None then Some i
      else case fuel of
             0 \<Rightarrow> None
           | Suc n \<Rightarrow> if next_id i = start then Some (next_id i) else probe n ts start (next_id i))"

declare probe.simps [simp del]

definition Timer ::
  "string \<Rightarrow> int \<Rightarrow> 'k callback \<Rightarrow> ('a, 'q, 'x, 'k) ActorControl \<Rightarrow> int \<times> ('a, 'q, 'x, 'k) ActorControl" where
  "Timer name d fn a =
     (let i0 = wrap64 (timerId a + 1);
          start = (if i0 = MaxInt then 1 else i0);
          i = (case probe (length (timers a)) (timers a) start start of Some j \<Rightarrow> j | None \<Rightarrow> start);
          a1 = a\<lparr>timerId := i\<rparr>;
          (f, a2) = next_from a1;
          t = nextTimer a2
      in (i, a2\<lparr>timers := AList.update i \<lparr>timer = t, tfrom = f, tname = name\<rparr> (timers a2),
                runtimeTimers := runtimeTimers a2 @ [\<lparr>stubFn = fn, stubId = i, stubT = t, stubDelay = d\<rparr>],
                nextTimer := Suc t\<rparr>))"

text \<open>\<open>time.Timer.Stop\<close>: a timer that has not fired yet will not fire.\<close>

definition time_Stop :: "nat \<Rightarrow> 'k timerStub list \<Rightarrow> 'k timerStub list" where
  "time_Stop t rs = filter (\<lambda>s. stubT s \<noteq> t) rs"

definition StopTimer ::
  "int \<Rightarrow> ('a, 'q, 'x, 'k) ActorControl \<Rightarrow> bool \<times> ('a, 'q, 'x, 'k) ActorControl" where
  "StopTimer i a =
     (case map_of (timers a) i of
        None \<Rightarrow> (False, a)
      | Some it \<Rightarrow>
          (True, a\<lparr>runtimeTimers := time_Stop (timer it) (runtimeTimers a),
                   timers := AList.delete i (timers a)\<rparr>))"

subsection \<open>The postpone queue\<close>

definition stopPostponeFlush :: "('a, 'q, 'x, 'k) ActorControl \<Rightarrow> ('a, 'q, 'x, 'k) ActorControl" where
  "stopPostponeFlush a =
     (if postponeTimer a = 0 then a
      else (snd (StopTimer (postponeTimer a) a))\<lparr>postponeTimer := 0\<rparr>)"

fun retry_items ::
  "('a, 'q, 'e, 'w) fpost \<Rightarrow> ('a, 'q) postponeItem list \<Rightarrow> ('a, 'q, 'x, 'k) ActorControl \<Rightarrow> 'w
    \<Rightarrow> ('a, 'q) postponeItem list \<times> ('a, 'q, 'x, 'k) ActorControl \<times> 'w" where
  "retry_items fp [] a w = ([], a, w)"
| "retry_items fp (it # rest) a w =
     (let (f, a1) = next_from a;
          (err, w1) = fp w f (pid it) (preq it);
          (kept, a2, w2) = retry_items fp rest a1 w1
      in (if is_ActorBusyError err then it # kept else kept, a2, w2))"

definition poseponePost ::
  "('a, 'q, 'e, 'w) fpost \<Rightarrow> ('a, 'q, 'x, 'k) ActorControl \<Rightarrow> 'w \<Rightarrow> ('a, 'q, 'x, 'k) ActorControl \<times> 'w" where
  "poseponePost fp a w =
     (if postpone a = [] then (a, w)
      else let (kept, a1, w1) = retry_items fp (postpone a) (a\<lparr>postpone := []\<rparr>) w;
               a2 = a1\<lparr>postpone := kept, postponeSet := set (map pid kept)\<rparr>
           in (if kept = [] then stopPostponeFlush a2 else a2, w1))"

definition flushPostpone ::
  "('a, 'q, 'e, 'w) fpost \<Rightarrow> ('a, 'q, 'x, 'k) ActorControl \<Rightarrow> 'w \<Rightarrow> ('a, 'q, 'x, 'k) ActorControl \<times> 'w" where
  "flushPostpone fp a w =
     (let a1 = stopPostponeFlush a
      in if postpone a1 = [] then (a1, w)
         else let (a2, w1) = poseponePost fp a1 w
              in (a2\<lparr>postpone := [], postponeSet := {}\<rparr>, w1))"

text \<open>\<open>clear\<close>: the last flush, every timer stopped, the context cancelled.\<close>

definition clear ::
  "('a, 'q, 'e, 'w) fpost \<Rightarrow> ('a, 'q, 'x, 'k) ActorControl \<Rightarrow> 'w \<Rightarrow> ('a, 'q, 'x, 'k) ActorControl \<times> 'w" where
  "clear fp a w =
     (let (a1, w1) = flushPostpone fp a w;
          rs = filter (\<lambda>s. stubT s \<notin> set (map (timer \<circ> snd) (timers a1))) (runtimeTimers a1)
      in (a1\<lparr>runtimeTimers := rs, timers := [], ctxCancelled := True\<rparr>, w1))"

definition armPostponeFlush :: "('a, 'q, 'x, 'k) ActorControl \<Rightarrow> ('a, 'q, 'x, 'k) ActorControl" where
  "armPostponeFlush a =
     (if postponeTimer a \<noteq> 0 \<or> postpone a = [] then a
      else let (i, a1) = Timer ''PostponeFlush'' postponeFlushInterval PostponeFlush a
           in a1\<lparr>postponeTimer := i\<rparr>)"

text \<open>The callback \<open>armPostponeFlush\<close> installs.\<close>

definition postponeFlushFired ::
  "('a, 'q, 'e, 'w) fpost \<Rightarrow> ('a, 'q, 'x, 'k) ActorControl \<Rightarrow> 'w \<Rightarrow> ('a, 'q, 'x, 'k) ActorControl \<times> 'w" where
  "postponeFlushFired fp a w =
     (let (a1, w1) = poseponePost fp (a\<lparr>postponeTimer := 0\<rparr>) w in (armPostponeFlush a1, w1))"

definition appendPostpone ::
  "'a \<Rightarrow> 'q \<Rightarrow> ('a, 'q, 'x, 'k) ActorControl \<Rightarrow> ('a, 'q, 'x, 'k) ActorControl" where
  "appendPostpone i q a =
     armPostponeFlush (a\<lparr>postpone := postpone a @ [\<lparr>pid = i, preq = q\<rparr>],
                         postponeSet := insert i (postponeSet a)\<rparr>)"

definition hasPostpone :: "('a, 'q, 'x, 'k) ActorControl \<Rightarrow> 'a \<Rightarrow> bool" where
  "hasPostpone a i \<longleftrightarrow> i \<in> postponeSet a"

subsection \<open>Sending\<close>

definition APostOnce ::
  "('a, 'q, 'e, 'w) fpost \<Rightarrow> 'a \<Rightarrow> 'q \<Rightarrow> ('a, 'q, 'x, 'k) ActorControl \<Rightarrow> 'w
    \<Rightarrow> ('a, 'e) goerr option \<times> ('a, 'q, 'x, 'k) ActorControl \<times> 'w" where
  "APostOnce fp i q a w =
     (let (a1, w1) = poseponePost fp a w
      in if hasPostpone a1 i then (Some (ActorPostponeError i), a1, w1)
         else let (f, a2) = next_from a1; (err, w2) = fp w1 f i q in (err, a2, w2))"

definition APost ::
  "('a, 'q, 'e, 'w) fpost \<Rightarrow> 'a \<Rightarrow> 'q \<Rightarrow> ('a, 'q, 'x, 'k) ActorControl \<Rightarrow> 'w
    \<Rightarrow> ('a, 'e) goerr option \<times> ('a, 'q, 'x, 'k) ActorControl \<times> 'w" where
  "APost fp i q a w =
     (let (a1, w1) = poseponePost fp a w
      in if hasPostpone a1 i then (Some (ActorPostponeError i), appendPostpone i q a1, w1)
         else let (f, a2) = next_from a1; (err, w2) = fp w1 f i q
              in if is_ActorBusyError err then (err, appendPostpone i q a2, w2) else (err, a2, w2))"

text \<open>
  \<open>ACall\<close>: up to three attempts, with a pause of \<open>i * i * 20\<close> milliseconds before attempt \<open>i > 0\<close>.
  What the rest of the system does during the pause is the argument \<open>sleep\<close>.
\<close>

fun ACall_loop ::
  "('a, 'q, 'e, 'w) fpost \<Rightarrow> ('a, 'q, 'e, 'r, 'w) fcall \<Rightarrow> (nat \<Rightarrow> 'w \<Rightarrow> 'w) \<Rightarrow> 'a \<Rightarrow> 'q
    \<Rightarrow> nat \<Rightarrow> nat \<Rightarrow> 'r option \<Rightarrow> ('a, 'e) goerr option \<Rightarrow> ('a, 'q, 'x, 'k) ActorControl \<Rightarrow> 'w
    \<Rightarrow> ('r option \<times> ('a, 'e) goerr option) \<times> ('a, 'q, 'x, 'k) ActorControl \<times> 'w" where
  "ACall_loop fp fc sleep i q 0 n rep err a w = ((rep, err), a, w)"
| "ACall_loop fp fc sleep i q (Suc left) n rep err a w =
     (let w0 = (if n > 0 then sleep (n * n * 20) w else w);
          (a1, w1) = poseponePost fp a w0
      in if hasPostpone a1 i
         then ACall_loop fp fc sleep i q left (Suc n) rep (Some (ActorPostponeError i)) a1 w1
         else let (f, a2) = next_from a1; ((rep', err'), w2) = fc w1 f i q
              in if is_ActorBusyError err'
                 then ACall_loop fp fc sleep i q left (Suc n) rep' err' a2 w2
                 else ((rep', err'), a2, w2))"

definition ACall ::
  "('a, 'q, 'e, 'w) fpost \<Rightarrow> ('a, 'q, 'e, 'r, 'w) fcall \<Rightarrow> (nat \<Rightarrow> 'w \<Rightarrow> 'w) \<Rightarrow> 'a \<Rightarrow> 'q
    \<Rightarrow> ('a, 'q, 'x, 'k) ActorControl \<Rightarrow> 'w
    \<Rightarrow> ('r option \<times> ('a, 'e) goerr option) \<times> ('a, 'q, 'x, 'k) ActorControl \<times> 'w" where
  "ACall fp fc sleep i q a w = ACall_loop fp fc sleep i q 3 0 None None a w"

definition splitPostpone :: "('a, 'q, 'x, 'k) ActorControl \<Rightarrow> 'a list \<Rightarrow> 'a list \<times> 'a list" where
  "splitPostpone a ids = (filter (hasPostpone a) ids, filter (\<lambda>i. \<not> hasPostpone a i) ids)"

definition splitIdErr :: "('a, 'e) IdErr list \<Rightarrow> 'a list \<times> ('a, 'e) IdErr list" where
  "splitIdErr xs =
     (map ieId (filter (\<lambda>x. is_ActorBusyError (ieErr x)) xs),
      filter (\<lambda>x. \<not> is_ActorBusyError (ieErr x)) xs)"

definition AMulticastOnce ::
  "('a, 'q, 'e, 'w) fpost \<Rightarrow> ('a, 'q, 'e, 'w) fmulticast \<Rightarrow> 'a list \<Rightarrow> 'q
    \<Rightarrow> ('a, 'q, 'x, 'k) ActorControl \<Rightarrow> 'w
    \<Rightarrow> (('a, 'e) goerr + ('a, 'e) IdErr list) \<times> ('a, 'q, 'x, 'k) ActorControl \<times> 'w" where
  "AMulticastOnce fp fm ids q a w =
     (let (a1, w1) = poseponePost fp a w;
          (p, np) = splitPostpone a1 ids;
          (f, a2) = next_from a1;
          (res, w2) = fm w1 f np q
      in case res of
           Inl e \<Rightarrow> (Inl e, a2, w2)
         | Inr l \<Rightarrow> (Inr (l @ map (\<lambda>i. \<lparr>ieId = i, ieErr = Some (ActorPostponeError i)\<rparr>) p), a2, w2))"

definition AMulticast ::
  "('a, 'q, 'e, 'w) fpost \<Rightarrow> ('a, 'q, 'e, 'w) fmulticast \<Rightarrow> 'a list \<Rightarrow> 'q
    \<Rightarrow> ('a, 'q, 'x, 'k) ActorControl \<Rightarrow> 'w
    \<Rightarrow> (('a, 'e) goerr + ('a, 'e) IdErr list) \<times> ('a, 'q, 'x, 'k) ActorControl \<times> 'w" where
  "AMulticast fp fm ids q a w =
     (let (a1, w1) = poseponePost fp a w;
          (p, np) = splitPostpone a1 ids;
          (f, a2) = next_from a1;
          (res, w2) = fm w1 f np q
      in case res of
           Inl e \<Rightarrow> (Inl e, a2, w2)
         | Inr l \<Rightarrow>
             let (b, nb) = splitIdErr l;
                 a3 = fold (\<lambda>i. appendPostpone i q) b a2;
                 a4 = fold (\<lambda>i. appendPostpone i q) p a3
             in (Inr (nb @ map (\<lambda>i. \<lparr>ieId = i, ieErr = Some (ActorBusyError i)\<rparr>) b
                         @ map (\<lambda>i. \<lparr>ieId = i, ieErr = Some (ActorPostponeError i)\<rparr>) p), a4, w2))"

text \<open>The \<open>Keys\<close> variants take the keys of a Go map, in the order the iteration yields them.\<close>

definition AMulticastOnceKeys ::
  "('a, 'q, 'e, 'w) fpost \<Rightarrow> ('a, 'q, 'e, 'w) fmulticast \<Rightarrow> ('a \<times> 'v) list \<Rightarrow> 'q
    \<Rightarrow> ('a, 'q, 'x, 'k) ActorControl \<Rightarrow> 'w
    \<Rightarrow> (('a, 'e) goerr + ('a, 'e) IdErr list) \<times> ('a, 'q, 'x, 'k) ActorControl \<times> 'w" where
  "AMulticastOnceKeys fp fm m q a w = AMulticastOnce fp fm (map fst m) q a w"

definition AMulticastKeys ::
  "('a, 'q, 'e, 'w) fpost \<Rightarrow> ('a, 'q, 'e, 'w) fmulticast \<Rightarrow> ('a \<times> 'v) list \<Rightarrow> 'q
    \<Rightarrow> ('a, 'q, 'x, 'k) ActorControl \<Rightarrow> 'w
    \<Rightarrow> (('a, 'e) goerr + ('a, 'e) IdErr list) \<times> ('a, 'q, 'x, 'k) ActorControl \<times> 'w" where
  "AMulticastKeys fp fm m q a w = AMulticast fp fm (map fst m) q a w"

text \<open>\<open>ABroadcast\<close> leaves the postpone queue alone.\<close>

definition ABroadcast ::
  "('w \<Rightarrow> From \<Rightarrow> 'q \<Rightarrow> (('a, 'e) goerr + int) \<times> 'w) \<Rightarrow> 'q \<Rightarrow> ('a, 'q, 'x, 'k) ActorControl \<Rightarrow> 'w
    \<Rightarrow> (('a, 'e) goerr + int) \<times> ('a, 'q, 'x, 'k) ActorControl \<times> 'w" where
  "ABroadcast fb q a w = (let (f, a1) = next_from a; (res, w1) = fb w f q in (res, a1, w1))"

lemmas [ctl_defs] =
  Quit_def Open_def StopTimer_def stopPostponeFlush_def poseponePost_def flushPostpone_def
  armPostponeFlush_def postponeFlushFired_def appendPostpone_def hasPostpone_def
  APostOnce_def APost_def splitPostpone_def splitIdErr_def AMulticastOnce_def AMulticast_def

subsection \<open>Timer identifiers\<close>

lemma MaxInt_pos: "0 < MaxInt"
  by (simp add: MaxInt_def)

lemma next_id_mod: "1 \<le> i \<Longrightarrow> i \<le> MaxInt \<Longrightarrow> next_id i = i mod MaxInt + 1"
  by (auto simp: next_id_def wrap64_id MinInt_def MaxInt_def)

lemma next_id_range: "1 \<le> i \<Longrightarrow> i \<le> MaxInt \<Longrightarrow> 1 \<le> next_id i \<and> next_id i \<le> MaxInt"
  by (auto simp: next_id_def wrap64_id MinInt_def MaxInt_def)

lemma next_id_pow:
  assumes "1 \<le> i" "i \<le> MaxInt"
  shows "(next_id ^^ k) i = (i - 1 + int k) mod MaxInt + 1"
proof (induction k)
  case 0
  from assms show ?case by (simp add: mod_pos_pos_trivial)
next
  case (Suc k)
  have M: "0 < MaxInt" by (simp add: MaxInt_def)
  let ?j = "(i - 1 + int k) mod MaxInt"
  have j: "0 \<le> ?j" "?j < MaxInt" using M by simp_all
  have "(next_id ^^ Suc k) i = next_id (?j + 1)" using Suc by simp
  also have "\<dots> = (?j + 1) mod MaxInt + 1" using j by (intro next_id_mod) auto
  also have "\<dots> = (i - 1 + int (Suc k)) mod MaxInt + 1"
    by (simp add: mod_add_left_eq algebra_simps mod_add_right_eq)
  finally show ?case .
qed

lemma next_id_pow_inj:
  assumes "1 \<le> i" "i \<le> MaxInt" "int n \<le> MaxInt"
  shows "inj_on (\<lambda>k. (next_id ^^ k) i) {..<n}"
proof (rule inj_onI)
  fix x y assume xy: "x \<in> {..<n}" "y \<in> {..<n}" and eq: "(next_id ^^ x) i = (next_id ^^ y) i"
  from eq have "(i - 1 + int x) mod MaxInt = (i - 1 + int y) mod MaxInt"
    by (simp add: next_id_pow assms(1,2))
  then have "MaxInt dvd (i - 1 + int x) - (i - 1 + int y)"
    by (rule mod_eq_dvd_iff [THEN iffD1])
  then have "MaxInt dvd int x - int y" by (simp add: algebra_simps)
  moreover have "\<bar>int x - int y\<bar> < MaxInt" using xy assms(3) by auto
  ultimately have "int x - int y = 0" by (metis dvd_imp_le_int linorder_not_less abs_of_pos MaxInt_pos)
  then show "x = y" by simp
qed

text \<open>A probe that fails, or comes back to its start, has met that many occupied slots.\<close>

lemma probe_occupied:
  assumes "probe n ts start i = None \<or> (\<exists>j. probe n ts start i = Some j \<and> map_of ts j \<noteq> None)"
  shows "(\<forall>k\<le>n. map_of ts ((next_id ^^ k) i) \<noteq> None) \<or>
         (\<exists>m\<le>n. 0 < m \<and> (next_id ^^ m) i = start \<and> (\<forall>k<m. map_of ts ((next_id ^^ k) i) \<noteq> None))"
  using assms
proof (induction n arbitrary: i)
  case 0
  then show ?case by (subst (asm) (1 2) probe.simps) (auto split: if_splits)
next
  case (Suc n)
  from Suc.prems have occ: "map_of ts i \<noteq> None"
    by (subst (asm) (1 2) probe.simps) (auto split: if_splits)
  show ?case
  proof (cases "next_id i = start")
    case True
    with occ show ?thesis by (intro disjI2 exI [of _ 1]) auto
  next
    case False
    with occ have eq: "probe (Suc n) ts start i = probe n ts start (next_id i)"
      by (subst probe.simps) auto
    have shift: "(next_id ^^ k) (next_id i) = (next_id ^^ Suc k) i" for k
      by (simp add: funpow_swap1)
    have "(\<forall>k\<le>n. map_of ts ((next_id ^^ Suc k) i) \<noteq> None) \<or>
        (\<exists>m\<le>n. 0 < m \<and> (next_id ^^ Suc m) i = start \<and>
           (\<forall>k<m. map_of ts ((next_id ^^ Suc k) i) \<noteq> None))"
      using Suc.IH [of "next_id i"] Suc.prems eq unfolding shift by simp
    then show ?thesis
    proof (elim disjE exE conjE)
      assume all: "\<forall>k\<le>n. map_of ts ((next_id ^^ Suc k) i) \<noteq> None"
      have "map_of ts ((next_id ^^ k) i) \<noteq> None" if "k \<le> Suc n" for k
        using that all occ by (cases k) auto
      then show ?thesis by blast
    next
      fix m assume m: "m \<le> n" "(next_id ^^ Suc m) i = start"
        "\<forall>k<m. map_of ts ((next_id ^^ Suc k) i) \<noteq> None"
      have "map_of ts ((next_id ^^ k) i) \<noteq> None" if "k < Suc m" for k
        using that m(3) occ by (cases k) auto
      with m(1,2) show ?thesis by (intro disjI2 exI [of _ "Suc m"]) auto
    qed
  qed
qed

lemma occupied_bound:
  assumes "1 \<le> i" "i \<le> MaxInt" "int n \<le> MaxInt" "\<forall>k<n. map_of ts ((next_id ^^ k) i) \<noteq> None"
  shows "n \<le> length ts"
proof -
  have sub: "(\<lambda>k. (next_id ^^ k) i) ` {..<n} \<subseteq> fst ` set ts"
    using assms(4) by (auto simp: map_of_eq_None_iff)
  have "n = card ((\<lambda>k. (next_id ^^ k) i) ` {..<n})"
    using card_image [OF next_id_pow_inj [OF assms(1-3)]] by simp
  also have "\<dots> \<le> card (fst ` set ts)" by (rule card_mono [OF _ sub]) simp
  also have "\<dots> \<le> length ts" by (metis card_length length_map list.set_map)
  finally show ?thesis .
qed

lemma probe_total:
  assumes i: "1 \<le> i" "i \<le> MaxInt" and len: "int (length ts) < MaxInt"
  shows "\<exists>j. probe (length ts) ts i i = Some j \<and> map_of ts j = None"
proof (rule ccontr)
  assume "\<not> ?thesis"
  then have "probe (length ts) ts i i = None \<or>
      (\<exists>j. probe (length ts) ts i i = Some j \<and> map_of ts j \<noteq> None)"
    by (cases "probe (length ts) ts i i") auto
  from probe_occupied [OF this] show False
  proof
    assume "\<forall>k\<le>length ts. map_of ts ((next_id ^^ k) i) \<noteq> None"
    then have "Suc (length ts) \<le> length ts"
      using len by (intro occupied_bound [OF i]) auto
    then show False by simp
  next
    assume "\<exists>m\<le>length ts. 0 < m \<and> (next_id ^^ m) i = i \<and> (\<forall>k<m. map_of ts ((next_id ^^ k) i) \<noteq> None)"
    then obtain m where m: "m \<le> length ts" "0 < m" "(next_id ^^ m) i = i" by blast
    have eq: "(next_id ^^ 0) i = (next_id ^^ m) i" using m(3) by simp
    have "inj_on (\<lambda>k. (next_id ^^ k) i) {..<Suc m}"
      using m(1) len by (intro next_id_pow_inj [OF i]) linarith
    from inj_onD [OF this eq] have "0 = m" by simp
    with m(2) show False by simp
  qed
qed

lemma probe_range:
  "probe n ts start i = Some j \<Longrightarrow> 1 \<le> i \<Longrightarrow> i \<le> MaxInt \<Longrightarrow> 1 \<le> j \<and> j \<le> MaxInt"
proof (induction n arbitrary: i)
  case 0
  then show ?case by (subst (asm) probe.simps) (auto split: if_splits)
next
  case (Suc n)
  then show ?case using next_id_range [of i]
    by (subst (asm) probe.simps) (auto split: if_splits)
qed

definition timer_start :: "('a, 'q, 'x, 'k) ActorControl \<Rightarrow> int" where
  "timer_start a = (let i0 = wrap64 (timerId a + 1) in if i0 = MaxInt then 1 else i0)"

lemma timer_start_range:
  "0 \<le> timerId a \<Longrightarrow> timerId a < MaxInt \<Longrightarrow> 1 \<le> timer_start a \<and> timer_start a \<le> MaxInt"
  by (auto simp: timer_start_def Let_def wrap64_id MinInt_def MaxInt_def)

lemma Timer_eq:
  "Timer n d fn a =
     (let i = (case probe (length (timers a)) (timers a) (timer_start a) (timer_start a)
               of Some j \<Rightarrow> j | None \<Rightarrow> timer_start a);
          a2 = snd (next_from (a\<lparr>timerId := i\<rparr>))
      in (i, a2\<lparr>timers := AList.update i \<lparr>timer = nextTimer a, tfrom = fst (next_from (a\<lparr>timerId := i\<rparr>)), tname = n\<rparr> (timers a),
                runtimeTimers := runtimeTimers a @ [\<lparr>stubFn = fn, stubId = i, stubT = nextTimer a, stubDelay = d\<rparr>],
                nextTimer := Suc (nextTimer a)\<rparr>))"
  unfolding Timer_def timer_start_def next_from_def Let_def by (simp split: prod.split)

lemma next_from_frame: "\<exists>c. snd (next_from a) = a\<lparr>seqCounter := c\<rparr>"
  by (auto simp: next_from_def split: prod.split)

lemma next_from_sel [simp]:
  "active (snd (next_from a)) = active a" "OnQuit (snd (next_from a)) = OnQuit a"
  "timers (snd (next_from a)) = timers a" "timerId (snd (next_from a)) = timerId a"
  "postpone (snd (next_from a)) = postpone a" "postponeSet (snd (next_from a)) = postponeSet a"
  "postponeTimer (snd (next_from a)) = postponeTimer a"
  "runtimeTimers (snd (next_from a)) = runtimeTimers a" "nextTimer (snd (next_from a)) = nextTimer a"
  by (auto simp: next_from_def split: prod.split)

subsection \<open>The invariant of the control block\<close>

text \<open>
  The set of postponed targets is the set of targets in the queue, a non-empty queue has its
  flush timer armed, and every timer identifier was handed out by \<open>Timer\<close>.
\<close>

definition ctl_inv :: "('a, 'q, 'x, 'k) ActorControl \<Rightarrow> bool" where
  "ctl_inv a \<longleftrightarrow>
     postponeSet a = pid ` set (postpone a) \<and>
     (postpone a \<noteq> [] \<longrightarrow> postponeTimer a \<noteq> 0) \<and>
     (postponeTimer a \<noteq> 0 \<longrightarrow> map_of (timers a) (postponeTimer a) \<noteq> None) \<and>
     0 \<le> timerId a \<and> (\<forall>i. map_of (timers a) i \<noteq> None \<longrightarrow> 1 \<le> i \<and> i \<le> timerId a)"

lemma ctl_inv_new: "ctl_inv (newActorControl n)"
  by (simp add: ctl_inv_def newActorControl_def)

lemma ctl_inv_cong:
  assumes "postpone a' = postpone a" "postponeSet a' = postponeSet a"
    "postponeTimer a' = postponeTimer a" "timers a' = timers a" "timerId a' = timerId a"
  shows "ctl_inv a' = ctl_inv a"
  by (simp add: ctl_inv_def assms)

lemma ctl_inv_frame [simp]:
  "ctl_inv (snd (next_from a)) = ctl_inv a" "ctl_inv (Open a) = ctl_inv a"
  "ctl_inv (Quit a) = ctl_inv a" "ctl_inv (invokeLogger f a) = ctl_inv a"
  "ctl_inv (PushOnQuit h a) = ctl_inv a"
  by (rule ctl_inv_cong;
      simp add: Open_def Quit_def invokeLogger_def PushOnQuit_def split: option.splits)+

text \<open>While the counter has not wrapped, the next identifier is simply the successor.\<close>

lemma Timer_inv_eq:
  assumes inv: "0 \<le> timerId a" "\<forall>i. map_of (timers a) i \<noteq> None \<longrightarrow> 1 \<le> i \<and> i \<le> timerId a"
    and room: "timerId a + 1 < MaxInt"
  shows "fst (Timer n d fn a) = timerId a + 1"
    "timerId (snd (Timer n d fn a)) = timerId a + 1"
    "map_of (timers (snd (Timer n d fn a))) j =
       (if j = timerId a + 1
        then Some \<lparr>timer = nextTimer a, tfrom = fst (next_from (a\<lparr>timerId := timerId a + 1\<rparr>)), tname = n\<rparr>
        else map_of (timers a) j)"
    "postpone (snd (Timer n d fn a)) = postpone a"
    "postponeSet (snd (Timer n d fn a)) = postponeSet a"
    "postponeTimer (snd (Timer n d fn a)) = postponeTimer a"
proof -
  have st: "timer_start a = timerId a + 1"
    using inv(1) room by (simp add: timer_start_def Let_def wrap64_id MinInt_def)
  have free: "map_of (timers a) (timerId a + 1) = None"
    using inv(2) by (cases "map_of (timers a) (timerId a + 1)") force+
  have pr: "probe (length (timers a)) (timers a) (timerId a + 1) (timerId a + 1) = Some (timerId a + 1)"
    using free by (subst probe.simps) simp
  show "fst (Timer n d fn a) = timerId a + 1"
    "timerId (snd (Timer n d fn a)) = timerId a + 1"
    "map_of (timers (snd (Timer n d fn a))) j =
       (if j = timerId a + 1
        then Some \<lparr>timer = nextTimer a, tfrom = fst (next_from (a\<lparr>timerId := timerId a + 1\<rparr>)), tname = n\<rparr>
        else map_of (timers a) j)"
    "postpone (snd (Timer n d fn a)) = postpone a"
    "postponeSet (snd (Timer n d fn a)) = postponeSet a"
    "postponeTimer (snd (Timer n d fn a)) = postponeTimer a"
    by (simp_all add: Timer_eq st pr Let_def alist_lookup)
qed

lemma ctl_inv_Timer:
  assumes "ctl_inv a" "timerId a + 1 < MaxInt"
  shows "ctl_inv (snd (Timer n d fn a))"
proof -
  have inv: "0 \<le> timerId a" "\<forall>i. map_of (timers a) i \<noteq> None \<longrightarrow> 1 \<le> i \<and> i \<le> timerId a"
    using assms(1) by (simp_all add: ctl_inv_def)
  note T = Timer_inv_eq [OF inv assms(2)]
  show ?thesis using assms(1) unfolding ctl_inv_def T by force
qed

lemma ctl_inv_armPostponeFlush:
  assumes "postponeSet a = pid ` set (postpone a)"
    and "postponeTimer a \<noteq> 0 \<longrightarrow> map_of (timers a) (postponeTimer a) \<noteq> None"
    and inv: "0 \<le> timerId a" "\<forall>i. map_of (timers a) i \<noteq> None \<longrightarrow> 1 \<le> i \<and> i \<le> timerId a"
    and room: "timerId a + 1 < MaxInt"
  shows "ctl_inv (armPostponeFlush a)"
proof (cases "postponeTimer a \<noteq> 0 \<or> postpone a = []")
  case True
  with assms show ?thesis by (auto simp: armPostponeFlush_def ctl_inv_def)
next
  case False
  note T = Timer_inv_eq [OF inv room]
  have eq: "armPostponeFlush a =
      (snd (Timer ''PostponeFlush'' postponeFlushInterval PostponeFlush a))\<lparr>postponeTimer := timerId a + 1\<rparr>"
    using False T(1) by (simp add: armPostponeFlush_def split: prod.split)
      (metis fst_conv snd_conv)
  show ?thesis unfolding eq ctl_inv_def using assms(1) inv by (force simp: T)
qed

lemma armPostponeFlush_queue [simp]:
  "postpone (armPostponeFlush a) = postpone a" "postponeSet (armPostponeFlush a) = postponeSet a"
  by (simp_all add: armPostponeFlush_def Timer_def next_from_def Let_def split: prod.split)

lemma appendPostpone_queue [simp]:
  "postpone (appendPostpone i q a) = postpone a @ [\<lparr>pid = i, preq = q\<rparr>]"
  "postponeSet (appendPostpone i q a) = insert i (postponeSet a)"
  by (simp_all add: appendPostpone_def)

lemma ctl_inv_appendPostpone:
  assumes "ctl_inv a" "timerId a + 1 < MaxInt"
  shows "ctl_inv (appendPostpone i q a)"
  unfolding appendPostpone_def
  using assms by (intro ctl_inv_armPostponeFlush) (auto simp: ctl_inv_def)

lemma stopPostponeFlush_sel [simp]:
  "postpone (stopPostponeFlush a) = postpone a" "postponeSet (stopPostponeFlush a) = postponeSet a"
  "postponeTimer (stopPostponeFlush a) = 0" "timerId (stopPostponeFlush a) = timerId a"
  "active (stopPostponeFlush a) = active a" "OnQuit (stopPostponeFlush a) = OnQuit a"
  by (auto simp: stopPostponeFlush_def StopTimer_def split: option.splits)

lemma stopPostponeFlush_timers:
  "map_of (timers (stopPostponeFlush a)) i =
     (if postponeTimer a \<noteq> 0 \<and> i = postponeTimer a then None else map_of (timers a) i)"
  by (auto simp: stopPostponeFlush_def StopTimer_def alist_lookup split: option.splits)

lemma ctl_inv_stopPostponeFlush:
  "ctl_inv a \<Longrightarrow> postpone a = [] \<Longrightarrow> ctl_inv (stopPostponeFlush a)"
  by (auto simp: ctl_inv_def stopPostponeFlush_timers split: if_splits)

lemma retry_items_frame:
  "retry_items fp xs a w = (kept, a', w') \<Longrightarrow>
     (\<exists>c. a' = a\<lparr>seqCounter := c\<rparr>) \<and> set kept \<subseteq> set xs"
proof (induction xs arbitrary: a w kept a' w')
  case Nil
  then show ?case by (auto intro: exI [of _ "seqCounter a"])
next
  case (Cons it xs)
  obtain f a1 where nf: "next_from a = (f, a1)" by fastforce
  then obtain c1 where a1: "a1 = a\<lparr>seqCounter := c1\<rparr>" using next_from_frame [of a] by auto
  obtain err w1 where f1: "fp w f (pid it) (preq it) = (err, w1)" by fastforce
  obtain k2 a2 w2 where r: "retry_items fp xs a1 w1 = (k2, a2, w2)" by (metis prod_cases3)
  from Cons.prems have "kept = (if is_ActorBusyError err then it # k2 else k2)" "a' = a2"
    by (simp_all add: nf f1 r)
  with Cons.IH [OF r] show ?case by (auto simp: a1)
qed

lemma poseponePost_cases:
  obtains (idle) "postpone a = []" "poseponePost fp a w = (a, w)"
  | (flushed) kept c w1 where "postpone a \<noteq> []" "set kept \<subseteq> set (postpone a)"
      "retry_items fp (postpone a) (a\<lparr>postpone := []\<rparr>) w = (kept, a\<lparr>postpone := [], seqCounter := c\<rparr>, w1)"
      "poseponePost fp a w =
         (let a2 = a\<lparr>seqCounter := c, postpone := kept, postponeSet := pid ` set kept\<rparr>
          in if kept = [] then stopPostponeFlush a2 else a2, w1)"
proof (cases "postpone a = []")
  case True
  then show ?thesis using idle by (simp add: poseponePost_def)
next
  case False
  obtain kept a1 w1 where r: "retry_items fp (postpone a) (a\<lparr>postpone := []\<rparr>) w = (kept, a1, w1)"
    by (metis prod_cases3)
  from retry_items_frame [OF r] obtain c where
    "a1 = a\<lparr>postpone := [], seqCounter := c\<rparr>" "set kept \<subseteq> set (postpone a)" by auto
  with False r show ?thesis
    by (intro flushed [of kept c w1]) (auto simp: poseponePost_def Let_def)
qed

lemma ctl_inv_poseponePost:
  assumes "ctl_inv a"
  shows "ctl_inv (fst (poseponePost fp a w))" "timerId (fst (poseponePost fp a w)) = timerId a"
proof -
  show "ctl_inv (fst (poseponePost fp a w))"
  proof (cases rule: poseponePost_cases [of a fp w])
    case idle
    with assms show ?thesis by simp
  next
    case (flushed kept c w1)
    let ?a2 = "a\<lparr>seqCounter := c, postpone := kept, postponeSet := pid ` set kept\<rparr>"
    have "ctl_inv ?a2" using assms flushed(1) by (auto simp: ctl_inv_def)
    then show ?thesis using flushed(4) by (auto simp: Let_def intro: ctl_inv_stopPostponeFlush)
  qed
  show "timerId (fst (poseponePost fp a w)) = timerId a"
    by (cases rule: poseponePost_cases [of a fp w]) (auto simp: Let_def)
qed


lemma ctl_inv_APost:
  assumes "ctl_inv a" "timerId a + 1 < MaxInt"
  shows "ctl_inv (fst (snd (APost fp i q a w)))"
proof -
  obtain a1 w1 where p: "poseponePost fp a w = (a1, w1)" by fastforce
  from ctl_inv_poseponePost [OF assms(1), of fp w] have a1: "ctl_inv a1" "timerId a1 = timerId a"
    by (simp_all add: p)
  obtain f a2 where nf: "next_from a1 = (f, a2)" by fastforce
  have a2: "ctl_inv a2" "timerId a2 = timerId a"
    using a1 next_from_sel [of a1] ctl_inv_frame(1) [of a1] by (simp_all add: nf)
  show ?thesis using a1 a2 assms(2)
    by (auto simp: APost_def p nf split: prod.splits intro!: ctl_inv_appendPostpone)
qed

lemma clear_spec:
  "postpone (fst (clear fp a w)) = []" "timers (fst (clear fp a w)) = []"
  "postponeTimer (fst (clear fp a w)) = 0" "ctxCancelled (fst (clear fp a w))"
  "OnQuit (fst (clear fp a w)) = OnQuit a"
proof -
  have "postponeTimer (fst (poseponePost fp b w)) = 0 \<and> OnQuit (fst (poseponePost fp b w)) = OnQuit b"
    if "postponeTimer b = 0" for b
    using that by (cases rule: poseponePost_cases [of b fp w]) (auto simp: Let_def)
  note pp = this [of "stopPostponeFlush a"]
  show "postpone (fst (clear fp a w)) = []" "timers (fst (clear fp a w)) = []"
    "postponeTimer (fst (clear fp a w)) = 0" "ctxCancelled (fst (clear fp a w))"
    "OnQuit (fst (clear fp a w)) = OnQuit a"
    using pp by (auto simp: clear_def flushPostpone_def Let_def split: prod.splits)
qed

subsection \<open>The contract of the manager's send operation\<close>

text \<open>
  What \<open>APost\<close> relies on: \<open>FPost\<close> returns \<open>nil\<close> exactly when the target accepted the request; an
  error leaves every target's accepted requests as they were; and while this goroutine keeps
  sending and nobody takes messages out, a full mailbox stays full.
\<close>

definition reqs_for :: "'a \<Rightarrow> ('a, 'q) postponeItem list \<Rightarrow> 'q list" where
  "reqs_for i xs = map preq (filter (\<lambda>x. pid x = i) xs)"

lemma reqs_for_simps [simp]:
  "reqs_for i [] = []"
  "reqs_for i (x # xs) = (if pid x = i then preq x # reqs_for i xs else reqs_for i xs)"
  "reqs_for i (xs @ ys) = reqs_for i xs @ reqs_for i ys"
  by (simp_all add: reqs_for_def)

lemma reqs_for_empty: "i \<notin> pid ` set xs \<Longrightarrow> reqs_for i xs = []"
  by (induction xs) auto

text \<open>The abstract outbox towards a target: what it has accepted, then what is still queued.\<close>

definition outbox :: "('w \<Rightarrow> 'a \<Rightarrow> 'q list) \<Rightarrow> 'w \<Rightarrow> ('a, 'q, 'x, 'k) ActorControl \<Rightarrow> 'a \<Rightarrow> 'q list" where
  "outbox accepted w a i = accepted w i @ reqs_for i (postpone a)"

locale mailer =
  fixes fp :: "('a, 'q, 'e, 'w) fpost"
    and wf :: "'w \<Rightarrow> bool"
    and accepted :: "'w \<Rightarrow> 'a \<Rightarrow> 'q list"
    and full :: "'w \<Rightarrow> 'a \<Rightarrow> bool"
    and routable :: "'w \<Rightarrow> 'a \<Rightarrow> 'q \<Rightarrow> bool"
  assumes wf_post: "wf w \<Longrightarrow> wf (snd (fp w f i q))"
    and post_ok: "wf w \<Longrightarrow> fp w f i q = (None, w') \<Longrightarrow> accepted w' = (accepted w)(i := accepted w i @ [q])"
    and post_err: "wf w \<Longrightarrow> fp w f i q = (Some e, w') \<Longrightarrow> accepted w' = accepted w"
    and busy_full: "wf w \<Longrightarrow> fp w f i q = (Some (ActorBusyError j), w') \<Longrightarrow> full w' i"
    and full_busy: "wf w \<Longrightarrow> full w i \<Longrightarrow> fst (fp w f i q) \<noteq> None"
    and full_stays: "wf w \<Longrightarrow> full w i \<Longrightarrow> full (snd (fp w f j q)) i"
    and routable_result:
      "wf w \<Longrightarrow> routable w i q \<Longrightarrow> fst (fp w f i q) = None \<or> is_ActorBusyError (fst (fp w f i q))"
    and routable_stays: "wf w \<Longrightarrow> routable w i q \<Longrightarrow> routable (snd (fp w f j r)) i q"
begin

lemma post_other: "wf w \<Longrightarrow> j \<noteq> i \<Longrightarrow> accepted (snd (fp w f j q)) i = accepted w i"
  by (cases "fp w f j q"; cases "fst (fp w f j q)") (auto dest: post_ok post_err)

text \<open>One retry, with the facts every induction over the queue needs.\<close>

lemma retry_step:
  assumes "retry_items fp (it # xs) a w = (kept, a', w')" "wf w"
  obtains f a1 err w1 k2 where "fp w f (pid it) (preq it) = (err, w1)" "wf w1"
    "retry_items fp xs a1 w1 = (k2, a', w')" "kept = (if is_ActorBusyError err then it # k2 else k2)"
    "\<And>i q. routable w i q \<Longrightarrow> routable w1 i q" "\<And>i. full w i \<Longrightarrow> full w1 i"
proof -
  obtain f a1 where nf: "next_from a = (f, a1)" by fastforce
  obtain err w1 where f1: "fp w f (pid it) (preq it) = (err, w1)" by fastforce
  obtain k2 a2 w2 where r: "retry_items fp xs a1 w1 = (k2, a2, w2)" by (metis prod_cases3)
  from assms(1) have res: "kept = (if is_ActorBusyError err then it # k2 else k2)" "a2 = a'" "w2 = w'"
    by (simp_all add: nf f1 r)
  show ?thesis
    using that [OF f1 _ r [unfolded res(2,3)] res(1)] wf_post [OF assms(2), of f "pid it" "preq it"]
      routable_stays [OF assms(2), of _ _ f "pid it" "preq it"]
      full_stays [OF assms(2), of _ f "pid it" "preq it"] f1 by auto
qed

lemma retry_full:
  assumes "retry_items fp xs a w = (kept, a', w')" "wf w" "full w i"
    and "\<forall>x\<in>set xs. pid x = i \<longrightarrow> routable w i (preq x)"
  shows "accepted w' i = accepted w i \<and> reqs_for i kept = reqs_for i xs"
  using assms
proof (induction xs arbitrary: a w kept a' w')
  case Nil
  then show ?case by simp
next
  case (Cons it xs)
  from Cons.prems(1,2) obtain f a1 err w1 k2 where st: "fp w f (pid it) (preq it) = (err, w1)" "wf w1"
    "retry_items fp xs a1 w1 = (k2, a', w')" "kept = (if is_ActorBusyError err then it # k2 else k2)"
    "\<And>i q. routable w i q \<Longrightarrow> routable w1 i q" "\<And>i. full w i \<Longrightarrow> full w1 i"
    by (rule retry_step) blast
  have rt: "\<forall>x\<in>set xs. pid x = i \<longrightarrow> routable w1 i (preq x)" using Cons.prems(4) st(5) by simp
  note IH = Cons.IH [OF st(3,2) st(6) [OF Cons.prems(3)] rt]
  show ?case
  proof (cases "pid it = i")
    case True
    then have busy: "is_ActorBusyError err"
      using routable_result [OF Cons.prems(2), of i "preq it" f] full_busy [OF Cons.prems(2,3), of f "preq it"]
        st(1) Cons.prems(4) by simp
    then obtain e where "err = Some e" by (auto elim: is_ActorBusyErrorE)
    with post_err [OF Cons.prems(2)] st(1) have "accepted w1 = accepted w" by blast
    with IH st(4) busy True show ?thesis by simp
  next
    case False
    with post_other [OF Cons.prems(2), of "pid it" i f "preq it"] IH st(1,4) show ?thesis by simp
  qed
qed

lemma retry_fifo:
  assumes "retry_items fp xs a w = (kept, a', w')" "wf w"
    and "\<forall>x\<in>set xs. pid x = i \<longrightarrow> routable w i (preq x)"
  shows "accepted w' i @ reqs_for i kept = accepted w i @ reqs_for i xs"
  using assms
proof (induction xs arbitrary: a w kept a' w')
  case Nil
  then show ?case by simp
next
  case (Cons it xs)
  from Cons.prems(1,2) obtain f a1 err w1 k2 where st: "fp w f (pid it) (preq it) = (err, w1)" "wf w1"
    "retry_items fp xs a1 w1 = (k2, a', w')" "kept = (if is_ActorBusyError err then it # k2 else k2)"
    "\<And>i q. routable w i q \<Longrightarrow> routable w1 i q"
    by (rule retry_step) blast
  have rt: "\<forall>x\<in>set xs. pid x = i \<longrightarrow> routable w1 i (preq x)" using Cons.prems(3) st(5) by simp
  note IH = Cons.IH [OF st(3,2) rt]
  show ?case
  proof (cases "pid it = i")
    case False
    with post_other [OF Cons.prems(2), of "pid it" i f "preq it"] IH st(1,4) show ?thesis by simp
  next
    case True
    with routable_result [OF Cons.prems(2), of i "preq it" f] st(1) Cons.prems(3)
    consider "err = None" | j where "err = Some (ActorBusyError j)"
      by (auto elim: is_ActorBusyErrorE)
    then show ?thesis
    proof cases
      case 1
      with post_ok [OF Cons.prems(2)] st(1) True have "accepted w1 i = accepted w i @ [preq it]" by fastforce
      with IH st(4) 1 True show ?thesis by simp
    next
      case 2
      with st(1) True have acc: "accepted w1 = accepted w" and "full w1 i"
        by (auto dest: post_err [OF Cons.prems(2)] busy_full [OF Cons.prems(2)])
      with retry_full [OF st(3,2) \<open>full w1 i\<close> rt] st(4) 2 True show ?thesis by simp
    qed
  qed
qed

lemma poseponePost_outbox:
  assumes "wf w" "\<forall>x\<in>set (postpone a). pid x = i \<longrightarrow> routable w i (preq x)"
  shows "outbox accepted (snd (poseponePost fp a w)) (fst (poseponePost fp a w)) i = outbox accepted w a i"
proof (cases rule: poseponePost_cases [of a fp w])
  case idle
  then show ?thesis by simp
next
  case (flushed kept c w1)
  from retry_fifo [OF flushed(3) assms] flushed(4) show ?thesis
    by (auto simp: outbox_def Let_def)
qed

lemma retry_wf_routable:
  "retry_items fp xs b v = (kept, b', v') \<Longrightarrow> wf v \<Longrightarrow> wf v' \<and> (routable v i q \<longrightarrow> routable v' i q)"
proof (induction xs arbitrary: b v kept b' v')
  case (Cons it xs)
  from Cons.prems show ?case by (rule retry_step) (use Cons.IH in blast)
qed simp

lemma poseponePost_wf_routable:
  assumes "wf w"
  shows "wf (snd (poseponePost fp a w))" "routable w i q \<Longrightarrow> routable (snd (poseponePost fp a w)) i q"
  using assms by (cases rule: poseponePost_cases [of a fp w]; auto dest: retry_wf_routable)+

text \<open>\<open>APost\<close> is an append to the abstract outbox of its target, and to no other.\<close>

lemma APost_outbox:
  assumes inv: "ctl_inv a" and wf: "wf w"
    and rq: "\<forall>x\<in>set (postpone a). pid x = j \<longrightarrow> routable w j (preq x)"
    and ri: "routable w i q"
    and res: "APost fp i q a w = (err, a', w')"
  shows "outbox accepted w' a' j = outbox accepted w a j @ (if j = i then [q] else [])"
proof -
  obtain a1 w1 where p: "poseponePost fp a w = (a1, w1)" by fastforce
  have o1: "outbox accepted w1 a1 j = outbox accepted w a j"
    using poseponePost_outbox [OF wf rq] p by simp
  have inv1: "postponeSet a1 = pid ` set (postpone a1)"
    using ctl_inv_poseponePost [OF inv, of fp w] p by (simp add: ctl_inv_def)
  have ri1: "routable w1 i q" and wf1: "wf w1" using poseponePost_wf_routable [OF wf, where a = a] ri p by auto
  show ?thesis
  proof (cases "hasPostpone a1 i")
    case True
    then have "a' = appendPostpone i q a1" "w' = w1" using res by (simp_all add: APost_def p)
    with o1 show ?thesis by (auto simp: outbox_def)
  next
    case False
    then have empty: "reqs_for i (postpone a1) = []"
      using inv1 by (intro reqs_for_empty) (simp add: hasPostpone_def)
    obtain f a2 where nf: "next_from a1 = (f, a2)" by fastforce
    then have a2: "postpone a2 = postpone a1" using next_from_sel(5) [of a1] by simp
    obtain e w2 where f1: "fp w1 f i q = (e, w2)" by fastforce
    from routable_result [OF wf1 ri1, of f] f1
    consider "e = None" | k where "e = Some (ActorBusyError k)" by (auto elim: is_ActorBusyErrorE)
    then show ?thesis
    proof cases
      case 1
      with res False have "a' = a2" "w' = w2" by (simp_all add: APost_def p nf f1)
      with post_ok [OF wf1] f1 1 o1 a2 empty show ?thesis by (fastforce simp: outbox_def)
    next
      case 2
      with res False have "a' = appendPostpone i q a2" "w' = w2" by (simp_all add: APost_def p nf f1)
      with post_err [OF wf1] f1 2 o1 a2 empty show ?thesis by (fastforce simp: outbox_def)
    qed
  qed
qed

end

subsection \<open>Retrying calls\<close>

lemma retry_items_counter:
  assumes "\<And>w f j r. calls (snd (fp w f j r)) = calls w"
  shows "calls (snd (snd (retry_items fp xs a w))) = (calls w :: nat)"
proof (induction xs arbitrary: a w)
  case (Cons it xs)
  obtain f a1 where nf: "next_from a = (f, a1)" by fastforce
  obtain err w1 where f1: "fp w f (pid it) (preq it) = (err, w1)" by fastforce
  obtain k2 a2 w2 where r: "retry_items fp xs a1 w1 = (k2, a2, w2)" by (metis prod_cases3)
  from Cons.IH [of a1 w1] assms [of w f "pid it" "preq it"] show ?case by (simp add: nf f1 r)
qed simp

lemma poseponePost_counter:
  assumes "\<And>w f j r. calls (snd (fp w f j r)) = calls w"
  shows "calls (snd (poseponePost fp a w)) = (calls w :: nat)"
proof (cases rule: poseponePost_cases [of a fp w])
  case (flushed kept c w1)
  with retry_items_counter [of calls fp "postpone a" "a\<lparr>postpone := []\<rparr>" w, OF assms] show ?thesis by simp
qed simp

lemma ACall_loop_counter:
  assumes fp: "\<And>w f j r. calls (snd (fp w f j r)) = calls w"
    and sl: "\<And>d w. calls (sleep d w) = calls w"
    and fc: "\<And>w f j r. calls (snd (fc w f j r)) = Suc (calls w)"
  shows "calls (snd (snd (ACall_loop fp fc sleep i q left n rep err a w))) \<le> (calls w :: nat) + left"
proof (induction left arbitrary: n rep err a w)
  case (Suc left)
  let ?w0 = "if n > 0 then sleep (n * n * 20) w else w"
  obtain a1 w1 where p: "poseponePost fp a ?w0 = (a1, w1)" by fastforce
  have w1: "calls w1 = calls w" using poseponePost_counter [of calls fp a ?w0, OF fp] sl p by simp
  show ?case
  proof (cases "hasPostpone a1 i")
    case True
    with Suc.IH [of "Suc n" rep "Some (ActorPostponeError i)" a1 w1] w1 show ?thesis by (simp add: p)
  next
    case False
    obtain f a2 where nf: "next_from a1 = (f, a2)" by fastforce
    obtain rep' err' w2 where c: "fc w1 f i q = ((rep', err'), w2)" by (metis prod.collapse)
    with fc [of w1 f i q] w1 have "calls w2 = Suc (calls w)" by simp
    with False Suc.IH [of "Suc n" rep' err' a2 w2] show ?thesis by (simp add: p nf c)
  qed
qed simp

text \<open>C14: \<open>ACall\<close> tries at most three times. Whatever the target does, a call sends its request at most three
  times (counting with any \<open>calls\<close> that goes up by one on each \<open>FCall\<close> and is not touched by posts or pauses), and it
  always returns.\<close>

theorem ACall_at_most_three_attempts:
  assumes "\<forall>w f j r. calls (snd (fp w f j r)) = calls w" "\<forall>d w. calls (sleep d w) = calls w"
    and "\<forall>w f j r. calls (snd (fc w f j r)) = Suc (calls w)"
  shows "calls (snd (snd (ACall fp fc sleep i q a w))) \<le> calls w + 3"
  unfolding ACall_def using assms by (intro ACall_loop_counter [of calls fp sleep fc]) simp_all

theorem ACall_at_most_three_attempts_witness:
  "snd (snd (ACall (\<lambda>w f j r. (None, w)) (\<lambda>w f j r. ((None, Some (ActorBusyError j)), Suc w)) (\<lambda>d w. w)
     (7::nat) (2::nat) (newActorControl ''demo.1'') (0::nat))) \<le> 3"
  using ACall_at_most_three_attempts [of "\<lambda>w. w" "\<lambda>w f j r. (None, w)" "\<lambda>d w. w"
      "\<lambda>w f j r. ((None, Some (ActorBusyError j)), Suc w)" 7 "2::nat" "newActorControl ''demo.1''" 0] by simp

subsection \<open>Multicast bookkeeping\<close>

lemma fold_appendPostpone:
  "postpone (fold (\<lambda>i. appendPostpone i q) is a) = postpone a @ map (\<lambda>i. \<lparr>pid = i, preq = q\<rparr>) is"
  by (induction "is" arbitrary: a) simp_all

text \<open>The results that mean: queued for a retry.\<close>

definition is_queued :: "('a, 'e) goerr option \<Rightarrow> bool" where
  "is_queued err = (case err of Some (ActorBusyError _) \<Rightarrow> True | Some (ActorPostponeError _) \<Rightarrow> True | _ \<Rightarrow> False)"

lemma is_queued_simps [simp]:
  "is_queued (Some (ActorBusyError i))" "is_queued (Some (ActorPostponeError i))" "\<not> is_queued None"
  by (simp_all add: is_queued_def)

lemma filter_is_queued_map:
  "filter (\<lambda>x. is_queued (ieErr x)) (map (\<lambda>i. \<lparr>ieId = i, ieErr = Some (ActorBusyError i)\<rparr>) is)
     = map (\<lambda>i. \<lparr>ieId = i, ieErr = Some (ActorBusyError i)\<rparr>) is"
  "filter (\<lambda>x. is_queued (ieErr x)) (map (\<lambda>i. \<lparr>ieId = i, ieErr = Some (ActorPostponeError i)\<rparr>) is)
     = map (\<lambda>i. \<lparr>ieId = i, ieErr = Some (ActorPostponeError i)\<rparr>) is"
  by (induction "is") simp_all

lemma AMulticast_accounting:
  assumes res: "AMulticast fp fm ids q a w = (Inr l, a', w')"
    and p: "poseponePost fp a w = (a1, w1)"
    and fm: "\<And>f l0 w2. fm w1 f (filter (\<lambda>i. \<not> hasPostpone a1 i) ids) q = (Inr l0, w2) \<Longrightarrow>
      mset (map ieId l0) = mset (filter (\<lambda>i. \<not> hasPostpone a1 i) ids) \<and>
      (\<forall>x\<in>set l0. is_queued (ieErr x) \<longrightarrow> is_ActorBusyError (ieErr x))"
  shows "mset (map ieId l) = mset ids \<and>
    postpone a' = postpone a1 @ map (\<lambda>x. \<lparr>pid = ieId x, preq = q\<rparr>) (filter (\<lambda>x. is_queued (ieErr x)) l)"
proof -
  let ?p = "filter (hasPostpone a1) ids" and ?np = "filter (\<lambda>i. \<not> hasPostpone a1 i) ids"
  obtain f a2 where nf: "next_from a1 = (f, a2)" by fastforce
  then have a2: "postpone a2 = postpone a1" using next_from_sel(5) [of a1] by simp
  obtain r2 w2 where f2: "fm w1 f ?np q = (r2, w2)" by fastforce
  with res obtain l0 where l0: "r2 = Inr l0" by (cases r2) (auto simp: AMulticast_def p nf splitPostpone_def)
  obtain b nb where sp: "splitIdErr l0 = (b, nb)" by fastforce
  note fm0 = fm [OF f2 [unfolded l0]]
  have l: "l = nb @ map (\<lambda>i. \<lparr>ieId = i, ieErr = Some (ActorBusyError i)\<rparr>) b
                @ map (\<lambda>i. \<lparr>ieId = i, ieErr = Some (ActorPostponeError i)\<rparr>) ?p"
    and a': "a' = fold (\<lambda>i. appendPostpone i q) ?p (fold (\<lambda>i. appendPostpone i q) b a2)"
    using res by (simp_all add: AMulticast_def p nf splitPostpone_def f2 l0 sp)
  have "mset (map ieId nb) + mset b = mset (map ieId l0)"
    using sp by (auto simp: splitIdErr_def add.commute simp flip: image_mset_union)
  then have "mset (map ieId nb) + mset b = mset ?np" using fm0 by simp
  moreover have "mset ?np + mset ?p = mset ids" by (simp add: add.commute)
  moreover have "mset (map ieId l) = mset (map ieId nb) + mset b + mset ?p" by (simp add: l comp_def)
  ultimately have "mset (map ieId l) = mset ids" by (simp only:)
  moreover have "filter (\<lambda>x. is_queued (ieErr x)) nb = []"
    using sp fm0 by (auto simp: splitIdErr_def filter_empty_conv)
  then have "map (\<lambda>x. \<lparr>pid = ieId x, preq = q\<rparr>) (filter (\<lambda>x. is_queued (ieErr x)) l)
      = map (\<lambda>i. \<lparr>pid = i, preq = q\<rparr>) (b @ ?p)"
    by (simp add: l filter_is_queued_map)
  ultimately show ?thesis by (simp add: a' fold_appendPostpone a2)
qed

end
