(* ===== verification/Actor_Invoke.thy ===== *)
theory Actor_Invoke
  imports Actor_Control
begin

section \<open>Handlers, activations and mailbox entries\<close>

text \<open>
  \<open>actor/handler.go\<close> (the registered entry), \<open>actor/registry_builder.go\<close>, \<open>actor/actor_context.go\<close>,
  \<open>actor/invoke.go\<close>, \<open>actor/timer.go\<close> and \<open>actor/close.go\<close>.

  User code is a parameter: a registered handler, a timer callback and the \<open>OnSpawn\<close> hook are code
  pointers whose meaning is given by an \<open>env\<close>. A handler maps the world and the activation to the
  world and activation it leaves behind and either returns a reply and an error or panics.
  A reply channel is an address into the store \<open>chans\<close>: the caller and the queued invocation share
  it. \<open>closedReps\<close> records the \<open>Close\<close> calls the framework makes on orphaned replies.
\<close>

subsection \<open>The registry\<close>

record 'f handlerEntry =
  reqType :: string
  allow_spawn :: bool
  allow_query :: bool
  fn :: 'f

record ('f, 'o) RegistryBuilder =
  handlers :: "string \<rightharpoonup> 'f handlerEntry"
  on_spawn :: "'o option"

definition NewRegistryBuilder :: "('f, 'o) RegistryBuilder" where
  "NewRegistryBuilder = \<lparr>handlers = Map.empty, on_spawn = None\<rparr>"

definition SetOnSpawn :: "'o option \<Rightarrow> ('f, 'o) RegistryBuilder \<Rightarrow> ('f, 'o) RegistryBuilder" where
  "SetOnSpawn f b = b\<lparr>on_spawn := f\<rparr>"

definition register ::
  "string \<Rightarrow> bool \<Rightarrow> bool \<Rightarrow> 'f \<Rightarrow> ('f, 'o) RegistryBuilder \<Rightarrow> ('f, 'o) RegistryBuilder" where
  "register t sp qu f b =
     b\<lparr>handlers := (handlers b)(t \<mapsto> \<lparr>reqType = t, allow_spawn = sp, allow_query = qu, fn = f\<rparr>)\<rparr>"

definition RegisterSpawn :: "string \<Rightarrow> 'f \<Rightarrow> ('f, 'o) RegistryBuilder \<Rightarrow> ('f, 'o) RegistryBuilder" where
  "RegisterSpawn t f b = register t True False f b"

definition RegisterQuery :: "string \<Rightarrow> 'f \<Rightarrow> ('f, 'o) RegistryBuilder \<Rightarrow> ('f, 'o) RegistryBuilder" where
  "RegisterQuery t f b = register t False True f b"

definition RegisterServe :: "string \<Rightarrow> 'f \<Rightarrow> ('f, 'o) RegistryBuilder \<Rightarrow> ('f, 'o) RegistryBuilder" where
  "RegisterServe t f b = register t True True f b"

text \<open>
  The variants for a request type that carries its own handler: \<open>handle\<close> is the closure that calls \<open>req.Handle\<close>. The second
  group also returns the typed nil it was given.
\<close>

definition RegisterSpawnHandler :: "string \<Rightarrow> 'f \<Rightarrow> ('f, 'o) RegistryBuilder \<Rightarrow> ('f, 'o) RegistryBuilder" where
  "RegisterSpawnHandler t handle b = register t True False handle b"

definition RegisterQueryHandler :: "string \<Rightarrow> 'f \<Rightarrow> ('f, 'o) RegistryBuilder \<Rightarrow> ('f, 'o) RegistryBuilder" where
  "RegisterQueryHandler t handle b = register t False True handle b"

definition RegisterServeHandler :: "string \<Rightarrow> 'f \<Rightarrow> ('f, 'o) RegistryBuilder \<Rightarrow> ('f, 'o) RegistryBuilder" where
  "RegisterServeHandler t handle b = register t True True handle b"

definition RegisterSpawnHandler2 :: "string \<Rightarrow> 'f \<Rightarrow> 'n \<Rightarrow> ('f, 'o) RegistryBuilder \<Rightarrow> 'n \<times> ('f, 'o) RegistryBuilder" where
  "RegisterSpawnHandler2 t handle typedNil b = (typedNil, register t True False handle b)"

definition RegisterQueryHandler2 :: "string \<Rightarrow> 'f \<Rightarrow> 'n \<Rightarrow> ('f, 'o) RegistryBuilder \<Rightarrow> 'n \<times> ('f, 'o) RegistryBuilder" where
  "RegisterQueryHandler2 t handle typedNil b = (typedNil, register t False True handle b)"

definition RegisterServeHandler2 :: "string \<Rightarrow> 'f \<Rightarrow> 'n \<Rightarrow> ('f, 'o) RegistryBuilder \<Rightarrow> 'n \<times> ('f, 'o) RegistryBuilder" where
  "RegisterServeHandler2 t handle typedNil b = (typedNil, register t True True handle b)"

subsection \<open>Activations\<close>

text \<open>The state a quit hook sees: whether the context is cancelled, the actor's state, the world.\<close>

type_synonym ('s, 'w) hookst = "bool \<times> 's \<times> 'w"

record ('a, 'q, 's, 'w, 'k) ActorContext =
  ctrl :: "('a, 'q, ('s, 'w) hookst, 'k) ActorControl"
  state :: 's

datatype ('c, 'w, 'r, 'err) outcome =
    HReturn 'c 'w "'r option" "'err option"
  | HPanic 'c 'w "'err option"

record ('a, 'f, 'q, 'e, 's, 'w, 'k, 'r) env =
  ops :: "'a id_ops"
  self :: 'a
  zeroState :: 's
  run_fn :: "'f \<Rightarrow> 'w \<Rightarrow> ('a, ('q, ('a, 'e) goerr) request, 's, 'w, 'k) ActorContext
    \<Rightarrow> ('q, ('a, 'e) goerr) request \<Rightarrow> bool
    \<Rightarrow> (('a, ('q, ('a, 'e) goerr) request, 's, 'w, 'k) ActorContext, 'w, 'r, ('a, 'e) goerr) outcome"
  run_cb :: "'k \<Rightarrow> 'w \<Rightarrow> ('a, ('q, ('a, 'e) goerr) request, 's, 'w, 'k) ActorContext
    \<Rightarrow> ('a, ('q, ('a, 'e) goerr) request, 's, 'w, 'k) ActorContext \<times> 'w"
  onSpawn :: "('w \<Rightarrow> ('a, ('q, ('a, 'e) goerr) request, 's, 'w, 'k) ActorContext
    \<Rightarrow> (('a, ('q, ('a, 'e) goerr) request, 's, 'w, 'k) ActorContext, 'w, 'r, ('a, 'e) goerr) outcome) option"
  panicHandler :: "'f handlerEntry option"
  fpostOp :: "('a, ('q, ('a, 'e) goerr) request, 'e, 'w) fpost"

record ('r, 'err) result =
  Rep :: "'r option"
  Err :: "'err option"

record ('r, 'err, 'w) mach =
  chans :: "nat \<Rightarrow> ('r, 'err) result chan"
  closedReps :: "'r list"
  gidle :: int
  world :: 'w

definition newActorContext ::
  "('a, 'f, 'q, 'e, 's, 'w, 'k, 'r) env
    \<Rightarrow> ('a, ('q, ('a, 'e) goerr) request, 's, 'w, 'k) ActorContext" where
  "newActorContext env =
     \<lparr>ctrl = newActorControl (actorNameOf (ops env) (self env)), state = zeroState env\<rparr>"

text \<open>
  \<open>ActorContext.clear\<close>: the control block first (which cancels the context), then the quit hook,
  whose panic is recovered.
\<close>

definition ctx_clear ::
  "('a, 'f, 'q, 'e, 's, 'w, 'k, 'r) env
    \<Rightarrow> ('a, ('q, ('a, 'e) goerr) request, 's, 'w, 'k) ActorContext \<Rightarrow> 'w \<Rightarrow> 'w" where
  "ctx_clear env c w =
     (let (ct, w1) = clear (fpostOp env) (ctrl c) w
      in case OnQuit ct of
           None \<Rightarrow> w1
         | Some hook \<Rightarrow> snd (snd (snd (hook (ctxCancelled ct, state c, w1)))))"

subsection \<open>Mailbox entries\<close>

datatype ('f, 'q, 'err, 'k) invokable =
    Invoke From "'f handlerEntry" "('q, 'err) request" "nat option" bool
  | TimerInvoke "'k timerStub"
  | PanicDropInvoke "'err option"
  | CloseInvoke

text \<open>Sending one result on a reply channel.\<close>

datatype 'm effect = Ok 'm | Panics | Blocks

definition put_result ::
  "nat \<Rightarrow> ('r, 'err) result \<Rightarrow> ('r, 'err, 'w) mach \<Rightarrow> ('r, 'err, 'w) mach effect" where
  "put_result c r m =
     (case chan_send r (chans m c) of
        Sent ch \<Rightarrow> Ok (m\<lparr>chans := (chans m)(c := ch)\<rparr>)
      | Full \<Rightarrow> Blocks
      | PanicSend \<Rightarrow> Panics)"

definition put_opt ::
  "nat option \<Rightarrow> ('r, 'err) result \<Rightarrow> ('r, 'err, 'w) mach \<Rightarrow> ('r, 'err, 'w) mach effect" where
  "put_opt ch r m = (case ch of None \<Rightarrow> Ok m | Some c \<Rightarrow> put_result c r m)"

text \<open>\<open>Allow\<close>: whether the entry may run now, and the refusal it sends when it may not.\<close>

fun allowed :: "bool \<Rightarrow> ('f, 'q, 'err, 'k) invokable \<Rightarrow> bool" where
  "allowed spawning (Invoke _ h _ _ _) \<longleftrightarrow>
     \<not> ((spawning \<and> \<not> allow_spawn h) \<or> (\<not> spawning \<and> \<not> allow_query h))"
| "allowed spawning (TimerInvoke _) \<longleftrightarrow> \<not> spawning"
| "allowed spawning (PanicDropInvoke _) \<longleftrightarrow> True"
| "allowed spawning CloseInvoke \<longleftrightarrow> True"

fun refuse ::
  "'a \<Rightarrow> ('f, 'q, ('a, 'e) goerr, 'k) invokable \<Rightarrow> ('r, ('a, 'e) goerr, 'w) mach
    \<Rightarrow> ('r, ('a, 'e) goerr, 'w) mach effect" where
  "refuse i (Invoke _ h _ ch _) m =
     put_opt ch \<lparr>Rep = None, Err = Some (HandlerNotAllowedError i (reqType h))\<rparr> m"
| "refuse i _ m = Ok m"

fun Fail ::
  "('a, 'e) goerr \<Rightarrow> ('f, 'q, ('a, 'e) goerr, 'k) invokable \<Rightarrow> ('r, ('a, 'e) goerr, 'w) mach
    \<Rightarrow> ('r, ('a, 'e) goerr, 'w) mach effect" where
  "Fail e (Invoke _ _ _ ch _) m = put_opt ch \<lparr>Rep = None, Err = Some e\<rparr> m"
| "Fail e (TimerInvoke _) m = Ok m"
| "Fail e (PanicDropInvoke _) m = Ok m"
| "Fail e CloseInvoke m = Ok m"

subsection \<open>Running one entry\<close>

datatype ('m, 'c, 'err) run_result =
    RNormal 'm 'c
  | RPanic 'm 'c "'err option"
  | RBlocks

text \<open>
  \<open>invoke.Invoke\<close>. After the handler has returned, a deferred recover is installed only when there is
  a reply and a \<open>clean\<close> function; it turns the panic of a send on a closed reply channel into a
  \<open>Close\<close> of the reply. A send on a closed channel panics with a runtime error, which is an \<open>error\<close>.
\<close>

definition sendClosedPanic :: "('a, 'e) goerr" where
  "sendClosedPanic = RuntimeErr ''send on closed channel''"

definition invoke_Invoke ::
  "('a, 'f, 'q, 'e, 's, 'w, 'k, 'r) env \<Rightarrow> From \<Rightarrow> 'f handlerEntry \<Rightarrow> ('q, ('a, 'e) goerr) request
    \<Rightarrow> nat option \<Rightarrow> bool \<Rightarrow> bool
    \<Rightarrow> ('a, ('q, ('a, 'e) goerr) request, 's, 'w, 'k) ActorContext \<Rightarrow> ('r, ('a, 'e) goerr, 'w) mach
    \<Rightarrow> (('r, ('a, 'e) goerr, 'w) mach,
        ('a, ('q, ('a, 'e) goerr) request, 's, 'w, 'k) ActorContext, ('a, 'e) goerr) run_result" where
  "invoke_Invoke env f h req ch clean spawning c m =
     (case run_fn env (fn h) (world m) (c\<lparr>ctrl := invokeLogger f (ctrl c)\<rparr>) req spawning of
        HPanic c' w' e \<Rightarrow> RPanic (m\<lparr>world := w'\<rparr>) c' e
      | HReturn c' w' rep err \<Rightarrow>
          (case put_opt ch \<lparr>Rep = rep, Err = err\<rparr> (m\<lparr>world := w'\<rparr>) of
             Ok m' \<Rightarrow> RNormal m' c'
           | Blocks \<Rightarrow> RBlocks
           | Panics \<Rightarrow>
               (case rep of
                  Some r \<Rightarrow>
                    if clean then RNormal (m\<lparr>world := w', closedReps := closedReps m @ [r]\<rparr>) c'
                    else RPanic (m\<lparr>world := w'\<rparr>) c' (Some sendClosedPanic)
                | None \<Rightarrow> RPanic (m\<lparr>world := w'\<rparr>) c' (Some sendClosedPanic))))"

text \<open>
  \<open>timerInvoke.Invoke\<close>: only when the table still maps the id to this very timer object; the entry
  is removed before the callback runs, and a panic of the callback is recovered inside.
\<close>

definition timer_Invoke ::
  "('a, 'f, 'q, 'e, 's, 'w, 'k, 'r) env \<Rightarrow> 'k timerStub
    \<Rightarrow> ('a, ('q, ('a, 'e) goerr) request, 's, 'w, 'k) ActorContext \<Rightarrow> ('r, ('a, 'e) goerr, 'w) mach
    \<Rightarrow> ('a, ('q, ('a, 'e) goerr) request, 's, 'w, 'k) ActorContext \<times> ('r, ('a, 'e) goerr, 'w) mach" where
  "timer_Invoke env st c m =
     (case map_of (timers (ctrl c)) (stubId st) of
        None \<Rightarrow> (c, m)
      | Some it \<Rightarrow>
          if timer it \<noteq> stubT st then (c, m)
          else
            let ct = invokeLogger (MakeFrom (ops env) (self env) (''timer.'' @ TimerId_String (stubId st)))
                       ((ctrl c)\<lparr>timers := AList.delete (stubId st) (timers (ctrl c))\<rparr>)
            in case stubFn st of
                 PostponeFlush \<Rightarrow>
                   (let (ct', w') = postponeFlushFired (fpostOp env) ct (world m)
                    in (c\<lparr>ctrl := ct'\<rparr>, m\<lparr>world := w'\<rparr>))
               | UserFn k \<Rightarrow>
                   (let (c', w') = run_cb env k (world m) (c\<lparr>ctrl := ct\<rparr>)
                    in (c', m\<lparr>world := w'\<rparr>)))"

fun Invoke_msg ::
  "('a, 'f, 'q, 'e, 's, 'w, 'k, 'r) env \<Rightarrow> ('f, 'q, ('a, 'e) goerr, 'k) invokable \<Rightarrow> bool
    \<Rightarrow> ('a, ('q, ('a, 'e) goerr) request, 's, 'w, 'k) ActorContext \<Rightarrow> ('r, ('a, 'e) goerr, 'w) mach
    \<Rightarrow> (('r, ('a, 'e) goerr, 'w) mach,
        ('a, ('q, ('a, 'e) goerr) request, 's, 'w, 'k) ActorContext, ('a, 'e) goerr) run_result" where
  "Invoke_msg env (Invoke f h req ch clean) spawning c m = invoke_Invoke env f h req ch clean spawning c m"
| "Invoke_msg env (TimerInvoke st) spawning c m =
     (let (c', m') = timer_Invoke env st c m in RNormal m' c')"
| "Invoke_msg env (PanicDropInvoke _) spawning c m = RNormal m c"
| "Invoke_msg env CloseInvoke spawning c m = RNormal m c"

lemmas [rt_defs] = put_result_def put_opt_def invoke_Invoke_def timer_Invoke_def

subsection \<open>Facts\<close>

lemma put_opt_None [simp]: "put_opt None r m = Ok m"
  by (simp add: put_opt_def)

lemma put_result_gidle: "put_result c r m = Ok m' \<Longrightarrow> gidle m' = gidle m"
  by (auto simp: put_result_def split: send_result.splits)

lemma put_opt_gidle: "put_opt ch r m = Ok m' \<Longrightarrow> gidle m' = gidle m"
  by (auto simp: put_opt_def put_result_gidle split: option.splits)

lemma refuse_gidle: "refuse i x m = Ok m' \<Longrightarrow> gidle m' = gidle m"
  by (cases x) (auto dest: put_opt_gidle)

lemma Fail_gidle: "Fail e x m = Ok m' \<Longrightarrow> gidle m' = gidle m"
  by (cases x) (auto dest: put_opt_gidle)

lemma invoke_Invoke_gidle:
  "invoke_Invoke env f h q ch cl sp c m = RNormal m' c' \<Longrightarrow> gidle m' = gidle m"
  "invoke_Invoke env f h q ch cl sp c m = RPanic m' c' e \<Longrightarrow> gidle m' = gidle m"
  by (auto simp: invoke_Invoke_def dest: put_opt_gidle
      split: outcome.splits effect.splits option.splits if_splits)

lemma Invoke_msg_gidle:
  "Invoke_msg env x sp c m = RNormal m' c' \<Longrightarrow> gidle m' = gidle m"
  "Invoke_msg env x sp c m = RPanic m' c' e \<Longrightarrow> gidle m' = gidle m"
  by (cases x; auto simp: timer_Invoke_def Let_def dest: invoke_Invoke_gidle
      split: prod.splits option.splits callback.splits if_splits)+

text \<open>Only a user request can panic: timer callbacks recover inside, the other entries do nothing.\<close>

lemma Invoke_msg_panic:
  "Invoke_msg env x sp c m = RPanic m' c' e \<Longrightarrow> \<exists>f h q ch cl. x = Invoke f h q ch cl"
  by (cases x) (auto split: prod.splits)

lemma Invoke_msg_blocks:
  "Invoke_msg env x sp c m = RBlocks \<Longrightarrow> \<exists>f h q c cl. x = Invoke f h q (Some c) cl"
  by (cases x) (auto simp: invoke_Invoke_def put_opt_def
      split: prod.splits outcome.splits effect.splits option.splits if_splits)

end
