(* ===== verification/Actor_Runtime.thy ===== *)
theory Actor_Runtime
  imports Actor_Invoke
begin

section \<open>The actor goroutine\<close>

text \<open>
  \<open>actor/actor.go\<close>: the runtime object of an actor (reference count, mailbox, \<open>closed\<close> and \<open>done\<close>
  marks) and its goroutine: \<open>invokeBatch\<close> with its recovery from handler panics, and the main loop
  \<open>run\<close>.

  What other goroutines do while the actor runs reaches \<open>run\<close> only through values it reads: the
  \<open>closed\<close> mark, the messages the mailbox yields, and what \<open>actorQuit\<close> finds. One turn of the main
  loop is therefore driven by a \<open>round\<close>, which holds those values; a run is any list of rounds.
  The indices \<open>x\<close>, \<open>nx\<close> into \<open>buf\<close> become the remaining suffix of the buffer.
\<close>

subsection \<open>The runtime object\<close>

record ('a, 'm) actorRuntime =
  aid :: 'a
  closed :: bool
  mailbox :: "'m chan"
  doneCh :: bool
  holder :: int
  cancelled :: bool

definition newActor :: "'a \<Rightarrow> nat \<Rightarrow> ('a, 'm) actorRuntime" where
  "newActor i bufMails =
     \<lparr>aid = i, closed = False, mailbox = make_chan bufMails, doneCh = False, holder = 0, cancelled = False\<rparr>"

definition hold :: "('a, 'm) actorRuntime \<Rightarrow> ('a, 'm) actorRuntime" where
  "hold a = a\<lparr>holder := holder a + 1\<rparr>"

text \<open>\<open>unhold\<close>: \<^const>\<open>None\<close> is the panic of closing the mailbox twice.\<close>

definition unhold :: "('a, 'm) actorRuntime \<Rightarrow> ('a, 'm) actorRuntime option" where
  "unhold a =
     (let a' = a\<lparr>holder := holder a - 1\<rparr>
      in if holder a' = 0
         then map_option (\<lambda>mb. a'\<lparr>mailbox := mb\<rparr>) (chan_close (mailbox a'))
         else Some a')"

datatype ('a, 'm, 'e) asend = ASent "('a, 'm) actorRuntime" | ABusy "('a, 'e) goerr" | APanic

definition send :: "'m \<Rightarrow> ('a, 'm) actorRuntime \<Rightarrow> ('a, 'm, 'e) asend" where
  "send m a =
     (case chan_send m (mailbox a) of
        Sent mb \<Rightarrow> ASent (a\<lparr>mailbox := mb\<rparr>)
      | Full \<Rightarrow> ABusy (ActorBusyError (aid a))
      | PanicSend \<Rightarrow> APanic)"

definition requestClose :: "('a, 'm) actorRuntime \<Rightarrow> ('a, 'm) actorRuntime option" where
  "requestClose a = (if closed a then Some a else unhold (a\<lparr>closed := True\<rparr>))"

definition kill :: "('a, 'm) actorRuntime \<Rightarrow> ('a, 'm) actorRuntime option" where
  "kill a = requestClose (a\<lparr>cancelled := True\<rparr>)"

text \<open>\<open>pumpMailbox\<close> takes everything that is buffered, and stops on a closed, drained mailbox.\<close>

function pumpMailbox :: "'m list \<Rightarrow> 'm chan \<Rightarrow> 'm list \<times> 'm chan" where
  "pumpMailbox buf mb =
     (case chan_recv mb of
        Got m mb' \<Rightarrow> pumpMailbox (buf @ [m]) mb'
      | WouldBlock \<Rightarrow> (buf, mb)
      | RecvClosed \<Rightarrow> (buf, mb))"
  by pat_completeness auto
termination
  by (relation "measure (\<lambda>(buf, mb). length (items mb))")
    (auto simp: chan_recv_def split: list.splits if_splits)

declare pumpMailbox.simps [simp del]

lemma pumpMailbox_eq: "pumpMailbox buf mb = (buf @ items mb, mb\<lparr>items := []\<rparr>)"
proof (induction buf mb rule: pumpMailbox.induct)
  case (1 buf mb)
  show ?case
  proof (cases "items mb")
    case Nil
    then show ?thesis by (subst pumpMailbox.simps) (simp add: chan_recv_def)
  next
    case (Cons m ms)
    then have "chan_recv mb = Got m (mb\<lparr>items := ms\<rparr>)" by (simp add: chan_recv_def)
    with 1 Cons show ?thesis by (subst pumpMailbox.simps) simp
  qed
qed

subsection \<open>invokeBatch\<close>

datatype ('m, 'c, 'err) step =
    SNext 'm "'c option" bool
  | SPanic 'm "'c option" bool "'err option"
  | SBlocks

text \<open>Open and Quit only flip \<open>active\<close>; the idle counter is settled by comparing before and after.\<close>

definition settle :: "bool \<Rightarrow> bool \<Rightarrow> ('r, 'err, 'w) mach \<Rightarrow> ('r, 'err, 'w) mach" where
  "settle prevActive act m =
     (if prevActive \<and> \<not> act then m\<lparr>gidle := gidle m + 1\<rparr>
      else if \<not> prevActive \<and> act then m\<lparr>gidle := gidle m - 1\<rparr>
      else m)"

definition spawn_hook ::
  "('a, 'f, 'q, 'e, 's, 'w, 'k, 'r) env
    \<Rightarrow> ('a, ('q, ('a, 'e) goerr) request, 's, 'w, 'k) ActorContext \<Rightarrow> 'w
    \<Rightarrow> (('a, ('q, ('a, 'e) goerr) request, 's, 'w, 'k) ActorContext, 'w, 'r, ('a, 'e) goerr) outcome" where
  "spawn_hook env c w =
     (case onSpawn env of
        None \<Rightarrow> HReturn c w None None
      | Some hook \<Rightarrow>
          hook w (c\<lparr>ctrl := invokeLogger (MakeFrom (ops env) (self env) ''OnSpawn'') (ctrl c)\<rparr>))"

text \<open>One turn of the loop of \<open>invokeBatch\<close>, up to the point where a panic would be recovered.\<close>

definition msg_step ::
  "('a, 'f, 'q, 'e, 's, 'w, 'k, 'r) env \<Rightarrow> ('f, 'q, ('a, 'e) goerr, 'k) invokable
    \<Rightarrow> ('r, ('a, 'e) goerr, 'w) mach
    \<Rightarrow> ('a, ('q, ('a, 'e) goerr) request, 's, 'w, 'k) ActorContext option \<Rightarrow> bool
    \<Rightarrow> (('r, ('a, 'e) goerr, 'w) mach,
        ('a, ('q, ('a, 'e) goerr) request, 's, 'w, 'k) ActorContext, ('a, 'e) goerr) step" where
  "msg_step env x m ctx prev =
     (let spawning = (ctx = None)
      in if \<not> allowed spawning x
         then (case refuse (self env) x m of
                 Ok m' \<Rightarrow> SNext m' ctx prev
               | Panics \<Rightarrow> SPanic m ctx prev (Some sendClosedPanic)
               | Blocks \<Rightarrow> SBlocks)
         else
           let c0 = (case ctx of None \<Rightarrow> newActorContext env | Some c \<Rightarrow> c);
               prev' = active (ctrl c0)
           in case (if spawning then spawn_hook env c0 (world m) else HReturn c0 (world m) None None) of
                HPanic c1 w1 e \<Rightarrow> SPanic (m\<lparr>world := w1\<rparr>) (Some c1) prev' e
              | HReturn c1 w1 _ (Some err) \<Rightarrow>
                  (let m1 = m\<lparr>world := ctx_clear env c1 w1\<rparr>
                   in case Fail err x m1 of
                        Ok m2 \<Rightarrow> SNext m2 None prev'
                      | Panics \<Rightarrow> SPanic m1 None prev' (Some sendClosedPanic)
                      | Blocks \<Rightarrow> SBlocks)
              | HReturn c1 w1 _ None \<Rightarrow>
                  (case Invoke_msg env x spawning c1 (m\<lparr>world := w1\<rparr>) of
                     RBlocks \<Rightarrow> SBlocks
                   | RPanic m2 c2 e \<Rightarrow> SPanic m2 (Some c2) prev' e
                   | RNormal m2 c2 \<Rightarrow>
                       (let m3 = settle prev' (active (ctrl c2)) m2
                        in if active (ctrl c2) then SNext m3 (Some c2) prev'
                           else SNext (m3\<lparr>world := ctx_clear env c2 (world m3)\<rparr>) None prev')))"

text \<open>
  The deferred recovery. Reading \<open>nctx.ctrl.active\<close> with \<open>nctx == nil\<close>, or a panic of \<open>Fail\<close>, is a
  panic inside the deferred function, which nothing recovers: the process dies (\<open>PCrash\<close>).
\<close>

definition emptyFrom :: From where
  "emptyFrom = \<lparr>Origin = [], ReqSeq = []\<rparr>"

fun is_panic_invoke :: "('f, 'q, 'err, 'k) invokable \<Rightarrow> bool" where
  "is_panic_invoke (Invoke _ _ (PanicReq _) _ _) = True"
| "is_panic_invoke _ = False"

definition replacement ::
  "('a, 'f, 'q, 'e, 's, 'w, 'k, 'r) env \<Rightarrow> ('f, 'q, ('a, 'e) goerr, 'k) invokable
    \<Rightarrow> ('a, 'e) goerr option \<Rightarrow> ('f, 'q, ('a, 'e) goerr, 'k) invokable" where
  "replacement env x err =
     (case panicHandler env of
        Some h \<Rightarrow> if is_panic_invoke x then PanicDropInvoke err
                  else Invoke emptyFrom h (PanicReq err) None False
      | None \<Rightarrow> PanicDropInvoke err)"

datatype ('m, 'c, 'x) recovery = Recovered 'm 'c 'x | PCrash | PBlocks

definition recover_panic ::
  "('a, 'f, 'q, 'e, 's, 'w, 'k, 'r) env \<Rightarrow> ('f, 'q, ('a, 'e) goerr, 'k) invokable
    \<Rightarrow> ('r, ('a, 'e) goerr, 'w) mach
    \<Rightarrow> ('a, ('q, ('a, 'e) goerr) request, 's, 'w, 'k) ActorContext option \<Rightarrow> bool
    \<Rightarrow> ('a, 'e) goerr option
    \<Rightarrow> (('r, ('a, 'e) goerr, 'w) mach,
        ('a, ('q, ('a, 'e) goerr) request, 's, 'w, 'k) ActorContext,
        ('f, 'q, ('a, 'e) goerr, 'k) invokable) recovery" where
  "recover_panic env x m nctx prev err =
     (case nctx of
        None \<Rightarrow> PCrash
      | Some c \<Rightarrow>
          (case Fail (HandlerCallError (self env) [] err) x (settle prev (active (ctrl c)) m) of
             Ok m' \<Rightarrow> Recovered m' c (replacement env x err)
           | Panics \<Rightarrow> PCrash
           | Blocks \<Rightarrow> PBlocks))"

datatype ('m, 'c, 'x) batch =
    BDone 'm "'c option"
  | BPanic 'm 'c "'x list"
  | BCrash
  | BBlocks

fun invokeBatch ::
  "('a, 'f, 'q, 'e, 's, 'w, 'k, 'r) env \<Rightarrow> ('f, 'q, ('a, 'e) goerr, 'k) invokable list
    \<Rightarrow> ('r, ('a, 'e) goerr, 'w) mach
    \<Rightarrow> ('a, ('q, ('a, 'e) goerr) request, 's, 'w, 'k) ActorContext option \<Rightarrow> bool
    \<Rightarrow> (('r, ('a, 'e) goerr, 'w) mach,
        ('a, ('q, ('a, 'e) goerr) request, 's, 'w, 'k) ActorContext,
        ('f, 'q, ('a, 'e) goerr, 'k) invokable) batch" where
  "invokeBatch env [] m ctx prev = BDone m ctx"
| "invokeBatch env (x # xs) m ctx prev =
     (case msg_step env x m ctx prev of
        SNext m' ctx' prev' \<Rightarrow> invokeBatch env xs m' ctx' prev'
      | SBlocks \<Rightarrow> BBlocks
      | SPanic m' ctx' prev' err \<Rightarrow>
          (case recover_panic env x m' ctx' prev' err of
             Recovered m2 c x' \<Rightarrow> BPanic m2 c (x' # xs)
           | PCrash \<Rightarrow> BCrash
           | PBlocks \<Rightarrow> BBlocks))"

subsection \<open>The main loop\<close>

text \<open>
  The inner loop of \<open>run\<close>: it calls \<open>invokeBatch\<close> until the buffer is used up, looking at \<open>closed\<close>
  before each call (\<open>cl n\<close> is what the \<open>n\<close>-th look finds).
\<close>

datatype ('m, 'c, 'x) drained =
    DDone 'm "'c option"
  | DClosed 'm "'c option" "'x list"
  | DCrash
  | DBlocks
  | DFuel

fun drain_buf ::
  "('a, 'f, 'q, 'e, 's, 'w, 'k, 'r) env \<Rightarrow> (nat \<Rightarrow> bool) \<Rightarrow> nat \<Rightarrow> nat
    \<Rightarrow> ('f, 'q, ('a, 'e) goerr, 'k) invokable list \<Rightarrow> ('r, ('a, 'e) goerr, 'w) mach
    \<Rightarrow> ('a, ('q, ('a, 'e) goerr) request, 's, 'w, 'k) ActorContext option
    \<Rightarrow> (('r, ('a, 'e) goerr, 'w) mach,
        ('a, ('q, ('a, 'e) goerr) request, 's, 'w, 'k) ActorContext,
        ('f, 'q, ('a, 'e) goerr, 'k) invokable) drained" where
  "drain_buf env cl n fuel [] m ctx = DDone m ctx"
| "drain_buf env cl n 0 (x # xs) m ctx = DFuel"
| "drain_buf env cl n (Suc fuel) (x # xs) m ctx =
     (if cl n then DClosed m ctx (x # xs)
      else case invokeBatch env (x # xs) m ctx False of
             BDone m' ctx' \<Rightarrow> DDone m' ctx'
           | BPanic m' c rest \<Rightarrow> drain_buf env cl (Suc n) fuel rest m' (Some c)
           | BCrash \<Rightarrow> DCrash
           | BBlocks \<Rightarrow> DBlocks)"

definition drain_all ::
  "('a, 'f, 'q, 'e, 's, 'w, 'k, 'r) env \<Rightarrow> (nat \<Rightarrow> bool)
    \<Rightarrow> ('f, 'q, ('a, 'e) goerr, 'k) invokable list \<Rightarrow> ('r, ('a, 'e) goerr, 'w) mach
    \<Rightarrow> ('a, ('q, ('a, 'e) goerr) request, 's, 'w, 'k) ActorContext option
    \<Rightarrow> (('r, ('a, 'e) goerr, 'w) mach,
        ('a, ('q, ('a, 'e) goerr) request, 's, 'w, 'k) ActorContext,
        ('f, 'q, ('a, 'e) goerr, 'k) invokable) drained" where
  "drain_all env cl buf m ctx = drain_buf env cl 0 (2 * length buf + 1) buf m ctx"

text \<open>What one turn of the main loop reads from the other goroutines.\<close>

record 'x round =
  closedTop :: bool
  arrivals :: "'x list"
  closedAt :: "nat \<Rightarrow> bool"
  quitClosed :: bool
  quitHeld :: bool
  quitArrivals :: "'x list"

text \<open>Failing everything that is left with \<open>ActorClosedError\<close>.\<close>

fun fail_all ::
  "('a, 'e) goerr \<Rightarrow> ('f, 'q, ('a, 'e) goerr, 'k) invokable list
    \<Rightarrow> ('r, ('a, 'e) goerr, 'w) mach \<Rightarrow> ('r, ('a, 'e) goerr, 'w) mach effect" where
  "fail_all e [] m = Ok m"
| "fail_all e (x # xs) m =
     (case Fail e x m of Ok m' \<Rightarrow> fail_all e xs m' | Panics \<Rightarrow> Panics | Blocks \<Rightarrow> Blocks)"

text \<open>The end of \<open>run\<close>: \<open>rest\<close> is the local buffer, \<open>late\<close> what the mailbox still yields.\<close>

definition run_exit ::
  "('a, 'f, 'q, 'e, 's, 'w, 'k, 'r) env \<Rightarrow> ('f, 'q, ('a, 'e) goerr, 'k) invokable list
    \<Rightarrow> ('f, 'q, ('a, 'e) goerr, 'k) invokable list \<Rightarrow> ('r, ('a, 'e) goerr, 'w) mach
    \<Rightarrow> ('a, ('q, ('a, 'e) goerr) request, 's, 'w, 'k) ActorContext option
    \<Rightarrow> ('r, ('a, 'e) goerr, 'w) mach effect" where
  "run_exit env rest late m ctx =
     (let m1 = (case ctx of
                  None \<Rightarrow> m\<lparr>gidle := gidle m - 1\<rparr>
                | Some c \<Rightarrow> m\<lparr>world := ctx_clear env c (world m)\<rparr>)
      in fail_all (ActorClosedError (self env)) (rest @ late) m1)"

datatype ('m, 'c, 'x) run_state =
    Running 'm "'c option" "'x list"
  | Exited "'m effect"
  | Crashed
  | Blocked
  | NoFuel

fun run ::
  "('a, 'f, 'q, 'e, 's, 'w, 'k, 'r) env \<Rightarrow> ('f, 'q, ('a, 'e) goerr, 'k) invokable round list
    \<Rightarrow> ('f, 'q, ('a, 'e) goerr, 'k) invokable list
    \<Rightarrow> ('f, 'q, ('a, 'e) goerr, 'k) invokable list \<Rightarrow> ('r, ('a, 'e) goerr, 'w) mach
    \<Rightarrow> ('a, ('q, ('a, 'e) goerr) request, 's, 'w, 'k) ActorContext option
    \<Rightarrow> (('r, ('a, 'e) goerr, 'w) mach,
        ('a, ('q, ('a, 'e) goerr) request, 's, 'w, 'k) ActorContext,
        ('f, 'q, ('a, 'e) goerr, 'k) invokable) run_state" where
  "run env [] late buf m ctx = Running m ctx buf"
| "run env (r # rs) late buf m ctx =
     (if closedTop r then Exited (run_exit env buf late m ctx)
      else if buf @ arrivals r = [] then Exited (run_exit env [] late m ctx)
      else case drain_all env (closedAt r) (buf @ arrivals r) m ctx of
             DCrash \<Rightarrow> Crashed
           | DBlocks \<Rightarrow> Blocked
           | DFuel \<Rightarrow> NoFuel
           | DClosed m' ctx' rest \<Rightarrow> Exited (run_exit env rest late m' ctx')
           | DDone m' ctx' \<Rightarrow>
               (if ctx' \<noteq> None \<or> quitClosed r \<or> quitHeld r then run env rs late [] m' ctx'
                else if quitArrivals r \<noteq> [] then run env rs late (quitArrivals r) m' ctx'
                else Exited (run_exit env [] late m' None)))"

lemmas [rt_defs] =
  newActor_def hold_def unhold_def send_def requestClose_def kill_def settle_def spawn_hook_def
  msg_step_def recover_panic_def replacement_def run_exit_def drain_all_def emptyFrom_def

subsection \<open>Idle accounting\<close>

text \<open>
  What an activation contributes to the group's idle counter, and the balance that one turn of
  the loop keeps: the counter minus that contribution.
\<close>

definition idle_part :: "('a, 'q, 's, 'w, 'k) ActorContext option \<Rightarrow> int" where
  "idle_part ctx = (case ctx of None \<Rightarrow> 1 | Some c \<Rightarrow> if active (ctrl c) then 0 else 1)"

definition balance :: "('r, 'err, 'w) mach \<Rightarrow> ('a, 'q, 's, 'w, 'k) ActorContext option \<Rightarrow> int" where
  "balance m ctx = gidle m - idle_part ctx"

lemma idle_part_simps [simp]:
  "idle_part None = 1" "idle_part (Some c) = (if active (ctrl c) then 0 else 1)"
  by (simp_all add: idle_part_def)

lemma newActorContext_inactive [simp]: "\<not> active (ctrl (newActorContext env))"
  by (simp add: newActorContext_def newActorControl_def)

lemma settle_gidle:
  "gidle (settle p a m) = gidle m + (if a then 0 else 1) - (if p then 0 else 1)"
  by (simp add: settle_def)

lemma settle_frame [simp]: "chans (settle p a m) = chans m" "world (settle p a m) = world m"
  by (simp_all add: settle_def)

lemma msg_step_balance:
  "msg_step env x m ctx p = SNext m' ctx' p' \<Longrightarrow> balance m' ctx' = balance m ctx"
  by (auto simp: msg_step_def Let_def balance_def settle_gidle
      dest!: refuse_gidle Fail_gidle Invoke_msg_gidle
      split: if_splits effect.splits outcome.splits option.splits run_result.splits)

text \<open>
  Where a panic comes from: a send on a closed reply channel, which makes \<open>Fail\<close> panic as well, or
  user code, and then the activation exists and \<open>prevActive\<close> is the flag it had on entry.
\<close>

lemma refuse_Panics_Fail: "refuse i x m = Panics \<Longrightarrow> Fail e x m = Panics"
  by (cases x) (auto simp: put_opt_def put_result_def chan_send_iffs
      split: option.splits send_result.splits)

lemma put_opt_Panics: "put_opt ch r m = Panics \<Longrightarrow> chans m' = chans m \<Longrightarrow> put_opt ch r' m' = Panics"
  by (auto simp: put_opt_def put_result_def chan_send_iffs split: option.splits send_result.splits)

lemma Fail_cong_chans: "chans m' = chans m \<Longrightarrow> Fail e x m = Panics \<Longrightarrow> Fail e' x m' = Panics"
  by (cases x) (auto dest: put_opt_Panics)

lemma invoke_Invoke_panic:
  assumes "invoke_Invoke env f h q ch cl sp c m = RPanic m' c' e"
  obtains (user) w' where "run_fn env (fn h) (world m) (c\<lparr>ctrl := invokeLogger f (ctrl c)\<rparr>) q sp = HPanic c' w' e"
      "m' = m\<lparr>world := w'\<rparr>"
  | (closed) "\<forall>r. put_opt ch r m' = Panics"
  using assms
  by (auto simp: invoke_Invoke_def intro: put_opt_Panics
      split: outcome.splits effect.splits option.splits if_splits)

lemma msg_step_panic:
  assumes "msg_step env x m ctx p = SPanic m' ctx' p' e"
  obtains (dead) "recover_panic env x m' ctx' p' e = PCrash"
  | (user) c' w' where "ctx' = Some c'" "m' = m\<lparr>world := w'\<rparr>" "allowed (ctx = None) x"
      "p' = (case ctx of None \<Rightarrow> False | Some c \<Rightarrow> active (ctrl c))"
      "ctx = None \<or> (\<exists>f h q ch cl. x = Invoke f h q ch cl)"
proof (cases "allowed (ctx = None) x")
  case False
  with assms have "refuse (self env) x m = Panics" "m' = m"
    by (auto simp: msg_step_def Let_def split: effect.splits)
  then have "Fail (HandlerCallError (self env) [] e) x (settle q b m') = Panics" for q b
    using Fail_cong_chans [OF _ refuse_Panics_Fail] by (metis settle_frame(1))
  then show ?thesis
    by (intro dead) (simp add: recover_panic_def split: option.splits)
next
  case True
  let ?c0 = "case ctx of None \<Rightarrow> newActorContext env | Some c \<Rightarrow> c"
  let ?h = "if ctx = None then spawn_hook env ?c0 (world m) else HReturn ?c0 (world m) None None"
  have p0: "active (ctrl ?c0) = (case ctx of None \<Rightarrow> False | Some c \<Rightarrow> active (ctrl c))"
    by (simp split: option.splits)
  show ?thesis
  proof (cases ?h)
    case (HPanic c1 w1 e1)
    with True assms p0 have eq: "ctx' = Some c1" "m' = m\<lparr>world := w1\<rparr>"
      "p' = (case ctx of None \<Rightarrow> False | Some c \<Rightarrow> active (ctrl c))"
      by (auto simp: msg_step_def Let_def)
    have "ctx = None" using HPanic by (auto split: if_splits)
    then show ?thesis by (intro user [OF eq(1,2) True eq(3)]) simp
  next
    case (HReturn c1 w1 rep eo)
    show ?thesis
    proof (cases eo)
      case (Some err)
      with HReturn True assms have "ctx' = None"
        by (auto simp: msg_step_def Let_def split: effect.splits)
      then show ?thesis by (intro dead) (simp add: recover_panic_def)
    next
      case None
      let ?p = "active (ctrl ?c0)"
      have "(case Invoke_msg env x (ctx = None) c1 (m\<lparr>world := w1\<rparr>) of
               RBlocks \<Rightarrow> SBlocks
             | RPanic m2 c2 e \<Rightarrow> SPanic m2 (Some c2) ?p e
             | RNormal m2 c2 \<Rightarrow>
                 if active (ctrl c2) then SNext (settle ?p (active (ctrl c2)) m2) (Some c2) ?p
                 else SNext (settle ?p (active (ctrl c2)) m2
                        \<lparr>world := ctx_clear env c2 (world (settle ?p (active (ctrl c2)) m2))\<rparr>) None ?p)
          = SPanic m' ctx' p' e"
        using assms True unfolding msg_step_def Let_def
        by (simp only: True not_True_eq_False if_False HReturn None outcome.case option.case)
      then obtain c2 where i: "ctx' = Some c2"
        "Invoke_msg env x (ctx = None) c1 (m\<lparr>world := w1\<rparr>) = RPanic m' c2 e" "p' = ?p"
        by (cases "Invoke_msg env x (ctx = None) c1 (m\<lparr>world := w1\<rparr>)") (auto split: if_splits)
      from Invoke_msg_panic [OF i(2)] obtain f h q ch cl where x: "x = Invoke f h q ch cl" by blast
      from i(2) have "invoke_Invoke env f h q ch cl (ctx = None) c1 (m\<lparr>world := w1\<rparr>) = RPanic m' c2 e"
        by (simp add: x)
      then show ?thesis
      proof (cases rule: invoke_Invoke_panic)
        case (user w')
        then have "m' = m\<lparr>world := w'\<rparr>" by simp
        then show ?thesis using True i(1) i(3) [unfolded p0] x by (intro that(2)) blast+
      next
        case closed
        then have "Fail e2 x (settle q b m') = Panics" for e2 q b
          using put_opt_Panics [of ch _ m' "settle q b m'"] x by simp
        with i(1) show ?thesis by (intro dead) (simp add: recover_panic_def)
      qed
    qed
  qed
qed

lemma recover_panic_Recovered:
  assumes "recover_panic env x m ctx p e = Recovered m' c x'"
  shows "ctx = Some c" "x' = replacement env x e"
    "gidle m' = gidle m + (if active (ctrl c) then 0 else 1) - (if p then 0 else 1)"
  using assms
  by (auto simp: recover_panic_def settle_gidle dest!: Fail_gidle split: option.splits effect.splits)

lemma invokeBatch_balance:
  "(\<forall>m' ctx'. invokeBatch env xs m ctx p = BDone m' ctx' \<longrightarrow> balance m' ctx' = balance m ctx) \<and>
   (\<forall>m' c r. invokeBatch env xs m ctx p = BPanic m' c r \<longrightarrow> balance m' (Some c) = balance m ctx)"
proof (induction xs arbitrary: m ctx p)
  case (Cons x xs)
  show ?case
  proof (cases "msg_step env x m ctx p")
    case (SNext m1 ctx1 p1)
    with Cons.IH [of m1 ctx1 p1] msg_step_balance [OF SNext] show ?thesis by simp
  next
    case (SPanic m1 ctx1 p1 e)
    show ?thesis
    proof (cases "recover_panic env x m1 ctx1 p1 e")
      case (Recovered m2 c x')
      note R = recover_panic_Recovered [OF Recovered]
      from SPanic have "gidle m1 = gidle m" "(if p1 then 0 else 1) = idle_part ctx"
        by (cases rule: msg_step_panic; simp add: Recovered split: option.splits)+
      with R have "balance m2 (Some c) = balance m ctx" by (simp add: balance_def)
      with SPanic Recovered show ?thesis by simp
    qed (use SPanic in simp_all)
  qed simp
qed simp

lemma drain_buf_balance:
  "(\<forall>m' ctx'. drain_buf env cl n fuel xs m ctx = DDone m' ctx' \<longrightarrow> balance m' ctx' = balance m ctx) \<and>
   (\<forall>m' ctx' r. drain_buf env cl n fuel xs m ctx = DClosed m' ctx' r \<longrightarrow> balance m' ctx' = balance m ctx)"
proof (induction env cl n fuel xs m ctx rule: drain_buf.induct)
  case (3 env cl n fuel x xs m ctx)
  show ?case
  proof (cases "cl n")
    case False
    note b = invokeBatch_balance [of env "x # xs" m ctx False]
    show ?thesis
    proof (cases "invokeBatch env (x # xs) m ctx False")
      case (BPanic m' c rest)
      from b have "balance m' (Some c) = balance m ctx" unfolding BPanic by simp
      with "3.IH" [OF False BPanic] show ?thesis
        unfolding drain_buf.simps(3) BPanic using False by simp
    next
      case (BDone m' ctx')
      from b have "balance m' ctx' = balance m ctx" unfolding BDone by simp
      then show ?thesis unfolding drain_buf.simps(3) BDone using False by simp
    qed (use False in \<open>simp_all del: invokeBatch.simps\<close>)
  qed simp
qed simp_all

lemma drain_all_balance:
  "drain_all env cl xs m ctx = DDone m' ctx' \<Longrightarrow> balance m' ctx' = balance m ctx"
  "drain_all env cl xs m ctx = DClosed m' ctx' r \<Longrightarrow> balance m' ctx' = balance m ctx"
  using drain_buf_balance [of env cl 0 "2 * length xs + 1" xs m ctx] by (simp_all add: drain_all_def)

lemma fail_all_gidle: "fail_all e xs m = Ok m' \<Longrightarrow> gidle m' = gidle m"
  by (induction xs arbitrary: m) (auto dest: Fail_gidle split: effect.splits)

lemma run_exit_gidle:
  "run_exit env rest late m ctx = Ok m' \<Longrightarrow>
     gidle m' = balance m ctx + (case ctx of None \<Rightarrow> 0 | Some c \<Rightarrow> idle_part (Some c))"
  by (auto simp: run_exit_def Let_def balance_def dest!: fail_all_gidle split: option.splits)

text \<open>
  Over a whole life of the goroutine the counter goes back to what it was before the actor was
  counted, except when the goroutine ends with an activation that is there and inactive.
\<close>

lemma run_gidle:
  "run env rs late buf m ctx = Exited (Ok m') \<Longrightarrow>
     gidle m' = balance m ctx \<or> gidle m' = balance m ctx + 1"
proof (induction env rs late buf m ctx rule: run.induct)
  case (2 env r rs late buf m ctx)
  show ?case
  proof (cases "closedTop r \<or> buf @ arrivals r = []")
    case True
    with "2.prems" show ?thesis
      by (auto dest!: run_exit_gidle split: if_splits option.splits)
  next
    case False
    then show ?thesis
    proof (cases "drain_all env (closedAt r) (buf @ arrivals r) m ctx")
      case (DDone m1 ctx1)
      note b = drain_all_balance(1) [OF DDone]
      from False "2.prems" DDone b show ?thesis
        using "2.IH"(1) [of m1 ctx1] "2.IH"(2) [of m1 ctx1]
        by (auto dest!: run_exit_gidle split: if_splits)
    next
      case (DClosed m1 ctx1 rest)
      note b = drain_all_balance(2) [OF DClosed]
      from False "2.prems" DClosed b show ?thesis
        by (auto dest!: run_exit_gidle split: if_splits option.splits)
    qed (use False "2.prems" in auto)
  qed
qed simp

subsection \<open>The inner loop ends\<close>

text \<open>
  A message can panic at most twice: its own handler, then the recovery handler. The weight of the
  message at the head bounds the panics it can still cause.
\<close>

fun panics_left :: "bool \<Rightarrow> ('f, 'q, 'err, 'k) invokable \<Rightarrow> nat" where
  "panics_left spawning (Invoke _ _ (PanicReq _) _ _) = 1"
| "panics_left spawning (Invoke _ _ (UserReq _ _) _ _) = 2"
| "panics_left spawning _ = (if spawning then 2 else 0)"

fun potential :: "('f, 'q, 'err, 'k) invokable list \<Rightarrow> bool \<Rightarrow> nat" where
  "potential [] spawning = 0"
| "potential (x # xs) spawning = panics_left spawning x + 2 * length xs"

lemma panics_left_le: "panics_left sp x \<le> 2"
  by (cases "(sp, x)" rule: panics_left.cases) auto

lemma potential_le: "potential xs sp \<le> 2 * length xs"
  by (cases xs) (auto simp: panics_left_le)

lemma panics_left_replacement: "panics_left False (replacement env x e) \<le> 1"
  by (auto simp: replacement_def split: option.splits)

lemma panics_left_Invoke:
  "panics_left sp (Invoke f h q ch cl) = (case q of PanicReq _ \<Rightarrow> 1 | UserReq _ _ \<Rightarrow> 2)"
  by (cases q) auto

lemma panics_left_recovered:
  assumes "ctx = None \<or> (\<exists>f h q ch cl. x = Invoke f h q ch cl)"
  shows "panics_left False (replacement env x e) < panics_left (ctx = None) x"
proof (cases x)
  case (Invoke f h q ch cl)
  then show ?thesis
    by (cases q) (auto simp: replacement_def split: option.splits)
qed (use assms panics_left_replacement [of env x e] in auto)

lemma invokeBatch_BPanic:
  assumes "invokeBatch env xs m ctx p = BPanic m' c rest"
  shows "potential rest False < potential xs (ctx = None)"
  using assms
proof (induction xs arbitrary: m ctx p)
  case (Cons x xs)
  show ?case
  proof (cases "msg_step env x m ctx p")
    case (SNext m1 ctx1 p1)
    with Cons.prems have "invokeBatch env xs m1 ctx1 p1 = BPanic m' c rest" by simp
    from Cons.IH [OF this] potential_le [of xs "ctx1 = None"] show ?thesis by simp
  next
    case (SPanic m1 ctx1 p1 e)
    with Cons.prems obtain m2 x' where R: "recover_panic env x m1 ctx1 p1 e = Recovered m2 c x'"
      and rest: "rest = x' # xs"
      by (auto split: recovery.splits)
    from SPanic have "ctx = None \<or> (\<exists>f h q ch cl. x = Invoke f h q ch cl)"
      by (cases rule: msg_step_panic) (simp_all add: R)
    from panics_left_recovered [OF this] show ?thesis
      by (simp add: rest recover_panic_Recovered(2) [OF R])
  qed (use Cons.prems in simp)
qed simp

lemma drain_buf_fuel:
  "potential xs (ctx = None) < fuel \<Longrightarrow> drain_buf env cl n fuel xs m ctx \<noteq> DFuel"
proof (induction env cl n fuel xs m ctx rule: drain_buf.induct)
  case (3 env cl n fuel x xs m ctx)
  show ?case
  proof (cases "cl n")
    case False
    show ?thesis
    proof (cases "invokeBatch env (x # xs) m ctx False")
      case (BPanic m' c rest)
      from invokeBatch_BPanic [OF this] "3.prems" have "potential rest (Some c = None) < fuel"
        by simp
      from "3.IH" [OF False BPanic this] show ?thesis
        unfolding drain_buf.simps(3) BPanic using False by simp
    qed (use False in \<open>simp_all del: invokeBatch.simps\<close>)
  qed simp
qed simp_all

lemma drain_all_no_fuel: "drain_all env cl xs m ctx \<noteq> DFuel"
  unfolding drain_all_def
  by (rule drain_buf_fuel) (use potential_le [of xs "ctx = None"] in simp)

subsection \<open>Replies\<close>

text \<open>
  The reply channel of an entry, and what serving a list of entries does to the store of reply
  channels: every reply channel gets one result more, no other channel changes.
\<close>

fun reply_ch :: "('f, 'q, 'err, 'k) invokable \<Rightarrow> nat option" where
  "reply_ch (Invoke _ _ _ ch _) = ch"
| "reply_ch _ = None"

definition reply_chs :: "('f, 'q, 'err, 'k) invokable list \<Rightarrow> nat list" where
  "reply_chs xs = List.map_filter reply_ch xs"

lemma reply_chs_simps [simp]:
  "reply_chs [] = []"
  "reply_chs (x # xs) = (case reply_ch x of None \<Rightarrow> reply_chs xs | Some c \<Rightarrow> c # reply_chs xs)"
  "reply_chs (xs @ ys) = reply_chs xs @ reply_chs ys"
  by (simp_all add: reply_chs_def List.map_filter_def split: option.splits)

definition unanswered :: "('r, 'err, 'w) mach \<Rightarrow> nat set \<Rightarrow> bool" where
  "unanswered m cs \<longleftrightarrow> (\<forall>c\<in>cs. items (chans m c) = [] \<and> capacity (chans m c) = 1 \<and> \<not> chan_closed (chans m c))"

definition answered :: "nat set \<Rightarrow> ('r, 'err, 'w) mach \<Rightarrow> ('r, 'err, 'w) mach \<Rightarrow> bool" where
  "answered cs m m' \<longleftrightarrow>
     (\<forall>c\<in>cs. length (items (chans m' c)) = 1 \<and> \<not> chan_closed (chans m' c)) \<and>
     (\<forall>c. c \<notin> cs \<longrightarrow> chans m' c = chans m c)"

lemma answered_empty: "chans m' = chans m \<Longrightarrow> answered {} m m'"
  by (simp add: answered_def)

lemma answered_trans:
  "answered cs m m' \<Longrightarrow> answered ds m' m'' \<Longrightarrow> answered (cs \<union> ds) m m''"
  by (auto simp: answered_def)

lemma answered_unanswered:
  "answered cs m m' \<Longrightarrow> unanswered m ds \<Longrightarrow> cs \<inter> ds = {} \<Longrightarrow> unanswered m' ds"
  by (auto simp: answered_def unanswered_def)

lemma unanswered_cong: "chans m' = chans m \<Longrightarrow> unanswered m' cs = unanswered m cs"
  by (simp add: unanswered_def)

lemma answered_cong: "chans m1 = chans m \<Longrightarrow> chans m2 = chans m' \<Longrightarrow> answered cs m1 m2 = answered cs m m'"
  by (simp add: answered_def)

lemma put_opt_answered:
  assumes "unanswered m (set_option ch)"
  shows "\<exists>m'. put_opt ch r m = Ok m' \<and> answered (set_option ch) m m'"
  using assms by (cases ch)
    (auto simp: put_opt_def put_result_def chan_send_def unanswered_def answered_def)

lemma refuse_answered:
  "unanswered m (set_option (reply_ch x)) \<Longrightarrow>
     \<exists>m'. refuse i x m = Ok m' \<and> answered (set_option (reply_ch x)) m m'"
  by (cases x) (auto intro: put_opt_answered answered_empty)

lemma Fail_answered:
  "unanswered m (set_option (reply_ch x)) \<Longrightarrow>
     \<exists>m'. Fail e x m = Ok m' \<and> answered (set_option (reply_ch x)) m m'"
  by (cases x) (auto intro: put_opt_answered answered_empty)

lemma timer_Invoke_chans: "timer_Invoke env st c m = (c', m') \<Longrightarrow> chans m' = chans m"
  by (auto simp: timer_Invoke_def Let_def split: option.splits callback.splits prod.splits if_splits)

lemma Invoke_msg_answered:
  assumes "unanswered m (set_option (reply_ch x))"
  shows "(\<exists>m' c'. Invoke_msg env x sp c m = RNormal m' c' \<and> answered (set_option (reply_ch x)) m m') \<or>
         (\<exists>m' c' e. Invoke_msg env x sp c m = RPanic m' c' e \<and> chans m' = chans m)"
proof (cases x)
  case (Invoke f h q ch cl)
  show ?thesis
  proof (cases "run_fn env (fn h) (world m) (c\<lparr>ctrl := invokeLogger f (ctrl c)\<rparr>) q sp")
    case (HReturn c1 w1 rep err)
    have "unanswered (m\<lparr>world := w1\<rparr>) (set_option ch)"
      using assms by (simp add: Invoke unanswered_def)
    from put_opt_answered [OF this, of "\<lparr>Rep = rep, Err = err\<rparr>"] obtain m' where
      "put_opt ch \<lparr>Rep = rep, Err = err\<rparr> (m\<lparr>world := w1\<rparr>) = Ok m'"
      "answered (set_option ch) (m\<lparr>world := w1\<rparr>) m'" by blast
    with HReturn show ?thesis by (simp add: Invoke invoke_Invoke_def answered_def)
  next
    case (HPanic c1 w1 e)
    then show ?thesis by (simp add: Invoke invoke_Invoke_def)
  qed
next
  case (TimerInvoke st)
  obtain c' m' where "timer_Invoke env st c m = (c', m')" by fastforce
  with timer_Invoke_chans [OF this] TimerInvoke show ?thesis by (simp add: answered_empty)
qed (simp_all add: answered_empty)

lemma msg_step_answered:
  assumes "unanswered m (set_option (reply_ch x))"
  shows "(\<exists>m' ctx' p'. msg_step env x m ctx p = SNext m' ctx' p' \<and> answered (set_option (reply_ch x)) m m') \<or>
         (\<exists>m' c p' e. msg_step env x m ctx p = SPanic m' (Some c) p' e \<and> chans m' = chans m)"
proof (cases "allowed (ctx = None) x")
  case False
  with refuse_answered [OF assms, of "self env"] show ?thesis by (auto simp: msg_step_def Let_def)
next
  case True
  let ?c0 = "case ctx of None \<Rightarrow> newActorContext env | Some c \<Rightarrow> c"
  let ?h = "if ctx = None then spawn_hook env ?c0 (world m) else HReturn ?c0 (world m) None None"
  have un: "unanswered (m\<lparr>world := w\<rparr>) (set_option (reply_ch x))" for w
    using assms by (simp add: unanswered_def)
  show ?thesis
  proof (cases ?h)
    case (HPanic c1 w1 e1)
    with True show ?thesis by (simp add: msg_step_def Let_def)
  next
    case (HReturn c1 w1 rep eo)
    show ?thesis
    proof (cases eo)
      case (Some err)
      let ?m1 = "m\<lparr>world := ctx_clear env c1 w1\<rparr>"
      from Fail_answered [OF un] obtain m2 where
        "Fail err x ?m1 = Ok m2" "answered (set_option (reply_ch x)) ?m1 m2" by auto
      moreover from this(2) have "answered (set_option (reply_ch x)) m m2" by (simp add: answered_def)
      ultimately show ?thesis using HReturn Some True by (simp add: msg_step_def Let_def)
    next
      case None
      have eq: "msg_step env x m ctx p =
          (case Invoke_msg env x (ctx = None) c1 (m\<lparr>world := w1\<rparr>) of
             RBlocks \<Rightarrow> SBlocks
           | RPanic m2 c2 e \<Rightarrow> SPanic m2 (Some c2) (active (ctrl ?c0)) e
           | RNormal m2 c2 \<Rightarrow>
               let m3 = settle (active (ctrl ?c0)) (active (ctrl c2)) m2
               in if active (ctrl c2) then SNext m3 (Some c2) (active (ctrl ?c0))
                  else SNext (m3\<lparr>world := ctx_clear env c2 (world m3)\<rparr>) None (active (ctrl ?c0)))"
        unfolding msg_step_def Let_def
        by (simp only: True not_True_eq_False if_False HReturn None outcome.case option.case)
      from Invoke_msg_answered [OF un [of w1], of env "ctx = None" c1]
      consider m2 c2 where "Invoke_msg env x (ctx = None) c1 (m\<lparr>world := w1\<rparr>) = RNormal m2 c2"
          "answered (set_option (reply_ch x)) (m\<lparr>world := w1\<rparr>) m2"
        | m2 c2 e where "Invoke_msg env x (ctx = None) c1 (m\<lparr>world := w1\<rparr>) = RPanic m2 c2 e"
          "chans m2 = chans m" by auto
      then show ?thesis
      proof cases
        case 1
        from 1(2) have "answered (set_option (reply_ch x)) m m2" by (simp add: answered_def)
        then show ?thesis unfolding eq 1(1) by (simp add: Let_def answered_def)
      next
        case 2
        then show ?thesis unfolding eq 2(1) by simp
      qed
    qed
  qed
qed

text \<open>A batch answers the entries it has consumed; the entry replaced by its recovery is one of them.\<close>

lemma reply_ch_replacement [simp]: "reply_ch (replacement env x e) = None"
  by (simp add: replacement_def split: option.splits)

lemma invokeBatch_answered:
  assumes "distinct (reply_chs xs)" "unanswered m (set (reply_chs xs))"
  shows "(\<exists>m' ctx'. invokeBatch env xs m ctx p = BDone m' ctx' \<and> answered (set (reply_chs xs)) m m') \<or>
         (\<exists>m' c rest cs. invokeBatch env xs m ctx p = BPanic m' c rest \<and> answered cs m m' \<and>
            cs \<inter> set (reply_chs rest) = {} \<and> cs \<union> set (reply_chs rest) = set (reply_chs xs) \<and>
            distinct (reply_chs rest))"
  using assms
proof (induction xs arbitrary: m ctx p)
  case Nil
  then show ?case by (simp add: answered_empty)
next
  case (Cons x xs)
  let ?cx = "set_option (reply_ch x)"
  have sets: "set (reply_chs (x # xs)) = ?cx \<union> set (reply_chs xs)" "?cx \<inter> set (reply_chs xs) = {}"
    "distinct (reply_chs xs)"
    using Cons.prems(1) by (auto split: option.splits)
  have ux: "unanswered m ?cx" and uxs: "unanswered m (set (reply_chs xs))"
    using Cons.prems(2) unfolding sets(1) by (auto simp: unanswered_def)
  from msg_step_answered [OF ux, of env ctx p] show ?case
  proof (elim disjE exE conjE)
    fix m1 ctx1 p1 assume st: "msg_step env x m ctx p = SNext m1 ctx1 p1" and a: "answered ?cx m m1"
    have "unanswered m1 (set (reply_chs xs))" using answered_unanswered [OF a uxs sets(2)] .
    from Cons.IH [OF sets(3) this, of ctx1 p1] show ?thesis
    proof (elim disjE exE conjE)
      fix m' ctx' assume "invokeBatch env xs m1 ctx1 p1 = BDone m' ctx'" "answered (set (reply_chs xs)) m1 m'"
      with answered_trans [OF a] st show ?thesis unfolding sets(1) by simp
    next
      fix m' c rest cs
      assume b: "invokeBatch env xs m1 ctx1 p1 = BPanic m' c rest" "answered cs m1 m'"
        "cs \<inter> set (reply_chs rest) = {}" "cs \<union> set (reply_chs rest) = set (reply_chs xs)" "distinct (reply_chs rest)"
      have "answered (?cx \<union> cs) m m'" using answered_trans [OF a b(2)] .
      moreover have "(?cx \<union> cs) \<inter> set (reply_chs rest) = {}" "?cx \<union> cs \<union> set (reply_chs rest) = set (reply_chs (x # xs))"
        using b(3,4) sets(1,2) by blast+
      ultimately show ?thesis using st b(1,5) by (intro disjI2 exI [of _ m'] exI [of _ c] exI [of _ rest] exI [of _ "?cx \<union> cs"]) simp
    qed
  next
    fix m1 c p1 e assume st: "msg_step env x m ctx p = SPanic m1 (Some c) p1 e" and ch: "chans m1 = chans m"
    let ?m2 = "settle p1 (active (ctrl c)) m1"
    have "unanswered ?m2 ?cx" using ux ch by (simp add: unanswered_def)
    from Fail_answered [OF this, of "HandlerCallError (self env) [] e"] obtain m3 where
      f: "Fail (HandlerCallError (self env) [] e) x ?m2 = Ok m3" and a: "answered ?cx ?m2 m3" by blast
    from a ch have "answered ?cx m m3" by (simp add: answered_def)
    moreover have "invokeBatch env (x # xs) m ctx p = BPanic m3 c (replacement env x e # xs)"
      using st f by (simp add: recover_panic_def)
    ultimately show ?thesis using sets
      by (intro disjI2 exI [of _ m3] exI [of _ c] exI [of _ "replacement env x e # xs"] exI [of _ ?cx]) simp
  qed
qed

lemma drain_buf_answered:
  assumes "distinct (reply_chs xs)" "unanswered m (set (reply_chs xs))"
  shows "drain_buf env cl n fuel xs m ctx = DFuel \<or>
         (\<exists>m' ctx'. drain_buf env cl n fuel xs m ctx = DDone m' ctx' \<and> answered (set (reply_chs xs)) m m') \<or>
         (\<exists>m' ctx' rest cs. drain_buf env cl n fuel xs m ctx = DClosed m' ctx' rest \<and> answered cs m m' \<and>
            cs \<inter> set (reply_chs rest) = {} \<and> cs \<union> set (reply_chs rest) = set (reply_chs xs) \<and>
            distinct (reply_chs rest))"
  using assms
proof (induction env cl n fuel xs m ctx rule: drain_buf.induct)
  case (1 env cl n fuel m ctx)
  then show ?case by (simp add: answered_empty)
next
  case (3 env cl n fuel x xs m ctx)
  let ?xs = "x # xs"
  show ?case
  proof (cases "cl n")
    case True
    with "3.prems" show ?thesis
      by (intro disjI2 exI [of _ m] exI [of _ ctx] exI [of _ ?xs] exI [of _ "{}"]) (simp add: answered_empty)
  next
    case False
    from invokeBatch_answered [OF "3.prems", of env ctx False] show ?thesis
    proof (elim disjE exE conjE)
      fix m' ctx' assume "invokeBatch env ?xs m ctx False = BDone m' ctx'" "answered (set (reply_chs ?xs)) m m'"
      then show ?thesis unfolding drain_buf.simps(3) using False by (simp del: reply_chs_simps)
    next
      fix m' c rest cs
      assume b: "invokeBatch env ?xs m ctx False = BPanic m' c rest" "answered cs m m'"
        "cs \<inter> set (reply_chs rest) = {}" "cs \<union> set (reply_chs rest) = set (reply_chs ?xs)" "distinct (reply_chs rest)"
      have eq: "drain_buf env cl n (Suc fuel) ?xs m ctx = drain_buf env cl (Suc n) fuel rest m' (Some c)"
        unfolding drain_buf.simps(3) b(1) using False by simp
      have "unanswered m (set (reply_chs rest))" using "3.prems"(2) b(4) by (auto simp: unanswered_def)
      from answered_unanswered [OF b(2) this b(3)]
      have u: "unanswered m' (set (reply_chs rest))" .
      from "3.IH" [OF False b(1) b(5) u] show ?thesis
      proof (elim disjE exE conjE)
        fix m2 ctx2 assume "drain_buf env cl (Suc n) fuel rest m' (Some c) = DDone m2 ctx2" "answered (set (reply_chs rest)) m' m2"
        with answered_trans [OF b(2)] show ?thesis using b(4) unfolding eq by metis
      next
        fix m2 ctx2 rest2 ds
        assume d: "drain_buf env cl (Suc n) fuel rest m' (Some c) = DClosed m2 ctx2 rest2" "answered ds m' m2"
          "ds \<inter> set (reply_chs rest2) = {}" "ds \<union> set (reply_chs rest2) = set (reply_chs rest)" "distinct (reply_chs rest2)"
        have "(cs \<union> ds) \<inter> set (reply_chs rest2) = {}" "cs \<union> ds \<union> set (reply_chs rest2) = set (reply_chs ?xs)"
          using b(3,4) d(3,4) by blast+
        with answered_trans [OF b(2) d(2)] d(1,5) show ?thesis unfolding eq by blast
      qed (simp only: eq simp_thms)
    qed
  qed
qed simp

text \<open>
  The messages a run takes: its buffer and what each round yields until it ends, and then what the
  mailbox still holds.
\<close>

fun taken ::
  "('a, 'f, 'q, 'e, 's, 'w, 'k, 'r) env \<Rightarrow> ('f, 'q, ('a, 'e) goerr, 'k) invokable round list
    \<Rightarrow> ('f, 'q, ('a, 'e) goerr, 'k) invokable list
    \<Rightarrow> ('f, 'q, ('a, 'e) goerr, 'k) invokable list \<Rightarrow> ('r, ('a, 'e) goerr, 'w) mach
    \<Rightarrow> ('a, ('q, ('a, 'e) goerr) request, 's, 'w, 'k) ActorContext option
    \<Rightarrow> ('f, 'q, ('a, 'e) goerr, 'k) invokable list" where
  "taken env [] late buf m ctx = buf"
| "taken env (r # rs) late buf m ctx =
     (if closedTop r then buf @ late
      else if buf @ arrivals r = [] then late
      else case drain_all env (closedAt r) (buf @ arrivals r) m ctx of
             DDone m' ctx' \<Rightarrow>
               (if ctx' \<noteq> None \<or> quitClosed r \<or> quitHeld r
                then buf @ arrivals r @ taken env rs late [] m' ctx'
                else if quitArrivals r \<noteq> []
                then buf @ arrivals r @ taken env rs late (quitArrivals r) m' ctx'
                else buf @ arrivals r @ late)
           | _ \<Rightarrow> buf @ arrivals r @ late)"

lemma fail_all_answered:
  assumes "distinct (reply_chs xs)" "unanswered m (set (reply_chs xs))"
  shows "\<exists>m'. fail_all e xs m = Ok m' \<and> answered (set (reply_chs xs)) m m'"
  using assms
proof (induction xs arbitrary: m)
  case (Cons x xs)
  let ?cx = "set_option (reply_ch x)"
  have sets: "set (reply_chs (x # xs)) = ?cx \<union> set (reply_chs xs)" "?cx \<inter> set (reply_chs xs) = {}"
    "distinct (reply_chs xs)"
    using Cons.prems(1) by (auto split: option.splits)
  have ux: "unanswered m ?cx" and uxs: "unanswered m (set (reply_chs xs))"
    using Cons.prems(2) unfolding sets(1) by (auto simp: unanswered_def)
  from Fail_answered [OF ux, of e] obtain m1 where f: "Fail e x m = Ok m1" "answered ?cx m m1" by blast
  from Cons.IH [OF sets(3) answered_unanswered [OF f(2) uxs sets(2)]] obtain m2 where
    "fail_all e xs m1 = Ok m2" "answered (set (reply_chs xs)) m1 m2" by blast
  with f answered_trans [OF f(2)] show ?case unfolding sets(1) by simp
qed (simp add: answered_empty)

lemma run_exit_answered:
  assumes "distinct (reply_chs (rest @ late))" "unanswered m (set (reply_chs (rest @ late)))"
  shows "\<exists>m'. run_exit env rest late m ctx = Ok m' \<and> answered (set (reply_chs (rest @ late))) m m'"
proof -
  let ?m1 = "case ctx of None \<Rightarrow> m\<lparr>gidle := gidle m - 1\<rparr> | Some c \<Rightarrow> m\<lparr>world := ctx_clear env c (world m)\<rparr>"
  have ch: "chans ?m1 = chans m" by (simp split: option.splits)
  with assms(2) have "unanswered ?m1 (set (reply_chs (rest @ late)))" by (simp add: unanswered_def)
  from fail_all_answered [OF assms(1) this] ch show ?thesis
    unfolding run_exit_def Let_def answered_def by metis
qed

lemma drain_all_answered:
  assumes "distinct (reply_chs xs)" "unanswered m (set (reply_chs xs))"
  obtains (all_done) m' ctx' where "drain_all env cl xs m ctx = DDone m' ctx'" "answered (set (reply_chs xs)) m m'"
  | (cut) m' ctx' rest cs where "drain_all env cl xs m ctx = DClosed m' ctx' rest" "answered cs m m'"
      "cs \<inter> set (reply_chs rest) = {}" "cs \<union> set (reply_chs rest) = set (reply_chs xs)" "distinct (reply_chs rest)"
  using drain_buf_answered [OF assms, of env cl 0 "2 * length xs + 1" ctx] drain_all_no_fuel [of env cl xs m ctx]
  unfolding drain_all_def by blast

text \<open>What a run has done to the reply channels when it is looked at.\<close>

definition served ::
  "nat list \<Rightarrow> ('r, 'err, 'w) mach
    \<Rightarrow> (('r, 'err, 'w) mach, 'c, ('f, 'q, 'err, 'k) invokable) run_state \<Rightarrow> bool" where
  "served cs m st =
     (case st of
        Exited eff \<Rightarrow> (\<exists>m'. eff = Ok m' \<and> answered (set cs) m m')
      | Running m' ctx buf \<Rightarrow> answered (set cs - set (reply_chs buf)) m m'
      | _ \<Rightarrow> False)"

lemma served_step:
  assumes "answered (set as) m m1" "served bs m1 st" "set as \<inter> set bs = {}"
    and "\<forall>m' ctx buf. st = Running m' ctx buf \<longrightarrow> set (reply_chs buf) \<subseteq> set bs"
  shows "served (as @ bs) m st"
proof (cases st)
  case (Running m' ctx buf)
  with assms(2) have "answered (set bs - set (reply_chs buf)) m1 m'" by (simp add: served_def)
  from answered_trans [OF assms(1) this] have "answered (set as \<union> (set bs - set (reply_chs buf))) m m'" .
  moreover have "set as \<union> (set bs - set (reply_chs buf)) = set (as @ bs) - set (reply_chs buf)"
    using assms(3,4) Running by auto
  ultimately show ?thesis by (simp add: served_def Running)
qed (use assms(1,2) answered_trans in \<open>auto simp: served_def\<close>)

lemma run_Running_taken:
  "run env rs late buf m ctx = Running m' ctx' buf' \<Longrightarrow> set (reply_chs buf') \<subseteq> set (reply_chs (taken env rs late buf m ctx))"
  by (induction env rs late buf m ctx rule: run.induct) (auto split: if_splits drained.splits)

lemma served_cut:
  assumes "answered cs m m'" "cs \<inter> set (reply_chs rest) = {}" "cs \<union> set (reply_chs rest) = set (reply_chs b)"
    "distinct (reply_chs rest)"
    and d: "distinct (reply_chs (b @ late))" and u: "unanswered m (set (reply_chs (b @ late)))"
  shows "served (reply_chs (b @ late)) m (Exited (run_exit env rest late m' ctx))"
proof -
  have d': "distinct (reply_chs (rest @ late))" using d assms(3,4) by auto
  have all: "cs \<union> set (reply_chs (rest @ late)) = set (reply_chs (b @ late))" using assms(3) by auto
  then have "unanswered m (set (reply_chs (rest @ late)))" using u by (auto simp: unanswered_def)
  moreover have "cs \<inter> set (reply_chs (rest @ late)) = {}" using d assms(2,3) by auto
  ultimately have "unanswered m' (set (reply_chs (rest @ late)))"
    using answered_unanswered [OF assms(1)] by blast
  from run_exit_answered [OF d' this, of env ctx] obtain m2 where
    "run_exit env rest late m' ctx = Ok m2" "answered (set (reply_chs (rest @ late))) m' m2" by blast
  with answered_trans [OF assms(1) this(2)] show ?thesis by (simp add: served_def all del: reply_chs_simps)
qed

text \<open>Appending a served prefix, in the form the three continuations of a drained round need.\<close>

lemma served_continue:
  assumes b: "answered (set (reply_chs b)) m m'"
    and d: "distinct (reply_chs (b @ ys))" and u: "unanswered m (set (reply_chs (b @ ys)))"
    and rest: "distinct (reply_chs ys) \<Longrightarrow> unanswered m' (set (reply_chs ys)) \<Longrightarrow> served (reply_chs ys) m' st"
    and sub: "\<And>m'' c b'. st = Running m'' c b' \<Longrightarrow> set (reply_chs b') \<subseteq> set (reply_chs ys)"
  shows "served (reply_chs (b @ ys)) m st"
proof -
  have disj: "set (reply_chs b) \<inter> set (reply_chs ys) = {}" using d by auto
  have "unanswered m (set (reply_chs ys))" using u by (auto simp: unanswered_def)
  from rest [OF _ answered_unanswered [OF b this disj]] d have "served (reply_chs ys) m' st" by simp
  from served_step [OF b this disj] sub show ?thesis by simp
qed

lemma run_served:
  assumes "distinct (reply_chs (taken env rs late buf m ctx))"
    and "unanswered m (set (reply_chs (taken env rs late buf m ctx)))"
  shows "served (reply_chs (taken env rs late buf m ctx)) m (run env rs late buf m ctx)"
  using assms
proof (induction env rs late buf m ctx rule: run.induct)
  case (1 env late buf m ctx)
  then show ?case by (simp add: served_def answered_empty)
next
  case (2 env r rs late buf m ctx)
  let ?b = "buf @ arrivals r" and ?t = "taken env (r # rs) late buf m ctx" and ?run = "run env (r # rs) late buf m ctx"
  note prems = "2.prems"
  show ?case
  proof (cases "closedTop r \<or> ?b = []")
    case True
    then have "?run = Exited (run_exit env buf late m ctx)" "?t = buf @ late" by auto
    with run_exit_answered [of buf late m env ctx] prems show ?thesis
      by (simp add: served_def del: run.simps taken.simps)
  next
    case False
    then have c1: "\<not> closedTop r" and c2: "\<not> ?b = []" by simp_all
    have "\<exists>ys. ?t = ?b @ ys" using False by (auto split: drained.splits)
    then have "distinct (reply_chs ?b)" and "unanswered m (set (reply_chs ?b))"
      using prems by (auto simp: unanswered_def simp del: taken.simps)
    then show ?thesis
    proof (cases rule: drain_all_answered [where env = env and cl = "closedAt r" and ctx = ctx])
      case (cut m' ctx' rest cs)
      have t: "?t = ?b @ late" and rn: "?run = Exited (run_exit env rest late m' ctx')"
        using False cut(1) by auto
      from served_cut [OF cut(2-5)] prems show ?thesis unfolding t rn by blast
    next
      case (all_done m' ctx')
      let ?stay = "ctx' \<noteq> None \<or> quitClosed r \<or> quitHeld r"
      consider (stay) ?stay | (more) "\<not> ?stay" "quitArrivals r \<noteq> []"
        | (quit) "\<not> ?stay" "quitArrivals r = []" by blast
      then show ?thesis
      proof cases
        case stay
        with False all_done(1) have rn: "?run = run env rs late [] m' ctx'"
          and t: "?t = ?b @ taken env rs late [] m' ctx'" by auto
        from prems served_continue [OF all_done(2) _ _ "2.IH"(1) [OF c1 c2 all_done(1) stay]] run_Running_taken
        show ?thesis unfolding rn t by blast
      next
        case more
        with False all_done(1) have rn: "?run = run env rs late (quitArrivals r) m' ctx'"
          and t: "?t = ?b @ taken env rs late (quitArrivals r) m' ctx'" by auto
        from prems served_continue [OF all_done(2) _ _ "2.IH"(2) [OF c1 c2 all_done(1) more]] run_Running_taken
        show ?thesis unfolding rn t by blast
      next
        case quit
        with False all_done(1) have rn: "?run = Exited (run_exit env [] late m' None)"
          and t: "?t = ?b @ late" by auto
        from prems show ?thesis unfolding rn t
          by (rule served_continue [OF all_done(2)])
            (use run_exit_answered [of "[]" late m' env None] in \<open>simp_all add: served_def\<close>)
      qed
    qed
  qed
qed

subsection \<open>When the idle counter is restored exactly\<close>

text \<open>
  Between two messages an activation is either gone or active, unless the last message panicked.
\<close>

definition settled :: "('a, 'q, 's, 'w, 'k) ActorContext option \<Rightarrow> bool" where
  "settled ctx = (case ctx of None \<Rightarrow> True | Some c \<Rightarrow> active (ctrl c))"

definition panic_served :: "('a, 'f, 'q, 'e, 's, 'w, 'k, 'r) env \<Rightarrow> bool" where
  "panic_served env = (case panicHandler env of None \<Rightarrow> True | Some h \<Rightarrow> allow_query h)"

lemma msg_step_settled:
  "msg_step env x m ctx p = SNext m' ctx' p' \<Longrightarrow> settled ctx \<or> allowed (ctx = None) x \<Longrightarrow> settled ctx'"
  by (auto simp: msg_step_def Let_def settled_def
      split: if_splits effect.splits outcome.splits option.splits run_result.splits)

lemma replacement_allowed: "panic_served env \<Longrightarrow> allowed False (replacement env x e)"
  by (simp add: panic_served_def replacement_def split: option.splits)

lemma invokeBatch_settled:
  "settled ctx \<or> (\<exists>x ys. xs = x # ys \<and> allowed (ctx = None) x) \<Longrightarrow>
     invokeBatch env xs m ctx p = BDone m' ctx' \<Longrightarrow> settled ctx'"
proof (induction xs arbitrary: m ctx p)
  case (Cons x xs)
  from Cons.prems(2) obtain m1 ctx1 p1 where st: "msg_step env x m ctx p = SNext m1 ctx1 p1"
    and "invokeBatch env xs m1 ctx1 p1 = BDone m' ctx'"
    by (auto split: step.splits recovery.splits)
  with Cons.IH [of ctx1 m1 p1] msg_step_settled [OF st] Cons.prems(1) show ?case by auto
qed simp

lemma invokeBatch_rest:
  "invokeBatch env xs m ctx p = BPanic m' c rest \<Longrightarrow> \<exists>x e ys. rest = replacement env x e # ys"
proof (induction xs arbitrary: m ctx p)
  case (Cons x xs)
  then show ?case
    by (auto split: step.splits recovery.splits dest!: recover_panic_Recovered(2))
qed simp

lemma drain_buf_settled:
  assumes "panic_served env" "\<forall>k>0. \<not> cl k"
    and "n = 0 \<and> settled ctx \<or> settled ctx \<or> 0 < n \<and> (\<exists>x ys. xs = x # ys \<and> allowed (ctx = None) x)"
  shows "(\<forall>m' ctx'. drain_buf env cl n fuel xs m ctx = DDone m' ctx' \<longrightarrow> settled ctx') \<and>
         (\<forall>m' ctx' r. drain_buf env cl n fuel xs m ctx = DClosed m' ctx' r \<longrightarrow> settled ctx')"
  using assms
proof (induction env cl n fuel xs m ctx rule: drain_buf.induct)
  case (3 env cl n fuel x xs m ctx)
  show ?case
  proof (cases "cl n")
    case True
    with "3.prems" have "settled ctx" by auto
    with True show ?thesis by simp
  next
    case False
    show ?thesis
    proof (cases "invokeBatch env (x # xs) m ctx False")
      case (BPanic m' c rest)
      from invokeBatch_rest [OF BPanic] replacement_allowed [OF "3.prems"(1)]
      have "\<exists>x ys. rest = x # ys \<and> allowed (Some c = None) x" by auto
      with "3.IH" [OF False BPanic] "3.prems"(1,2) show ?thesis
        unfolding drain_buf.simps(3) BPanic using False by simp
    next
      case (BDone m' ctx')
      with invokeBatch_settled [OF _ BDone] "3.prems"(3) have "settled ctx'" by blast
      then show ?thesis unfolding drain_buf.simps(3) BDone using False by simp
    qed (use False in \<open>simp_all del: invokeBatch.simps\<close>)
  qed
qed auto

lemma run_exit_settled:
  "run_exit env rest late m ctx = Ok m' \<Longrightarrow> settled ctx \<Longrightarrow> gidle m' = balance m ctx"
  by (auto simp: settled_def dest!: run_exit_gidle split: option.splits)

lemma run_gidle_settled:
  assumes "panic_served env" "settled ctx" "\<forall>r\<in>set rs. \<forall>k>0. \<not> closedAt r k"
    and "run env rs late buf m ctx = Exited (Ok m')"
  shows "gidle m' = balance m ctx"
  using assms
proof (induction env rs late buf m ctx rule: run.induct)
  case (2 env r rs late buf m ctx)
  show ?case
  proof (cases "closedTop r \<or> buf @ arrivals r = []")
    case True
    with "2.prems" show ?thesis by (auto dest!: run_exit_settled split: if_splits)
  next
    case False
    have cl: "\<forall>k>0. \<not> closedAt r k" using "2.prems"(3) by simp
    note st = drain_buf_settled [OF "2.prems"(1) cl, of 0 ctx "buf @ arrivals r"
        "2 * length (buf @ arrivals r) + 1" m, folded drain_all_def]
    show ?thesis
    proof (cases "drain_all env (closedAt r) (buf @ arrivals r) m ctx")
      case (DDone m1 ctx1)
      with st "2.prems"(2) have s1: "settled ctx1" by auto
      from False "2.prems" DDone s1 drain_all_balance(1) [OF DDone] show ?thesis
        using "2.IH"(1) [of m1 ctx1] "2.IH"(2) [of m1 ctx1]
        by (auto dest!: run_exit_settled simp: settled_def split: if_splits)
    next
      case (DClosed m1 ctx1 rest)
      with st "2.prems"(2) have s1: "settled ctx1" by auto
      from False "2.prems" DClosed s1 drain_all_balance(2) [OF DClosed] show ?thesis
        by (auto dest!: run_exit_settled split: if_splits)
    qed (use False "2.prems" in auto)
  qed
qed simp

subsection \<open>A concrete actor for the witnesses\<close>

text \<open>
  An actor with four handlers: 0 opens it and replies with its state, 1 panics, 2 quits it and
  returns an error, 3 replies without opening it.
\<close>

type_synonym demo_ctx = "(nat, (nat, (nat, unit) goerr) request, nat, nat list, unit) ActorContext"

definition demo_fn ::
  "nat \<Rightarrow> nat list \<Rightarrow> demo_ctx \<Rightarrow> (nat, (nat, unit) goerr) request \<Rightarrow> bool
    \<Rightarrow> (demo_ctx, nat list, nat, (nat, unit) goerr) outcome" where
  "demo_fn f w c q sp =
     (if f = 0 then HReturn (c\<lparr>ctrl := Open (ctrl c)\<rparr>) (w @ [f]) (Some (state c)) None
      else if f = 1 then HPanic c (w @ [f]) None
      else if f = 2 then HReturn (c\<lparr>ctrl := Quit (ctrl c)\<rparr>) (w @ [f]) None (Some (UserErr ()))
      else HReturn c (w @ [f]) (Some (state c)) None)"

definition demo_env :: "(nat, nat, nat, unit, nat, nat list, unit, nat) env" where
  "demo_env =
     \<lparr>ops = \<lparr>ActorType = (\<lambda>_. ''demo''), IdString = nat_dec\<rparr>, self = 1, zeroState = 5,
      run_fn = demo_fn, run_cb = (\<lambda>_ w c. (c, w)), onSpawn = None, panicHandler = None,
      fpostOp = (\<lambda>w f i q. (None, w))\<rparr>"

definition demo_call :: "nat \<Rightarrow> nat \<Rightarrow> (nat, nat, (nat, unit) goerr, unit) invokable" where
  "demo_call f c =
     Invoke (OriginFrom ''mgr.1'') \<lparr>reqType = ''t'', allow_spawn = True, allow_query = True, fn = f\<rparr>
       (UserReq ''t'' 0) (Some c) False"

definition demo_mach :: "int \<Rightarrow> (nat, (nat, unit) goerr, nat list) mach" where
  "demo_mach n = \<lparr>chans = (\<lambda>_. make_chan 1), closedReps = [], gidle = n, world = []\<rparr>"

definition demo_round ::
  "bool \<Rightarrow> 'x list \<Rightarrow> (nat \<Rightarrow> bool) \<Rightarrow> 'x round" where
  "demo_round ct xs cl =
     \<lparr>closedTop = ct, arrivals = xs, closedAt = cl, quitClosed = False, quitHeld = False, quitArrivals = []\<rparr>"

definition demo_rounds :: "(nat, nat, (nat, unit) goerr, unit) invokable round list" where
  "demo_rounds = [demo_round False [demo_call 0 1, demo_call 1 2, demo_call 2 3] (\<lambda>_. False)]"

lemmas demo_defs = demo_env_def demo_fn_def demo_call_def demo_mach_def demo_round_def demo_rounds_def

subsection \<open>Properties of the goroutine\<close>





text \<open>C3: The message loop ends. Recovering from a panic puts a message back at the head of the
  buffer, but twice the number of messages plus one calls of \<open>invokeBatch\<close> are always enough,
  so a panicking handler cannot keep the goroutine in its inner loop.\<close>

theorem inner_loop_terminates: "drain_all env cl buf m ctx \<noteq> DFuel"
  by (rule drain_all_no_fuel)

text \<open>C4: A cancelled \<open>SafeCall\<close> can kill the process. When the caller has closed the reply channel
  and the handler then returns an error without a reply, the send on the closed channel panics,
  and the recovery sends on the same closed channel inside the deferred function.\<close>

theorem cancelled_safe_call_crashes:
  assumes "chan_closed (chans m c)" "allow_query h"
    and "run_fn env (fn h) (world m) (a\<lparr>ctrl := invokeLogger f (ctrl a)\<rparr>) q False = HReturn a' w' None (Some e)"
  shows "drain_all env (\<lambda>_. False) (Invoke f h q (Some c) True # xs) m (Some a) = DCrash"
proof -
  have "chan_send r (chans m c) = PanicSend" for r using assms(1) by (simp add: chan_send_def)
  then have st: "msg_step env (Invoke f h q (Some c) True) m (Some a) False =
      SPanic (m\<lparr>world := w'\<rparr>) (Some a') (active (ctrl a)) (Some sendClosedPanic)"
    "Fail e' (Invoke f h q (Some c) True) (settle p b (m\<lparr>world := w'\<rparr>)) = Panics" for e' p b
    using assms(2,3) by (simp_all add: msg_step_def invoke_Invoke_def put_opt_def put_result_def)
  then show ?thesis by (simp add: drain_all_def recover_panic_def)
qed

theorem cancelled_safe_call_crashes_witness:
  "drain_all demo_env (\<lambda>_. False)
     [Invoke (OriginFrom ''mgr.1'') \<lparr>reqType = ''t'', allow_spawn = True, allow_query = True, fn = 2\<rparr>
        (UserReq ''t'' 0) (Some 1) True]
     ((demo_mach 0)\<lparr>chans := (\<lambda>_. \<lparr>items = [], capacity = 1, chan_closed = True\<rparr>)\<rparr>)
     (Some (newActorContext demo_env)) = DCrash"
  by (rule cancelled_safe_call_crashes) (simp_all add: demo_defs)

text \<open>The idle counter can leak. The spawn handler of a new actor panics without opening it and
  the actor is closed before the recovery message is served: the goroutine ends normally, and
  the counter keeps the actor that is gone.\<close>

theorem idle_count_leak:
  "\<exists>m'. run demo_env [demo_round False [demo_call 1 2] (\<lambda>k. k = 1)] [] [] (demo_mach 1) None
     = Exited (Ok m') \<and> gidle m' = 1"
proof -
  have "(case run demo_env [demo_round False [demo_call 1 2] (\<lambda>k. k = 1)] [] [] (demo_mach 1) None of
      Exited (Ok m) \<Rightarrow> gidle m = 1 | _ \<Rightarrow> False)" by code_simp
  then show ?thesis by (auto simp del: run.simps split: run_state.splits effect.splits)
qed

text \<open>The quit hook runs with a cancelled context. Whatever is flushed before, the hook that
  \<open>ActorContext.clear\<close> calls sees the activation's context already cancelled.\<close>

theorem quit_hook_context_cancelled:
  assumes "OnQuit (ctrl c) = Some hook"
  shows "\<exists>w1. ctx_clear env c w = snd (snd (snd (hook (True, state c, w1))))"
  using assms clear_spec(4,5) [of "fpostOp env" "ctrl c" w]
  by (auto simp: ctx_clear_def split: prod.splits)

theorem quit_hook_context_cancelled_witness:
  "\<exists>w1. ctx_clear demo_env
      ((newActorContext demo_env)\<lparr>ctrl := PushOnQuit (Some (\<lambda>(cancelled, s, w). (False, cancelled, s, w @ [s])))
         (ctrl (newActorContext demo_env))\<rparr>) [] = w1 @ [5]"
proof -
  let ?hook = "\<lambda>(cancelled, s, w). (False, cancelled, s, w @ [s])"
  let ?c = "(newActorContext demo_env)\<lparr>ctrl := PushOnQuit (Some ?hook) (ctrl (newActorContext demo_env))\<rparr>"
  have "OnQuit (ctrl ?c) = Some ?hook"
    by (simp add: PushOnQuit_def newActorContext_def newActorControl_def)
  from quit_hook_context_cancelled [OF this, of demo_env "[]"] show ?thesis
    by (simp add: newActorContext_def demo_env_def)
qed

text \<open>A refused message changes nothing but its reply. A message its handler does not allow in the
  actor's present phase runs no user code, keeps the activation and the idle counter, and its
  caller, if there is one, receives \<open>HandlerNotAllowedError\<close>.\<close>

theorem refused_message_effect:
  assumes "\<not> allowed (ctx = None) (Invoke f h q (Some c) cl)" "chans m c = make_chan 1"
  shows "\<exists>m'. msg_step env (Invoke f h q (Some c) cl) m ctx p = SNext m' ctx p \<and>
    world m' = world m \<and> gidle m' = gidle m \<and>
    items (chans m' c) = [\<lparr>Rep = None, Err = Some (HandlerNotAllowedError (self env) (reqType h))\<rparr>] \<and>
    (\<forall>d. d \<noteq> c \<longrightarrow> chans m' d = chans m d)"
  using assms by (auto simp: msg_step_def Let_def put_opt_def put_result_def chan_send_def)

theorem refused_message_effect_witness:
  "\<exists>m'. msg_step demo_env
      (Invoke (OriginFrom ''mgr.1'') \<lparr>reqType = ''t'', allow_spawn = False, allow_query = True, fn = 0\<rparr>
        (UserReq ''t'' 0) (Some 3) False) (demo_mach 1) None False = SNext m' None False \<and>
    items (chans m' 3) = [\<lparr>Rep = None, Err = Some (HandlerNotAllowedError 1 ''t'')\<rparr>]"
  using refused_message_effect [of None "OriginFrom ''mgr.1''"
      "\<lparr>reqType = ''t'', allow_spawn = False, allow_query = True, fn = 0\<rparr>" "UserReq ''t'' 0" 3 False
      "demo_mach 1" demo_env False]
  by (auto simp: demo_env_def demo_mach_def)

end
