(* ===== verification/Actor_Group.thy ===== *)
theory Actor_Group
  imports Actor_Runtime
begin

section \<open>Groups of actors\<close>

text \<open>
  \<open>actor/group.go\<close>: the table of the actors of one type, with reference counts that decide when a
  mailbox may be closed. An \<open>*actorRuntime\<close> is an address into \<open>heap\<close>, because the table, the
  goroutine and every \<open>ActorRef\<close> share the object. The table \<open>actors\<close> is an association list; its
  order is the order in which one iteration over the Go map yields the entries, and the facts
  below hold for every such order.

  Each operation is the atomic effect it has under the group's lock. Where the code gives up the lock in
  between (\<open>resolveActor\<close>), what others do meanwhile is the argument \<open>ev\<close>; the races inside
  the read-locked sections are the subject of \<open>Hold_Protocol\<close>. \<^const>\<open>None\<close> is a panic of
  the calling goroutine. The 32-bit counters are unbounded integers: they count live references and
  live actors. \<open>started\<close> lists the goroutines \<open>go actor.run()\<close> has started.
\<close>

record ('a, 'm, 'h, 'o) group =
  stopping :: bool
  gcancelled :: bool
  bufMails :: nat
  registry :: "string \<rightharpoonup> 'h"
  gonSpawn :: "'o option"
  actors :: "('a \<times> nat) list"
  idle :: int
  heap :: "nat \<Rightarrow> ('a, 'm) actorRuntime"
  nextAddr :: nat
  started :: "nat list"

definition newGroup :: "('a, 'm) actorRuntime \<Rightarrow> (string \<rightharpoonup> 'h) \<Rightarrow> 'o option \<Rightarrow> nat \<Rightarrow> ('a, 'm, 'h, 'o) group" where
  "newGroup blank reg os n =
     \<lparr>stopping = False, gcancelled = False, bufMails = n, registry = reg, gonSpawn = os, actors = [],
      idle = 0, heap = (\<lambda>_. blank), nextAddr = 0, started = []\<rparr>"

definition upd :: "nat \<Rightarrow> ('a, 'm) actorRuntime \<Rightarrow> ('a, 'm, 'h, 'o) group \<Rightarrow> ('a, 'm, 'h, 'o) group" where
  "upd p a g = g\<lparr>heap := (heap g)(p := a)\<rparr>"

definition group_findHandler :: "string \<Rightarrow> ('a, 'm, 'h, 'o) group \<Rightarrow> 'h option" where
  "group_findHandler t g = registry g t"

definition isStopping :: "('a, 'm, 'h, 'o) group \<Rightarrow> bool" where
  "isStopping g = stopping g"

subsection \<open>Finding and creating actors\<close>

definition holdActor :: "'a \<Rightarrow> ('a, 'm, 'h, 'o) group \<Rightarrow> nat option \<times> ('a, 'm, 'h, 'o) group" where
  "holdActor i g =
     (case map_of (actors g) i of
        None \<Rightarrow> (None, g)
      | Some p \<Rightarrow> if closed (heap g p) then (None, g) else (Some p, upd p (hold (heap g p)) g))"

definition holdActorForRef :: "'a \<Rightarrow> ('a, 'm, 'h, 'o) group \<Rightarrow> nat option \<times> ('a, 'm, 'h, 'o) group" where
  "holdActorForRef i g =
     (case map_of (actors g) i of
        None \<Rightarrow> (None, g)
      | Some p \<Rightarrow> if closed (heap g p) then (None, g) else (Some p, upd p (hold (heap g p)) g))"

definition actorIdle :: "('a, 'm, 'h, 'o) group \<Rightarrow> ('a, 'm, 'h, 'o) group" where
  "actorIdle g = g\<lparr>idle := idle g + 1\<rparr>"

definition actorWake :: "('a, 'm, 'h, 'o) group \<Rightarrow> ('a, 'm, 'h, 'o) group" where
  "actorWake g = g\<lparr>idle := idle g - 1\<rparr>"

text \<open>
  \<open>spawnActor\<close>: the new object is allocated before the lock is taken. An old object that is closed
  but not done makes the caller wait for \<open>doneCh\<close> with the lock held (\<open>SpawnBlocks\<close>).
\<close>

datatype spawned = SpawnNil | SpawnBlocks | SpawnOld nat | SpawnNew nat

definition spawnActor :: "'a \<Rightarrow> ('a, 'm, 'h, 'o) group \<Rightarrow> spawned \<times> ('a, 'm, 'h, 'o) group" where
  "spawnActor i g =
     (let p = nextAddr g;
          g1 = (upd p ((newActor i (bufMails g))\<lparr>holder := 2\<rparr>) g)\<lparr>nextAddr := Suc p\<rparr>;
          insert = (SpawnNew p, actorIdle (g1\<lparr>actors := AList.update i p (actors g1)\<rparr>))
      in if isStopping g1 then (SpawnNil, g1)
         else case map_of (actors g1) i of
                None \<Rightarrow> insert
              | Some old \<Rightarrow>
                  if closed (heap g1 old)
                  then (if doneCh (heap g1 old) then insert else (SpawnBlocks, g1))
                  else (SpawnOld old, upd old (hold (heap g1 old)) g1))"

text \<open>\<open>ResolveNil\<close> is the pair \<open>(nil, nil)\<close>.\<close>

datatype ('a, 'e) resolved = Resolved nat | ResolveErr "('a, 'e) goerr" | ResolveNil | ResolveBlocks

definition resolveActor ::
  "(('a, 'm, 'h, 'o) group \<Rightarrow> ('a, 'm, 'h, 'o) group) \<Rightarrow> 'a \<Rightarrow> bool \<Rightarrow> ('a, 'm, 'h, 'o) group
    \<Rightarrow> ('a, 'e) resolved \<times> ('a, 'm, 'h, 'o) group" where
  "resolveActor ev i allow g =
     (if isStopping g then (ResolveErr (GroupClosedError (Some i)), g)
      else case holdActor i (ev g) of
             (Some p, g1) \<Rightarrow> (Resolved p, g1)
           | (None, g1) \<Rightarrow>
               if \<not> allow then (ResolveErr (ActorNotFoundError i), g1)
               else (case spawnActor i (ev g1) of
                       (SpawnNew p, g2) \<Rightarrow> (Resolved p, g2\<lparr>started := started g2 @ [p]\<rparr>)
                     | (SpawnOld p, g2) \<Rightarrow> (Resolved p, g2)
                     | (SpawnNil, g2) \<Rightarrow> (ResolveNil, g2)
                     | (SpawnBlocks, g2) \<Rightarrow> (ResolveBlocks, g2)))"

fun holdActors :: "'a list \<Rightarrow> ('a, 'm, 'h, 'o) group \<Rightarrow> nat list \<times> 'a list \<times> ('a, 'm, 'h, 'o) group" where
  "holdActors [] g = ([], [], g)"
| "holdActors (i # ids) g =
     (case map_of (actors g) i of
        Some p \<Rightarrow>
          if \<not> closed (heap g p)
          then (let (ps, nf, g') = holdActors ids (upd p (hold (heap g p)) g) in (p # ps, nf, g'))
          else (let (ps, nf, g') = holdActors ids g in (ps, i # nf, g'))
      | None \<Rightarrow> (let (ps, nf, g') = holdActors ids g in (ps, i # nf, g')))"

fun hold_each :: "nat list \<Rightarrow> ('a, 'm, 'h, 'o) group \<Rightarrow> nat list \<times> ('a, 'm, 'h, 'o) group" where
  "hold_each [] g = ([], g)"
| "hold_each (p # ps) g =
     (if closed (heap g p) then hold_each ps g
      else let (qs, g') = hold_each ps (upd p (hold (heap g p)) g) in (p # qs, g'))"

definition holdAllActors :: "('a, 'm, 'h, 'o) group \<Rightarrow> nat list \<times> ('a, 'm, 'h, 'o) group" where
  "holdAllActors g = hold_each (map snd (actors g)) g"

subsection \<open>Using a held actor\<close>

definition unhold_at :: "nat \<Rightarrow> ('a, 'm, 'h, 'o) group \<Rightarrow> ('a, 'm, 'h, 'o) group option" where
  "unhold_at p g = map_option (\<lambda>a. upd p a g) (unhold (heap g p))"

fun unhold_all :: "nat list \<Rightarrow> ('a, 'm, 'h, 'o) group \<Rightarrow> ('a, 'm, 'h, 'o) group option" where
  "unhold_all [] g = Some g"
| "unhold_all (p # ps) g = Option.bind (unhold_at p g) (unhold_all ps)"

definition send_at ::
  "nat \<Rightarrow> 'm \<Rightarrow> ('a, 'm, 'h, 'o) group \<Rightarrow> (('a, 'e) goerr option \<times> ('a, 'm, 'h, 'o) group) option" where
  "send_at p m g =
     (case send m (heap g p) of
        ASent a \<Rightarrow> Some (None, upd p a g)
      | ABusy e \<Rightarrow> Some (Some e, g)
      | APanic \<Rightarrow> None)"

fun send_all ::
  "'m \<Rightarrow> nat list \<Rightarrow> ('a, 'm, 'h, 'o) group \<Rightarrow> (('a, 'e) IdErr list \<times> ('a, 'm, 'h, 'o) group) option" where
  "send_all m [] g = Some ([], g)"
| "send_all m (p # ps) g =
     Option.bind (send_at p m g) (\<lambda>(err, g1).
       map_option (\<lambda>(l, g2). (\<lparr>ieId = aid (heap g p), ieErr = err\<rparr> # l, g2)) (send_all m ps g1))"

definition broadcast ::
  "'m \<Rightarrow> ('a, 'm, 'h, 'o) group \<Rightarrow> ((('a, 'e) goerr + int) \<times> ('a, 'm, 'h, 'o) group) option" where
  "broadcast m g =
     (if isStopping g then Some (Inl (GroupClosedError None), g)
      else let (ps, g1) = holdAllActors g
           in Option.bind (send_all m ps g1) (\<lambda>(l, g2).
                map_option (\<lambda>g3. (Inr (CountNoErr (l :: ('a, 'e) IdErr list)), g3)) (unhold_all ps g2)))"

definition multicast ::
  "'a list \<Rightarrow> 'm \<Rightarrow> ('a, 'm, 'h, 'o) group
    \<Rightarrow> ((('a, 'e) goerr + ('a, 'e) IdErr list) \<times> ('a, 'm, 'h, 'o) group) option" where
  "multicast ids m g =
     (if isStopping g then Some (Inl (GroupClosedError None), g)
      else let (ps, nf, g1) = holdActors ids g
           in Option.bind (send_all m ps g1) (\<lambda>(l, g2).
                map_option (\<lambda>g3. (Inr (l @ map (\<lambda>i. \<lparr>ieId = i, ieErr = Some (ActorNotFoundError i)\<rparr>) nf), g3))
                  (unhold_all ps g2)))"

definition count :: "('a, 'm, 'h, 'o) group \<Rightarrow> int" where
  "count g = int (length (actors g)) - idle g"

subsection \<open>Closing\<close>

definition requestClose_at :: "nat \<Rightarrow> ('a, 'm, 'h, 'o) group \<Rightarrow> ('a, 'm, 'h, 'o) group option" where
  "requestClose_at p g = map_option (\<lambda>a. upd p a g) (requestClose (heap g p))"

fun requestClose_all :: "nat list \<Rightarrow> ('a, 'm, 'h, 'o) group \<Rightarrow> ('a, 'm, 'h, 'o) group option" where
  "requestClose_all [] g = Some g"
| "requestClose_all (p # ps) g = Option.bind (requestClose_at p g) (requestClose_all ps)"

definition closeGroup :: "('a, 'm, 'h, 'o) group \<Rightarrow> ('a, 'm, 'h, 'o) group option" where
  "closeGroup g =
     (if stopping g then Some g
      else requestClose_all (map snd (actors g)) (g\<lparr>stopping := True, gcancelled := True\<rparr>))"

text \<open>\<open>joinGroup\<close>: the snapshot it takes under the lock, and when waiting for it is over.\<close>

definition join_snapshot :: "('a, 'm, 'h, 'o) group \<Rightarrow> nat list" where
  "join_snapshot g = map snd (actors g)"

definition joinGroup :: "nat list \<Rightarrow> ('a, 'm, 'h, 'o) group \<Rightarrow> bool" where
  "joinGroup ps g = list_all (\<lambda>p. doneCh (heap g p)) ps"

definition closeActor :: "'a \<Rightarrow> ('a, 'm, 'h, 'o) group \<Rightarrow> (bool \<times> ('a, 'm, 'h, 'o) group) option" where
  "closeActor i g =
     (case map_of (actors g) i of
        None \<Rightarrow> Some (False, g)
      | Some p \<Rightarrow> map_option (Pair True) (requestClose_at p g))"

definition killActor :: "'a \<Rightarrow> ('a, 'm, 'h, 'o) group \<Rightarrow> (bool \<times> ('a, 'm, 'h, 'o) group) option" where
  "killActor i g =
     (case map_of (actors g) i of
        None \<Rightarrow> Some (False, g)
      | Some p \<Rightarrow> map_option (\<lambda>a. (True, upd p a g)) (kill (heap g p)))"

text \<open>\<open>joinActor\<close>: \<^const>\<open>None\<close> means it is still waiting.\<close>

definition joinActor :: "'a \<Rightarrow> ('a, 'm, 'h, 'o) group \<Rightarrow> bool option" where
  "joinActor i g =
     (case map_of (actors g) i of
        None \<Rightarrow> Some False
      | Some p \<Rightarrow> if doneCh (heap g p) then Some True else None)"

subsection \<open>What the goroutine calls\<close>

definition actorQuit ::
  "nat \<Rightarrow> 'm list \<Rightarrow> ('a, 'm, 'h, 'o) group \<Rightarrow> (('m list \<times> bool) \<times> ('a, 'm, 'h, 'o) group) option" where
  "actorQuit p buf g =
     (let a = heap g p
      in if closed a then Some ((buf, False), g)
         else if holder a > 1 then Some ((buf, False), g)
         else let (buf', mb) = pumpMailbox buf (mailbox a); g1 = upd p (a\<lparr>mailbox := mb\<rparr>) g
              in if buf' \<noteq> [] then Some ((buf', False), g1)
                 else map_option (Pair (buf', True)) (requestClose_at p g1))"

text \<open>The deferred \<open>close(a.doneCh)\<close> and \<open>removeActor\<close> at the end of \<open>run\<close>.\<close>

definition finish :: "nat \<Rightarrow> ('a, 'm, 'h, 'o) group \<Rightarrow> ('a, 'm, 'h, 'o) group" where
  "finish p g = upd p ((heap g p)\<lparr>doneCh := True\<rparr>) g"

definition removeActor :: "nat \<Rightarrow> ('a, 'm, 'h, 'o) group \<Rightarrow> ('a, 'm, 'h, 'o) group" where
  "removeActor p g =
     (let i = aid (heap g p)
      in if map_of (actors g) i \<noteq> Some p then g else g\<lparr>actors := AList.delete i (actors g)\<rparr>)"

lemmas group_defs [rt_defs] =
  holdActor_def holdActorForRef_def spawnActor_def resolveActor_def holdAllActors_def unhold_at_def
  send_at_def broadcast_def multicast_def count_def requestClose_at_def closeGroup_def closeActor_def
  killActor_def joinActor_def actorQuit_def finish_def removeActor_def isStopping_def
  actorIdle_def actorWake_def upd_def

subsection \<open>Reference counts\<close>

text \<open>
  \<open>refs p\<close> is the number of callers that hold the object at \<open>p\<close>; an object that is not closed
  is held by the table as well. A mailbox is closed exactly when nobody holds the object.
\<close>

definition rt_ok :: "nat \<Rightarrow> ('a, 'm) actorRuntime \<Rightarrow> bool" where
  "rt_ok n a \<longleftrightarrow>
     holder a = int n + (if closed a then 0 else 1) \<and> (chan_closed (mailbox a) \<longleftrightarrow> holder a = 0)"

definition group_inv :: "(nat \<Rightarrow> nat) \<Rightarrow> ('a, 'm, 'h, 'o) group \<Rightarrow> bool" where
  "group_inv refs g \<longleftrightarrow>
     distinct (map fst (actors g)) \<and>
     (\<forall>(i, p)\<in>set (actors g). p < nextAddr g \<and> aid (heap g p) = i) \<and>
     (\<forall>p<nextAddr g. rt_ok (refs p) (heap g p))"

lemma upd_sel [simp]:
  "stopping (upd p a g) = stopping g" "actors (upd p a g) = actors g" "idle (upd p a g) = idle g"
  "nextAddr (upd p a g) = nextAddr g" "bufMails (upd p a g) = bufMails g"
  "registry (upd p a g) = registry g" "started (upd p a g) = started g"
  "heap (upd p a g) = (heap g)(p := a)"
  by (simp_all add: upd_def)

lemma hold_sel [simp]:
  "aid (hold a) = aid a" "closed (hold a) = closed a" "mailbox (hold a) = mailbox a"
  "doneCh (hold a) = doneCh a" "holder (hold a) = holder a + 1"
  by (simp_all add: hold_def)

lemma newActor_sel [simp]:
  "aid (newActor i n) = i" "\<not> closed (newActor i n)" "mailbox (newActor i n) = make_chan n"
  "\<not> doneCh (newActor i n)" "holder (newActor i n) = 0"
  by (simp_all add: newActor_def)

lemma rt_ok_hold: "rt_ok n a \<Longrightarrow> \<not> closed a \<Longrightarrow> rt_ok (Suc n) (hold a)"
  by (auto simp: rt_ok_def)

lemma rt_ok_spawn: "rt_ok 1 ((newActor i n)\<lparr>holder := 2\<rparr>)"
  by (simp add: rt_ok_def)

text \<open>Releasing a reference one holds never closes a mailbox twice.\<close>

lemma rt_ok_unhold:
  assumes "rt_ok (Suc n) a"
  obtains a' where "unhold a = Some a'" "rt_ok n a'" "aid a' = aid a" "closed a' = closed a"
    "items (mailbox a') = items (mailbox a)" "doneCh a' = doneCh a"
    "capacity (mailbox a') = capacity (mailbox a)"
proof (cases "n = 0 \<and> closed a")
  case True
  with assms show ?thesis
    by (intro that [of "a\<lparr>holder := 0, mailbox := (mailbox a)\<lparr>chan_closed := True\<rparr>\<rparr>"])
      (auto simp: rt_ok_def unhold_def chan_close_def)
next
  case False
  with assms show ?thesis
    by (intro that [of "a\<lparr>holder := holder a - 1\<rparr>"]) (auto simp: rt_ok_def unhold_def)
qed

lemma rt_ok_requestClose:
  assumes "rt_ok n a"
  obtains a' where "requestClose a = Some a'" "rt_ok n a'" "aid a' = aid a" "closed a'"
    "items (mailbox a') = items (mailbox a)" "doneCh a' = doneCh a"
proof -
  consider "closed a" | "\<not> closed a" "n = 0" | "\<not> closed a" "n \<noteq> 0" by blast
  then show ?thesis
  proof cases
    case 1
    with assms show ?thesis by (intro that [of a]) (auto simp: requestClose_def)
  next
    case 2
    with assms show ?thesis
      by (intro that [of "a\<lparr>closed := True, holder := 0, mailbox := (mailbox a)\<lparr>chan_closed := True\<rparr>\<rparr>"])
        (auto simp: rt_ok_def requestClose_def unhold_def chan_close_def)
  next
    case 3
    with assms show ?thesis
      by (intro that [of "a\<lparr>closed := True, holder := holder a - 1\<rparr>"])
        (auto simp: rt_ok_def requestClose_def unhold_def)
  qed
qed

lemma group_inv_new: "group_inv refs (newGroup b r os n)"
  by (simp add: group_inv_def newGroup_def)

lemma group_inv_cong:
  "actors g' = actors g \<Longrightarrow> nextAddr g' = nextAddr g \<Longrightarrow> heap g' = heap g \<Longrightarrow> group_inv r g' = group_inv r g"
  by (simp add: group_inv_def)

lemma group_inv_rt: "group_inv r g \<Longrightarrow> p < nextAddr g \<Longrightarrow> rt_ok (r p) (heap g p)"
  by (simp add: group_inv_def)

lemma group_inv_lookup:
  assumes "group_inv r g" "map_of (actors g) i = Some p"
  shows "p < nextAddr g" "aid (heap g p) = i" "rt_ok (r p) (heap g p)"
proof -
  have "(i, p) \<in> set (actors g)" using assms(2) by (rule map_of_SomeD)
  moreover have "\<forall>(i, p)\<in>set (actors g). p < nextAddr g \<and> aid (heap g p) = i"
    "\<forall>p<nextAddr g. rt_ok (r p) (heap g p)" using assms(1) by (simp_all add: group_inv_def)
  ultimately show "p < nextAddr g" "aid (heap g p) = i" "rt_ok (r p) (heap g p)" by blast+
qed

lemma group_inv_upd:
  assumes "group_inv r g" "p < nextAddr g" "rt_ok n a" "aid a = aid (heap g p)"
  shows "group_inv (r(p := n)) (upd p a g)"
  using assms unfolding group_inv_def upd_sel by (simp add: case_prod_beta) blast

lemma group_inv_table_inj:
  assumes "group_inv r g" "map_of (actors g) i = Some p" "map_of (actors g) j = Some p"
  shows "i = j"
  using group_inv_lookup(2) [OF assms(1,2)] group_inv_lookup(2) [OF assms(1,3)] by simp

lemma group_inv_table_distinct: "group_inv r g \<Longrightarrow> distinct (map snd (actors g))"
proof -
  assume inv: "group_inv r g"
  then have "map fst (actors g) = map (\<lambda>p. aid (heap g p)) (map snd (actors g))"
    by (auto simp: group_inv_def)
  with inv have "distinct (map (\<lambda>p. aid (heap g p)) (map snd (actors g)))" by (simp add: group_inv_def)
  then show ?thesis unfolding distinct_map by blast
qed

lemma group_inv_holdActor:
  assumes "group_inv r g" "holdActor i g = (po, g')"
  shows "case po of None \<Rightarrow> g' = g | Some p \<Rightarrow> group_inv (r(p := Suc (r p))) g' \<and> p < nextAddr g' \<and>
     map_of (actors g') i = Some p \<and> \<not> closed (heap g' p)"
  using assms group_inv_lookup [OF assms(1)]
  by (auto simp: holdActor_def intro!: group_inv_upd rt_ok_hold split: option.splits if_splits)

lemma group_inv_alloc:
  assumes "group_inv r g" "rt_ok n a"
  shows "group_inv (r(nextAddr g := n)) ((upd (nextAddr g) a g)\<lparr>nextAddr := Suc (nextAddr g)\<rparr>)"
  using assms by (auto simp: group_inv_def less_Suc_eq)

lemma group_inv_insert:
  assumes "group_inv r g" "p < nextAddr g" "aid (heap g p) = i"
  shows "group_inv r (g\<lparr>actors := AList.update i p (actors g)\<rparr>)"
proof -
  let ?al = "AList.update i p (actors g)"
  have d: "distinct (map fst ?al)" using assms(1) by (simp add: group_inv_def distinct_update)
  have "q < nextAddr g \<and> aid (heap g q) = j" if "(j, q) \<in> set ?al" for j q
  proof -
    from that d have "map_of ?al j = Some q" by simp
    then show ?thesis using assms group_inv_lookup [OF assms(1), of j q]
      by (auto simp: alist_lookup split: if_splits)
  qed
  with d assms(1) show ?thesis by (auto simp: group_inv_def)
qed

lemma group_inv_delete:
  assumes "group_inv r g"
  shows "group_inv r (g\<lparr>actors := AList.delete i (actors g)\<rparr>)"
  using assms set_delete_subset by (fastforce simp: group_inv_def distinct_delete)

lemma group_inv_spawnActor:
  assumes inv: "group_inv r g" and sp: "spawnActor i g = (res, g')"
  shows "case res of
      SpawnNew p \<Rightarrow> p = nextAddr g \<and> p < nextAddr g' \<and> group_inv (r(p := 1)) g' \<and> map_of (actors g') = (map_of (actors g))(i \<mapsto> p) \<and>
        \<not> closed (heap g' p) \<and> items (mailbox (heap g' p)) = []
    | SpawnOld p \<Rightarrow> group_inv (r(nextAddr g := 1, p := Suc (r p))) g' \<and> map_of (actors g') i = Some p \<and>
        \<not> closed (heap g' p)
    | _ \<Rightarrow> group_inv (r(nextAddr g := 1)) g'"
proof -
  let ?p = "nextAddr g"
  let ?g1 = "(upd ?p ((newActor i (bufMails g))\<lparr>holder := 2\<rparr>) g)\<lparr>nextAddr := Suc ?p\<rparr>"
  have inv1: "group_inv (r(?p := 1)) ?g1" by (rule group_inv_alloc [OF inv rt_ok_spawn])
  have ins: "group_inv (r(?p := 1)) (actorIdle (?g1\<lparr>actors := AList.update i ?p (actors ?g1)\<rparr>))"
    using group_inv_insert [OF inv1, of ?p i]
    by (subst group_inv_cong) (simp_all add: actorIdle_def)
  have old: "group_inv (r(?p := 1, q := Suc (r q))) (upd q (hold (heap ?g1 q)) ?g1) \<and> q \<noteq> ?p"
    if "map_of (actors g) i = Some q" "\<not> closed (heap ?g1 q)" for q
  proof -
    have q: "q < ?p" using group_inv_lookup [OF inv that(1)] by simp
    then show ?thesis
      using group_inv_upd [OF inv1, of q "Suc (r q)" "hold (heap ?g1 q)"] group_inv_rt [OF inv q] that(2)
      by (auto intro: rt_ok_hold)
  qed
  show ?thesis
    using sp inv1 ins old
    by (auto simp: spawnActor_def Let_def isStopping_def actorIdle_def update_conv'
        split: if_splits option.splits)
qed

subsection \<open>Holding, sending to and releasing a list of actors\<close>

definition add_refs :: "(nat \<Rightarrow> nat) \<Rightarrow> nat list \<Rightarrow> nat \<Rightarrow> nat" where
  "add_refs r ps = (\<lambda>p. r p + count_list ps p)"

lemma add_refs_simps [simp]:
  "add_refs r [] = r" "add_refs r (p # ps) = add_refs (r(p := Suc (r p))) ps"
  by (auto simp: add_refs_def)

lemma add_refs_pos: "p \<in> set ps \<Longrightarrow> \<exists>n. add_refs r ps p = Suc n"
  by (induction ps arbitrary: r) (auto simp: add_refs_def)

text \<open>What sending and holding leave alone: everything but counts and mailbox contents.\<close>

definition same_table :: "('a, 'm, 'h, 'o) group \<Rightarrow> ('a, 'm, 'h, 'o) group \<Rightarrow> bool" where
  "same_table g g' \<longleftrightarrow>
     actors g' = actors g \<and> nextAddr g' = nextAddr g \<and> stopping g' = stopping g \<and> idle g' = idle g \<and>
     (\<forall>p. aid (heap g' p) = aid (heap g p) \<and> closed (heap g' p) = closed (heap g p) \<and>
          doneCh (heap g' p) = doneCh (heap g p) \<and>
          capacity (mailbox (heap g' p)) = capacity (mailbox (heap g p)))"

lemma same_table_refl [simp]: "same_table g g"
  by (simp add: same_table_def)

lemma same_table_trans: "same_table g g1 \<Longrightarrow> same_table g1 g2 \<Longrightarrow> same_table g g2"
  by (simp add: same_table_def)

lemma same_table_upd:
  "aid a = aid (heap g p) \<Longrightarrow> closed a = closed (heap g p) \<Longrightarrow> doneCh a = doneCh (heap g p) \<Longrightarrow>
     capacity (mailbox a) = capacity (mailbox (heap g p)) \<Longrightarrow> same_table g (upd p a g)"
  by (simp add: same_table_def)

abbreviation mail :: "('a, 'm, 'h, 'o) group \<Rightarrow> nat \<Rightarrow> 'm list" where
  "mail g p \<equiv> items (mailbox (heap g p))"

lemma hold_each_inv:
  assumes "group_inv r g" "set ps \<subseteq> {..<nextAddr g}" "hold_each ps g = (qs, g')"
  shows "group_inv (add_refs r qs) g' \<and> same_table g g' \<and> mail g' = mail g \<and>
         qs = filter (\<lambda>p. \<not> closed (heap g p)) ps"
  using assms
proof (induction ps arbitrary: r g qs)
  case (Cons p ps)
  show ?case
  proof (cases "closed (heap g p)")
    case True
    with Cons show ?thesis by simp
  next
    case False
    let ?g1 = "upd p (hold (heap g p)) g"
    obtain qs' where h: "hold_each ps ?g1 = (qs', g')" "qs = p # qs'"
      using Cons.prems(3) False by (auto split: prod.splits)
    have inv1: "group_inv (r(p := Suc (r p))) ?g1"
      using Cons.prems(1,2) False by (intro group_inv_upd rt_ok_hold) (auto simp: group_inv_def)
    have sub: "set ps \<subseteq> {..<nextAddr ?g1}" using Cons.prems(2) by simp
    have IH: "group_inv (add_refs (r(p := Suc (r p))) qs') g'" "same_table ?g1 g'" "mail g' = mail ?g1"
      "qs' = filter (\<lambda>q. \<not> closed (heap ?g1 q)) ps"
      using Cons.IH [OF inv1 sub h(1)] by blast+
    have "same_table g g'" using same_table_trans [OF same_table_upd IH(2)] by simp
    moreover have "(\<lambda>q. \<not> closed (heap ?g1 q)) = (\<lambda>q. \<not> closed (heap g q))" by (auto simp: fun_eq_iff)
    moreover have "mail ?g1 = mail g" by (auto simp: fun_eq_iff)
    ultimately show ?thesis using IH h(2) False by simp
  qed
qed simp

text \<open>The identities a message can be delivered to without creating an actor.\<close>

definition live :: "('a, 'm, 'h, 'o) group \<Rightarrow> 'a \<Rightarrow> bool" where
  "live g i \<longleftrightarrow> (\<exists>p. map_of (actors g) i = Some p \<and> \<not> closed (heap g p))"

lemma live_same_table: "same_table g g' \<Longrightarrow> live g' = live g"
  by (simp add: live_def same_table_def fun_eq_iff)

lemma holdActors_Cons_live:
  "live g i \<Longrightarrow> holdActors (i # ids) g =
     (let p = the (map_of (actors g) i); (ps, nf, g') = holdActors ids (upd p (hold (heap g p)) g)
      in (p # ps, nf, g'))"
  "\<not> live g i \<Longrightarrow> holdActors (i # ids) g = (let (ps, nf, g') = holdActors ids g in (ps, i # nf, g'))"
  by (auto simp: live_def split: option.splits)

lemma holdActors_inv:
  assumes "group_inv r g" "holdActors ids g = (qs, nf, g')"
  shows "group_inv (add_refs r qs) g' \<and> same_table g g' \<and> mail g' = mail g \<and>
         set qs \<subseteq> {..<nextAddr g} \<and>
         map (\<lambda>p. aid (heap g p)) qs = filter (live g) ids \<and> nf = filter (\<lambda>i. \<not> live g i) ids"
  using assms
proof (induction ids arbitrary: r g qs nf)
  case (Cons i ids)
  show ?case
  proof (cases "live g i")
    case False
    then obtain nf' where "holdActors ids g = (qs, nf', g')" "nf = i # nf'"
      using Cons.prems(2) unfolding holdActors_Cons_live(2) [OF False] by (auto split: prod.splits)
    with Cons.IH [OF Cons.prems(1)] False show ?thesis by auto
  next
    case True
    then obtain p where p: "map_of (actors g) i = Some p" "\<not> closed (heap g p)"
      by (auto simp: live_def)
    let ?g1 = "upd p (hold (heap g p)) g"
    note L = group_inv_lookup [OF Cons.prems(1) p(1)]
    obtain qs' where h: "holdActors ids ?g1 = (qs', nf, g')" "qs = p # qs'"
      using Cons.prems(2) p unfolding holdActors_Cons_live(1) [OF True] by (auto split: prod.splits)
    have inv1: "group_inv (r(p := Suc (r p))) ?g1"
      using Cons.prems(1) L p(2) by (intro group_inv_upd rt_ok_hold) auto
    have st1: "same_table g ?g1" by (rule same_table_upd) simp_all
    have eq: "(\<lambda>p. aid (heap ?g1 p)) = (\<lambda>p. aid (heap g p))" "mail ?g1 = mail g"
      by (auto simp: fun_eq_iff)
    note IH = Cons.IH [OF inv1 h(1), unfolded live_same_table [OF st1] eq]
    then have "same_table g g'" using same_table_trans [OF st1] by blast
    moreover have "map (\<lambda>p. aid (heap g p)) qs = filter (live g) (i # ids)" "set qs \<subseteq> {..<nextAddr g}"
      using IH h(2) True L(1,2) by auto
    moreover have "filter (\<lambda>i. \<not> live g i) (i # ids) = filter (\<lambda>i. \<not> live g i) ids" using True by simp
    ultimately show ?thesis using IH unfolding h(2) add_refs_simps by metis
  qed
qed simp

lemma unhold_all_inv:
  "group_inv (add_refs r ps) g \<Longrightarrow> set ps \<subseteq> {..<nextAddr g} \<Longrightarrow>
     \<exists>g'. unhold_all ps g = Some g' \<and> group_inv r g' \<and> same_table g g' \<and> mail g' = mail g"
proof (induction ps arbitrary: g)
  case (Cons p ps)
  have p: "p < nextAddr g" using Cons.prems(2) by simp
  obtain n where n: "add_refs r (p # ps) p = Suc n" using add_refs_pos [of p "p # ps" r] by auto
  with group_inv_rt [OF Cons.prems(1) p] have "rt_ok (Suc n) (heap g p)" by simp
  then obtain a' where a': "unhold (heap g p) = Some a'" "rt_ok n a'" "aid a' = aid (heap g p)"
    "closed a' = closed (heap g p)" "items (mailbox a') = mail g p" "doneCh a' = doneCh (heap g p)"
    "capacity (mailbox a') = capacity (mailbox (heap g p))"
    by (rule rt_ok_unhold)
  have "(add_refs r (p # ps))(p := n) = add_refs r ps"
    using n by (auto simp: add_refs_def fun_eq_iff)
  with group_inv_upd [OF Cons.prems(1) p a'(2,3)] have "group_inv (add_refs r ps) (upd p a' g)" by simp
  from Cons.IH [OF this] Cons.prems(2) obtain g' where
    IH: "unhold_all ps (upd p a' g) = Some g'" "group_inv r g'" "same_table (upd p a' g) g'"
      "mail g' = mail (upd p a' g)" by auto
  have "same_table g g'" using same_table_trans [OF same_table_upd IH(3)] a' by simp
  moreover have "mail (upd p a' g) = mail g" using a'(5) by (auto simp: fun_eq_iff)
  ultimately show ?case using IH a'(1) by (simp add: unhold_at_def)
qed simp

definition room :: "('a, 'm, 'h, 'o) group \<Rightarrow> nat \<Rightarrow> bool" where
  "room g p \<longleftrightarrow> length (mail g p) < capacity (mailbox (heap g p))"

definition put_mail :: "nat \<Rightarrow> 'm \<Rightarrow> ('a, 'm, 'h, 'o) group \<Rightarrow> ('a, 'm, 'h, 'o) group" where
  "put_mail p m g =
     upd p ((heap g p)\<lparr>mailbox := (mailbox (heap g p))\<lparr>items := mail g p @ [m]\<rparr>\<rparr>) g"

lemma put_mail_same_table: "same_table g (put_mail p m g)"
  unfolding put_mail_def by (rule same_table_upd) simp_all

lemma mail_put_mail: "mail (put_mail p m g) q = (if q = p then mail g p @ [m] else mail g q)"
  by (simp add: put_mail_def)

lemma room_put_mail_other: "q \<noteq> p \<Longrightarrow> room (put_mail p m g) q = room g q"
  by (simp add: room_def put_mail_def)

lemma group_inv_put_mail: "group_inv r g \<Longrightarrow> p < nextAddr g \<Longrightarrow> group_inv r (put_mail p m g)"
  unfolding put_mail_def
  using group_inv_upd [of r g p "r p" "(heap g p)\<lparr>mailbox := (mailbox (heap g p))\<lparr>items := mail g p @ [m]\<rparr>\<rparr>"]
  by (simp add: group_inv_rt rt_ok_def) (metis group_inv_rt rt_ok_def)

text \<open>Sending to a held actor: delivered when there is room, busy otherwise, never a panic.\<close>

lemma send_at_held:
  assumes "group_inv r g" "p < nextAddr g" "r p \<noteq> 0"
  shows "send_at p m g =
    Some (if room g p then (None, put_mail p m g) else (Some (ActorBusyError (aid (heap g p))), g))"
proof -
  from assms(3) obtain n where "r p = Suc n" by (cases "r p") auto
  with group_inv_rt [OF assms(1,2)] have "rt_ok (Suc n) (heap g p)" by simp
  then have "\<not> chan_closed (mailbox (heap g p))" by (auto simp: rt_ok_def)
  then show ?thesis by (simp add: send_at_def send_def chan_send_def room_def put_mail_def)
qed

lemma send_all_inv:
  fixes g :: "('a, 'm, 'h, 'o) group"
  assumes "group_inv r g" "\<forall>p\<in>set ps. p < nextAddr g \<and> r p \<noteq> 0"
  shows "\<exists>(l :: ('a, 'e) IdErr list) g'. send_all m ps g = Some (l, g') \<and> group_inv r g' \<and> same_table g g' \<and>
    map ieId l = map (\<lambda>p. aid (heap g p)) ps \<and>
    (\<forall>x\<in>set l. ieErr x = None \<or> ieErr x = Some (ActorBusyError (ieId x)))"
  using assms
proof (induction ps arbitrary: g)
  case (Cons p ps)
  let ?g1 = "if room g p then put_mail p m g else g"
  have p: "p < nextAddr g" "r p \<noteq> 0" using Cons.prems(2) by simp_all
  have st1: "same_table g ?g1" by (simp add: put_mail_same_table)
  have inv1: "group_inv r ?g1" using Cons.prems(1) p by (simp add: group_inv_put_mail)
  have "nextAddr ?g1 = nextAddr g" "(\<lambda>p. aid (heap ?g1 p)) = (\<lambda>p. aid (heap g p))"
    using st1 by (simp_all add: same_table_def)
  with Cons.IH [OF inv1] Cons.prems(2) obtain l :: "('a, 'e) IdErr list" and g' where
    IH: "send_all m ps ?g1 = Some (l, g')" "group_inv r g'" "same_table ?g1 g'"
      "map ieId l = map (\<lambda>p. aid (heap g p)) ps"
      "\<forall>x\<in>set l. ieErr x = None \<or> ieErr x = Some (ActorBusyError (ieId x))" by auto
  with same_table_trans [OF st1 IH(3)] show ?case
    by (auto simp: send_at_held [OF Cons.prems(1) p] split: if_splits)
qed simp

text \<open>The entry of the result list for one target.\<close>

definition receipt :: "('a, 'm, 'h, 'o) group \<Rightarrow> nat \<Rightarrow> ('a, 'e) IdErr" where
  "receipt g p =
     \<lparr>ieId = aid (heap g p), ieErr = (if room g p then None else Some (ActorBusyError (aid (heap g p))))\<rparr>"

lemma send_all_distinct:
  fixes g :: "('a, 'm, 'h, 'o) group"
  assumes "group_inv r g" "\<forall>p\<in>set ps. p < nextAddr g \<and> r p \<noteq> 0" "distinct ps"
  shows "\<exists>g'. send_all m ps g = Some (map (receipt g) ps :: ('a, 'e) IdErr list, g') \<and>
    group_inv r g' \<and> same_table g g' \<and>
    mail g' = (\<lambda>p. if p \<in> set ps \<and> room g p then mail g p @ [m] else mail g p)"
  using assms
proof (induction ps arbitrary: g)
  case (Cons p ps)
  let ?g1 = "if room g p then put_mail p m g else g"
  have p: "p < nextAddr g" "r p \<noteq> 0" using Cons.prems(2) by simp_all
  have st1: "same_table g ?g1" by (simp add: put_mail_same_table)
  have inv1: "group_inv r ?g1" using Cons.prems(1) p by (simp add: group_inv_put_mail)
  have eq: "nextAddr ?g1 = nextAddr g" "aid (heap ?g1 q) = aid (heap g q)"
    "q \<noteq> p \<Longrightarrow> room ?g1 q = room g q" "mail ?g1 q = (if q = p \<and> room g p then mail g p @ [m] else mail g q)" for q
    using st1 by (simp_all add: same_table_def room_put_mail_other mail_put_mail)
  have np: "p \<notin> set ps" using Cons.prems(3) by simp
  have "\<forall>q\<in>set ps. q < nextAddr ?g1 \<and> r q \<noteq> 0" "distinct ps" using Cons.prems(2,3) eq(1) by auto
  from Cons.IH [OF inv1 this] obtain g' where
    IH: "send_all m ps ?g1 = Some (map (receipt ?g1) ps :: ('a, 'e) IdErr list, g')"
      "group_inv r g'" "same_table ?g1 g'"
      "mail g' = (\<lambda>q. if q \<in> set ps \<and> room ?g1 q then mail ?g1 q @ [m] else mail ?g1 q)" by blast
  have "mail g' = (\<lambda>q. if q \<in> set (p # ps) \<and> room g q then mail g q @ [m] else mail g q)"
  proof
    fix q
    show "mail g' q = (if q \<in> set (p # ps) \<and> room g q then mail g q @ [m] else mail g q)"
      unfolding fun_cong [OF IH(4), of q] using np eq(3,4) [of q] by (cases "q = p") simp_all
  qed
  moreover have "map (receipt ?g1) ps = (map (receipt g) ps :: ('a, 'e) IdErr list)"
  proof (rule map_cong [OF refl])
    fix q assume "q \<in> set ps"
    with np have "q \<noteq> p" by auto
    with eq(2,3) [of q] show "receipt ?g1 q = receipt g q" by (simp add: receipt_def)
  qed
  with IH(1) have "send_all m (p # ps) g = Some (map (receipt g) (p # ps) :: ('a, 'e) IdErr list, g')"
    by (auto simp: send_at_held [OF Cons.prems(1) p] receipt_def split: if_splits)
  ultimately show ?case using IH(2) same_table_trans [OF st1 IH(3)] by blast
qed simp

subsection \<open>The operations keep the invariant and do what they promise\<close>

lemma broadcast_spec:
  fixes g :: "('a, 'm, 'h, 'o) group"
  assumes inv: "group_inv r g" and run: "\<not> stopping g"
  defines "targets \<equiv> filter (\<lambda>p. \<not> closed (heap g p)) (map snd (actors g))"
  shows "\<exists>g'. broadcast m g =
      Some ((Inr (int (length (filter (room g) targets))) :: ('a, 'e) goerr + int), g') \<and>
    group_inv r g' \<and> same_table g g' \<and>
    mail g' = (\<lambda>p. if p \<in> set targets \<and> room g p then mail g p @ [m] else mail g p)"
proof -
  obtain ps g1 where h: "holdAllActors g = (ps, g1)" by fastforce
  have sub: "set (map snd (actors g)) \<subseteq> {..<nextAddr g}"
    using inv by (auto simp: group_inv_def)
  from hold_each_inv [OF inv sub h [unfolded holdAllActors_def]]
  have H: "group_inv (add_refs r ps) g1" "same_table g g1" "mail g1 = mail g" "ps = targets"
    unfolding targets_def by blast+
  have d: "distinct ps" using group_inv_table_distinct [OF inv] by (simp add: H(4) targets_def)
  have na: "nextAddr g1 = nextAddr g" using H(2) by (simp add: same_table_def)
  have "\<forall>p\<in>set ps. p < nextAddr g1 \<and> add_refs r ps p \<noteq> 0"
    using sub na add_refs_pos [of _ ps r] by (fastforce simp: H(4) targets_def)
  from send_all_distinct [OF H(1) this d, of m] obtain g2 where
    S: "send_all m ps g1 = Some (map (receipt g1) ps :: ('a, 'e) IdErr list, g2)"
      "group_inv (add_refs r ps) g2" "same_table g1 g2"
      "mail g2 = (\<lambda>p. if p \<in> set ps \<and> room g1 p then mail g1 p @ [m] else mail g1 p)" by blast
  have "set ps \<subseteq> {..<nextAddr g2}" using sub na S(3) by (auto simp: same_table_def H(4) targets_def)
  from unhold_all_inv [OF S(2) this] obtain g3 where
    U: "unhold_all ps g2 = Some g3" "group_inv r g3" "same_table g2 g3" "mail g3 = mail g2" by blast
  have room1: "room g1 = room g" using H(2,3) by (simp add: room_def same_table_def fun_eq_iff)
  have cnt: "CountNoErr (map (receipt g1) ps :: ('a, 'e) IdErr list) = int (length (filter (room g) targets))"
    by (simp add: CountNoErr_filter filter_map comp_def receipt_def room1 H(4))
  have "mail g3 = (\<lambda>p. if p \<in> set targets \<and> room g p then mail g p @ [m] else mail g p)"
    unfolding U(4) S(4) by (rule ext) (auto simp: room1 H(4) fun_cong [OF H(3)])
  moreover have "same_table g g3" using same_table_trans [OF same_table_trans [OF H(2) S(3)] U(3)] .
  moreover have "broadcast m g = Some ((Inr (int (length (filter (room g) targets))) :: ('a, 'e) goerr + int), g3)"
    using run S(1) U(1) cnt by (simp add: broadcast_def isStopping_def h)
  ultimately show ?thesis using U(2) by blast
qed

lemma multicast_spec:
  fixes g :: "('a, 'm, 'h, 'o) group"
  assumes inv: "group_inv r g" and run: "\<not> stopping g"
  shows "\<exists>(l :: ('a, 'e) IdErr list) g'. multicast ids m g = Some (Inr l, g') \<and> group_inv r g' \<and> same_table g g' \<and>
    map ieId l = filter (live g) ids @ filter (\<lambda>i. \<not> live g i) ids \<and>
    (\<forall>x\<in>set l. if live g (ieId x) then ieErr x = None \<or> ieErr x = Some (ActorBusyError (ieId x))
               else ieErr x = Some (ActorNotFoundError (ieId x)))"
proof -
  obtain ps nf g1 where h: "holdActors ids g = (ps, nf, g1)" by (metis prod_cases3)
  from holdActors_inv [OF inv h]
  have H: "group_inv (add_refs r ps) g1" "same_table g g1" "set ps \<subseteq> {..<nextAddr g}"
    "map (\<lambda>p. aid (heap g p)) ps = filter (live g) ids" "nf = filter (\<lambda>i. \<not> live g i) ids" by blast+
  have na: "nextAddr g1 = nextAddr g" "(\<lambda>p. aid (heap g1 p)) = (\<lambda>p. aid (heap g p))"
    using H(2) by (simp_all add: same_table_def)
  have "\<forall>p\<in>set ps. p < nextAddr g1 \<and> add_refs r ps p \<noteq> 0"
    using H(3) na add_refs_pos [of _ ps r] by fastforce
  from send_all_inv [OF H(1) this, of m] obtain l :: "('a, 'e) IdErr list" and g2 where
    S: "send_all m ps g1 = Some (l, g2)" "group_inv (add_refs r ps) g2" "same_table g1 g2"
      "map ieId l = map (\<lambda>p. aid (heap g1 p)) ps"
      "\<forall>x\<in>set l. ieErr x = None \<or> ieErr x = Some (ActorBusyError (ieId x))" by blast
  have "set ps \<subseteq> {..<nextAddr g2}" using H(3) na S(3) by (simp add: same_table_def)
  from unhold_all_inv [OF S(2) this] obtain g3 where
    U: "unhold_all ps g2 = Some g3" "group_inv r g3" "same_table g2 g3" by blast
  let ?l = "l @ map (\<lambda>i. \<lparr>ieId = i, ieErr = Some (ActorNotFoundError i)\<rparr>) nf"
  have ids: "map ieId l = filter (live g) ids" using S(4) H(4) na(2) by simp
  have "live g (ieId x)" if "x \<in> set l" for x
  proof -
    from that have "ieId x \<in> set (map ieId l)" by simp
    then show ?thesis unfolding ids by simp
  qed
  with S(5) have "\<forall>x\<in>set ?l. if live g (ieId x) then ieErr x = None \<or> ieErr x = Some (ActorBusyError (ieId x))
               else ieErr x = Some (ActorNotFoundError (ieId x))"
    by (auto simp: H(5))
  moreover have "map ieId ?l = filter (live g) ids @ filter (\<lambda>i. \<not> live g i) ids"
    by (simp add: ids H(5) comp_def)
  moreover have "multicast ids m g = Some (Inr ?l, g3)"
    using run S(1) U(1) by (simp add: multicast_def isStopping_def h)
  moreover have "same_table g g3" using same_table_trans [OF same_table_trans [OF H(2) S(3)] U(3)] .
  ultimately show ?thesis using U(2) by blast
qed

lemma requestClose_all_inv:
  "group_inv r g \<Longrightarrow> set ps \<subseteq> {..<nextAddr g} \<Longrightarrow>
     \<exists>g'. requestClose_all ps g = Some g' \<and> group_inv r g' \<and> actors g' = actors g \<and> stopping g' = stopping g \<and>
       mail g' = mail g \<and> (\<forall>p. closed (heap g' p) \<longleftrightarrow> closed (heap g p) \<or> p \<in> set ps)"
proof (induction ps arbitrary: g)
  case (Cons p ps)
  have p: "p < nextAddr g" using Cons.prems(2) by simp
  from rt_ok_requestClose [OF group_inv_rt [OF Cons.prems(1) p]] obtain a' where
    a': "requestClose (heap g p) = Some a'" "rt_ok (r p) a'" "aid a' = aid (heap g p)" "closed a'"
      "items (mailbox a') = mail g p" by metis
  have "group_inv r (upd p a' g)" using group_inv_upd [OF Cons.prems(1) p a'(2,3)] by simp
  from Cons.IH [OF this] Cons.prems(2) obtain g' where
    IH: "requestClose_all ps (upd p a' g) = Some g'" "group_inv r g'" "actors g' = actors g"
      "stopping g' = stopping g" "mail g' = mail (upd p a' g)"
      "\<forall>q. closed (heap g' q) \<longleftrightarrow> closed (heap (upd p a' g) q) \<or> q \<in> set ps" by auto
  have "mail (upd p a' g) = mail g" using a'(5) by (auto simp: fun_eq_iff)
  with IH a' show ?case by (auto simp: requestClose_at_def)
qed simp

lemma closeGroup_spec:
  assumes inv: "group_inv r g" and run: "\<not> stopping g"
  shows "\<exists>g'. closeGroup g = Some g' \<and> group_inv r g' \<and> stopping g' \<and> actors g' = actors g \<and> mail g' = mail g \<and>
    (\<forall>i. \<not> live g' i)"
proof -
  have sub: "set (map snd (actors g)) \<subseteq> {..<nextAddr g}" using inv by (auto simp: group_inv_def)
  let ?g1 = "g\<lparr>stopping := True, gcancelled := True\<rparr>"
  have "group_inv r ?g1" using inv by (simp add: group_inv_def)
  from requestClose_all_inv [OF this, of "map snd (actors g)"] sub obtain g' where
    "requestClose_all (map snd (actors g)) ?g1 = Some g'" "group_inv r g'" "actors g' = actors g" "stopping g'"
    "mail g' = mail g" "\<forall>p. closed (heap g' p) \<longleftrightarrow> closed (heap g p) \<or> p \<in> set (map snd (actors g))" by auto
  moreover from this have "\<not> live g' i" for i
    by (auto simp: live_def dest!: map_of_SomeD intro: rev_image_eqI)
  ultimately show ?thesis using run by (simp add: closeGroup_def)
qed

text \<open>\<open>actorQuit\<close> never loses a message: it gives up the actor only when the mailbox is empty.\<close>

lemma actorQuit_spec:
  assumes inv: "group_inv r g" and p: "p < nextAddr g"
  shows "\<exists>buf' quit g'. actorQuit p buf g = Some ((buf', quit), g') \<and> group_inv r g' \<and>
    buf' @ mail g' p = buf @ mail g p \<and> (\<forall>q. q \<noteq> p \<longrightarrow> heap g' q = heap g q) \<and> actors g' = actors g \<and>
    (quit \<longrightarrow> buf' = [] \<and> mail g' p = [] \<and> closed (heap g' p) \<and> chan_closed (mailbox (heap g' p)) \<and> r p = 0) \<and>
    (\<not> quit \<longrightarrow> closed (heap g' p) = closed (heap g p))"
proof -
  let ?a = "heap g p"
  have rt: "rt_ok (r p) ?a" by (rule group_inv_rt [OF inv p])
  consider (stay) "closed ?a \<or> holder ?a > 1" | (pump) "\<not> closed ?a" "\<not> holder ?a > 1" by blast
  then show ?thesis
  proof cases
    case stay
    with inv show ?thesis by (auto simp: actorQuit_def Let_def)
  next
    case pump
    with rt have r0: "r p = 0" by (auto simp: rt_ok_def)
    let ?a1 = "?a\<lparr>mailbox := (mailbox ?a)\<lparr>items := []\<rparr>\<rparr>"
    have rt1: "rt_ok (r p) ?a1" using rt by (simp add: rt_ok_def)
    have inv1: "group_inv r (upd p ?a1 g)" using group_inv_upd [OF inv p rt1] by simp
    show ?thesis
    proof (cases "buf @ mail g p = []")
      case False
      then show ?thesis using pump inv1 by (auto simp: actorQuit_def Let_def pumpMailbox_eq)
    next
      case True
      from rt_ok_requestClose [OF rt1] obtain a' where a': "requestClose ?a1 = Some a'" "rt_ok (r p) a'"
        "aid a' = aid ?a1" "closed a'" "items (mailbox a') = items (mailbox ?a1)" by metis
      have "group_inv r (upd p a' (upd p ?a1 g))"
        using group_inv_upd [OF inv1, of p "r p" a'] p a' by simp
      moreover have "chan_closed (mailbox a')" using a'(2,4) r0 by (simp add: rt_ok_def)
      ultimately show ?thesis using True pump a' r0
        by (auto simp: actorQuit_def Let_def pumpMailbox_eq requestClose_at_def)
    qed
  qed
qed

lemma holdActor_None: "holdActor i g = (None, g1) \<Longrightarrow> g1 = g \<and> \<not> live g i"
  by (auto simp: holdActor_def live_def split: option.splits if_splits)

lemma resolveActor_spec:
  assumes inv: "group_inv r g" and res: "resolveActor id i allow g = (res, g')"
  shows "\<exists>r'. group_inv r' g' \<and> (\<forall>p<nextAddr g. (\<forall>q. res = Resolved q \<longrightarrow> q \<noteq> p) \<longrightarrow> r' p = r p) \<and>
    (case res of
       Resolved p \<Rightarrow> p < nextAddr g' \<and> r' p = (if p < nextAddr g then Suc (r p) else 1) \<and>
         map_of (actors g') i = Some p \<and> \<not> closed (heap g' p)
     | ResolveErr e \<Rightarrow> g' = g \<and> (e = GroupClosedError (Some i) \<and> stopping g \<or> e = ActorNotFoundError i \<and> \<not> live g i \<and> \<not> allow)
     | ResolveNil \<Rightarrow> False
     | ResolveBlocks \<Rightarrow> \<not> live g i)"
proof (cases "stopping g")
  case True
  with inv res show ?thesis by (auto simp: resolveActor_def isStopping_def)
next
  case run: False
  obtain po g1 where h: "holdActor i g = (po, g1)" by fastforce
  show ?thesis
  proof (cases po)
    case (Some p)
    with group_inv_holdActor [OF inv h] run res h show ?thesis
      by (intro exI [of _ "r(p := Suc (r p))"])
        (auto simp: resolveActor_def isStopping_def holdActor_def split: option.splits if_splits)
  next
    case None
    with h holdActor_None have g1: "g1 = g" and nl: "\<not> live g i" by fastforce+
    obtain sp g2 where s: "spawnActor i g = (sp, g2)" by fastforce
    note S = group_inv_spawnActor [OF inv s]
    have not_nil: "sp \<noteq> SpawnNil" "\<forall>q. sp \<noteq> SpawnOld q"
      using s run nl by (auto simp: spawnActor_def Let_def isStopping_def live_def
          dest: group_inv_lookup(1) [OF inv] split: if_splits option.splits)
    show ?thesis
    proof (cases allow)
      case False
      with res run h None g1 nl inv show ?thesis by (auto simp: resolveActor_def isStopping_def)
    next
      case True
      then show ?thesis using res run h None g1 s S not_nil nl
        by (cases sp) (auto simp: resolveActor_def isStopping_def group_inv_def
            intro!: exI [of _ "r(nextAddr g := Suc 0)"])
    qed
  qed
qed

subsection \<open>Properties of the group\<close>

text \<open>A group with two actors, both held once, mailboxes of one message.\<close>

definition demo_group :: "(nat, nat, unit, unit) group" where
  "demo_group =
     snd (resolveActor id 2 True (snd (resolveActor id (1::nat) True (newGroup (newActor 0 0) Map.empty None 1) :: (nat, unit) resolved \<times> _)) :: (nat, unit) resolved \<times> _)"

lemma demo_group_simps:
  "\<not> stopping demo_group" "actors demo_group = [(1, 0), (2, 1)]" "nextAddr demo_group = 2"
  "heap demo_group 0 = (newActor 1 1)\<lparr>holder := 2\<rparr>" "heap demo_group (Suc 0) = (newActor 2 1)\<lparr>holder := 2\<rparr>"
  by (simp_all add: demo_group_def resolveActor_def holdActor_def spawnActor_def newGroup_def isStopping_def
      actorIdle_def upd_def)

lemma demo_group_inv: "group_inv (\<lambda>_. 1) demo_group"
  by (auto simp: group_inv_def demo_group_simps less_2_cases_iff rt_ok_def)

text \<open>C12: A broadcast reaches every open actor once. In a group that is not stopping, with consistent
  reference counts, \<open>broadcast\<close> never panics; it puts the message at the end of the mailbox of
  every actor that is not closed and has room, changes no other mailbox, returns how many that are, and
  leaves all reference counts consistent.\<close>

theorem broadcast_delivers:
  fixes g :: "('a, 'm, 'h, 'o) group"
  assumes "group_inv r g" "\<not> stopping g"
  shows "\<exists>n g'. broadcast m g = Some ((Inr n :: ('a, 'e) goerr + int), g') \<and> group_inv r g' \<and>
    n = int (length (filter (\<lambda>p. \<not> closed (heap g p) \<and> room g p) (map snd (actors g)))) \<and>
    (\<forall>i p. map_of (actors g) i = Some p \<longrightarrow>
       mail g' p = mail g p @ (if \<not> closed (heap g p) \<and> room g p then [m] else []))"
proof -
  have "filter (room g) (filter (\<lambda>p. \<not> closed (heap g p)) xs) = filter (\<lambda>p. \<not> closed (heap g p) \<and> room g p) xs" for xs
    by (simp add: conj_commute)
  with broadcast_spec [OF assms, of m] obtain g' where
    g': "broadcast m g = Some ((Inr (int (length (filter (\<lambda>p. \<not> closed (heap g p) \<and> room g p) (map snd (actors g))))) :: ('a, 'e) goerr + int), g')"
      "group_inv r g'"
      "mail g' = (\<lambda>p. if p \<in> set (filter (\<lambda>p. \<not> closed (heap g p)) (map snd (actors g))) \<and> room g p
         then mail g p @ [m] else mail g p)" by auto
  have "mail g' p = mail g p @ (if \<not> closed (heap g p) \<and> room g p then [m] else [])"
    if "map_of (actors g) i = Some p" for i p
  proof -
    have "p \<in> set (map snd (actors g))" using map_of_SomeD [OF that] by force
    with fun_cong [OF g'(3), of p] show ?thesis by auto
  qed
  with g'(1,2) show ?thesis by blast
qed

theorem broadcast_delivers_witness:
  "\<exists>g'. broadcast (7::nat) demo_group = Some ((Inr 2 :: (nat, unit) goerr + int), g') \<and> mail g' 0 = [7] \<and> mail g' 1 = [7]"
proof -
  from broadcast_delivers [OF demo_group_inv demo_group_simps(1), of 7] obtain n g' where
    b: "broadcast 7 demo_group = Some ((Inr n :: (nat, unit) goerr + int), g')"
      "n = int (length (filter (\<lambda>p. \<not> closed (heap demo_group p) \<and> room demo_group p) (map snd (actors demo_group))))"
      "\<forall>i p. map_of (actors demo_group) i = Some p \<longrightarrow>
         mail g' p = mail demo_group p @ (if \<not> closed (heap demo_group p) \<and> room demo_group p then [7] else [])"
    by auto
  have "n = 2" using b(2) by (simp add: demo_group_simps room_def)
  moreover have "mail g' 0 = [7]" using b(3) [rule_format, of 1 0] by (simp add: demo_group_simps room_def)
  moreover have "mail g' 1 = [7]" using b(3) [rule_format, of 2 1] by (simp add: demo_group_simps room_def)
  ultimately show ?thesis using b(1) by auto
qed

text \<open>A multicast accounts for every target. In a group that is not stopping, with consistent
  reference counts, \<open>multicast\<close> never panics and returns one entry per requested identity,
  repetitions included, first the actors it could send to and then the others: an identity
  with an open actor is reported as delivered or busy, any other as not found.\<close>

theorem multicast_accounts_for_targets:
  fixes g :: "('a, 'm, 'h, 'o) group"
  assumes "group_inv r g" "\<not> stopping g"
  shows "\<exists>(l :: ('a, 'e) IdErr list) g'. multicast ids m g = Some (Inr l, g') \<and> group_inv r g' \<and>
    map ieId l = filter (live g) ids @ filter (\<lambda>i. \<not> live g i) ids \<and>
    (\<forall>x\<in>set l. if live g (ieId x) then ieErr x = None \<or> ieErr x = Some (ActorBusyError (ieId x))
               else ieErr x = Some (ActorNotFoundError (ieId x)))"
  using multicast_spec [OF assms] by blast

theorem multicast_accounts_for_targets_witness:
  "\<exists>(l :: (nat, unit) IdErr list) g'. multicast [3, 1, 3] (7::nat) demo_group = Some (Inr l, g') \<and>
     map ieId l = [1, 3, 3]"
proof -
  have "live demo_group 1" "\<not> live demo_group 3" by (auto simp: live_def demo_group_simps)
  with multicast_accounts_for_targets [OF demo_group_inv demo_group_simps(1), of "[3, 1, 3]" 7]
  show ?thesis by auto
qed

text \<open>C7: An actor that quits for idleness loses no message. \<open>actorQuit\<close> never panics; the messages
  in the goroutine's buffer followed by those in the mailbox are the same before and after; and when
  it lets the actor go, nobody holds it, both are empty, and the mailbox is closed, so that no message
  can be accepted after it.\<close>

theorem actorQuit_loses_nothing:
  assumes "group_inv r g" "p < nextAddr g"
  shows "\<exists>buf' quit g'. actorQuit p buf g = Some ((buf', quit), g') \<and> group_inv r g' \<and>
    buf' @ mail g' p = buf @ mail g p \<and>
    (quit \<longrightarrow> buf' = [] \<and> mail g' p = [] \<and> closed (heap g' p) \<and> chan_closed (mailbox (heap g' p)) \<and> r p = 0)"
  using actorQuit_spec [OF assms, of buf] by blast

theorem actorQuit_loses_nothing_witness:
  "\<exists>buf' quit g'. actorQuit 0 [] demo_group = Some ((buf', quit), g') \<and> buf' @ mail g' 0 = []"
  using actorQuit_loses_nothing [OF demo_group_inv, of 0 "[]"] by (auto simp: demo_group_simps)

text \<open>Closing a group closes every actor. \<open>closeGroup\<close> on a running group never panics, marks the group
  as stopping, leaves no actor that new messages can be sent to, keeps what is queued, and
  from then on \<open>resolveActor\<close> answers \<open>GroupClosedError\<close> and creates nothing.\<close>

theorem closeGroup_stops_everything:
  assumes "group_inv r g" "\<not> stopping g"
  shows "\<exists>g'. closeGroup g = Some g' \<and> group_inv r g' \<and> stopping g' \<and> (\<forall>i. \<not> live g' i) \<and> mail g' = mail g \<and>
    (\<forall>i allow. resolveActor id i allow g' = (ResolveErr (GroupClosedError (Some i)) :: ('a, 'e) resolved, g'))"
  using closeGroup_spec [OF assms] by (auto simp: resolveActor_def isStopping_def)

theorem closeGroup_stops_everything_witness:
  "\<exists>g'. closeGroup demo_group = Some g' \<and> stopping g' \<and> \<not> live g' 1 \<and>
     resolveActor id 1 True g' = (ResolveErr (GroupClosedError (Some 1)) :: (nat, unit) resolved, g')"
  using closeGroup_stops_everything [OF demo_group_inv demo_group_simps(1)] by blast

text \<open>A post can meet a nil actor. When the group is closed after \<open>resolveActor\<close> has looked at
  \<open>stopping\<close> and before \<open>spawnActor\<close> takes the lock, \<open>resolveActor\<close> returns neither an actor nor an
  error; the callers then use the nil pointer.\<close>

theorem resolveActor_nil_race:
  "fst (resolveActor (\<lambda>g. the (closeGroup g)) (1::nat) True
     (newGroup (newActor 0 0) Map.empty None 1 :: (nat, nat, unit, unit) group)) = (ResolveNil :: (nat, unit) resolved)"
  by (simp add: resolveActor_def newGroup_def isStopping_def closeGroup_def holdActor_def spawnActor_def upd_def)

end
