(* ===== verification/Hold_Protocol.thy ===== *)
theory Hold_Protocol
  imports Actor_Group
begin

section \<open>Holding an actor while it quits or is closed\<close>

text \<open>
  The interleavings inside \<open>actor/group.go\<close> and \<open>actor/actor.go\<close> that the atomic operations of
  \<open>Actor_Group\<close> leave out: one actor object, \<open>N\<close> senders that find it in the table
  (\<open>holdActor\<close> or \<open>spawnActor\<close>, then \<open>send\<close> and \<open>unhold\<close>), \<open>K\<close> closers (\<open>closeActor\<close> or \<open>closeGroup\<close>) and the
  actor's own goroutine (\<open>run\<close> and \<open>actorQuit\<close>). A step is one atomic instruction: a lock operation, a load of
  \<open>closed\<close>, a compare-and-swap, an add to \<open>holder\<close>, a channel operation. Readers and the writer of the group's
  lock exclude each other.

  Without closers the protocol is safe. With a closer it is not: it only takes the read lock, so it can run between a
  sender's check of \<open>closed\<close> and its \<open>hold\<close>.
\<close>

text \<open>A sender: \<open>CW\<close> is the path through \<open>spawnActor\<close>, which takes the write lock.\<close>

datatype cpc = CStart | CLocked | COpen | CHeld | CFree | CSent | CZero | CGone | CWLocked | CWait

datatype kpc = KStart | KLocked | KClaimed | KZero | KUnlock | KGone

text \<open>The goroutine: \<open>LWant\<close> has called \<open>actorQuit\<close> and waits for the lock, \<open>LExit\<close> and \<open>LQuit\<close> have left the
  main loop and drain the mailbox until it is closed.\<close>

datatype lpc = LRun | LWant | LLocked | LOpen | LAlone | LEmpty | LClaimed | LZero | LQuit | LExit | LDone

record proto =
  pclosed :: bool
  pholder :: int
  pmclosed :: bool
  pmail :: "nat list"
  pwriter :: bool
  pdone :: bool
  ppanic :: bool
  cl :: "nat \<Rightarrow> cpc"
  kl :: "nat \<Rightarrow> kpc"
  lp :: lpc

definition proto_init :: proto where
  "proto_init =
     \<lparr>pclosed = False, pholder = 1, pmclosed = False, pmail = [], pwriter = False, pdone = False, ppanic = False,
      cl = (\<lambda>_. CStart), kl = (\<lambda>_. KStart), lp = LRun\<rparr>"

definition creader :: "cpc \<Rightarrow> bool" where
  "creader c \<longleftrightarrow> c = CLocked \<or> c = COpen \<or> c = CHeld"

definition kreader :: "kpc \<Rightarrow> bool" where
  "kreader k \<longleftrightarrow> k = KLocked \<or> k = KClaimed \<or> k = KZero \<or> k = KUnlock"

definition no_readers :: "nat \<Rightarrow> nat \<Rightarrow> proto \<Rightarrow> bool" where
  "no_readers N K s \<longleftrightarrow> (\<forall>i<N. \<not> creader (cl s i)) \<and> (\<forall>k<K. \<not> kreader (kl s k))"

definition setc :: "nat \<Rightarrow> cpc \<Rightarrow> proto \<Rightarrow> proto" where
  "setc i c s = s\<lparr>cl := (cl s)(i := c)\<rparr>"

definition setk :: "nat \<Rightarrow> kpc \<Rightarrow> proto \<Rightarrow> proto" where
  "setk k c s = s\<lparr>kl := (kl s)(k := c)\<rparr>"

definition close_mail :: "proto \<Rightarrow> proto" where
  "close_mail s = (if pmclosed s then s\<lparr>ppanic := True\<rparr> else s\<lparr>pmclosed := True\<rparr>)"

inductive pstep :: "nat \<Rightarrow> nat \<Rightarrow> proto \<Rightarrow> proto \<Rightarrow> bool" for N K where
  c_lock: "i < N \<Longrightarrow> cl s i = CStart \<Longrightarrow> \<not> pwriter s \<Longrightarrow> pstep N K s (setc i CLocked s)"
| c_check_open: "i < N \<Longrightarrow> cl s i = CLocked \<Longrightarrow> \<not> pclosed s \<Longrightarrow> pstep N K s (setc i COpen s)"
| c_check_closed: "i < N \<Longrightarrow> cl s i = CLocked \<Longrightarrow> pclosed s \<Longrightarrow> pstep N K s (setc i CGone s)"
| c_hold: "i < N \<Longrightarrow> cl s i = COpen \<Longrightarrow> pstep N K s (setc i CHeld (s\<lparr>pholder := pholder s + 1\<rparr>))"
| c_unlock: "i < N \<Longrightarrow> cl s i = CHeld \<Longrightarrow> pstep N K s (setc i CFree s)"
| c_send: "i < N \<Longrightarrow> cl s i = CFree \<Longrightarrow> \<not> pmclosed s \<Longrightarrow> pstep N K s (setc i CSent (s\<lparr>pmail := pmail s @ [i]\<rparr>))"
| c_busy: "i < N \<Longrightarrow> cl s i = CFree \<Longrightarrow> \<not> pmclosed s \<Longrightarrow> pstep N K s (setc i CSent s)"
| c_send_panic: "i < N \<Longrightarrow> cl s i = CFree \<Longrightarrow> pmclosed s \<Longrightarrow> pstep N K s (setc i CSent (s\<lparr>ppanic := True\<rparr>))"
| c_unhold: "i < N \<Longrightarrow> cl s i = CSent \<Longrightarrow>
    pstep N K s (setc i (if pholder s - 1 = 0 then CZero else CGone) (s\<lparr>pholder := pholder s - 1\<rparr>))"
| c_close: "i < N \<Longrightarrow> cl s i = CZero \<Longrightarrow> pstep N K s (setc i CGone (close_mail s))"
| c_wlock: "i < N \<Longrightarrow> cl s i = CStart \<Longrightarrow> \<not> pwriter s \<Longrightarrow> no_readers N K s \<Longrightarrow>
    pstep N K s (setc i CWLocked (s\<lparr>pwriter := True\<rparr>))"
| c_whold: "i < N \<Longrightarrow> cl s i = CWLocked \<Longrightarrow> \<not> pclosed s \<Longrightarrow>
    pstep N K s (setc i CFree (s\<lparr>pwriter := False, pholder := pholder s + 1\<rparr>))"
| c_wwait: "i < N \<Longrightarrow> cl s i = CWLocked \<Longrightarrow> pclosed s \<Longrightarrow> pstep N K s (setc i CWait s)"
| c_wspawn: "i < N \<Longrightarrow> cl s i = CWait \<Longrightarrow> pdone s \<Longrightarrow> pstep N K s (setc i CGone (s\<lparr>pwriter := False\<rparr>))"
| k_lock: "k < K \<Longrightarrow> kl s k = KStart \<Longrightarrow> \<not> pwriter s \<Longrightarrow> pstep N K s (setk k KLocked s)"
| k_claim: "k < K \<Longrightarrow> kl s k = KLocked \<Longrightarrow> \<not> pclosed s \<Longrightarrow> pstep N K s (setk k KClaimed (s\<lparr>pclosed := True\<rparr>))"
| k_late: "k < K \<Longrightarrow> kl s k = KLocked \<Longrightarrow> pclosed s \<Longrightarrow> pstep N K s (setk k KUnlock s)"
| k_unhold: "k < K \<Longrightarrow> kl s k = KClaimed \<Longrightarrow>
    pstep N K s (setk k (if pholder s - 1 = 0 then KZero else KUnlock) (s\<lparr>pholder := pholder s - 1\<rparr>))"
| k_close: "k < K \<Longrightarrow> kl s k = KZero \<Longrightarrow> pstep N K s (setk k KUnlock (close_mail s))"
| k_unlock: "k < K \<Longrightarrow> kl s k = KUnlock \<Longrightarrow> pstep N K s (setk k KGone s)"
| l_take: "lp s = LRun \<Longrightarrow> pmail s = m # ms \<Longrightarrow> pstep N K s (s\<lparr>pmail := ms\<rparr>)"
| l_seen: "lp s = LRun \<Longrightarrow> pclosed s \<Longrightarrow> pstep N K s (s\<lparr>lp := LExit\<rparr>)"
| l_want: "lp s = LRun \<Longrightarrow> pstep N K s (s\<lparr>lp := LWant\<rparr>)"
| l_lock: "lp s = LWant \<Longrightarrow> \<not> pwriter s \<Longrightarrow> no_readers N K s \<Longrightarrow> pstep N K s (s\<lparr>lp := LLocked, pwriter := True\<rparr>)"
| l_closed: "lp s = LLocked \<Longrightarrow> pclosed s \<Longrightarrow> pstep N K s (s\<lparr>lp := LRun, pwriter := False\<rparr>)"
| l_open: "lp s = LLocked \<Longrightarrow> \<not> pclosed s \<Longrightarrow> pstep N K s (s\<lparr>lp := LOpen\<rparr>)"
| l_busy: "lp s = LOpen \<Longrightarrow> pholder s > 1 \<Longrightarrow> pstep N K s (s\<lparr>lp := LRun, pwriter := False\<rparr>)"
| l_alone: "lp s = LOpen \<Longrightarrow> \<not> pholder s > 1 \<Longrightarrow> pstep N K s (s\<lparr>lp := LAlone\<rparr>)"
| l_more: "lp s = LAlone \<Longrightarrow> pmail s \<noteq> [] \<Longrightarrow> pstep N K s (s\<lparr>lp := LRun, pwriter := False, pmail := []\<rparr>)"
| l_empty: "lp s = LAlone \<Longrightarrow> pmail s = [] \<Longrightarrow> pstep N K s (s\<lparr>lp := LEmpty\<rparr>)"
| l_claim: "lp s = LEmpty \<Longrightarrow> \<not> pclosed s \<Longrightarrow> pstep N K s (s\<lparr>lp := LClaimed, pclosed := True\<rparr>)"
| l_late: "lp s = LEmpty \<Longrightarrow> pclosed s \<Longrightarrow> pstep N K s (s\<lparr>lp := LQuit, pwriter := False\<rparr>)"
| l_unhold: "lp s = LClaimed \<Longrightarrow>
    pstep N K s (if pholder s - 1 = 0 then s\<lparr>lp := LZero, pholder := pholder s - 1\<rparr>
                 else s\<lparr>lp := LQuit, pholder := pholder s - 1, pwriter := False\<rparr>)"
| l_close: "lp s = LZero \<Longrightarrow> pstep N K s (close_mail (s\<lparr>lp := LQuit, pwriter := False\<rparr>))"
| l_done: "lp s = LQuit \<or> lp s = LExit \<Longrightarrow> pmclosed s \<Longrightarrow> pstep N K s (s\<lparr>lp := LDone, pmail := [], pdone := True\<rparr>)"

inductive preach :: "nat \<Rightarrow> nat \<Rightarrow> proto \<Rightarrow> bool" for N K where
  preach_init: "preach N K proto_init"
| preach_step: "preach N K s \<Longrightarrow> pstep N K s s' \<Longrightarrow> preach N K s'"

lemmas proto_sel = setc_def setk_def close_mail_def

subsection \<open>Safety without closers\<close>

definition holding :: "nat \<Rightarrow> proto \<Rightarrow> nat set" where
  "holding N s = {i. i < N \<and> (cl s i = CHeld \<or> cl s i = CFree \<or> cl s i = CSent)}"

definition lcrit :: "lpc \<Rightarrow> bool" where
  "lcrit l \<longleftrightarrow> l \<in> {LLocked, LOpen, LAlone, LEmpty, LClaimed, LZero}"

definition cwriter :: "cpc \<Rightarrow> bool" where
  "cwriter c \<longleftrightarrow> c = CWLocked \<or> c = CWait"

definition proto_inv :: "nat \<Rightarrow> proto \<Rightarrow> bool" where
  "proto_inv N s \<longleftrightarrow>
     pholder s = int (card (holding N s)) + (if lp s \<in> {LZero, LQuit, LDone} then 0 else 1) \<and>
     (pclosed s \<longleftrightarrow> lp s \<in> {LClaimed, LZero, LQuit, LDone}) \<and>
     (pmclosed s \<longleftrightarrow> lp s \<in> {LQuit, LDone}) \<and> lp s \<noteq> LExit \<and> \<not> ppanic s \<and>
     (lp s \<in> {LAlone, LEmpty, LClaimed, LZero, LQuit, LDone} \<longrightarrow> holding N s = {}) \<and>
     (lp s \<in> {LEmpty, LClaimed, LZero, LQuit, LDone} \<longrightarrow> pmail s = []) \<and>
     (lcrit (lp s) \<longrightarrow> pwriter s \<and> (\<forall>i<N. \<not> creader (cl s i) \<and> \<not> cwriter (cl s i))) \<and>
     (pwriter s \<longrightarrow> (\<forall>i<N. \<not> creader (cl s i))) \<and>
     (\<forall>i<N. cwriter (cl s i) \<longrightarrow> pwriter s \<and> (\<forall>j<N. cwriter (cl s j) \<longrightarrow> j = i)) \<and>
     (\<forall>i<N. cl s i = COpen \<longrightarrow> \<not> pclosed s) \<and>
     (\<forall>i<N. cl s i \<noteq> CZero) \<and>
     (\<forall>i<N. cl s i = CWait \<longrightarrow> lp s \<in> {LQuit, LDone})"

lemma proto_invD:
  assumes "proto_inv N s"
  shows "pholder s = int (card (holding N s)) + (if lp s \<in> {LZero, LQuit, LDone} then 0 else 1)"
    "pclosed s \<longleftrightarrow> lp s \<in> {LClaimed, LZero, LQuit, LDone}" "pmclosed s \<longleftrightarrow> lp s \<in> {LQuit, LDone}"
    "lp s \<noteq> LExit" "\<not> ppanic s"
    "lp s \<in> {LAlone, LEmpty, LClaimed, LZero, LQuit, LDone} \<longrightarrow> holding N s = {}"
    "lp s \<in> {LEmpty, LClaimed, LZero, LQuit, LDone} \<longrightarrow> pmail s = []"
    "lcrit (lp s) \<longrightarrow> pwriter s \<and> (\<forall>i<N. \<not> creader (cl s i) \<and> \<not> cwriter (cl s i))"
    "pwriter s \<longrightarrow> (\<forall>i<N. \<not> creader (cl s i))"
    "\<forall>i<N. cwriter (cl s i) \<longrightarrow> pwriter s \<and> (\<forall>j<N. cwriter (cl s j) \<longrightarrow> j = i)"
    "\<forall>i<N. cl s i = COpen \<longrightarrow> \<not> pclosed s" "\<forall>i<N. cl s i \<noteq> CZero"
    "\<forall>i<N. cl s i = CWait \<longrightarrow> lp s \<in> {LQuit, LDone}"
  using assms unfolding proto_inv_def by - (elim conjE, assumption)+

lemma finite_holding [simp]: "finite (holding N s)"
  by (simp add: holding_def)

lemma holding_setc:
  "i < N \<Longrightarrow> holding N (setc i c s) =
     (if c = CHeld \<or> c = CFree \<or> c = CSent then insert i (holding N s) else holding N s - {i})"
  by (auto simp: holding_def setc_def)

lemma holding_cong: "cl s' = cl s \<Longrightarrow> holding N s' = holding N s"
  by (simp add: holding_def)

lemma holding_iff: "i < N \<Longrightarrow> i \<in> holding N s \<longleftrightarrow> cl s i = CHeld \<or> cl s i = CFree \<or> cl s i = CSent"
  by (simp add: holding_def)

lemma proto_inv_init: "proto_inv N proto_init"
  by (simp add: proto_inv_def proto_init_def holding_def lcrit_def creader_def cwriter_def)

text \<open>
  A sender's step changes one program counter, the count by the change in who holds, and at most
  appends to an open mailbox or moves the write lock.
\<close>

lemma card_holding_setc:
  assumes "i < N"
  shows "card (holding N (setc i c s)) + (if i \<in> holding N s then 1 else 0) =
    card (holding N s) + (if c = CHeld \<or> c = CFree \<or> c = CSent then 1 else 0)"
proof (cases "i \<in> holding N s")
  case True
  then have "0 < card (holding N s)" by (auto simp: card_gt_0_iff)
  with True assms show ?thesis by (auto simp: holding_setc insert_absorb card_Diff_singleton)
next
  case False
  with assms show ?thesis by (auto simp: holding_setc)
qed

lemma proto_inv_client:
  assumes inv: "proto_inv N s" and i: "i < N"
    and s': "s' = setc i c (s\<lparr>pholder := pholder s + d, pmail := ms, pwriter := w\<rparr>)"
    and d: "d = (if c = CHeld \<or> c = CFree \<or> c = CSent then 1 else 0) - (if i \<in> holding N s then 1 else 0)"
    and held: "c = CHeld \<or> c = CFree \<or> c = CSent \<Longrightarrow> lp s \<notin> {LAlone, LEmpty, LClaimed, LZero, LQuit, LDone}"
    and mail: "ms = pmail s \<or> i \<in> holding N s"
    and crit: "lcrit (lp s) \<Longrightarrow> w \<and> \<not> creader c \<and> \<not> cwriter c"
    and wr: "w \<Longrightarrow> \<not> creader c \<and> (\<forall>j<N. j \<noteq> i \<longrightarrow> \<not> creader (cl s j))"
    and cw: "\<forall>j<N. j \<noteq> i \<longrightarrow> cwriter (cl s j) \<longrightarrow> w \<and> \<not> cwriter c" "cwriter c \<Longrightarrow> w"
    and op: "c = COpen \<Longrightarrow> \<not> pclosed s" and cz: "c \<noteq> CZero" and wait: "c = CWait \<Longrightarrow> lp s \<in> {LQuit, LDone}"
  shows "proto_inv N s'"
proof -
  let ?s0 = "s\<lparr>pholder := pholder s + d, pmail := ms, pwriter := w\<rparr>"
  have h0: "holding N ?s0 = holding N s" by (rule holding_cong) simp
  have card: "card (holding N s') + (if i \<in> holding N s then 1 else 0) =
      card (holding N s) + (if c = CHeld \<or> c = CFree \<or> c = CSent then 1 else 0)"
    unfolding s' using card_holding_setc [OF i, of c ?s0] h0 by simp
  have hs: "holding N s' = (if c = CHeld \<or> c = CFree \<or> c = CSent then insert i (holding N s) else holding N s - {i})"
    unfolding s' using holding_setc [OF i, of c ?s0] h0 by simp
  have sel: "lp s' = lp s" "pclosed s' = pclosed s" "pmclosed s' = pmclosed s" "ppanic s' = ppanic s"
    "pholder s' = pholder s + d" "pmail s' = ms" "pwriter s' = w" "cl s' j = (if j = i then c else cl s j)" for j
    by (simp_all add: s' setc_def)
  note I = proto_invD [OF inv]
  have f1: "pholder s' = int (card (holding N s')) + (if lp s' \<in> {LZero, LQuit, LDone} then 0 else 1)"
    using I(1) card unfolding sel d by (simp split: if_splits)
  have f2: "lp s' \<in> {LAlone, LEmpty, LClaimed, LZero, LQuit, LDone} \<longrightarrow> holding N s' = {}"
    using I(6) held unfolding sel hs by (simp del: insert_iff)
  have f3: "lp s' \<in> {LEmpty, LClaimed, LZero, LQuit, LDone} \<longrightarrow> pmail s' = []"
    using I(6,7) mail unfolding sel by blast
  have f4: "lcrit (lp s') \<longrightarrow> pwriter s' \<and> (\<forall>j<N. \<not> creader (cl s' j) \<and> \<not> cwriter (cl s' j))"
    using I(8) crit unfolding sel by auto
  have f5: "pwriter s' \<longrightarrow> (\<forall>j<N. \<not> creader (cl s' j))" using wr unfolding sel by auto
  have f6: "\<forall>j<N. cwriter (cl s' j) \<longrightarrow> pwriter s' \<and> (\<forall>k<N. cwriter (cl s' k) \<longrightarrow> k = j)"
    using I(10) cw unfolding sel by auto
  have f7: "\<forall>j<N. cl s' j = COpen \<longrightarrow> \<not> pclosed s'" "\<forall>j<N. cl s' j \<noteq> CZero"
    "\<forall>j<N. cl s' j = CWait \<longrightarrow> lp s' \<in> {LQuit, LDone}"
    using I(11-13) op cz wait unfolding sel by auto
  have f8: "pclosed s' \<longleftrightarrow> lp s' \<in> {LClaimed, LZero, LQuit, LDone}" "pmclosed s' \<longleftrightarrow> lp s' \<in> {LQuit, LDone}"
    "lp s' \<noteq> LExit" "\<not> ppanic s'"
    unfolding sel(1-4) using I(2-5) by (assumption | simp)+
  show ?thesis unfolding proto_inv_def by (intro conjI) (fact f1 f2 f3 f4 f5 f6 f7 f8)+
qed

text \<open>The goroutine's steps leave the senders alone.\<close>

lemma proto_inv_loop:
  assumes inv: "proto_inv N s" and cl: "cl s' = cl s"
    and h: "pholder s' = int (card (holding N s)) + (if lp s' \<in> {LZero, LQuit, LDone} then 0 else 1)"
    and c: "pclosed s' \<longleftrightarrow> lp s' \<in> {LClaimed, LZero, LQuit, LDone}" "pmclosed s' \<longleftrightarrow> lp s' \<in> {LQuit, LDone}"
      "lp s' \<noteq> LExit" "\<not> ppanic s'"
    and e: "lp s' \<in> {LAlone, LEmpty, LClaimed, LZero, LQuit, LDone} \<longrightarrow> holding N s = {}"
      "lp s' \<in> {LEmpty, LClaimed, LZero, LQuit, LDone} \<longrightarrow> pmail s' = []"
    and l: "lcrit (lp s') \<longrightarrow> pwriter s' \<and> (\<forall>i<N. \<not> creader (cl s i) \<and> \<not> cwriter (cl s i))"
      "pwriter s' \<longrightarrow> (\<forall>i<N. \<not> creader (cl s i))" "(\<exists>i<N. cwriter (cl s i)) \<longrightarrow> pwriter s'"
    and o: "pclosed s' \<longrightarrow> (\<forall>i<N. cl s i \<noteq> COpen)" "(\<exists>i<N. cl s i = CWait) \<longrightarrow> lp s' \<in> {LQuit, LDone}"
  shows "proto_inv N s'"
proof -
  note I = proto_invD [OF inv]
  have hold: "holding N s' = holding N s" by (rule holding_cong [OF cl])
  have w: "\<forall>i<N. cwriter (cl s i) \<longrightarrow> pwriter s' \<and> (\<forall>j<N. cwriter (cl s j) \<longrightarrow> j = i)"
    using I(10) l(3) by blast
  have o': "\<forall>i<N. cl s i = COpen \<longrightarrow> \<not> pclosed s'" "\<forall>i<N. cl s i = CWait \<longrightarrow> lp s' \<in> {LQuit, LDone}"
    using o by blast+
  show ?thesis unfolding proto_inv_def hold cl
    by (intro conjI) (fact h c e l(1,2) I(12) w o')+
qed

text \<open>What the invariant says of one sender, by its program counter.\<close>

lemma proto_inv_reader:
  assumes "proto_inv N s" "i < N" "creader (cl s i)"
  shows "\<not> pwriter s" "\<not> lcrit (lp s)" "\<forall>j<N. \<not> cwriter (cl s j)"
  using proto_invD(8-10) [OF assms(1)] assms(2,3) by blast+

lemma proto_inv_holder:
  assumes "proto_inv N s" "i < N" "cl s i = CHeld \<or> cl s i = CFree \<or> cl s i = CSent"
  shows "lp s \<notin> {LAlone, LEmpty, LClaimed, LZero, LQuit, LDone}" "\<not> pclosed s" "\<not> pmclosed s" "1 < pholder s"
proof -
  note I = proto_invD [OF assms(1)]
  have i: "i \<in> holding N s" using assms(2,3) by (simp add: holding_iff)
  then have ne: "holding N s \<noteq> {}" by blast
  with I(6) show lp: "lp s \<notin> {LAlone, LEmpty, LClaimed, LZero, LQuit, LDone}" by blast
  with I(2,3) show "\<not> pclosed s" "\<not> pmclosed s" by simp_all
  have "0 < card (holding N s)" using ne by (simp add: card_gt_0_iff)
  with I(1) lp show "1 < pholder s" by simp
qed

lemma proto_inv_writer:
  assumes "proto_inv N s" "i < N" "cwriter (cl s i)"
  shows "pwriter s" "\<not> lcrit (lp s)" "\<forall>j<N. j \<noteq> i \<longrightarrow> \<not> cwriter (cl s j)" "\<forall>j<N. \<not> creader (cl s j)"
  using proto_invD(8-10) [OF assms(1)] assms(2,3) by blast+

lemmas pc_defs = creader_def cwriter_def

lemma proto_inv_open:
  assumes "proto_inv N s" "i < N" "cl s i = COpen"
  shows "lp s \<notin> {LAlone, LEmpty, LClaimed, LZero, LQuit, LDone}"
  using proto_invD(2,11) [OF assms(1)] proto_inv_reader(2) [OF assms(1,2)] assms(2,3)
  by (auto simp: lcrit_def pc_defs)

text \<open>Every step of a sender keeps the invariant.\<close>

lemma proto_inv_client_steps:
  assumes inv: "proto_inv N s" and i: "i < N"
  shows "cl s i = CStart \<Longrightarrow> \<not> pwriter s \<Longrightarrow> proto_inv N (setc i CLocked s)"
    "cl s i = CLocked \<Longrightarrow> \<not> pclosed s \<Longrightarrow> proto_inv N (setc i COpen s)"
    "cl s i = CLocked \<Longrightarrow> proto_inv N (setc i CGone s)"
    "cl s i = COpen \<Longrightarrow> proto_inv N (setc i CHeld (s\<lparr>pholder := pholder s + 1\<rparr>))"
    "cl s i = CHeld \<Longrightarrow> proto_inv N (setc i CFree s)"
    "cl s i = CFree \<Longrightarrow> proto_inv N (setc i CSent (s\<lparr>pmail := ms\<rparr>))"
    "cl s i = CSent \<Longrightarrow> proto_inv N (setc i CGone (s\<lparr>pholder := pholder s - 1\<rparr>))"
    "cl s i = CStart \<Longrightarrow> \<not> pwriter s \<Longrightarrow> no_readers N 0 s \<Longrightarrow> proto_inv N (setc i CWLocked (s\<lparr>pwriter := True\<rparr>))"
    "cl s i = CWLocked \<Longrightarrow> \<not> pclosed s \<Longrightarrow> proto_inv N (setc i CFree (s\<lparr>pwriter := False, pholder := pholder s + 1\<rparr>))"
    "cl s i = CWLocked \<Longrightarrow> pclosed s \<Longrightarrow> proto_inv N (setc i CWait s)"
    "cl s i = CWait \<Longrightarrow> proto_inv N (setc i CGone (s\<lparr>pwriter := False\<rparr>))"
proof -
  note I = proto_invD [OF inv]
  note C = proto_inv_client [OF inv i]
  note R = proto_inv_reader [OF inv i] and H = proto_inv_holder [OF inv i] and W = proto_inv_writer [OF inv i]
    and O = proto_inv_open [OF inv i]
  show "proto_inv N (setc i CLocked s)" if "cl s i = CStart" "\<not> pwriter s"
    by (rule C [where c = CLocked and d = "0" and ms = "pmail s" and w = "pwriter s"], simp add: setc_def)
      (use that i I(8,10) in \<open>simp_all add: holding_iff pc_defs\<close>)
  show "proto_inv N (setc i COpen s)" if "cl s i = CLocked" "\<not> pclosed s"
    by (rule C [where c = COpen and d = "0" and ms = "pmail s" and w = "pwriter s"], simp add: setc_def)
      (use that i R in \<open>simp_all add: holding_iff pc_defs\<close>)
  show "proto_inv N (setc i CGone s)" if "cl s i = CLocked"
    by (rule C [where c = CGone and d = "0" and ms = "pmail s" and w = "pwriter s"], simp add: setc_def)
      (use that i R in \<open>simp_all add: holding_iff pc_defs\<close>)
  show "proto_inv N (setc i CHeld (s\<lparr>pholder := pholder s + 1\<rparr>))" if "cl s i = COpen"
    by (rule C [where c = CHeld and d = "1" and ms = "pmail s" and w = "pwriter s"], simp add: setc_def)
      (use that i R O in \<open>simp_all add: holding_iff pc_defs\<close>)
  show "proto_inv N (setc i CFree s)" if "cl s i = CHeld"
    by (rule C [where c = CFree and d = "0" and ms = "pmail s" and w = "pwriter s"], simp add: setc_def)
      (use that i R H in \<open>simp_all add: holding_iff pc_defs\<close>)
  show "proto_inv N (setc i CSent (s\<lparr>pmail := ms\<rparr>))" if "cl s i = CFree"
    by (rule C [where c = CSent and d = "0" and ms = "ms" and w = "pwriter s"], simp add: setc_def)
      (use that i I(8-10) H in \<open>simp_all add: holding_iff pc_defs\<close>)
  show "proto_inv N (setc i CGone (s\<lparr>pholder := pholder s - 1\<rparr>))" if "cl s i = CSent"
    by (rule C [where c = CGone and d = "-1" and ms = "pmail s" and w = "pwriter s"], simp add: setc_def)
      (use that i I(8-10) H in \<open>simp_all add: holding_iff pc_defs\<close>)
  show "proto_inv N (setc i CWLocked (s\<lparr>pwriter := True\<rparr>))" if "cl s i = CStart" "\<not> pwriter s" "no_readers N 0 s"
    by (rule C [where c = CWLocked and d = "0" and ms = "pmail s" and w = True], simp add: setc_def)
      (use that i I(8,10) in \<open>simp_all add: holding_iff pc_defs no_readers_def\<close>)
  show "proto_inv N (setc i CFree (s\<lparr>pwriter := False, pholder := pholder s + 1\<rparr>))" if "cl s i = CWLocked" "\<not> pclosed s"
    by (rule C [where c = CFree and d = "1" and ms = "pmail s" and w = False], simp add: setc_def)
      (use that i W I(2) in \<open>simp_all add: holding_iff pc_defs lcrit_def\<close>)
  show "proto_inv N (setc i CWait s)" if "cl s i = CWLocked" "pclosed s"
    by (rule C [where c = CWait and d = "0" and ms = "pmail s" and w = "pwriter s"], simp add: setc_def)
      (use that i W I(2) in \<open>simp_all add: holding_iff pc_defs lcrit_def\<close>)
  show "proto_inv N (setc i CGone (s\<lparr>pwriter := False\<rparr>))" if "cl s i = CWait"
    by (rule C [where c = CGone and d = "0" and ms = "pmail s" and w = False], simp add: setc_def)
      (use that i W in \<open>simp_all add: holding_iff pc_defs\<close>)
qed

text \<open>Every step of the goroutine keeps the invariant.\<close>

lemma proto_inv_loop_steps:
  assumes inv: "proto_inv N s"
  shows "lp s = LRun \<Longrightarrow> proto_inv N (s\<lparr>pmail := ms\<rparr>)" "lp s = LRun \<Longrightarrow> proto_inv N (s\<lparr>lp := LWant\<rparr>)"
    "lp s = LWant \<Longrightarrow> \<not> pwriter s \<Longrightarrow> no_readers N 0 s \<Longrightarrow> proto_inv N (s\<lparr>lp := LLocked, pwriter := True\<rparr>)"
    "lp s = LLocked \<Longrightarrow> proto_inv N (s\<lparr>lp := LOpen\<rparr>)"
    "lp s = LOpen \<Longrightarrow> proto_inv N (s\<lparr>lp := LRun, pwriter := False\<rparr>)"
    "lp s = LOpen \<Longrightarrow> \<not> pholder s > 1 \<Longrightarrow> proto_inv N (s\<lparr>lp := LAlone\<rparr>)"
    "lp s = LAlone \<Longrightarrow> proto_inv N (s\<lparr>lp := LRun, pwriter := False, pmail := []\<rparr>)"
    "lp s = LAlone \<Longrightarrow> pmail s = [] \<Longrightarrow> proto_inv N (s\<lparr>lp := LEmpty\<rparr>)"
    "lp s = LEmpty \<Longrightarrow> proto_inv N (s\<lparr>lp := LClaimed, pclosed := True\<rparr>)"
    "lp s = LClaimed \<Longrightarrow> proto_inv N (s\<lparr>lp := LZero, pholder := pholder s - 1\<rparr>)"
    "lp s = LZero \<Longrightarrow> proto_inv N (s\<lparr>lp := LQuit, pwriter := False, pmclosed := True\<rparr>)"
    "lp s = LQuit \<Longrightarrow> proto_inv N (s\<lparr>lp := LDone, pmail := [], pdone := True\<rparr>)"
proof -
  note I = proto_invD [OF inv]
  note L = proto_inv_loop [OF inv]
  have noc: "\<forall>i<N. cl s i \<noteq> COpen \<and> cl s i \<noteq> CWait" "\<forall>i<N. \<not> cwriter (cl s i)" "pwriter s" "\<forall>i<N. \<not> creader (cl s i)" if "lcrit (lp s)"
    using I(8) that by (auto simp: pc_defs)
  have noW: "\<forall>i<N. cl s i \<noteq> CWait" if "lp s \<notin> {LQuit, LDone}" using I(13) that by blast
  show "proto_inv N (s\<lparr>pmail := ms\<rparr>)" "proto_inv N (s\<lparr>lp := LWant\<rparr>)" if "lp s = LRun"
    by (rule L; use that I(1-5,9-11) noW in \<open>simp add: lcrit_def\<close>; blast)+
  show "proto_inv N (s\<lparr>lp := LLocked, pwriter := True\<rparr>)" if "lp s = LWant" "\<not> pwriter s" "no_readers N 0 s"
  proof -
    have "\<forall>i<N. \<not> cwriter (cl s i)" using I(10) that(2) by blast
    with that I(1-5) noW show ?thesis by (intro L) (simp_all add: no_readers_def)
  qed
  note N = noc [unfolded lcrit_def]
  show "proto_inv N (s\<lparr>lp := LOpen\<rparr>)" if "lp s = LLocked"
    by (rule L) (use that I(1-5) N in \<open>simp_all\<close>)
  show "proto_inv N (s\<lparr>lp := LRun, pwriter := False\<rparr>)" if "lp s = LOpen"
    by (rule L) (use that I(1-5) N in \<open>simp_all add: lcrit_def\<close>)
  have alone: "holding N s = {}" if "lp s = LOpen" "\<not> pholder s > 1"
    using I(1) that by (simp add: card_eq_0_iff)
  show "proto_inv N (s\<lparr>lp := LAlone\<rparr>)" if "lp s = LOpen" "\<not> pholder s > 1"
  proof -
    have "holding N s = {}" "pholder s = 1" using alone [OF that] I(1) that(1) by simp_all
    then show ?thesis by (intro L) (use that(1) I(2-5) N in \<open>simp_all\<close>)
  qed
  show "proto_inv N (s\<lparr>lp := LRun, pwriter := False, pmail := []\<rparr>)" if "lp s = LAlone"
    by (rule L) (use that I(1-5) N in \<open>simp_all add: lcrit_def\<close>)
  show "proto_inv N (s\<lparr>lp := LEmpty\<rparr>)" if "lp s = LAlone" "pmail s = []"
    by (rule L) (use that I(1-6) N in \<open>simp_all\<close>)
  show "proto_inv N (s\<lparr>lp := LClaimed, pclosed := True\<rparr>)" if "lp s = LEmpty"
    by (rule L) (use that I(1-7) N in \<open>simp_all\<close>)
  show "proto_inv N (s\<lparr>lp := LZero, pholder := pholder s - 1\<rparr>)" if "lp s = LClaimed"
    by (rule L) (use that I(1-7) N in \<open>simp_all\<close>)
  show "proto_inv N (s\<lparr>lp := LQuit, pwriter := False, pmclosed := True\<rparr>)" if "lp s = LZero"
    by (rule L) (use that I(1-7) N in \<open>simp_all add: lcrit_def\<close>)
  show "proto_inv N (s\<lparr>lp := LDone, pmail := [], pdone := True\<rparr>)" if "lp s = LQuit"
  proof -
    have "(\<exists>i<N. cwriter (cl s i)) \<longrightarrow> pwriter s" using I(10) by blast
    then show ?thesis by (intro L) (use that I(1-7,9,11) in \<open>simp_all add: lcrit_def\<close>)
  qed
qed

lemma proto_inv_step:
  assumes "pstep N 0 s s'" "proto_inv N s"
  shows "proto_inv N s'"
  using assms(1)
proof (cases rule: pstep.cases)
  case (c_unhold i)
  from proto_inv_holder(4) [OF assms(2) c_unhold(2)] c_unhold(3) have "pholder s - 1 \<noteq> 0" by simp
  with c_unhold proto_inv_client_steps(7) [OF assms(2)] show ?thesis by simp
next
  case (c_send_panic i)
  with proto_inv_holder(3) [OF assms(2) c_send_panic(2)] show ?thesis by simp
next
  case (c_close i)
  with proto_invD(12) [OF assms(2)] show ?thesis by blast
next
  case (c_busy i)
  with proto_inv_client_steps(6) [OF assms(2), of i "pmail s"] show ?thesis by simp
next
  case l_unhold
  from proto_invD(1,6) [OF assms(2)] l_unhold(2) have "pholder s - 1 = 0" by simp
  with l_unhold proto_inv_loop_steps(10) [OF assms(2)] show ?thesis by simp
next
  case l_close
  with proto_invD(3) [OF assms(2)] proto_inv_loop_steps(11) [OF assms(2)] show ?thesis
    by (simp add: close_mail_def)
next
  case l_late
  with proto_invD(2) [OF assms(2)] show ?thesis by simp
next
  case l_closed
  with proto_invD(2) [OF assms(2)] show ?thesis by simp
next
  case l_seen
  with proto_invD(2) [OF assms(2)] show ?thesis by simp
next
  case l_done
  with proto_invD(4) [OF assms(2)] proto_inv_loop_steps(12) [OF assms(2)] show ?thesis by auto
qed (use proto_inv_client_steps [OF assms(2)] proto_inv_loop_steps [OF assms(2)] in \<open>simp_all\<close>)

lemma preach_inv: "preach N 0 s \<Longrightarrow> proto_inv N s"
  by (induction rule: preach.induct) (auto intro: proto_inv_init proto_inv_step)

subsection \<open>Properties of the protocol\<close>

text \<open>C9: Without a concurrent close, sending while an idle actor quits is safe. In every interleaving of any
  number of senders (through the read lock or through \<open>spawnActor\<close>) with the actor's goroutine, nothing is ever sent on
  a closed mailbox and no mailbox is closed twice; a sender that holds the actor finds its mailbox open; when the
  goroutine has closed the mailbox nobody holds the actor and no message is left in it; and a sender that waits for
  \<open>doneCh\<close> with the write lock waits for a goroutine that has already left its main loop.\<close>

theorem idle_quit_is_safe:
  assumes "preach N 0 s"
  shows "\<not> ppanic s \<and>
    (\<forall>i<N. cl s i = CHeld \<or> cl s i = CFree \<or> cl s i = CSent \<longrightarrow> \<not> pmclosed s \<and> 1 < pholder s) \<and>
    (pmclosed s \<longrightarrow> pholder s = 0 \<and> pmail s = []) \<and>
    (\<forall>i<N. cl s i = CWait \<longrightarrow> lp s = LQuit \<or> lp s = LDone)"
proof -
  note inv = preach_inv [OF assms] and I = proto_invD [OF preach_inv [OF assms]]
  have "\<forall>i<N. cl s i = CHeld \<or> cl s i = CFree \<or> cl s i = CSent \<longrightarrow> \<not> pmclosed s \<and> 1 < pholder s"
    using proto_inv_holder [OF inv] by blast
  moreover have "pmclosed s \<longrightarrow> pholder s = 0 \<and> pmail s = []"
    using I(1,3,6,7) by auto
  moreover have "\<forall>i<N. cl s i = CWait \<longrightarrow> lp s = LQuit \<or> lp s = LDone" using I(13) by blast
  ultimately show ?thesis using I(5) by blast
qed

theorem idle_quit_is_safe_witness: "\<not> ppanic proto_init \<and> preach 2 0 proto_init"
  using idle_quit_is_safe [OF preach_init, of 2] preach_init by blast

text \<open>Executions as lists of states, each reached from the one before.\<close>

lemma preach_trans: "preach N K s \<Longrightarrow> pstep N K s s' \<Longrightarrow> s' = t \<Longrightarrow> preach N K t"
  by (auto intro: preach_step)

definition race_state :: proto where
  "race_state = proto_init\<lparr>pclosed := True, pholder := 0, pmclosed := True, cl := (\<lambda>_. CStart)(0 := COpen),
     kl := (\<lambda>_. KStart)(0 := KUnlock)\<rparr>"

lemma race_reachable: "preach 1 1 race_state"
proof -
  have "preach 1 1 (setc 0 CLocked proto_init)"
    by (rule preach_step [OF preach_init c_lock]) (simp_all add: proto_init_def)
  then have "preach 1 1 (setc 0 COpen (setc 0 CLocked proto_init))"
    by (rule preach_step [OF _ c_check_open]) (simp_all add: proto_init_def setc_def)
  then have "preach 1 1 (setk 0 KLocked (setc 0 COpen (setc 0 CLocked proto_init)))"
    by (rule preach_step [OF _ k_lock]) (simp_all add: proto_init_def setc_def)
  then have "preach 1 1 (setk 0 KClaimed (setk 0 KLocked (setc 0 COpen (setc 0 CLocked proto_init))\<lparr>pclosed := True\<rparr>))"
    by (rule preach_step [OF _ k_claim]) (simp_all add: proto_init_def setc_def setk_def)
  then have "preach 1 1 (proto_init\<lparr>pclosed := True, pholder := 0, cl := (\<lambda>_. CStart)(0 := COpen), kl := (\<lambda>_. KStart)(0 := KZero)\<rparr>)"
    by (rule preach_trans [OF _ k_unhold [of 0]]) (simp_all add: proto_init_def setc_def setk_def)
  then show ?thesis
    by (rule preach_trans [OF _ k_close [of 0]])
      (simp_all add: proto_init_def setk_def close_mail_def race_state_def)
qed

text \<open>C10: Closing an actor can make a sender panic. With one sender and one \<open>CloseActor\<close>, there is an execution in
  which the sender has seen the actor open, the closer closes its mailbox, and the sender then holds the actor and
  sends on the closed mailbox.\<close>

theorem close_race_panics: "\<exists>s. preach 1 1 s \<and> ppanic s"
proof -
  have "preach 1 1 (setc 0 CHeld (race_state\<lparr>pholder := pholder race_state + 1\<rparr>))"
    by (rule preach_step [OF race_reachable c_hold]) (simp_all add: race_state_def)
  then have "preach 1 1 (setc 0 CFree (setc 0 CHeld (race_state\<lparr>pholder := pholder race_state + 1\<rparr>)))"
    by (rule preach_step [OF _ c_unlock]) (simp_all add: setc_def)
  then have "preach 1 1 (setc 0 CSent (setc 0 CFree (setc 0 CHeld (race_state\<lparr>pholder := pholder race_state + 1\<rparr>))\<lparr>ppanic := True\<rparr>))"
    by (rule preach_step [OF _ c_send_panic]) (simp_all add: setc_def race_state_def)
  then show ?thesis
    by (intro exI conjI, assumption) (simp add: setc_def)
qed

definition dead_state :: proto where
  "dead_state = proto_init\<lparr>pclosed := True, pholder := 0, pmclosed := True, pwriter := True,
     cl := (\<lambda>_. CStart)(0 := CWait), kl := (\<lambda>_. KStart)(0 := KGone), lp := LWant\<rparr>"

lemma dead_reachable: "preach 1 1 dead_state"
proof -
  let ?s = "\<lambda>h mc c k. proto_init\<lparr>pclosed := c, pholder := h, pmclosed := mc, kl := (\<lambda>_. KStart)(0 := k), lp := LWant\<rparr>"
  have "preach 1 1 (proto_init\<lparr>lp := LWant\<rparr>)"
    by (rule preach_step [OF preach_init l_want]) (simp add: proto_init_def)
  then have "preach 1 1 (?s 1 False False KLocked)"
    by (rule preach_trans [OF _ k_lock [of 0]]) (simp_all add: proto_init_def setk_def)
  then have "preach 1 1 (?s 1 False True KClaimed)"
    by (rule preach_trans [OF _ k_claim [of 0]]) (simp_all add: proto_init_def setk_def)
  then have "preach 1 1 (?s 0 False True KZero)"
    by (rule preach_trans [OF _ k_unhold [of 0]]) (simp_all add: proto_init_def setk_def)
  then have "preach 1 1 (?s 0 True True KUnlock)"
    by (rule preach_trans [OF _ k_close [of 0]]) (simp_all add: proto_init_def setk_def close_mail_def)
  then have "preach 1 1 (?s 0 True True KGone)"
    by (rule preach_trans [OF _ k_unlock [of 0]]) (simp_all add: proto_init_def setk_def)
  then have "preach 1 1 (setc 0 CWLocked (?s 0 True True KGone\<lparr>pwriter := True\<rparr>))"
    by (rule preach_step [OF _ c_wlock]) (simp_all add: proto_init_def no_readers_def creader_def kreader_def)
  then show ?thesis
    by (rule preach_trans [OF _ c_wwait [of 0]]) (simp_all add: proto_init_def setc_def dead_state_def)
qed

text \<open>C11: Closing an idle actor and posting to it again can deadlock the group. There is an execution with one closer and one sender after
  which nothing can move: the goroutine waits in \<open>actorQuit\<close> for the group's lock, and the sender holds
  that lock in \<open>spawnActor\<close> while it waits for the goroutine to be done.\<close>

theorem respawn_deadlock:
  "\<exists>s. preach 1 1 s \<and> cl s 0 = CWait \<and> lp s = LWant \<and> \<not> (\<exists>s'. pstep 1 1 s s')"
proof (intro exI conjI notI)
  show "preach 1 1 dead_state" by (rule dead_reachable)
  show "cl dead_state 0 = CWait" "lp dead_state = LWant" by (simp_all add: dead_state_def)
  assume "\<exists>s'. pstep 1 1 dead_state s'"
  then show False
    by (auto elim!: pstep.cases simp: dead_state_def proto_init_def)
qed

end
