(* ===== verification/Group_Soundness.thy ===== *)
theory Group_Soundness
  imports Actor_Group
begin

section \<open>Soundness of the reference counts of a group\<close>

text \<open>
  Every interleaving of the operations of \<open>actor/group.go\<close>, one after the other as the group's lock admits them: a
  sender looks an actor up, spawns it, sends, lets go; a broadcast or multicast holds many; anyone closes or kills;
  the goroutine of an actor tries to quit, finishes, removes itself. The state is the group together with the number
  of references that callers hold on each object. An operation is legal when its caller owns what it uses. The
  theorem is type soundness: from a new group every legal operation goes through, no channel is closed twice or
  sent on after it was closed, and the counts of the objects agree with the references. What happens between the
  instructions of operations that do not take the lock is the subject of \<open>Hold_Protocol\<close>.
\<close>

datatype ('a, 'm) gop =
    OpHold 'a
  | OpRef 'a
  | OpSpawn 'a
  | OpHoldAll
  | OpHoldMany "'a list"
  | OpSend nat 'm
  | OpUnhold nat
  | OpIdle
  | OpWake
  | OpCloseActor 'a
  | OpKillActor 'a
  | OpCloseGroup
  | OpQuit nat "'m list"
  | OpFinish nat
  | OpRemove nat

type_synonym ('a, 'm, 'h, 'o) gstate = "(nat \<Rightarrow> nat) \<times> ('a, 'm, 'h, 'o) group"

text \<open>The result of an operation; \<^const>\<open>None\<close> is a panic.\<close>

definition hold_result :: "(nat \<Rightarrow> nat) \<Rightarrow> nat option \<times> ('a, 'm, 'h, 'o) group \<Rightarrow> ('a, 'm, 'h, 'o) gstate" where
  "hold_result r = (\<lambda>(po, g'). (case po of None \<Rightarrow> r | Some p \<Rightarrow> r(p := Suc (r p)), g'))"

fun gexec :: "('a, 'm) gop \<Rightarrow> ('a, 'm, 'h, 'o) gstate \<Rightarrow> ('a, 'm, 'h, 'o) gstate option" where
  "gexec (OpHold i) (r, g) = Some (hold_result r (holdActor i g))"
| "gexec (OpRef i) (r, g) = Some (hold_result r (holdActorForRef i g))"
| "gexec (OpSpawn i) (r, g) =
     (case spawnActor i g of
        (SpawnOld p, g') \<Rightarrow> Some (r(nextAddr g := 1, p := Suc (r p)), g')
      | (_, g') \<Rightarrow> Some (r(nextAddr g := 1), g'))"
| "gexec OpHoldAll (r, g) = (let (ps, g') = holdAllActors g in Some (add_refs r ps, g'))"
| "gexec (OpHoldMany ids) (r, g) = (let (ps, nf, g') = holdActors ids g in Some (add_refs r ps, g'))"
| "gexec (OpSend p m) (r, g) =
     map_option (\<lambda>(err :: ('a, unit) goerr option, g'). (r, g')) (send_at p m g)"
| "gexec (OpUnhold p) (r, g) = map_option (Pair (r(p := r p - 1))) (unhold_at p g)"
| "gexec OpIdle (r, g) = Some (r, actorIdle g)"
| "gexec OpWake (r, g) = Some (r, actorWake g)"
| "gexec (OpCloseActor i) (r, g) = map_option (\<lambda>(_, g'). (r, g')) (closeActor i g)"
| "gexec (OpKillActor i) (r, g) = map_option (\<lambda>(_, g'). (r, g')) (killActor i g)"
| "gexec OpCloseGroup (r, g) = map_option (Pair r) (closeGroup g)"
| "gexec (OpQuit p buf) (r, g) = map_option (\<lambda>(_, g'). (r, g')) (actorQuit p buf g)"
| "gexec (OpFinish p) (r, g) = Some (r, finish p g)"
| "gexec (OpRemove p) (r, g) = Some (r, removeActor p g)"

text \<open>Sending and letting go need a reference; the goroutine's operations are those of an object that exists.\<close>

fun legal :: "('a, 'm) gop \<Rightarrow> ('a, 'm, 'h, 'o) gstate \<Rightarrow> bool" where
  "legal (OpSend p m) (r, g) = (p < nextAddr g \<and> 0 < r p)"
| "legal (OpUnhold p) (r, g) = (p < nextAddr g \<and> 0 < r p)"
| "legal (OpQuit p buf) (r, g) = (p < nextAddr g)"
| "legal (OpFinish p) (r, g) = (p < nextAddr g)"
| "legal (OpRemove p) (r, g) = (p < nextAddr g)"
| "legal _ s = True"

inductive reachable :: "('a, 'm, 'h, 'o) gstate \<Rightarrow> bool" where
  start: "reachable ((\<lambda>_. 0), newGroup b reg os n)"
| step: "reachable s \<Longrightarrow> legal op1 s \<Longrightarrow> gexec op1 s = Some s' \<Longrightarrow> reachable s'"

inductive_cases reachableE: "reachable s"

subsection \<open>Progress and preservation\<close>

lemma group_inv_upd_same:
  "group_inv r g \<Longrightarrow> p < nextAddr g \<Longrightarrow> rt_ok (r p) a \<Longrightarrow> aid a = aid (heap g p) \<Longrightarrow> group_inv r (upd p a g)"
  using group_inv_upd [of r g p "r p" a] by simp

lemma requestClose_at_inv:
  assumes "group_inv r g" "p < nextAddr g"
  shows "\<exists>g'. requestClose_at p g = Some g' \<and> group_inv r g'"
proof (rule rt_ok_requestClose [OF group_inv_rt [OF assms]])
  fix a' assume "requestClose (heap g p) = Some a'" "rt_ok (r p) a'" "aid a' = aid (heap g p)"
  then show ?thesis using group_inv_upd_same [OF assms] by (simp add: requestClose_at_def)
qed

lemma kill_inv:
  assumes "group_inv r g" "p < nextAddr g"
  shows "\<exists>a'. kill (heap g p) = Some a' \<and> group_inv r (upd p a' g)"
proof -
  have "rt_ok (r p) ((heap g p)\<lparr>cancelled := True\<rparr>)"
    using group_inv_rt [OF assms] by (simp add: rt_ok_def)
  then show ?thesis
  proof (rule rt_ok_requestClose)
    fix a' assume "requestClose ((heap g p)\<lparr>cancelled := True\<rparr>) = Some a'" "rt_ok (r p) a'"
      "aid a' = aid ((heap g p)\<lparr>cancelled := True\<rparr>)"
    then show ?thesis using group_inv_upd_same [OF assms] by (simp add: kill_def)
  qed
qed

lemma unhold_at_inv:
  assumes "group_inv r g" "p < nextAddr g" "0 < r p"
  shows "\<exists>g'. unhold_at p g = Some g' \<and> group_inv (r(p := r p - 1)) g'"
proof -
  have "rt_ok (Suc (r p - 1)) (heap g p)" using group_inv_rt [OF assms(1,2)] assms(3) by simp
  then show ?thesis
  proof (rule rt_ok_unhold)
    fix a' assume "unhold (heap g p) = Some a'" "rt_ok (r p - 1) a'" "aid a' = aid (heap g p)"
    then show ?thesis using group_inv_upd [OF assms(1,2)] by (simp add: unhold_at_def)
  qed
qed

lemma hold_result_inv:
  assumes "group_inv r g"
  shows "group_inv (fst (hold_result r (holdActor i g))) (snd (hold_result r (holdActor i g)))"
  using group_inv_holdActor [OF assms, of i] assms
  by (cases "holdActor i g") (auto simp: hold_result_def split: option.splits)

lemma closeGroup_inv:
  assumes "group_inv r g"
  shows "\<exists>g'. closeGroup g = Some g' \<and> group_inv r g'"
  using assms closeGroup_spec [OF assms] by (cases "stopping g") (auto simp: closeGroup_def)

lemma spawn_inv:
  assumes "group_inv r g"
  shows "\<exists>s'. gexec (OpSpawn i) (r, g) = Some s' \<and> group_inv (fst s') (snd s')"
  using group_inv_spawnActor [OF assms, of i]
  by (cases "spawnActor i g"; cases "fst (spawnActor i g)") auto

lemma send_inv:
  fixes g :: "('a, 'm, 'h, 'o) group"
  assumes "group_inv r g" "p < nextAddr g" "0 < r p"
  shows "\<exists>s'. gexec (OpSend p m) (r, g) = Some s' \<and> group_inv (fst s') (snd s')"
proof -
  have "send_at p m g = Some (if room g p then (None :: ('a, unit) goerr option, put_mail p m g)
      else (Some (ActorBusyError (aid (heap g p))), g))"
    by (rule send_at_held [OF assms(1,2)]) (use assms(3) in simp)
  then show ?thesis using assms(1) group_inv_put_mail [OF assms(1,2), of m] by (cases "room g p") auto
qed

lemma hold_many_inv:
  assumes "group_inv r g"
  shows "\<exists>s'. gexec OpHoldAll (r, g) = Some s' \<and> group_inv (fst s') (snd s')"
    and "\<exists>s'. gexec (OpHoldMany ids) (r, g) = Some s' \<and> group_inv (fst s') (snd s')"
proof -
  have "set (map snd (actors g)) \<subseteq> {..<nextAddr g}" using assms by (auto simp: group_inv_def)
  then show "\<exists>s'. gexec OpHoldAll (r, g) = Some s' \<and> group_inv (fst s') (snd s')"
    using hold_each_inv [OF assms, of "map snd (actors g)"]
    by (cases "hold_each (map snd (actors g)) g") (simp add: holdAllActors_def)
  show "\<exists>s'. gexec (OpHoldMany ids) (r, g) = Some s' \<and> group_inv (fst s') (snd s')"
    using holdActors_inv [OF assms] by (cases "holdActors ids g") auto
qed

lemma close_inv:
  assumes "group_inv r g"
  shows "\<exists>s'. gexec (OpCloseActor i) (r, g) = Some s' \<and> group_inv (fst s') (snd s')"
    and "\<exists>s'. gexec (OpKillActor i) (r, g) = Some s' \<and> group_inv (fst s') (snd s')"
  using assms requestClose_at_inv [OF assms group_inv_lookup(1) [OF assms]] kill_inv [OF assms group_inv_lookup(1) [OF assms]]
  by (cases "map_of (actors g) i"; force simp: closeActor_def killActor_def)+

lemma goroutine_inv:
  assumes "group_inv r g" "p < nextAddr g"
  shows "\<exists>s'. gexec (OpQuit p buf) (r, g) = Some s' \<and> group_inv (fst s') (snd s')"
    and "group_inv r (finish p g)" "group_inv r (removeActor p g)"
proof -
  show "\<exists>s'. gexec (OpQuit p buf) (r, g) = Some s' \<and> group_inv (fst s') (snd s')"
    using actorQuit_spec [OF assms, of buf] by auto
  show "group_inv r (finish p g)"
    unfolding finish_def using group_inv_rt [OF assms] by (intro group_inv_upd_same [OF assms]) (simp_all add: rt_ok_def)
  show "group_inv r (removeActor p g)"
    using assms(1) by (simp add: removeActor_def Let_def group_inv_delete)
qed

text \<open>One legal operation.\<close>

lemma gexec_sound:
  assumes "group_inv r g" "legal op1 (r, g)"
  shows "\<exists>s'. gexec op1 (r, g) = Some s' \<and> group_inv (fst s') (snd s')"
proof (cases op1)
  case (OpRef i)
  then show ?thesis using hold_result_inv [OF assms(1)] by (simp add: holdActorForRef_def holdActor_def)
next
  case (OpUnhold p)
  then show ?thesis using unhold_at_inv [OF assms(1), of p] assms(2) by auto
next
  case (OpSend p m)
  then show ?thesis using send_inv [OF assms(1), of p m] assms(2) by simp
next
  case (OpQuit p buf)
  then show ?thesis using goroutine_inv(1) [OF assms(1), of p buf] assms(2) by simp
next
  case OpCloseGroup
  then show ?thesis using closeGroup_inv [OF assms(1)] by auto
next
  case OpIdle
  then show ?thesis using assms(1) by (simp add: actorIdle_def group_inv_def)
next
  case OpWake
  then show ?thesis using assms(1) by (simp add: actorWake_def group_inv_def)
next
  case (OpHold i)
  then show ?thesis using hold_result_inv [OF assms(1), of i] by simp
next
  case (OpSpawn i)
  then show ?thesis using spawn_inv [OF assms(1), of i] by simp
next
  case OpHoldAll
  then show ?thesis using hold_many_inv(1) [OF assms(1)] by simp
next
  case (OpHoldMany ids)
  then show ?thesis using hold_many_inv(2) [OF assms(1), of ids] by simp
next
  case (OpCloseActor i)
  then show ?thesis using close_inv(1) [OF assms(1), of i] by simp
next
  case (OpKillActor i)
  then show ?thesis using close_inv(2) [OF assms(1), of i] by simp
next
  case (OpFinish p)
  then show ?thesis using goroutine_inv(2) [OF assms(1), of p] assms(2) by simp
next
  case (OpRemove p)
  then show ?thesis using goroutine_inv(3) [OF assms(1), of p] assms(2) by simp
qed

lemma reachable_inv: "reachable s \<Longrightarrow> group_inv (fst s) (snd s)"
proof (induction rule: reachable.induct)
  case (start b reg os n)
  show ?case by (simp add: group_inv_new)
next
  case (step s op1 s')
  then show ?case using gexec_sound [of "fst s" "snd s" op1] by simp
qed

subsection \<open>Properties\<close>

text \<open>C8: Type soundness of a group. In every state that a new group reaches by legal operations, in any order and
  number, every legal operation goes through without a panic and leads to a state in which each table entry is an
  object with that identity, identities are unique, the holder count of every object is the number of references
  on it plus one while it is open, and its mailbox is closed exactly when that count is zero.\<close>

theorem group_sound:
  assumes "reachable s" "legal op1 s"
  shows "\<exists>r g. gexec op1 s = Some (r, g) \<and> reachable (r, g) \<and> distinct (map fst (actors g)) \<and>
    (\<forall>(i, p)\<in>set (actors g). p < nextAddr g \<and> aid (heap g p) = i) \<and>
    (\<forall>p<nextAddr g. holder (heap g p) = int (r p) + (if closed (heap g p) then 0 else 1) \<and>
       (chan_closed (mailbox (heap g p)) \<longleftrightarrow> holder (heap g p) = 0))"
proof -
  obtain s' where s': "gexec op1 s = Some s'" "group_inv (fst s') (snd s')"
    using gexec_sound [of "fst s" "snd s" op1] reachable_inv [OF assms(1)] assms(2) by auto
  then show ?thesis
    using reachable.step [OF assms s'(1)]
    by (intro exI [of _ "fst s'"] exI [of _ "snd s'"]) (simp add: group_inv_def rt_ok_def)
qed

definition demo_state :: "(nat, nat, unit, unit) gstate" where
  "demo_state = the (gexec (OpSpawn 5) ((\<lambda>_. 0), newGroup (newActor 0 0) Map.empty None 3))"

lemma demo_spawned:
  "gexec (OpSpawn 5) ((\<lambda>_. 0), newGroup (newActor 0 0) Map.empty None 3) = Some demo_state"
  "nextAddr (snd demo_state) = 1" "fst demo_state 0 = 1"
  by (simp_all add: demo_state_def spawnActor_def newGroup_def isStopping_def actorIdle_def Let_def)

theorem group_sound_witness:
  "\<exists>r g. gexec (OpSend 0 7) demo_state = Some (r, g) \<and> reachable (r, g) \<and> distinct (map fst (actors g))"
proof -
  have "reachable demo_state" by (rule reachable.step [OF reachable.start _ demo_spawned(1)]) simp
  moreover have "legal (OpSend 0 7) demo_state" using demo_spawned(2,3) legal.simps(1) [of 0 7 "fst demo_state" "snd demo_state"] by simp
  ultimately show ?thesis using group_sound [of demo_state "OpSend 0 7"] by blast
qed

end
