(* ===== verification/Cluster_Placement.thy ===== *)
theory Cluster_Placement
  imports Go_Prelude "HOL-Library.Word"
begin

section \<open>Cluster nodes, placement and ownership\<close>

text \<open>
  The routing decisions of \<open>cluster/node.go\<close>, \<open>cluster/placement.go\<close> and \<open>cluster/migration.go\<close>:
  node sets, the mapping of node types to actor types, the consistent-hash ring with its CRC-32
  points, the binary search of \<open>sort.Search\<close>, the decorator \<open>GroupAwarePlacement\<close>, the ownership
  tests and the loop of the migration coordinator.

  \<open>sort.Slice\<close> is not stable, so its result is only known to be a sorted permutation: the sorting
  function is an argument of the definitions and the locale \<open>slice_sort\<close> states its contract. A
  strategy is a function that returns \<^const>\<open>None\<close> when \<open>Place\<close> panics.
\<close>

unbundle bit_operations_syntax

subsection \<open>Nodes and group mappings\<close>

record Node =
  ID :: string
  Addr :: string
  NType :: string
  Meta :: "(string \<times> string) list"

type_synonym NodeSet = "Node list"

text \<open>\<open>Node{}\<close>\<close>

definition Node0 :: Node where
  "Node0 = \<lparr>ID = [], Addr = [], NType = [], Meta = []\<rparr>"

fun Lookup :: "NodeSet \<Rightarrow> string \<Rightarrow> Node option" where
  "Lookup [] i = None"
| "Lookup (n # ns) i = (if ID n = i then Some n else Lookup ns i)"

definition Contains :: "NodeSet \<Rightarrow> string \<Rightarrow> bool" where
  "Contains ns i \<longleftrightarrow> Lookup ns i \<noteq> None"

type_synonym GroupMapping = "string \<rightharpoonup> string list"

fun group_loop :: "string list \<Rightarrow> string \<Rightarrow> bool" where
  "group_loop [] t = False"
| "group_loop (g # gs) t = (if g = t then True else group_loop gs t)"

definition HasGroup :: "GroupMapping \<Rightarrow> string \<Rightarrow> string \<Rightarrow> bool" where
  "HasGroup m nt t =
     (if nt = [] then True else case m nt of None \<Rightarrow> False | Some gs \<Rightarrow> group_loop gs t)"

definition NodeCanHost :: "GroupMapping \<Rightarrow> Node \<Rightarrow> string \<Rightarrow> bool" where
  "NodeCanHost m n t = HasGroup m (NType n) t"

fun filter_loop :: "GroupMapping \<Rightarrow> string \<Rightarrow> NodeSet \<Rightarrow> NodeSet \<Rightarrow> NodeSet" where
  "filter_loop m t [] filtered = filtered"
| "filter_loop m t (n # ns) filtered =
     filter_loop m t ns (if NodeCanHost m n t then filtered @ [n] else filtered)"

definition FilterByGroup :: "GroupMapping \<Rightarrow> NodeSet \<Rightarrow> string \<Rightarrow> NodeSet" where
  "FilterByGroup m ns t = (if ns = [] then ns else filter_loop m t ns [])"

text \<open>Reading a missing key of a Go map gives the zero value, here the nil slice.\<close>

definition GroupsOf :: "GroupMapping \<Rightarrow> string \<Rightarrow> string list" where
  "GroupsOf m nt = (case m nt of None \<Rightarrow> [] | Some gs \<Rightarrow> gs)"

subsection \<open>Decimal printing of the virtual node index\<close>

function itoa_digits :: "int \<Rightarrow> string \<Rightarrow> string" where
  "itoa_digits n buf =
     (if n > 0 then itoa_digits (n div 10) (buf @ [char_of (48 + nat (n mod 10))]) else buf)"
  by pat_completeness auto
termination by (relation "measure (\<lambda>(n, _). nat n)") auto

function swap_loop :: "int \<Rightarrow> int \<Rightarrow> string \<Rightarrow> string" where
  "swap_loop i j buf =
     (if i < j then swap_loop (i + 1) (j - 1) (buf[nat i := buf ! nat j, nat j := buf ! nat i]) else buf)"
  by pat_completeness auto
termination by (relation "measure (\<lambda>(i, j, _). nat (j - i))") auto

declare itoa_digits.simps [simp del] swap_loop.simps [simp del]

definition itoa :: "int \<Rightarrow> string" where
  "itoa n = (if n = 0 then ''0'' else
     let buf = itoa_digits n [] in swap_loop 0 (int (length buf) - 1) buf)"

subsection \<open>CRC-32\<close>

text \<open>\<open>crc32.ChecksumIEEE\<close>: the reflected polynomial, one bit at a time.\<close>

definition crc_bit :: "32 word \<Rightarrow> 32 word" where
  "crc_bit c = (if bit c 0 then drop_bit 1 c XOR 0xEDB88320 else drop_bit 1 c)"

definition crc_byte :: "32 word \<Rightarrow> char \<Rightarrow> 32 word" where
  "crc_byte c b = (crc_bit ^^ 8) (c XOR word_of_nat (of_char b))"

definition ChecksumIEEE :: "string \<Rightarrow> 32 word" where
  "ChecksumIEEE s = NOT (foldl crc_byte (NOT 0) s)"

subsection \<open>Binary search\<close>

text \<open>\<open>sort.Search\<close> on \<open>[i, j)\<close>.\<close>

function search_loop :: "(nat \<Rightarrow> bool) \<Rightarrow> nat \<Rightarrow> nat \<Rightarrow> nat" where
  "search_loop f i j =
     (if i < j then
        (let h = (i + j) div 2 in if \<not> f h then search_loop f (h + 1) j else search_loop f i h)
      else i)"
  by pat_completeness auto
termination by (relation "measure (\<lambda>(_, i, j). j - i)") auto

declare search_loop.simps [simp del]

definition Search :: "nat \<Rightarrow> (nat \<Rightarrow> bool) \<Rightarrow> nat" where
  "Search n f = search_loop f 0 n"

subsection \<open>Consistent hashing\<close>

record ConsistentHashPlacement =
  VirtualNodes :: int
  Mapping :: "GroupMapping option"

definition NewConsistentHashPlacement :: "int \<Rightarrow> ConsistentHashPlacement" where
  "NewConsistentHashPlacement v = \<lparr>VirtualNodes = (if v \<le> 0 then 128 else v), Mapping = None\<rparr>"

definition WithGroupMapping :: "GroupMapping option \<Rightarrow> ConsistentHashPlacement \<Rightarrow> ConsistentHashPlacement" where
  "WithGroupMapping m p = p\<lparr>Mapping := m\<rparr>"

record hashRingEntry =
  hash :: "32 word"
  node :: Node

definition filterEligible :: "ConsistentHashPlacement \<Rightarrow> string \<Rightarrow> NodeSet \<Rightarrow> NodeSet" where
  "filterEligible p t ms = (case Mapping p of None \<Rightarrow> ms | Some m \<Rightarrow> FilterByGroup m ms t)"

definition ring_entry :: "Node \<Rightarrow> nat \<Rightarrow> hashRingEntry" where
  "ring_entry n i = \<lparr>hash = ChecksumIEEE (ID n @ ''-'' @ itoa (int i)), node = n\<rparr>"

definition build_ring :: "nat \<Rightarrow> NodeSet \<Rightarrow> hashRingEntry list" where
  "build_ring v ms = concat (map (\<lambda>n. map (ring_entry n) [0..<v]) ms)"

text \<open>
  \<^const>\<open>None\<close>: \<open>make\<close> panics on a negative capacity, and indexing an empty ring panics. Both
  need a strategy that was not built by \<open>NewConsistentHashPlacement\<close>.
\<close>

definition placeOnRing ::
  "(hashRingEntry list \<Rightarrow> hashRingEntry list) \<Rightarrow> ConsistentHashPlacement \<Rightarrow> string \<Rightarrow> NodeSet \<Rightarrow> Node option" where
  "placeOnRing srt p key ms =
     (if VirtualNodes p < 0 then None else
      let ring = srt (build_ring (nat (VirtualNodes p)) ms);
          keyHash = ChecksumIEEE key;
          idx = Search (length ring) (\<lambda>i. keyHash \<le> hash (ring ! i));
          idx' = (if idx = length ring then 0 else idx)
      in if idx' < length ring then Some (node (ring ! idx')) else None)"

definition Place ::
  "(hashRingEntry list \<Rightarrow> hashRingEntry list) \<Rightarrow> ConsistentHashPlacement \<Rightarrow> string \<Rightarrow> string \<Rightarrow> NodeSet \<Rightarrow> Node option" where
  "Place srt p t i ms =
     (if ms = [] then Some Node0 else
      let eligible = filterEligible p t ms in
      if eligible = [] then Some Node0
      else if length eligible = 1 then Some (eligible ! 0)
      else placeOnRing srt p (t @ '':'' @ i) eligible)"

type_synonym strategy = "string \<Rightarrow> string \<Rightarrow> NodeSet \<Rightarrow> Node option"

record GroupAwarePlacement =
  inner :: strategy
  mapping :: GroupMapping

definition NewGroupAwarePlacement :: "strategy \<Rightarrow> GroupMapping \<Rightarrow> GroupAwarePlacement" where
  "NewGroupAwarePlacement s m = \<lparr>inner = s, mapping = m\<rparr>"

definition GroupAware_Place :: "GroupAwarePlacement \<Rightarrow> strategy" where
  "GroupAware_Place g t i ms =
     (let eligible = FilterByGroup (mapping g) ms t in
      if eligible = [] then Some Node0 else inner g t i eligible)"

definition PlacementError_String :: "string \<Rightarrow> string \<Rightarrow> string" where
  "PlacementError_String t i = ''no eligible node for actor '' @ t @ '':'' @ i"

subsection \<open>Ownership\<close>

definition ShouldOwn :: "strategy \<Rightarrow> NodeSet \<Rightarrow> string \<Rightarrow> string \<Rightarrow> string \<Rightarrow> bool option" where
  "ShouldOwn pl ms self t i = map_option (\<lambda>n. ID n = self) (pl t i ms)"

definition CheckOwnership :: "strategy \<Rightarrow> NodeSet \<Rightarrow> string \<Rightarrow> string \<Rightarrow> string \<Rightarrow> (string \<times> bool) option" where
  "CheckOwnership pl ms self t i = map_option (\<lambda>n.
     if ID n = [] then ([], False)
     else if ID n \<noteq> self then (ID n, True)
     else ([], False)) (pl t i ms)"

text \<open>\<open>ActorRef.String\<close> of \<open>cluster\<close>.\<close>

definition cluster_ref_String :: "string \<Rightarrow> string \<Rightarrow> string" where
  "cluster_ref_String t i = t @ '':'' @ i"

subsection \<open>Facts on the helpers\<close>

lemma Lookup_Some: "Lookup ns i = Some n \<Longrightarrow> n \<in> set ns \<and> ID n = i"
  by (induction ns) (auto split: if_splits)

lemma Lookup_None_iff: "Lookup ns i = None \<longleftrightarrow> i \<notin> ID ` set ns"
  by (induction ns) auto

lemma Contains_iff: "Contains ns i \<longleftrightarrow> i \<in> ID ` set ns"
  by (simp add: Contains_def Lookup_None_iff)

lemma group_loop_iff [simp]: "group_loop gs t \<longleftrightarrow> t \<in> set gs"
  by (induction gs) auto

lemma filter_loop_filter: "filter_loop m t ns acc = acc @ filter (\<lambda>n. NodeCanHost m n t) ns"
  by (induction ns arbitrary: acc) auto

lemma FilterByGroup_filter: "FilterByGroup m ns t = filter (\<lambda>n. NodeCanHost m n t) ns"
  by (simp add: FilterByGroup_def filter_loop_filter)

lemma set_filterEligible:
  "set (filterEligible p t ms) =
     {n \<in> set ms. case Mapping p of None \<Rightarrow> True | Some m \<Rightarrow> NodeCanHost m n t}"
  by (auto simp: filterEligible_def FilterByGroup_filter split: option.splits)

lemma filterEligible_Nil [simp]: "filterEligible p t [] = []"
  by (simp add: filterEligible_def FilterByGroup_filter split: option.splits)

lemma swap_loop_nth:
  "0 \<le> i \<Longrightarrow> j < int (length buf) \<Longrightarrow> i \<le> j + 1 \<Longrightarrow>
     length (swap_loop i j buf) = length buf \<and>
     (\<forall>k<length buf. swap_loop i j buf ! k =
        (if i \<le> int k \<and> int k \<le> j then buf ! nat (i + j - int k) else buf ! k))"
proof (induction i j buf rule: swap_loop.induct)
  case (1 i j buf)
  show ?case
  proof (cases "i < j")
    case True
    let ?b = "buf[nat i := buf ! nat j, nat j := buf ! nat i]"
    have IH: "length (swap_loop (i + 1) (j - 1) ?b) = length ?b \<and>
        (\<forall>k<length ?b. swap_loop (i + 1) (j - 1) ?b ! k =
          (if i + 1 \<le> int k \<and> int k \<le> j - 1 then ?b ! nat (i + 1 + (j - 1) - int k) else ?b ! k))"
      by (rule "1.IH" [OF True]) (use "1.prems" True in simp_all)
    have r: "swap_loop i j buf = swap_loop (i + 1) (j - 1) ?b"
      using True by (simp add: swap_loop.simps [of i j])
    have "swap_loop i j buf ! k =
        (if i \<le> int k \<and> int k \<le> j then buf ! nat (i + j - int k) else buf ! k)" if k: "k < length buf" for k
    proof -
      have *: "swap_loop i j buf ! k =
          (if i + 1 \<le> int k \<and> int k \<le> j - 1 then ?b ! nat (i + j - int k) else ?b ! k)"
        using conjunct2 [OF IH, rule_format, of k] k by (simp add: r)
      consider "i + 1 \<le> int k" "int k \<le> j - 1" | "int k = i" | "int k = j" | "int k < i" | "int k > j" by linarith
      then show ?thesis
        unfolding * by cases (use "1.prems" True k in \<open>auto simp: nth_list_update\<close>)
    qed
    with r conjunct1 [OF IH] show ?thesis by simp
  next
    case False
    then have "int k = i \<and> nat (i + j - int k) = k" if "i \<le> int k" "int k \<le> j" for k
      using that by auto
    with False show ?thesis by (auto simp: swap_loop.simps [of i j])
  qed
qed

lemma swap_loop_rev: "swap_loop 0 (int (length buf) - 1) buf = rev buf"
proof (rule nth_equalityI)
  show "length (swap_loop 0 (int (length buf) - 1) buf) = length (rev buf)"
    using swap_loop_nth [of 0 "int (length buf) - 1" buf] by simp
  fix k assume "k < length (swap_loop 0 (int (length buf) - 1) buf)"
  then have k: "k < length buf" using swap_loop_nth [of 0 "int (length buf) - 1" buf] by simp
  moreover have "nat (int (length buf) - 1 - int k) = length buf - Suc k" using k by linarith
  ultimately show "swap_loop 0 (int (length buf) - 1) buf ! k = rev buf ! k"
    using swap_loop_nth [of 0 "int (length buf) - 1" buf] by (simp add: rev_nth)
qed

lemma itoa_digits_append: "itoa_digits n buf = buf @ itoa_digits n []"
proof (induction "nat n" arbitrary: n buf rule: less_induct)
  case less
  show ?case
  proof (cases "n > 0")
    case True
    let ?d = "char_of (48 + nat (n mod 10)) :: char"
    have "nat (n div 10) < nat n" using True by auto
    then have "itoa_digits (n div 10) (buf @ [?d]) = (buf @ [?d]) @ itoa_digits (n div 10) []"
      "itoa_digits (n div 10) [?d] = [?d] @ itoa_digits (n div 10) []"
      by (rule less)+
    with True show ?thesis by (simp add: itoa_digits.simps [of n])
  next
    case False
    then show ?thesis by (simp add: itoa_digits.simps [of n])
  qed
qed

lemma rev_itoa_digits: "0 < n \<Longrightarrow> rev (itoa_digits n []) = nat_dec (nat n)"
proof (induction "nat n" arbitrary: n rule: less_induct)
  case less
  have r: "rev (itoa_digits n []) = rev (itoa_digits (n div 10) []) @ [char_of (48 + nat (n mod 10))]"
    using less.prems itoa_digits_append [of "n div 10" "[char_of (48 + nat (n mod 10))]"]
    by (simp add: itoa_digits.simps [of n])
  have m: "nat (n mod 10) = nat n mod 10" "nat (n div 10) = nat n div 10"
    using less.prems by (simp_all add: nat_mod_distrib nat_div_distrib)
  show ?case
  proof (cases "n < 10")
    case True
    then have "n div 10 = 0" using less.prems by simp
    then have "itoa_digits (n div 10) [] = []" by (simp add: itoa_digits.simps)
    moreover have "nat n < 10" "nat (n mod 10) = nat n" using True less.prems by auto
    ultimately show ?thesis by (simp only: r nat_dec.simps [of "nat n"]) simp
  next
    case False
    have "rev (itoa_digits (n div 10) []) = nat_dec (nat (n div 10))"
      by (rule less.hyps) (use False in auto)
    moreover have "\<not> nat n < 10" using False by simp
    ultimately show ?thesis by (simp only: r m nat_dec.simps [of "nat n"]) simp
  qed
qed

lemma search_loop_spec:
  "(\<And>k l. i \<le> k \<Longrightarrow> k \<le> l \<Longrightarrow> l < j \<Longrightarrow> f k \<Longrightarrow> f l) \<Longrightarrow> i \<le> j \<Longrightarrow>
     i \<le> search_loop f i j \<and> search_loop f i j \<le> j \<and>
     (\<forall>k. i \<le> k \<and> k < search_loop f i j \<longrightarrow> \<not> f k) \<and>
     (search_loop f i j < j \<longrightarrow> f (search_loop f i j))"
proof (induction f i j rule: search_loop.induct)
  case (1 f i j)
  show ?case
  proof (cases "i < j")
    case True
    let ?h = "(i + j) div 2"
    have h: "i \<le> ?h" "?h < j" using True by auto
    show ?thesis
    proof (cases "f ?h")
      case False
      have r: "search_loop f i j = search_loop f (?h + 1) j"
        using True False by (simp add: search_loop.simps [of f i] Let_def)
      have low: "\<not> f k" if "i \<le> k" "k \<le> ?h" for k using "1.prems"(1) [of k ?h] that h False by blast
      have "?h + 1 \<le> search_loop f (?h + 1) j \<and> search_loop f (?h + 1) j \<le> j \<and>
        (\<forall>k. ?h + 1 \<le> k \<and> k < search_loop f (?h + 1) j \<longrightarrow> \<not> f k) \<and>
        (search_loop f (?h + 1) j < j \<longrightarrow> f (search_loop f (?h + 1) j))"
      proof (rule "1.IH"(1) [OF True refl False])
        show "f l" if "?h + 1 \<le> k" "k \<le> l" "l < j" "f k" for k l
          by (rule "1.prems"(1) [of k l]) (use that h in linarith)+
        show "?h + 1 \<le> j" using h by simp
      qed
      then have lo: "?h + 1 \<le> search_loop f i j" and up: "search_loop f i j \<le> j"
        and mid: "\<And>k. ?h + 1 \<le> k \<Longrightarrow> k < search_loop f i j \<Longrightarrow> \<not> f k"
        and fin: "search_loop f i j < j \<Longrightarrow> f (search_loop f i j)" by (simp_all only: r) blast+
      have "\<not> f k" if "i \<le> k" "k < search_loop f i j" for k
        using low [of k] mid [of k] that by (cases "k \<le> ?h") auto
      with lo up fin h(1) show ?thesis by auto
    next
      case f: True
      have r: "search_loop f i j = search_loop f i ?h"
        using True f by (simp add: search_loop.simps [of f i] Let_def)
      have "i \<le> search_loop f i ?h \<and> search_loop f i ?h \<le> ?h \<and>
        (\<forall>k. i \<le> k \<and> k < search_loop f i ?h \<longrightarrow> \<not> f k) \<and>
        (search_loop f i ?h < ?h \<longrightarrow> f (search_loop f i ?h))"
      proof (rule "1.IH"(2) [OF True refl])
        show "\<not> \<not> f ?h" using f by simp
        show "f l" if "i \<le> k" "k \<le> l" "l < ?h" "f k" for k l
          by (rule "1.prems"(1) [of k l]) (use that h in linarith)+
        show "i \<le> ?h" by (rule h(1))
      qed
      then have up: "i \<le> search_loop f i j" "search_loop f i j \<le> ?h"
        and mid: "\<forall>k. i \<le> k \<and> k < search_loop f i j \<longrightarrow> \<not> f k"
        and fin: "search_loop f i j < ?h \<Longrightarrow> f (search_loop f i j)" by (simp_all only: r) blast+
      have "f (search_loop f i j)" using fin up(2) f by (cases "search_loop f i j = ?h") auto
      with up mid h(2) show ?thesis by auto
    qed
  next
    case False
    with "1.prems"(2) show ?thesis by (auto simp: search_loop.simps [of f j j])
  qed
qed

lemma Search_spec:
  assumes "\<And>k l. k \<le> l \<Longrightarrow> l < n \<Longrightarrow> f k \<Longrightarrow> f l"
  shows "Search n f \<le> n" "\<And>k. k < Search n f \<Longrightarrow> \<not> f k" "Search n f < n \<Longrightarrow> f (Search n f)"
  using search_loop_spec [of 0 n f] assms by (auto simp: Search_def)

subsection \<open>The contract of \<open>sort.Slice\<close>\<close>

text \<open>The clockwise distance from the key to a point is a subtraction that wraps at 32 bits.\<close>

definition clockwise :: "32 word \<Rightarrow> 32 word \<Rightarrow> nat" where
  "clockwise k h = unat (h - k)"

lemma clockwise_inj: "clockwise k h = clockwise k h' \<Longrightarrow> h = h'"
  unfolding clockwise_def by (metis diff_add_cancel word_unat_eq_iff)

lemma clockwise_after: "k \<le> h \<Longrightarrow> clockwise k h = unat h - unat k"
  by (simp add: clockwise_def unat_sub)

lemma clockwise_before: "\<not> k \<le> h \<Longrightarrow> clockwise k h = 2 ^ 32 + unat h - unat k"
  unfolding clockwise_def unat_sub_if_size word_le_nat_alt by (simp only: if_False size_word.rep_eq) simp

locale slice_sort =
  fixes srt :: "hashRingEntry list \<Rightarrow> hashRingEntry list"
  assumes srt_mset: "mset (srt xs) = mset xs"
    and srt_sorted: "sorted (map hash (srt xs))"
begin

lemma srt_set [simp]: "set (srt xs) = set xs"
  by (metis srt_mset set_mset_mset)

lemma srt_length [simp]: "length (srt xs) = length xs"
  by (metis srt_mset size_mset)

lemma srt_mono: "i \<le> j \<Longrightarrow> j < length xs \<Longrightarrow> hash (srt xs ! i) \<le> hash (srt xs ! j)"
  using sorted_nth_mono [OF srt_sorted, of i j xs] by simp

lemma successor_nearest:
  assumes "e \<in> set xs"
    and idx: "idx = Search (length (srt xs)) (\<lambda>i. k \<le> hash (srt xs ! i))"
    and idx': "idx' = (if idx = length (srt xs) then 0 else idx)"
  shows "idx' < length (srt xs)" "clockwise k (hash (srt xs ! idx')) \<le> clockwise k (hash e)"
proof -
  let ?f = "\<lambda>i. k \<le> hash (srt xs ! i)"
  let ?n = "length (srt xs)"
  have mono: "\<And>j l. j \<le> l \<Longrightarrow> l < ?n \<Longrightarrow> ?f j \<Longrightarrow> ?f l"
    using order_trans [OF _ srt_mono] by simp
  have S: "idx \<le> ?n" "\<And>i. i < idx \<Longrightarrow> \<not> ?f i" "idx < ?n \<Longrightarrow> ?f idx"
    unfolding idx by (rule Search_spec [where f = ?f], erule (2) mono | assumption)+
  obtain j where j: "j < ?n" "e = srt xs ! j"
    using assms(1) by (metis in_set_conv_nth srt_set)
  then show lt: "idx' < ?n" using S(1) by (auto simp: idx')
  have sm: "srt xs ! a = srt xs ! b \<or> hash (srt xs ! a) \<le> hash (srt xs ! b)" if "a \<le> b" "b < ?n" for a b
    using srt_mono that by simp
  show "clockwise k (hash (srt xs ! idx')) \<le> clockwise k (hash e)"
  proof (cases "idx = ?n")
    case True
    then have "\<not> ?f i" if "i < ?n" for i using S(2) [of i] that by simp
    then have "\<not> k \<le> hash e" "\<not> k \<le> hash (srt xs ! 0)" using j by (blast, metis gr_implies_not0 not_gr0)
    moreover have "hash (srt xs ! 0) \<le> hash e" using srt_mono [of 0 j xs] j by simp
    ultimately show ?thesis using True
      by (auto simp: idx' clockwise_before word_le_nat_alt intro: diff_le_mono)
  next
    case False
    with S(1) have f: "?f idx" "idx < ?n" using S(3) by auto
    have k32: "unat k < 2 ^ 32" "unat (hash (srt xs ! idx)) < 2 ^ 32"
      by (rule order_less_le_trans [OF unsigned_less], simp)+
    show ?thesis
    proof (cases "idx \<le> j")
      case True
      then have "hash (srt xs ! idx) \<le> hash e" using srt_mono [of idx j xs] j by simp
      moreover from this f(1) have "k \<le> hash e" by simp
      ultimately show ?thesis using False f
        by (auto simp: idx' clockwise_after word_le_nat_alt intro: diff_le_mono)
    next
      case True: False
      then have "\<not> k \<le> hash e" using S(2) [of j] j by simp
      then show ?thesis using False f k32
        by (simp add: idx' clockwise_before clockwise_after)
    qed
  qed
qed

end

text \<open>A stable insertion sort meets the contract.\<close>

interpretation stable: slice_sort "sort_key hash"
  by unfold_locales simp_all

subsection \<open>The placement specification\<close>

text \<open>
  The points of a node on the ring, and the specification of a placement: \<open>nearest v k ms n\<close> says
  that \<open>n\<close> owns a point no other member's point precedes, going clockwise from \<open>k\<close>.
\<close>

definition points :: "nat \<Rightarrow> Node \<Rightarrow> 32 word list" where
  "points v n = map (\<lambda>i. hash (ring_entry n i)) [0..<v]"

definition nearest :: "nat \<Rightarrow> 32 word \<Rightarrow> NodeSet \<Rightarrow> Node \<Rightarrow> bool" where
  "nearest v k ms n \<longleftrightarrow> n \<in> set ms \<and>
     (\<exists>h\<in>set (points v n). \<forall>m\<in>set ms. \<forall>h'\<in>set (points v m). clockwise k h \<le> clockwise k h')"

text \<open>No two nodes share a point of the ring: then a placement does not depend on how the
  sort breaks ties.\<close>

definition separated :: "nat \<Rightarrow> NodeSet \<Rightarrow> bool" where
  "separated v ms \<longleftrightarrow> (\<forall>m\<in>set ms. \<forall>n\<in>set ms. m \<noteq> n \<longrightarrow> set (points v m) \<inter> set (points v n) = {})"

lemma set_build_ring: "set (build_ring v ms) = {ring_entry n i | n i. n \<in> set ms \<and> i < v}"
  by (auto simp: build_ring_def) blast

lemma set_points: "set (points v n) = {hash (ring_entry n i) | i. i < v}"
  by (auto simp: points_def)

lemma node_ring_entry [simp]: "node (ring_entry n i) = n"
  by (simp add: ring_entry_def)

lemma placeOnRing_nearest:
  assumes "slice_sort srt" "0 < VirtualNodes p" "ms \<noteq> []"
  shows "\<exists>n. placeOnRing srt p key ms = Some n \<and> nearest (nat (VirtualNodes p)) (ChecksumIEEE key) ms n"
proof -
  let ?v = "nat (VirtualNodes p)" and ?k = "ChecksumIEEE key"
  let ?ring = "build_ring ?v ms"
  define idx where "idx = Search (length (srt ?ring)) (\<lambda>i. ?k \<le> hash (srt ?ring ! i))"
  define idx' where "idx' = (if idx = length (srt ?ring) then 0 else idx)"
  have v: "0 < ?v" using assms(2) by simp
  note near = slice_sort.successor_nearest [OF assms(1) _ idx_def idx'_def]
  have "ring_entry (hd ms) 0 \<in> set ?ring" using assms(3) v
    by (auto simp: build_ring_def intro!: bexI [of _ "hd ms"])
  then have lt: "idx' < length (srt ?ring)" by (rule near(1))
  then have "srt ?ring ! idx' \<in> set ?ring" using slice_sort.srt_set [OF assms(1)] nth_mem by blast
  then obtain n i where n: "srt ?ring ! idx' = ring_entry n i" "n \<in> set ms" "i < ?v"
    by (auto simp: set_build_ring)
  have "nearest ?v ?k ms n"
    unfolding nearest_def
  proof (intro conjI bexI ballI)
    show "n \<in> set ms" by (rule n)
    show "hash (ring_entry n i) \<in> set (points ?v n)" using n(3) by (auto simp: set_points)
    fix m h' assume "m \<in> set ms" "h' \<in> set (points ?v m)"
    then obtain j where "h' = hash (ring_entry m j)" "ring_entry m j \<in> set ?ring"
      by (auto simp: set_points set_build_ring)
    with near(2) show "clockwise ?k (hash (ring_entry n i)) \<le> clockwise ?k h'" by (simp add: n(1))
  qed
  moreover have "placeOnRing srt p key ms = Some n"
    using assms(2) lt unfolding placeOnRing_def Let_def idx_def [symmetric] idx'_def [symmetric]
    by (simp add: n(1))
  ultimately show ?thesis by blast
qed

lemma nearest_single: "0 < v \<Longrightarrow> nearest v k [n] n"
proof -
  assume "0 < v"
  then have ne: "points v n \<noteq> []" by (simp add: points_def)
  obtain h where "h \<in> set (points v n)" "\<forall>h'\<in>set (points v n). clockwise k h \<le> clockwise k h'"
    using arg_min_if_finite [of "set (points v n)" "clockwise k"] ne by (metis List.finite_set not_le set_empty)
  then show "nearest v k [n] n" by (auto simp: nearest_def)
qed

lemma Place_nearest:
  assumes "slice_sort srt" "0 < VirtualNodes p" "filterEligible p t ms \<noteq> []"
  shows "\<exists>n. Place srt p t i ms = Some n \<and>
    nearest (nat (VirtualNodes p)) (ChecksumIEEE (t @ '':'' @ i)) (filterEligible p t ms) n"
proof (cases "length (filterEligible p t ms) = 1")
  case True
  then obtain n where n: "filterEligible p t ms = [n]" by (auto simp: length_Suc_conv)
  with assms(3) show ?thesis using nearest_single [of "nat (VirtualNodes p)" _ n] assms(2)
    by (auto simp: Place_def)
next
  case False
  have "ms \<noteq> []" using assms(3) by auto
  with False assms(3) have "Place srt p t i ms = placeOnRing srt p (t @ '':'' @ i) (filterEligible p t ms)"
    by (simp add: Place_def Let_def)
  with placeOnRing_nearest [OF assms] show ?thesis by simp
qed

lemma Place_none_eligible: "filterEligible p t ms = [] \<Longrightarrow> Place srt p t i ms = Some Node0"
  by (simp add: Place_def)

lemma nearest_unique:
  assumes "nearest v k ms n" "nearest v k ms' n'" "n \<in> set ms'" "n' \<in> set ms" "separated v (ms @ ms')"
  shows "n = n'"
proof -
  obtain h h' where h: "h \<in> set (points v n)" "h' \<in> set (points v n')"
      "clockwise k h \<le> clockwise k h'" "clockwise k h' \<le> clockwise k h"
    using assms(1-4) unfolding nearest_def by blast
  then have "h = h'" by (intro clockwise_inj [of k]) simp
  with h(1,2) assms show ?thesis by (auto simp: separated_def nearest_def)
qed

subsection \<open>Properties of placement\<close>

definition demo_node :: "string \<Rightarrow> string \<Rightarrow> Node" where
  "demo_node i t = \<lparr>ID = i, Addr = i, NType = t, Meta = []\<rparr>"

definition demo_placement :: ConsistentHashPlacement where
  "demo_placement = \<lparr>VirtualNodes = 1, Mapping = None\<rparr>"

lemma crc_bit_8: "(crc_bit ^^ 8) x = crc_bit (crc_bit (crc_bit (crc_bit (crc_bit (crc_bit (crc_bit (crc_bit x)))))))"
  by (simp add: eval_nat_numeral)

lemmas crc_eval = ChecksumIEEE_def crc_byte_def crc_bit_8 crc_bit_def

text \<open>The check value of the CRC-32/ISO-HDLC catalogue.\<close>

lemma ChecksumIEEE_check: "ChecksumIEEE ''123456789'' = 0xCBF43926"
  by (simp add: crc_eval)

lemma demo_crc:
  "ChecksumIEEE ''a-0'' = 2963739206" "ChecksumIEEE ''k-0'' = 3174078352"
  "ChecksumIEEE ''n-0'' = 3153810811" "ChecksumIEEE ''P:0'' = 2425166199"
  by (simp_all add: crc_eval)

lemma demo_entry: "ring_entry (demo_node [c] t) 0 = \<lparr>hash = ChecksumIEEE (c # ''-0''), node = demo_node [c] t\<rparr>"
  by (simp add: ring_entry_def demo_node_def itoa_def)

lemma demo_node_eq [simp]: "demo_node i t = demo_node i' t' \<longleftrightarrow> i = i' \<and> t = t'"
  by (auto simp: demo_node_def)

text \<open>C15: A consistent-hash placement is the clockwise successor of the key. For any sort that meets the
  contract of \<open>sort.Slice\<close>, a positive number of virtual nodes and at least one eligible member, \<open>Place\<close>
  does not panic and returns an eligible member that owns the ring point at the least clockwise
  distance from the CRC-32 of the key, over the virtual points of all eligible members.\<close>

theorem Place_is_clockwise_successor:
  assumes "slice_sort srt" "0 < VirtualNodes p" "filterEligible p t ms \<noteq> []"
  shows "\<exists>n. Place srt p t i ms = Some n \<and> n \<in> set ms \<and>
    (\<forall>m. Mapping p = Some m \<longrightarrow> NodeCanHost m n t) \<and>
    nearest (nat (VirtualNodes p)) (ChecksumIEEE (t @ '':'' @ i)) (filterEligible p t ms) n"
proof -
  obtain n where n: "Place srt p t i ms = Some n"
    "nearest (nat (VirtualNodes p)) (ChecksumIEEE (t @ '':'' @ i)) (filterEligible p t ms) n"
    using Place_nearest [OF assms] by blast
  then have "n \<in> set (filterEligible p t ms)" by (simp add: nearest_def)
  then have "n \<in> set ms" "\<forall>m. Mapping p = Some m \<longrightarrow> NodeCanHost m n t"
    by (auto simp: set_filterEligible)
  with n show ?thesis by blast
qed

theorem Place_is_clockwise_successor_witness:
  "\<exists>n. Place (sort_key hash) demo_placement ''P'' ''1'' [demo_node ''a'' [], demo_node ''b'' []] = Some n \<and>
     n \<in> {demo_node ''a'' [], demo_node ''b'' []}"
  using Place_is_clockwise_successor [of "sort_key hash" demo_placement "''P''"
      "[demo_node ''a'' [], demo_node ''b'' []]" "''1''"] stable.slice_sort_axioms
  by (auto simp: demo_placement_def filterEligible_def)

text \<open>C16: Consistent hashing moves only what it must. When no two nodes share a ring point, a change of
  the membership from \<open>ms\<close> to \<open>ms'\<close>, in any order and whatever way the sorts break ties, moves an actor
  from \<open>n\<close> to \<open>n'\<close> only if \<open>n\<close> has left or \<open>n'\<close> has joined. So a permutation of the members
  moves nothing, a join moves actors to the new node only, and a leave moves the actors of the
  departed node only.\<close>

theorem placement_moves_minimally:
  assumes "slice_sort srt" "slice_sort srt'" "0 < VirtualNodes p"
    "separated (nat (VirtualNodes p)) (ms @ ms')"
    "Place srt p t i ms = Some n" "Place srt' p t i ms' = Some n'" "n \<noteq> n'"
  shows "n \<notin> set ms' \<or> n' \<notin> set ms"
proof (rule ccontr)
  let ?v = "nat (VirtualNodes p)" and ?k = "ChecksumIEEE (t @ '':'' @ i)"
  assume "\<not> ?thesis"
  then have mem: "n \<in> set ms'" "n' \<in> set ms" by auto
  have place: "filterEligible p t xs = [] \<and> x = Node0 \<or> nearest ?v ?k (filterEligible p t xs) x"
    if "slice_sort s" "Place s p t i xs = Some x" for s xs x
    using Place_nearest [OF that(1) assms(3), of t xs i] Place_none_eligible [of p t xs s i] that(2)
    by (cases "filterEligible p t xs = []") auto
  note n = place [OF assms(1,5)] and n' = place [OF assms(2,6)]
  have elig: "x \<in> set (filterEligible p t ys)" if "x \<in> set (filterEligible p t xs)" "x \<in> set ys" for x xs ys
    using that by (auto simp: set_filterEligible)
  have sep: "separated ?v (filterEligible p t ms @ filterEligible p t ms')"
    using assms(4) by (auto simp: separated_def set_filterEligible)
  from n n' assms(7) consider
      "nearest ?v ?k (filterEligible p t ms) n" "filterEligible p t ms' = []"
    | "filterEligible p t ms = []" "nearest ?v ?k (filterEligible p t ms') n'"
    | "nearest ?v ?k (filterEligible p t ms) n" "nearest ?v ?k (filterEligible p t ms') n'" by auto
  then show False
  proof cases
    case 1
    then show False using elig [of n ms ms'] mem by (simp add: nearest_def)
  next
    case 2
    then show False using elig [of n' ms' ms] mem by (simp add: nearest_def)
  next
    case 3
    then have "n = n'"
      using nearest_unique [OF 3 _ _ sep] elig [of n ms ms'] elig [of n' ms' ms] mem by (simp add: nearest_def)
    with assms(7) show False by simp
  qed
qed

lemma demo_place:
  "Place (sort_key hash) demo_placement ''P'' ''0'' [demo_node ''n'' [], demo_node ''k'' []] = Some (demo_node ''n'' [])"
  "Place (sort_key hash) demo_placement ''P'' ''0'' [demo_node ''k'' [], demo_node ''a'' [], demo_node ''n'' []] =
     Some (demo_node ''a'' [])"
  by (simp_all add: Place_def demo_placement_def filterEligible_def placeOnRing_def build_ring_def
      demo_entry demo_crc Search_def search_loop.simps)

lemma demo_separated:
  "separated 1 [demo_node ''n'' [], demo_node ''k'' [], demo_node ''k'' [], demo_node ''a'' [], demo_node ''n'' []]"
  by (simp add: separated_def points_def demo_entry demo_crc)

theorem placement_moves_minimally_witness:
  "\<not> (demo_node ''n'' [] \<in> set [demo_node ''k'' [], demo_node ''a'' [], demo_node ''n'' []] \<and>
     demo_node ''a'' [] \<in> set [demo_node ''n'' [], demo_node ''k'' []])"
  using placement_moves_minimally [OF stable.slice_sort_axioms stable.slice_sort_axioms _ _ demo_place]
    demo_separated by (simp add: demo_placement_def)

text \<open>The private \<open>itoa\<close> of the placement agrees with the library's decimal printing. It
  equals \<open>strconv.Itoa\<close> on every integer from 0 on, which is all the ring uses, and prints
  nothing for a negative one.\<close>

theorem itoa_is_Itoa: "itoa n = (if n < 0 then [] else Itoa n)"
proof (cases "n \<le> 0")
  case True
  show ?thesis
  proof (cases "n = 0")
    case True
    moreover have "nat_dec 0 = ''0''" by code_simp
    ultimately show ?thesis by (simp add: itoa_def Itoa_def)
  next
    case False
    with True show ?thesis by (simp add: itoa_def itoa_digits.simps swap_loop.simps)
  qed
next
  case False
  then show ?thesis by (simp add: itoa_def Let_def swap_loop_rev rev_itoa_digits Itoa_def)
qed

text \<open>The two ways to make a placement aware of node types agree. Wrapping a consistent-hash
  placement without a mapping into \<open>GroupAwarePlacement\<close> gives the same node, or the same panic, as setting the
  mapping on the placement itself.\<close>

theorem GroupAware_is_mapped_placement:
  "GroupAware_Place (NewGroupAwarePlacement (Place srt (WithGroupMapping None p)) m) t i ms =
     Place srt (WithGroupMapping (Some m) p) t i ms"
proof (cases "ms = []")
  case True
  then show ?thesis by (simp add: GroupAware_Place_def NewGroupAwarePlacement_def Place_def FilterByGroup_def)
next
  case False
  have "placeOnRing srt (p\<lparr>Mapping := x\<rparr>) = placeOnRing srt p" for x
    by (intro ext) (simp add: placeOnRing_def)
  with False show ?thesis
    by (simp add: GroupAware_Place_def NewGroupAwarePlacement_def Place_def WithGroupMapping_def
        filterEligible_def Let_def)
qed

text \<open>C17: Exactly one member owns an actor. With distinct non-empty node identifiers and at least one
  eligible member, \<open>ShouldOwn\<close> holds for exactly one member; \<open>CheckOwnership\<close> tells that member to
  stay, and every other member to leave for that one.\<close>

theorem exactly_one_owner:
  assumes "slice_sort srt" "0 < VirtualNodes p" "filterEligible p t ms \<noteq> []"
    "distinct (map ID ms)" "[] \<notin> ID ` set ms"
  shows "\<exists>n\<in>set ms. \<forall>m\<in>set ms.
    ShouldOwn (Place srt p) ms (ID m) t i = Some (m = n) \<and>
    CheckOwnership (Place srt p) ms (ID m) t i = Some (if m = n then ([], False) else (ID n, True))"
proof -
  obtain n where n: "Place srt p t i ms = Some n" "n \<in> set (filterEligible p t ms)"
    using Place_nearest [OF assms(1-3), of i] by (auto simp: nearest_def)
  then have "n \<in> set ms" by (auto simp: set_filterEligible)
  moreover have "ID n = ID m \<longleftrightarrow> m = n" if "m \<in> set ms" for m
    using \<open>n \<in> set ms\<close> that assms(4) by (auto simp: distinct_map inj_on_def)
  moreover have "ID n \<noteq> []" using \<open>n \<in> set ms\<close> assms(5) by force
  ultimately show ?thesis by (auto simp: ShouldOwn_def CheckOwnership_def n(1))
qed

theorem exactly_one_owner_witness:
  "\<exists>n\<in>{demo_node ''n'' [], demo_node ''k'' []}. \<forall>m\<in>{demo_node ''n'' [], demo_node ''k'' []}.
    ShouldOwn (Place (sort_key hash) demo_placement) [demo_node ''n'' [], demo_node ''k'' []] (ID m) ''P'' ''0'' = Some (m = n)"
  using exactly_one_owner [OF stable.slice_sort_axioms, of demo_placement "''P''"
      "[demo_node ''n'' [], demo_node ''k'' []]" "''0''"]
  by (auto simp: demo_placement_def filterEligible_def demo_node_def)

end
