(* ===== verification/Rpc_Json.thy ===== *)
theory Rpc_Json
  imports Go_Prelude "HOL-Library.Word"
begin

section \<open>The wire format of remote calls\<close>

text \<open>
  \<open>rpc/types.go\<close> and \<open>rpc/json.go\<close>: the interfaces \<open>Codec\<close> and \<open>Transport\<close> as records of functions, their
  contract as the locale \<open>wire\<close>, and the JSON envelope as its instance. \<open>encoding/json\<close> is modelled on parse
  trees: a \<open>json.RawMessage\<close> is the tree of its text, or \<^const>\<open>None\<close> when it is nil, and a byte message is the
  tree of the document. Strings are taken to be valid UTF-8, which the encoder would otherwise repair.
  An error is its message.
\<close>

subsection \<open>Interfaces\<close>

record ('a, 'q, 'r, 'm) Codec =
  encId :: "'a \<Rightarrow> string + 'm"
  decId :: "'m \<Rightarrow> string + 'a"
  encReq :: "'q \<Rightarrow> string + 'm"
  decReq :: "'m \<Rightarrow> string + 'q"
  encRep :: "'r \<Rightarrow> string + 'm"
  decRep :: "'m \<Rightarrow> string + 'r"

type_synonym 'm envelope = "64 word \<times> string \<times> string \<times> string \<times> 'm \<times> 'm list \<times> 'm"

record ('d, 'm) Transport =
  DecodeReq :: "'d \<Rightarrow> string + 'm envelope"
  DecodeRep :: "'d \<Rightarrow> string + 64 word \<times> 'm \<times> string"
  EncodeReq :: "'m envelope \<Rightarrow> string + 'd"
  EncodeRep :: "64 word \<times> 'm \<times> string \<Rightarrow> string + 'd"
  zeroM :: 'm
  zeroD :: 'd

text \<open>
  What the rpc layer relies on. \<open>sendable\<close> marks the messages a codec can produce; the identity of a broadcast
  and the reply of a failed call are the zero value.
\<close>

locale wire =
  fixes T :: "('d, 'm) Transport" and sendable :: "'m \<Rightarrow> bool"
  assumes req_roundtrip:
      "idM = zeroM T \<or> sendable idM \<Longrightarrow> \<forall>x\<in>set idsM. sendable x \<Longrightarrow> sendable reqM \<Longrightarrow>
        \<exists>d. EncodeReq T (s, meth, at, rt, idM, idsM, reqM) = Inr d \<and>
            DecodeReq T d = Inr (s, meth, at, rt, idM, idsM, reqM)"
    and rep_roundtrip:
      "repM = zeroM T \<or> sendable repM \<Longrightarrow>
        \<exists>d. EncodeRep T (s, repM, rerr) = Inr d \<and> DecodeRep T d = Inr (s, repM, rerr)"

subsection \<open>JSON\<close>

datatype json = JNull | JBool bool | JNum int | JFrac string | JStr string | JArr "json list"
  | JObj "(string \<times> json) list"

type_synonym RawMessage = "json option"

definition raw :: "RawMessage \<Rightarrow> json" where
  "raw m = (case m of None \<Rightarrow> JNull | Some j \<Rightarrow> j)"

record jsonMessage =
  Seq :: "64 word"
  Method :: string
  jActorType :: string
  ReqType :: string
  jActorId :: RawMessage
  Targets :: "RawMessage list"
  Req :: RawMessage

record jsonResponse =
  rSeq :: "64 word"
  Reply :: RawMessage
  rError :: string

text \<open>\<open>json.Marshal\<close> of the two structs, with the tags \<open>omitempty\<close>.\<close>

definition omitempty :: "bool \<Rightarrow> string \<Rightarrow> json \<Rightarrow> (string \<times> json) list" where
  "omitempty isz name j = (if isz then [] else [(name, j)])"

definition Marshal_msg :: "jsonMessage \<Rightarrow> json" where
  "Marshal_msg m = JObj (
     omitempty (Seq m = 0) ''seq'' (JNum (uint (Seq m))) @
     [(''method'', JStr (Method m))] @
     omitempty (jActorType m = []) ''actorType'' (JStr (jActorType m)) @
     [(''reqType'', JStr (ReqType m))] @
     omitempty (jActorId m = None) ''actorId'' (raw (jActorId m)) @
     omitempty (Targets m = []) ''targets'' (JArr (map raw (Targets m))) @
     [(''req'', raw (Req m))])"

definition Marshal_rep :: "jsonResponse \<Rightarrow> json" where
  "Marshal_rep m = JObj (
     [(''seq'', JNum (uint (rSeq m)))] @
     omitempty (Reply m = None) ''reply'' (raw (Reply m)) @
     omitempty (rError m = []) ''error'' (JStr (rError m)))"

text \<open>
  \<open>json.Unmarshal\<close> into a struct: the members are taken in order, a key selects the field it names, or the one it
  names up to case; unknown keys are skipped; \<open>null\<close> leaves a string or a number alone; a value of the wrong kind is
  an error that is reported once the whole object has been read. A field decoder gives the new value or
  \<^const>\<open>None\<close>.
\<close>

definition lower :: "char \<Rightarrow> char" where
  "lower c = (let n = of_char c :: nat in if 65 \<le> n \<and> n \<le> 90 then char_of (n + 32) else c)"

definition field_of :: "string list \<Rightarrow> string \<Rightarrow> string option" where
  "field_of names k =
     (if k \<in> set names then Some k else List.find (\<lambda>n. map lower n = map lower k) names)"

fun dec_str :: "json \<Rightarrow> string \<Rightarrow> string option" where
  "dec_str (JStr s) old = Some s"
| "dec_str JNull old = Some old"
| "dec_str _ old = None"

fun dec_u64 :: "json \<Rightarrow> 64 word \<Rightarrow> 64 word option" where
  "dec_u64 (JNum n) old = (if 0 \<le> n \<and> n < 2 ^ 64 then Some (word_of_int n) else None)"
| "dec_u64 JNull old = Some old"
| "dec_u64 _ old = None"

fun dec_raws :: "json \<Rightarrow> RawMessage list option" where
  "dec_raws (JArr js) = Some (map Some js)"
| "dec_raws JNull = Some []"
| "dec_raws _ = None"

definition msg_fields :: "string list" where
  "msg_fields = [''seq'', ''method'', ''actorType'', ''reqType'', ''actorId'', ''targets'', ''req'']"

definition set_msg_field :: "string \<Rightarrow> json \<Rightarrow> jsonMessage \<Rightarrow> jsonMessage option" where
  "set_msg_field f j m =
     (if f = ''seq'' then map_option (\<lambda>x. m\<lparr>Seq := x\<rparr>) (dec_u64 j (Seq m))
      else if f = ''method'' then map_option (\<lambda>x. m\<lparr>Method := x\<rparr>) (dec_str j (Method m))
      else if f = ''actorType'' then map_option (\<lambda>x. m\<lparr>jActorType := x\<rparr>) (dec_str j (jActorType m))
      else if f = ''reqType'' then map_option (\<lambda>x. m\<lparr>ReqType := x\<rparr>) (dec_str j (ReqType m))
      else if f = ''actorId'' then Some (m\<lparr>jActorId := Some j\<rparr>)
      else if f = ''targets'' then map_option (\<lambda>x. m\<lparr>Targets := x\<rparr>) (dec_raws j)
      else if f = ''req'' then Some (m\<lparr>Req := Some j\<rparr>)
      else Some m)"

definition rep_fields :: "string list" where
  "rep_fields = [''seq'', ''reply'', ''error'']"

definition set_rep_field :: "string \<Rightarrow> json \<Rightarrow> jsonResponse \<Rightarrow> jsonResponse option" where
  "set_rep_field f j m =
     (if f = ''seq'' then map_option (\<lambda>x. m\<lparr>rSeq := x\<rparr>) (dec_u64 j (rSeq m))
      else if f = ''reply'' then Some (m\<lparr>Reply := Some j\<rparr>)
      else if f = ''error'' then map_option (\<lambda>x. m\<lparr>rError := x\<rparr>) (dec_str j (rError m))
      else Some m)"

fun set_fields ::
  "string list \<Rightarrow> (string \<Rightarrow> json \<Rightarrow> 's \<Rightarrow> 's option) \<Rightarrow> (string \<times> json) list \<Rightarrow> 's \<Rightarrow> bool \<Rightarrow> 's \<times> bool" where
  "set_fields names st [] m ok = (m, ok)"
| "set_fields names st ((k, j) # kvs) m ok =
     (case field_of names k of
        None \<Rightarrow> set_fields names st kvs m ok
      | Some f \<Rightarrow>
          (case st f j m of
             None \<Rightarrow> set_fields names st kvs m False
           | Some m' \<Rightarrow> set_fields names st kvs m' ok))"

definition Unmarshal ::
  "string list \<Rightarrow> (string \<Rightarrow> json \<Rightarrow> 's \<Rightarrow> 's option) \<Rightarrow> json \<Rightarrow> 's \<Rightarrow> string + 's" where
  "Unmarshal names st j m =
     (case j of
        JObj kvs \<Rightarrow> (let (m', ok) = set_fields names st kvs m True
                    in if ok then Inr m' else Inl ''json: cannot unmarshal'')
      | JNull \<Rightarrow> Inr m
      | _ \<Rightarrow> Inl ''json: cannot unmarshal'')"

definition emptyMessage :: jsonMessage where
  "emptyMessage = \<lparr>Seq = 0, Method = [], jActorType = [], ReqType = [], jActorId = None, Targets = [], Req = None\<rparr>"

definition emptyResponse :: jsonResponse where
  "emptyResponse = \<lparr>rSeq = 0, Reply = None, rError = []\<rparr>"

definition json_DecodeReq :: "json \<Rightarrow> string + RawMessage envelope" where
  "json_DecodeReq data =
     (case Unmarshal msg_fields set_msg_field data emptyMessage of
        Inl e \<Rightarrow> Inl e
      | Inr msg \<Rightarrow> Inr (Seq msg, Method msg, jActorType msg, ReqType msg, jActorId msg, Targets msg, Req msg))"

definition json_DecodeRep :: "json \<Rightarrow> string + 64 word \<times> RawMessage \<times> string" where
  "json_DecodeRep data =
     (case Unmarshal rep_fields set_rep_field data emptyResponse of
        Inl e \<Rightarrow> Inl e
      | Inr msg \<Rightarrow> Inr (rSeq msg, Reply msg, rError msg))"

definition json_EncodeReq :: "RawMessage envelope \<Rightarrow> string + json" where
  "json_EncodeReq = (\<lambda>(s, meth, at, rt, idM, idsM, reqM). Inr (Marshal_msg
     \<lparr>Seq = s, Method = meth, jActorType = at, ReqType = rt, jActorId = idM, Targets = idsM, Req = reqM\<rparr>))"

definition json_EncodeRep :: "64 word \<times> RawMessage \<times> string \<Rightarrow> string + json" where
  "json_EncodeRep = (\<lambda>(s, repM, rerr). Inr (Marshal_rep \<lparr>rSeq = s, Reply = repM, rError = rerr\<rparr>))"

definition JsonTransport :: "(json, RawMessage) Transport" where
  "JsonTransport = \<lparr>DecodeReq = json_DecodeReq, DecodeRep = json_DecodeRep, EncodeReq = json_EncodeReq,
     EncodeRep = json_EncodeRep, zeroM = None, zeroD = JNull\<rparr>"

lemma uint64_bound [simp]: "uint (w :: 64 word) < 18446744073709551616"
proof -
  have "uint w < 2 ^ LENGTH(64)" by (rule unsigned_less)
  then show ?thesis by simp
qed

lemma field_of_exact [simp]: "k \<in> set names \<Longrightarrow> field_of names k = Some k"
  by (simp add: field_of_def)

lemma set_fields_append:
  "set_fields names st (xs @ ys) m ok =
     (let (m', ok') = set_fields names st xs m ok in set_fields names st ys m' ok')"
  by (induction names st xs m ok rule: set_fields.induct) (auto split: option.splits)

lemma raw_Some [simp]: "m \<noteq> None \<Longrightarrow> Some (raw m) = m"
  by (cases m) (auto simp: raw_def)

lemma map_raw_Some: "\<forall>x\<in>set xs. x \<noteq> None \<Longrightarrow> map (Some \<circ> raw) xs = xs"
  by (induction xs) auto

lemma req_object:
  assumes "\<forall>x\<in>set (Targets m). x \<noteq> None" "Req m \<noteq> None"
  shows "Unmarshal msg_fields set_msg_field (Marshal_msg m) emptyMessage = Inr m"
  using assms map_raw_Some [of "Targets m"]
  by (simp add: Marshal_msg_def Unmarshal_def omitempty_def set_fields_append set_msg_field_def msg_fields_def
      emptyMessage_def)

lemma rep_object: "Unmarshal rep_fields set_rep_field (Marshal_rep m) emptyResponse = Inr m"
  by (simp add: Marshal_rep_def Unmarshal_def omitempty_def set_rep_field_def rep_fields_def
      emptyResponse_def)

interpretation json_wire: wire JsonTransport "\<lambda>m. m \<noteq> None"
proof (unfold_locales, goal_cases)
  case (1 idM idsM reqM s meth at rt)
  then show ?case
    by (simp add: JsonTransport_def json_EncodeReq_def json_DecodeReq_def req_object)
next
  case (2 repM s rerr)
  then show ?case
    by (simp add: JsonTransport_def json_EncodeRep_def json_DecodeRep_def rep_object)
qed

text \<open>C18: The JSON envelope loses nothing. A request envelope whose body and targets are present decodes to
  itself, with every field, also those that \<open>omitempty\<close> leaves out of the text; so does every response.\<close>

theorem JsonTransport_roundtrip:
  assumes "\<forall>x\<in>set idsM. x \<noteq> None" "reqM \<noteq> None"
  shows "(\<exists>d. EncodeReq JsonTransport (s, meth, at, rt, idM, idsM, reqM) = Inr d \<and>
      DecodeReq JsonTransport d = Inr (s, meth, at, rt, idM, idsM, reqM)) \<and>
    (\<exists>d. EncodeRep JsonTransport (s', repM, rerr) = Inr d \<and> DecodeRep JsonTransport d = Inr (s', repM, rerr))"
proof
  have "idM = zeroM JsonTransport \<or> idM \<noteq> None" "repM = zeroM JsonTransport \<or> repM \<noteq> None"
    by (auto simp: JsonTransport_def)
  then show "\<exists>d. EncodeReq JsonTransport (s, meth, at, rt, idM, idsM, reqM) = Inr d \<and>
      DecodeReq JsonTransport d = Inr (s, meth, at, rt, idM, idsM, reqM)"
    "\<exists>d. EncodeRep JsonTransport (s', repM, rerr) = Inr d \<and> DecodeRep JsonTransport d = Inr (s', repM, rerr)"
    using json_wire.req_roundtrip json_wire.rep_roundtrip assms by blast+
qed

theorem JsonTransport_roundtrip_witness:
  "\<exists>d. EncodeReq JsonTransport (7, ''call'', ''Player'', ''Login'', Some (JStr ''p1''), [], Some (JObj [])) = Inr d \<and>
      DecodeReq JsonTransport d = Inr (7, ''call'', ''Player'', ''Login'', Some (JStr ''p1''), [], Some (JObj []))"
  using JsonTransport_roundtrip [of "[]" "Some (JObj [])" 7 "''call''" "''Player''" "''Login''" "Some (JStr ''p1'')"]
  by simp

end
