(* ===== verification/Actor_Manager.thy ===== *)
theory Actor_Manager
  imports Actor_Group
begin

section \<open>The manager: routing, sending, calling, closing\<close>

text \<open>
  \<open>actor/manager.go\<close>, the senders of \<open>actor/handler.go\<close> and \<open>actor/ref.go\<close>. The manager maps an actor
  type to its group. Reply channels are addresses into \<open>replies\<close>, allocated from \<open>nextCh\<close>.
  \<open>closedByCaller\<close> records the \<open>Close\<close> calls \<open>safeResult\<close> makes on replies.

  An operation returns (\<open>Ret\<close>), panics in the caller's goroutine (\<open>GoPanic\<close>) or waits for something that
  has not happened (\<open>GoBlocks\<close>). The argument \<open>ev\<close> is what other goroutines do to the group
  inside \<open>resolveActor\<close>. Loggers, and the type assertions that Go's type checker guarantees, are not
  modelled. The zero value of an identity type, used to find the group of a broadcast, is \<open>id0\<close>.
\<close>

datatype 'x go = Ret 'x | GoPanic | GoBlocks

record ('a, 'f, 'q, 'e, 'k, 'r, 'o, 'v) Manager =
  mstopping :: bool
  mcancelled :: bool
  mjoined :: bool
  groups :: "(string \<times> ('a, ('f, 'q, ('a, 'e) goerr, 'k) invokable, 'f handlerEntry, 'o) group) list"
  mgrName :: string
  mseq :: int
  ctxValues :: "(nat \<times> 'v) list"
  replies :: "nat \<Rightarrow> ('r, ('a, 'e) goerr) result chan"
  nextCh :: nat
  closedByCaller :: "'r list"

definition wrap32 :: "int \<Rightarrow> int" where
  "wrap32 x = (x + 2 ^ 31) mod 2 ^ 32 - 2 ^ 31"

definition NewManager :: "('a, 'f, 'q, 'e, 'k, 'r, 'o, 'v) Manager" where
  "NewManager =
     \<lparr>mstopping = False, mcancelled = False, mjoined = False, groups = [], mgrName = ''mgr'', mseq = 0,
      ctxValues = [], replies = (\<lambda>_. make_chan 1), nextCh = 0, closedByCaller = []\<rparr>"

definition Clear :: "('a, 'f, 'q, 'e, 'k, 'r, 'o, 'v) Manager \<Rightarrow> ('a, 'f, 'q, 'e, 'k, 'r, 'o, 'v) Manager" where
  "Clear m = m\<lparr>groups := []\<rparr>"

text \<open>A value handle is its key; \<open>DefineValue\<close> makes a fresh one. \<open>WithValue\<close> panics after \<open>Serve\<close>.\<close>

definition DefineValue :: "nat list \<Rightarrow> nat" where
  "DefineValue used = Suc (fold max used 0)"

definition WithValue ::
  "nat \<Rightarrow> 'v \<Rightarrow> ('a, 'f, 'q, 'e, 'k, 'r, 'o, 'v) Manager \<Rightarrow> ('a, 'f, 'q, 'e, 'k, 'r, 'o, 'v) Manager option" where
  "WithValue key v m = (if length (groups m) > 0 then None else Some (m\<lparr>ctxValues := (key, v) # ctxValues m\<rparr>))"

definition Get :: "nat \<Rightarrow> ('a, 'f, 'q, 'e, 'k, 'r, 'o, 'v) Manager \<Rightarrow> 'v option" where
  "Get key m = map_of (ctxValues m) key"

definition newFrom ::
  "('a, 'f, 'q, 'e, 'k, 'r, 'o, 'v) Manager \<Rightarrow> From \<times> ('a, 'f, 'q, 'e, 'k, 'r, 'o, 'v) Manager" where
  "newFrom m =
     (let n = wrap32 (mseq m + 1) in (OriginFrom (mgrName m @ ''.'' @ Itoa n), m\<lparr>mseq := n\<rparr>))"

subsection \<open>Registration and lookup\<close>

text \<open>\<open>ServeWith\<close>: \<^const>\<open>None\<close> is the panic for a type that is registered already.\<close>

definition ServeWith ::
  "'a id_ops \<Rightarrow> 'a \<Rightarrow> nat \<Rightarrow> ('f, 'o) RegistryBuilder \<Rightarrow> ('a, 'f, 'q, 'e, 'k, 'r, 'o, 'v) Manager
    \<Rightarrow> ('a, 'f, 'q, 'e, 'k, 'r, 'o, 'v) Manager option" where
  "ServeWith io id0 n b m =
     (let t = actorTypeOf io id0
      in if map_of (groups m) t \<noteq> None then None
         else Some (m\<lparr>groups := AList.update t (newGroup (newActor id0 0) (handlers b) (on_spawn b) n) (groups m)\<rparr>))"

definition Serve ::
  "'a id_ops \<Rightarrow> 'a \<Rightarrow> nat \<Rightarrow> (('f, 'o) RegistryBuilder \<Rightarrow> ('f, 'o) RegistryBuilder)
    \<Rightarrow> ('a, 'f, 'q, 'e, 'k, 'r, 'o, 'v) Manager \<Rightarrow> ('a, 'f, 'q, 'e, 'k, 'r, 'o, 'v) Manager option" where
  "Serve io id0 n build m = ServeWith io id0 n (build NewRegistryBuilder) m"

type_synonym ('a, 'f, 'q, 'e, 'k, 'o) mgroup =
  "('a, ('f, 'q, ('a, 'e) goerr, 'k) invokable, 'f handlerEntry, 'o) group"

definition findGroup ::
  "'a id_ops \<Rightarrow> 'a \<Rightarrow> ('a, 'f, 'q, 'e, 'k, 'r, 'o, 'v) Manager \<Rightarrow> ('a, 'f, 'q, 'e, 'k, 'o) mgroup option" where
  "findGroup io i m = (if mstopping m then None else map_of (groups m) (ActorType io i))"

definition findHandler ::
  "'a id_ops \<Rightarrow> 'a \<Rightarrow> ('q, ('a, 'e) goerr) request \<Rightarrow> ('a, 'f, 'q, 'e, 'k, 'r, 'o, 'v) Manager
    \<Rightarrow> ('a, 'e) goerr + ('a, 'f, 'q, 'e, 'k, 'o) mgroup \<times> 'f handlerEntry" where
  "findHandler io i q m =
     (case findGroup io i m of
        None \<Rightarrow> Inl (GroupNotFoundError i)
      | Some g \<Rightarrow>
          (case group_findHandler (reqTypeOf q) g of
             None \<Rightarrow> Inl (HandlerNotFoundError i (reqTypeOf q))
           | Some h \<Rightarrow> Inr (g, h)))"

definition set_group ::
  "'a id_ops \<Rightarrow> 'a \<Rightarrow> ('a, 'f, 'q, 'e, 'k, 'o) mgroup \<Rightarrow> ('a, 'f, 'q, 'e, 'k, 'r, 'o, 'v) Manager
    \<Rightarrow> ('a, 'f, 'q, 'e, 'k, 'r, 'o, 'v) Manager" where
  "set_group io i g m = m\<lparr>groups := AList.update (ActorType io i) g (groups m)\<rparr>"

subsection \<open>Sending through a handler\<close>

text \<open>What \<open>handlerPost\<close> and \<open>handlerCall\<close> share: resolve, send, release.\<close>

definition deliver ::
  "(('a, 'm, 'h, 'o) group \<Rightarrow> ('a, 'm, 'h, 'o) group) \<Rightarrow> 'm \<Rightarrow> bool \<Rightarrow> 'a \<Rightarrow> ('a, 'm, 'h, 'o) group
    \<Rightarrow> (('a, 'e) goerr option \<times> ('a, 'm, 'h, 'o) group) go" where
  "deliver ev x allow i g =
     (case resolveActor ev i allow g of
        (ResolveErr e, g1) \<Rightarrow> Ret (Some e, g1)
      | (ResolveNil, g1) \<Rightarrow> GoPanic
      | (ResolveBlocks, g1) \<Rightarrow> GoBlocks
      | (Resolved p, g1) \<Rightarrow>
          (case send_at p x g1 of
             None \<Rightarrow> GoPanic
           | Some (err, g2) \<Rightarrow>
               (case unhold_at p g2 of None \<Rightarrow> GoPanic | Some g3 \<Rightarrow> Ret (err, g3))))"

type_synonym ('a, 'f, 'q, 'e, 'k, 'o) groupEv =
  "('a, 'f, 'q, 'e, 'k, 'o) mgroup \<Rightarrow> ('a, 'f, 'q, 'e, 'k, 'o) mgroup"

definition handlerPost ::
  "('a, 'f, 'q, 'e, 'k, 'o) groupEv \<Rightarrow> From \<Rightarrow> 'f handlerEntry \<Rightarrow> 'a \<Rightarrow> ('q, ('a, 'e) goerr) request
    \<Rightarrow> ('a, 'f, 'q, 'e, 'k, 'o) mgroup \<Rightarrow> (('a, 'e) goerr option \<times> ('a, 'f, 'q, 'e, 'k, 'o) mgroup) go" where
  "handlerPost ev f h i q g = deliver ev (Invoke f h q None False) (allow_spawn h) i g"

text \<open>\<open>handlerCall\<close> returns the address of the fresh reply channel, or the error.\<close>

definition handlerCall ::
  "('a, 'f, 'q, 'e, 'k, 'o) groupEv \<Rightarrow> From \<Rightarrow> 'f handlerEntry \<Rightarrow> 'a \<Rightarrow> ('q, ('a, 'e) goerr) request \<Rightarrow> bool
    \<Rightarrow> nat \<Rightarrow> ('a, 'f, 'q, 'e, 'k, 'o) mgroup \<Rightarrow> ((('a, 'e) goerr + nat) \<times> ('a, 'f, 'q, 'e, 'k, 'o) mgroup) go" where
  "handlerCall ev f h i q clean ch g =
     (case deliver ev (Invoke f h q (Some ch) clean) (allow_spawn h) i g of
        Ret (Some e, g') \<Rightarrow> Ret (Inl e, g')
      | Ret (None, g') \<Rightarrow> Ret (Inr ch, g')
      | GoPanic \<Rightarrow> GoPanic
      | GoBlocks \<Rightarrow> GoBlocks)"

definition handlerBroadcast ::
  "From \<Rightarrow> 'f handlerEntry \<Rightarrow> ('q, ('a, 'e) goerr) request \<Rightarrow> ('a, 'f, 'q, 'e, 'k, 'o) mgroup
    \<Rightarrow> ((('a, 'e) goerr + int) \<times> ('a, 'f, 'q, 'e, 'k, 'o) mgroup) option" where
  "handlerBroadcast f h q g = broadcast (Invoke f h q None False) g"

definition handlerMulticast ::
  "From \<Rightarrow> 'f handlerEntry \<Rightarrow> 'a list \<Rightarrow> ('q, ('a, 'e) goerr) request \<Rightarrow> ('a, 'f, 'q, 'e, 'k, 'o) mgroup
    \<Rightarrow> ((('a, 'e) goerr + ('a, 'e) IdErr list) \<times> ('a, 'f, 'q, 'e, 'k, 'o) mgroup) option" where
  "handlerMulticast f h ids q g = multicast ids (Invoke f h q None False) g"

subsection \<open>Post\<close>

definition FPost ::
  "'a id_ops \<Rightarrow> ('a, 'f, 'q, 'e, 'k, 'o) groupEv \<Rightarrow> From \<Rightarrow> 'a \<Rightarrow> ('q, ('a, 'e) goerr) request
    \<Rightarrow> ('a, 'f, 'q, 'e, 'k, 'r, 'o, 'v) Manager
    \<Rightarrow> (('a, 'e) goerr option \<times> ('a, 'f, 'q, 'e, 'k, 'r, 'o, 'v) Manager) go" where
  "FPost io ev f i q m =
     (case findHandler io i q m of
        Inl _ \<Rightarrow> Ret (Some (GroupNotFoundError i), m)
      | Inr (g, h) \<Rightarrow>
          (case handlerPost ev f h i q g of
             Ret (err, g') \<Rightarrow> Ret (err, set_group io i g' m)
           | GoPanic \<Rightarrow> GoPanic
           | GoBlocks \<Rightarrow> GoBlocks))"

definition Post ::
  "'a id_ops \<Rightarrow> ('a, 'f, 'q, 'e, 'k, 'o) groupEv \<Rightarrow> 'a \<Rightarrow> ('q, ('a, 'e) goerr) request
    \<Rightarrow> ('a, 'f, 'q, 'e, 'k, 'r, 'o, 'v) Manager
    \<Rightarrow> (('a, 'e) goerr option \<times> ('a, 'f, 'q, 'e, 'k, 'r, 'o, 'v) Manager) go" where
  "Post io ev i q m = (let (f, m1) = newFrom m in FPost io ev f i q m1)"

subsection \<open>Call\<close>

text \<open>
  A call sends, then waits in a \<open>select\<close>. \<open>await\<close> gives the manager at the moment the select fires and
  which case it takes: the reply (\<^const>\<open>None\<close>) or the context's error.
\<close>

definition waitResult ::
  "string option \<Rightarrow> nat \<Rightarrow> ('a, 'f, 'q, 'e, 'k, 'r, 'o, 'v) Manager
    \<Rightarrow> (('r option \<times> ('a, 'e) goerr option) \<times> ('a, 'f, 'q, 'e, 'k, 'r, 'o, 'v) Manager) go" where
  "waitResult sel ch m =
     (case sel of
        Some e \<Rightarrow> Ret ((None, Some (ContextErr e)), m)
      | None \<Rightarrow>
          (case chan_recv (replies m ch) of
             Got r c \<Rightarrow> Ret ((Rep r, Err r), m\<lparr>replies := (replies m)(ch := c)\<rparr>)
           | RecvClosed \<Rightarrow> Ret ((None, None), m)
           | WouldBlock \<Rightarrow> GoBlocks))"

text \<open>\<open>safeResult\<close> closes the channel when it gives up, and then every reply still in it.\<close>

definition safeResult ::
  "string option \<Rightarrow> nat \<Rightarrow> ('a, 'f, 'q, 'e, 'k, 'r, 'o, 'v) Manager
    \<Rightarrow> (('r option \<times> ('a, 'e) goerr option) \<times> ('a, 'f, 'q, 'e, 'k, 'r, 'o, 'v) Manager) go" where
  "safeResult sel ch m =
     (case sel of
        None \<Rightarrow> waitResult None ch m
      | Some e \<Rightarrow>
          (case chan_close (replies m ch) of
             None \<Rightarrow> GoPanic
           | Some c \<Rightarrow>
               Ret ((None, Some (ContextErr e)),
                 m\<lparr>replies := (replies m)(ch := c\<lparr>items := []\<rparr>),
                   closedByCaller := closedByCaller m @ List.map_filter Rep (items c)\<rparr>)))"

definition call_send ::
  "'a id_ops \<Rightarrow> ('a, 'f, 'q, 'e, 'k, 'o) groupEv \<Rightarrow> From \<Rightarrow> 'a \<Rightarrow> ('q, ('a, 'e) goerr) request \<Rightarrow> bool
    \<Rightarrow> ('a, 'f, 'q, 'e, 'k, 'r, 'o, 'v) Manager
    \<Rightarrow> ((('a, 'e) goerr + nat) \<times> ('a, 'f, 'q, 'e, 'k, 'r, 'o, 'v) Manager) go" where
  "call_send io ev f i q clean m =
     (case findHandler io i q m of
        Inl _ \<Rightarrow> Ret (Inl (GroupNotFoundError i), m)
      | Inr (g, h) \<Rightarrow>
          (let ch = nextCh m; m1 = m\<lparr>replies := (replies m)(ch := make_chan 1), nextCh := Suc ch\<rparr>
           in case handlerCall ev f h i q clean ch g of
                Ret (res, g') \<Rightarrow> Ret (res, set_group io i g' m1)
              | GoPanic \<Rightarrow> GoPanic
              | GoBlocks \<Rightarrow> GoBlocks))"

definition FCall ::
  "'a id_ops \<Rightarrow> ('a, 'f, 'q, 'e, 'k, 'o) groupEv
    \<Rightarrow> (nat \<Rightarrow> ('a, 'f, 'q, 'e, 'k, 'r, 'o, 'v) Manager \<Rightarrow> string option \<times> ('a, 'f, 'q, 'e, 'k, 'r, 'o, 'v) Manager)
    \<Rightarrow> From \<Rightarrow> 'a \<Rightarrow> ('q, ('a, 'e) goerr) request \<Rightarrow> ('a, 'f, 'q, 'e, 'k, 'r, 'o, 'v) Manager
    \<Rightarrow> (('r option \<times> ('a, 'e) goerr option) \<times> ('a, 'f, 'q, 'e, 'k, 'r, 'o, 'v) Manager) go" where
  "FCall io ev await f i q m =
     (case call_send io ev f i q False m of
        Ret (Inl e, m1) \<Rightarrow> Ret ((None, Some e), m1)
      | Ret (Inr ch, m1) \<Rightarrow> (let (sel, m2) = await ch m1 in waitResult sel ch m2)
      | GoPanic \<Rightarrow> GoPanic
      | GoBlocks \<Rightarrow> GoBlocks)"

definition Call ::
  "'a id_ops \<Rightarrow> ('a, 'f, 'q, 'e, 'k, 'o) groupEv
    \<Rightarrow> (nat \<Rightarrow> ('a, 'f, 'q, 'e, 'k, 'r, 'o, 'v) Manager \<Rightarrow> string option \<times> ('a, 'f, 'q, 'e, 'k, 'r, 'o, 'v) Manager)
    \<Rightarrow> 'a \<Rightarrow> ('q, ('a, 'e) goerr) request \<Rightarrow> ('a, 'f, 'q, 'e, 'k, 'r, 'o, 'v) Manager
    \<Rightarrow> (('r option \<times> ('a, 'e) goerr option) \<times> ('a, 'f, 'q, 'e, 'k, 'r, 'o, 'v) Manager) go" where
  "Call io ev await i q m = (let (f, m1) = newFrom m in FCall io ev await f i q m1)"

definition SafeFCall ::
  "'a id_ops \<Rightarrow> ('a, 'f, 'q, 'e, 'k, 'o) groupEv
    \<Rightarrow> (nat \<Rightarrow> ('a, 'f, 'q, 'e, 'k, 'r, 'o, 'v) Manager \<Rightarrow> string option \<times> ('a, 'f, 'q, 'e, 'k, 'r, 'o, 'v) Manager)
    \<Rightarrow> From \<Rightarrow> 'a \<Rightarrow> ('q, ('a, 'e) goerr) request \<Rightarrow> ('a, 'f, 'q, 'e, 'k, 'r, 'o, 'v) Manager
    \<Rightarrow> (('r option \<times> ('a, 'e) goerr option) \<times> ('a, 'f, 'q, 'e, 'k, 'r, 'o, 'v) Manager) go" where
  "SafeFCall io ev await f i q m =
     (case call_send io ev f i q True m of
        Ret (Inl e, m1) \<Rightarrow> Ret ((None, Some e), m1)
      | Ret (Inr ch, m1) \<Rightarrow> (let (sel, m2) = await ch m1 in safeResult sel ch m2)
      | GoPanic \<Rightarrow> GoPanic
      | GoBlocks \<Rightarrow> GoBlocks)"

definition SafeCall ::
  "'a id_ops \<Rightarrow> ('a, 'f, 'q, 'e, 'k, 'o) groupEv
    \<Rightarrow> (nat \<Rightarrow> ('a, 'f, 'q, 'e, 'k, 'r, 'o, 'v) Manager \<Rightarrow> string option \<times> ('a, 'f, 'q, 'e, 'k, 'r, 'o, 'v) Manager)
    \<Rightarrow> 'a \<Rightarrow> ('q, ('a, 'e) goerr) request \<Rightarrow> ('a, 'f, 'q, 'e, 'k, 'r, 'o, 'v) Manager
    \<Rightarrow> (('r option \<times> ('a, 'e) goerr option) \<times> ('a, 'f, 'q, 'e, 'k, 'r, 'o, 'v) Manager) go" where
  "SafeCall io ev await i q m = (let (f, m1) = newFrom m in SafeFCall io ev await f i q m1)"

subsection \<open>Broadcast and multicast\<close>

definition FBroadcast ::
  "'a id_ops \<Rightarrow> 'a \<Rightarrow> From \<Rightarrow> ('q, ('a, 'e) goerr) request \<Rightarrow> ('a, 'f, 'q, 'e, 'k, 'r, 'o, 'v) Manager
    \<Rightarrow> ((('a, 'e) goerr + int) \<times> ('a, 'f, 'q, 'e, 'k, 'r, 'o, 'v) Manager) go" where
  "FBroadcast io id0 f q m =
     (case findHandler io id0 q m of
        Inl _ \<Rightarrow> Ret (Inl (GroupNotFoundError id0), m)
      | Inr (g, h) \<Rightarrow>
          (case handlerBroadcast f h q g of
             None \<Rightarrow> GoPanic
           | Some (res, g') \<Rightarrow> Ret (res, set_group io id0 g' m)))"

definition Broadcast ::
  "'a id_ops \<Rightarrow> 'a \<Rightarrow> ('q, ('a, 'e) goerr) request \<Rightarrow> ('a, 'f, 'q, 'e, 'k, 'r, 'o, 'v) Manager
    \<Rightarrow> ((('a, 'e) goerr + int) \<times> ('a, 'f, 'q, 'e, 'k, 'r, 'o, 'v) Manager) go" where
  "Broadcast io id0 q m = (let (f, m1) = newFrom m in FBroadcast io id0 f q m1)"

definition FMulticast ::
  "'a id_ops \<Rightarrow> 'a \<Rightarrow> From \<Rightarrow> 'a list \<Rightarrow> ('q, ('a, 'e) goerr) request \<Rightarrow> ('a, 'f, 'q, 'e, 'k, 'r, 'o, 'v) Manager
    \<Rightarrow> ((('a, 'e) goerr + ('a, 'e) IdErr list) \<times> ('a, 'f, 'q, 'e, 'k, 'r, 'o, 'v) Manager) go" where
  "FMulticast io id0 f ids q m =
     (if length ids = 0 then Ret (Inr [], m)
      else case findHandler io id0 q m of
             Inl _ \<Rightarrow> Ret (Inl (GroupNotFoundError id0), m)
           | Inr (g, h) \<Rightarrow>
               (case handlerMulticast f h ids q g of
                  None \<Rightarrow> GoPanic
                | Some (res, g') \<Rightarrow> Ret (res, set_group io id0 g' m)))"

definition Multicast ::
  "'a id_ops \<Rightarrow> 'a \<Rightarrow> 'a list \<Rightarrow> ('q, ('a, 'e) goerr) request \<Rightarrow> ('a, 'f, 'q, 'e, 'k, 'r, 'o, 'v) Manager
    \<Rightarrow> ((('a, 'e) goerr + ('a, 'e) IdErr list) \<times> ('a, 'f, 'q, 'e, 'k, 'r, 'o, 'v) Manager) go" where
  "Multicast io id0 ids q m = (let (f, m1) = newFrom m in FMulticast io id0 f ids q m1)"

subsection \<open>Counting and closing\<close>

definition Count ::
  "'a id_ops \<Rightarrow> 'a \<Rightarrow> ('a, 'f, 'q, 'e, 'k, 'r, 'o, 'v) Manager \<Rightarrow> ('a, 'e) goerr + int" where
  "Count io id0 m =
     (case findGroup io id0 m of None \<Rightarrow> Inl (GroupNotFoundError id0) | Some g \<Rightarrow> Inr (count g))"

text \<open>\<open>Finalize\<close> up to its wait: the broadcast, and the goroutines it then joins.\<close>

definition Finalize ::
  "'a id_ops \<Rightarrow> 'a \<Rightarrow> ('q, ('a, 'e) goerr) request \<Rightarrow> ('a, 'f, 'q, 'e, 'k, 'r, 'o, 'v) Manager
    \<Rightarrow> (nat list \<times> ('a, 'f, 'q, 'e, 'k, 'r, 'o, 'v) Manager) go" where
  "Finalize io id0 q m =
     (case findHandler io id0 q m of
        Inl _ \<Rightarrow> Ret ([], m)
      | Inr (g, h) \<Rightarrow>
          (let (f, m1) = newFrom m
           in case handlerBroadcast f h q g of
                None \<Rightarrow> GoPanic
              | Some (_, g') \<Rightarrow> Ret (join_snapshot g', set_group io id0 g' m1)))"

definition with_found ::
  "'a id_ops \<Rightarrow> 'a \<Rightarrow> (('a, 'f, 'q, 'e, 'k, 'o) mgroup \<Rightarrow> (bool \<times> ('a, 'f, 'q, 'e, 'k, 'o) mgroup) option)
    \<Rightarrow> ('a, 'f, 'q, 'e, 'k, 'r, 'o, 'v) Manager \<Rightarrow> (bool \<times> ('a, 'f, 'q, 'e, 'k, 'r, 'o, 'v) Manager) go" where
  "with_found io i op m =
     (case findGroup io i m of
        None \<Rightarrow> Ret (False, m)
      | Some g \<Rightarrow> (case op g of None \<Rightarrow> GoPanic | Some (b, g') \<Rightarrow> Ret (b, set_group io i g' m)))"

definition CloseActor ::
  "'a id_ops \<Rightarrow> 'a \<Rightarrow> ('a, 'f, 'q, 'e, 'k, 'r, 'o, 'v) Manager
    \<Rightarrow> (bool \<times> ('a, 'f, 'q, 'e, 'k, 'r, 'o, 'v) Manager) go" where
  "CloseActor io i m = with_found io i (closeActor i) m"

definition KillActor ::
  "'a id_ops \<Rightarrow> 'a \<Rightarrow> ('a, 'f, 'q, 'e, 'k, 'r, 'o, 'v) Manager
    \<Rightarrow> (bool \<times> ('a, 'f, 'q, 'e, 'k, 'r, 'o, 'v) Manager) go" where
  "KillActor io i m = with_found io i (killActor i) m"

definition JoinActor :: "'a id_ops \<Rightarrow> 'a \<Rightarrow> ('a, 'f, 'q, 'e, 'k, 'r, 'o, 'v) Manager \<Rightarrow> bool go" where
  "JoinActor io i m =
     (case findGroup io i m of
        None \<Rightarrow> Ret False
      | Some g \<Rightarrow> (case joinActor i g of None \<Rightarrow> GoBlocks | Some b \<Rightarrow> Ret b))"

fun closeGroups ::
  "(string \<times> ('a, 'm, 'h, 'o) group) list \<Rightarrow> (string \<times> ('a, 'm, 'h, 'o) group) list option" where
  "closeGroups [] = Some []"
| "closeGroups ((t, g) # gs) =
     Option.bind (closeGroup g) (\<lambda>g'. map_option (\<lambda>gs'. (t, g') # gs') (closeGroups gs))"

definition CloseManager ::
  "('a, 'f, 'q, 'e, 'k, 'r, 'o, 'v) Manager \<Rightarrow> ('a, 'f, 'q, 'e, 'k, 'r, 'o, 'v) Manager option" where
  "CloseManager m =
     (if mstopping m then Some m
      else map_option (\<lambda>gs. m\<lparr>mstopping := True, mcancelled := True, groups := gs\<rparr>) (closeGroups (groups m)))"

text \<open>\<open>JoinManager\<close>: the state it waits in and the goroutines it waits for, group by group.\<close>

definition JoinManager ::
  "('a, 'f, 'q, 'e, 'k, 'r, 'o, 'v) Manager
    \<Rightarrow> (nat list list \<times> ('a, 'f, 'q, 'e, 'k, 'r, 'o, 'v) Manager) option" where
  "JoinManager m =
     map_option (\<lambda>m1. if mjoined m1 then ([], m1)
                      else (map (join_snapshot \<circ> snd) (groups m1), m1\<lparr>mjoined := True\<rparr>))
       (CloseManager m)"

definition IsClosed :: "('a, 'f, 'q, 'e, 'k, 'r, 'o, 'v) Manager \<Rightarrow> bool" where
  "IsClosed m = mstopping m"

subsection \<open>Direct references\<close>

text \<open>
  An \<open>ActorRef\<close> is an address in one group, or nil once released. \<^const>\<open>None\<close> as a result of \<open>RefPost\<close> and
  \<open>RefCall\<close> with a released reference is the nil dereference of \<open>ref.target\<close>.
\<close>

record ActorRef =
  target :: "nat option"

definition Ref ::
  "'a \<Rightarrow> ('a, 'm, 'h, 'o) group \<Rightarrow> ActorRef option \<times> ('a, 'm, 'h, 'o) group" where
  "Ref i g =
     (case holdActorForRef i g of
        (None, g') \<Rightarrow> (None, g')
      | (Some p, g') \<Rightarrow> (Some \<lparr>target = Some p\<rparr>, g'))"

definition Release ::
  "ActorRef \<Rightarrow> ('a, 'm, 'h, 'o) group \<Rightarrow> (ActorRef \<times> ('a, 'm, 'h, 'o) group) option" where
  "Release ref g =
     (case target ref of
        None \<Rightarrow> Some (ref, g)
      | Some p \<Rightarrow> map_option (Pair \<lparr>target = None\<rparr>) (unhold_at p g))"

definition Valid :: "ActorRef \<Rightarrow> ('a, 'm, 'h, 'o) group \<Rightarrow> bool" where
  "Valid ref g = (case target ref of None \<Rightarrow> False | Some p \<Rightarrow> \<not> closed (heap g p))"

definition Ref_Id :: "ActorRef \<Rightarrow> ('a, 'm, 'h, 'o) group \<Rightarrow> 'a option" where
  "Ref_Id ref g = map_option (\<lambda>p. aid (heap g p)) (target ref)"

text \<open>The lookup and send that \<open>RefPost\<close>, \<open>RefCall\<close> and \<open>RefSafeCall\<close> share; \<open>from\<close> is the zero value.\<close>

definition ref_send ::
  "'a id_ops \<Rightarrow> string \<Rightarrow> ActorRef \<Rightarrow> ('q, ('a, 'e) goerr) request \<Rightarrow> nat option \<Rightarrow> bool
    \<Rightarrow> ('a, 'f, 'q, 'e, 'k, 'r, 'o, 'v) Manager
    \<Rightarrow> (('a, 'e) goerr option \<times> ('a, 'f, 'q, 'e, 'k, 'r, 'o, 'v) Manager) go" where
  "ref_send io t ref q ch clean m =
     (case (target ref, map_of (groups m) t) of
        (Some p, Some g) \<Rightarrow>
          if closed (heap g p) then Ret (Some (ActorClosedError (aid (heap g p))), m)
          else (case findHandler io (aid (heap g p)) q m of
                  Inl e \<Rightarrow> Ret (Some e, m)
                | Inr (_, h) \<Rightarrow>
                    (case send_at p (Invoke emptyFrom h q ch clean) g of
                       None \<Rightarrow> GoPanic
                     | Some (err, g') \<Rightarrow> Ret (err, m\<lparr>groups := AList.update t g' (groups m)\<rparr>)))
      | _ \<Rightarrow> GoPanic)"

definition RefPost ::
  "'a id_ops \<Rightarrow> string \<Rightarrow> ActorRef \<Rightarrow> ('q, ('a, 'e) goerr) request \<Rightarrow> ('a, 'f, 'q, 'e, 'k, 'r, 'o, 'v) Manager
    \<Rightarrow> (('a, 'e) goerr option \<times> ('a, 'f, 'q, 'e, 'k, 'r, 'o, 'v) Manager) go" where
  "RefPost io t ref q m = ref_send io t ref q None False m"

definition ref_call ::
  "bool \<Rightarrow> 'a id_ops
    \<Rightarrow> (nat \<Rightarrow> ('a, 'f, 'q, 'e, 'k, 'r, 'o, 'v) Manager \<Rightarrow> string option \<times> ('a, 'f, 'q, 'e, 'k, 'r, 'o, 'v) Manager)
    \<Rightarrow> string \<Rightarrow> ActorRef \<Rightarrow> ('q, ('a, 'e) goerr) request \<Rightarrow> ('a, 'f, 'q, 'e, 'k, 'r, 'o, 'v) Manager
    \<Rightarrow> (('r option \<times> ('a, 'e) goerr option) \<times> ('a, 'f, 'q, 'e, 'k, 'r, 'o, 'v) Manager) go" where
  "ref_call safe io await t ref q m =
     (let ch = nextCh m; m1 = m\<lparr>replies := (replies m)(ch := make_chan 1), nextCh := Suc ch\<rparr>
      in case ref_send io t ref q (Some ch) safe m1 of
           Ret (Some e, m2) \<Rightarrow> Ret ((None, Some e), m2)
         | Ret (None, m2) \<Rightarrow>
             (let (sel, m3) = await ch m2 in if safe then safeResult sel ch m3 else waitResult sel ch m3)
         | GoPanic \<Rightarrow> GoPanic
         | GoBlocks \<Rightarrow> GoBlocks)"

definition RefCall ::
  "'a id_ops
    \<Rightarrow> (nat \<Rightarrow> ('a, 'f, 'q, 'e, 'k, 'r, 'o, 'v) Manager \<Rightarrow> string option \<times> ('a, 'f, 'q, 'e, 'k, 'r, 'o, 'v) Manager)
    \<Rightarrow> string \<Rightarrow> ActorRef \<Rightarrow> ('q, ('a, 'e) goerr) request \<Rightarrow> ('a, 'f, 'q, 'e, 'k, 'r, 'o, 'v) Manager
    \<Rightarrow> (('r option \<times> ('a, 'e) goerr option) \<times> ('a, 'f, 'q, 'e, 'k, 'r, 'o, 'v) Manager) go" where
  "RefCall io await t ref q m = ref_call False io await t ref q m"

definition RefSafeCall ::
  "'a id_ops
    \<Rightarrow> (nat \<Rightarrow> ('a, 'f, 'q, 'e, 'k, 'r, 'o, 'v) Manager \<Rightarrow> string option \<times> ('a, 'f, 'q, 'e, 'k, 'r, 'o, 'v) Manager)
    \<Rightarrow> string \<Rightarrow> ActorRef \<Rightarrow> ('q, ('a, 'e) goerr) request \<Rightarrow> ('a, 'f, 'q, 'e, 'k, 'r, 'o, 'v) Manager
    \<Rightarrow> (('r option \<times> ('a, 'e) goerr option) \<times> ('a, 'f, 'q, 'e, 'k, 'r, 'o, 'v) Manager) go" where
  "RefSafeCall io await t ref q m = ref_call True io await t ref q m"

subsection \<open>Delivering one message\<close>

text \<open>What is queued for an identity, and when its mailbox is full.\<close>

definition inbox :: "('a, 'm, 'h, 'o) group \<Rightarrow> 'a \<Rightarrow> 'm list" where
  "inbox g i =
     (case map_of (actors g) i of None \<Rightarrow> [] | Some p \<Rightarrow> if closed (heap g p) then [] else mail g p)"

definition full_at :: "('a, 'm, 'h, 'o) group \<Rightarrow> 'a \<Rightarrow> bool" where
  "full_at g i \<longleftrightarrow> (\<exists>p. map_of (actors g) i = Some p \<and> \<not> closed (heap g p) \<and> \<not> room g p)"

text \<open>An identity whose old actor is closing: a message that may spawn has to wait for it.\<close>

definition stuck :: "('a, 'm, 'h, 'o) group \<Rightarrow> 'a \<Rightarrow> bool" where
  "stuck g i \<longleftrightarrow> (\<exists>p. map_of (actors g) i = Some p \<and> closed (heap g p) \<and> \<not> doneCh (heap g p))"

text \<open>Open actors stay open, at the same address and with at least the same messages.\<close>

definition grows :: "('a, 'm, 'h, 'o) group \<Rightarrow> ('a, 'm, 'h, 'o) group \<Rightarrow> bool" where
  "grows g g' \<longleftrightarrow> stopping g' = stopping g \<and> registry g' = registry g \<and> (\<forall>j. stuck g' j \<longrightarrow> stuck g j) \<and>
     (\<forall>j p. map_of (actors g) j = Some p \<longrightarrow> \<not> closed (heap g p) \<longrightarrow>
        map_of (actors g') j = Some p \<and> \<not> closed (heap g' p) \<and>
        capacity (mailbox (heap g' p)) = capacity (mailbox (heap g p)) \<and> (\<exists>ms. mail g' p = mail g p @ ms))"

lemma grows_refl [simp]: "grows g g"
  by (simp add: grows_def)

lemma grows_trans: "grows g g1 \<Longrightarrow> grows g1 g2 \<Longrightarrow> grows g g2"
  unfolding grows_def by (metis append.assoc)

lemma grows_live: "grows g g' \<Longrightarrow> live g i \<Longrightarrow> live g' i"
  by (auto simp: grows_def live_def)

lemma grows_full: "grows g g' \<Longrightarrow> full_at g i \<Longrightarrow> full_at g' i"
  by (fastforce simp: grows_def full_at_def room_def)

lemma grows_upd:
  assumes "closed a = closed (heap g p)" "capacity (mailbox a) = capacity (mailbox (heap g p))"
    "\<exists>ms. items (mailbox a) = mail g p @ ms" "doneCh a = doneCh (heap g p)"
  shows "grows g (upd p a g)"
  using assms by (auto simp: grows_def stuck_def split: if_splits)

lemma inbox_upd_same:
  assumes "closed a = closed (heap g p)" "items (mailbox a) = mail g p"
  shows "inbox (upd p a g) = inbox g"
  using assms by (auto simp: inbox_def fun_eq_iff split: option.splits)

lemma resolve_live:
  assumes "live g i" "\<not> stopping g"
  obtains p where "map_of (actors g) i = Some p" "\<not> closed (heap g p)"
    "resolveActor id i allow g = (Resolved p, upd p (hold (heap g p)) g)"
  using assms by (auto simp: live_def resolveActor_def isStopping_def holdActor_def)

lemma resolve_spawn:
  assumes "\<not> live g i" "\<not> stopping g" "resolveActor id i allow g = (Resolved p, g1)" "group_inv r g"
  shows "p = nextAddr g" "grows g g1" "inbox g1 = inbox g"
proof -
  from assms(1-3) obtain g2 where sp: "spawnActor i g = (SpawnNew p, g2)" and g1: "g1 = g2\<lparr>started := started g2 @ [p]\<rparr>"
    by (auto simp: live_def resolveActor_def isStopping_def holdActor_def spawnActor_def Let_def
        dest: group_inv_lookup(1) [OF assms(4)] split: option.splits if_splits)
  then show p: "p = nextAddr g" by (auto simp: spawnActor_def Let_def split: option.splits if_splits)
  have tab: "map_of (actors g1) = (map_of (actors g))(i \<mapsto> p)" "heap g1 = (heap g)(p := (newActor i (bufMails g))\<lparr>holder := 2\<rparr>)"
    "stopping g1 = stopping g" "registry g1 = registry g"
    using sp unfolding g1 by (auto simp: spawnActor_def Let_def actorIdle_def upd_def update_conv' split: option.splits if_splits)
  have old: "q < p" if "map_of (actors g) j = Some q" for j q
    using group_inv_lookup(1) [OF assms(4) that] p by simp
  show "grows g g1"
  proof -
    have "j \<noteq> i \<and> q \<noteq> p" if "map_of (actors g) j = Some q" "\<not> closed (heap g q)" for j q
      using that assms(1) old [OF that(1)] by (auto simp: live_def)
    moreover have "stuck g j" if "stuck g1 j" for j
      using that old [of j] by (cases "j = i") (auto simp: stuck_def tab split: if_splits)
    ultimately show ?thesis unfolding grows_def tab by simp
  qed
  have "inbox g1 j = inbox g j" for j
  proof (cases "j = i")
    case True
    then show ?thesis using assms(1) by (auto simp: inbox_def tab live_def split: option.splits)
  next
    case False
    then show ?thesis using old [of j] by (cases "map_of (actors g) j") (auto simp: inbox_def tab)
  qed
  then show "inbox g1 = inbox g" by (rule ext)
qed

lemma resolve_blocks:
  assumes "group_inv r g" "resolveActor id i allow g = (ResolveBlocks, g1)"
  shows "stuck g i \<and> allow \<and> \<not> stopping g"
  using assms(2) group_inv_lookup(1) [OF assms(1), of i]
  by (auto simp: resolveActor_def isStopping_def holdActor_def spawnActor_def Let_def stuck_def
      split: option.splits if_splits)

lemma inbox_put_mail:
  assumes "group_inv r g" "map_of (actors g) i = Some p" "\<not> closed (heap g p)"
  shows "inbox (put_mail p x g) = (inbox g)(i := inbox g i @ [x])"
proof
  fix j
  show "inbox (put_mail p x g) j = ((inbox g)(i := inbox g i @ [x])) j"
  proof (cases "j = i")
    case True
    then show ?thesis using assms(2,3) by (simp add: inbox_def put_mail_def)
  next
    case False
    then have "map_of (actors g) j \<noteq> Some p" using group_inv_table_inj [OF assms(1) _ assms(2)] by blast
    with False show ?thesis by (simp add: inbox_def put_mail_def split: option.split)
  qed
qed

lemma unhold_at_held:
  assumes "group_inv r g" "p < nextAddr g" "r p = Suc n"
  obtains g' where "unhold_at p g = Some g'" "group_inv (r(p := n)) g'" "grows g g'" "inbox g' = inbox g"
proof -
  from group_inv_rt [OF assms(1,2)] assms(3) have "rt_ok (Suc n) (heap g p)" by simp
  then obtain a' where a': "unhold (heap g p) = Some a'" "rt_ok n a'" "aid a' = aid (heap g p)"
    "closed a' = closed (heap g p)" "items (mailbox a') = mail g p"
    "capacity (mailbox a') = capacity (mailbox (heap g p))" "doneCh a' = doneCh (heap g p)" by (rule rt_ok_unhold)
  show ?thesis
    using that [of "upd p a' g"] group_inv_upd [OF assms(1,2) a'(2,3)] grows_upd [of a' g p]
      inbox_upd_same [of a' g p] a' by (simp add: unhold_at_def)
qed

lemma deliver_resolved:
  fixes g1 :: "('a, 'm, 'h, 'o) group"
  assumes inv: "group_inv r g1" and p: "p < nextAddr g1" "r p = Suc n"
    and tab: "map_of (actors g1) i = Some p" "\<not> closed (heap g1 p)"
    and rs: "resolveActor id i allow g = (Resolved p :: ('a, 'e) resolved, g1)"
  shows "\<exists>err g'. deliver id x allow i g = Ret (err :: ('a, 'e) goerr option, g') \<and> grows g1 g' \<and>
    group_inv (r(p := n)) g' \<and>
    (case err of
       None \<Rightarrow> live g' i \<and> \<not> full_at g1 i \<and> inbox g' = (inbox g1)(i := inbox g1 i @ [x])
     | Some e \<Rightarrow> inbox g' = inbox g1 \<and> e = ActorBusyError i \<and> full_at g' i)"
proof -
  let ?g2 = "if room g1 p then put_mail p x g1 else g1"
  have aid: "aid (heap g1 p) = i" using group_inv_lookup(2) [OF inv tab(1)] .
  have inv2: "group_inv r ?g2" using inv p by (simp add: group_inv_put_mail)
  have p2: "p < nextAddr ?g2" using p by (simp add: put_mail_def)
  have gr: "grows g1 ?g2" using grows_upd [of _ g1 p] by (auto simp: put_mail_def)
  from unhold_at_held [OF inv2 p2 p(2)] obtain g3 where
    u: "unhold_at p ?g2 = Some g3" "group_inv (r(p := n)) g3" "grows ?g2 g3" "inbox g3 = inbox ?g2" .
  have g13: "grows g1 g3" by (rule grows_trans [OF gr u(3)])
  have "live g1 i" using tab by (auto simp: live_def)
  then have "live g3 i" by (rule grows_live [OF g13])
  show ?thesis
  proof (cases "room g1 p")
    case True
    then have "deliver id x allow i g = Ret (None :: ('a, 'e) goerr option, g3)"
      using u(1) p by (simp add: deliver_def rs send_at_held [OF inv p(1)])
    moreover have "inbox g3 = (inbox g1)(i := inbox g1 i @ [x])"
      using u(4) True inbox_put_mail [OF inv tab] by simp
    moreover have "\<not> full_at g1 i" using True tab by (auto simp: full_at_def)
    ultimately show ?thesis using u(2) g13 \<open>live g3 i\<close> by (intro exI) auto
  next
    case False
    then have "deliver id x allow i g = Ret (Some (ActorBusyError i) :: ('a, 'e) goerr option, g3)"
      using u(1) p by (simp add: deliver_def rs send_at_held [OF inv p(1)] aid)
    moreover have "full_at g1 i" using False tab by (auto simp: full_at_def)
    then have "full_at g3 i" by (rule grows_full [OF g13])
    ultimately show ?thesis using u(2,4) g13 False by (intro exI) auto
  qed
qed

text \<open>The outcome of \<open>deliver\<close> when no one interferes.\<close>

lemma deliver_spec:
  fixes g :: "('a, 'm, 'h, 'o) group"
  assumes inv: "group_inv r g"
  shows "case (deliver id x allow i g :: (('a, 'e) goerr option \<times> ('a, 'm, 'h, 'o) group) go) of
      GoPanic \<Rightarrow> False
    | GoBlocks \<Rightarrow> stuck g i \<and> allow \<and> \<not> stopping g
    | Ret (err, g') \<Rightarrow> grows g g' \<and> (\<exists>r'. group_inv r' g' \<and> (\<forall>p<nextAddr g. r' p = r p)) \<and>
      (case err of
         None \<Rightarrow> live g' i \<and> \<not> full_at g i \<and> inbox g' = (inbox g)(i := inbox g i @ [x])
       | Some e \<Rightarrow> inbox g' = inbox g \<and>
           (e = GroupClosedError (Some i) \<and> stopping g \<or> e = ActorNotFoundError i \<and> \<not> live g i \<and> \<not> allow \<or>
            e = ActorBusyError i \<and> full_at g' i))"
proof -
  obtain res g1 where rs: "resolveActor id i allow g = (res :: ('a, 'e) resolved, g1)" by fastforce
  from resolveActor_spec [OF inv rs] obtain r1 where
    R: "group_inv r1 g1" "\<forall>p<nextAddr g. (\<forall>q. res = Resolved q \<longrightarrow> q \<noteq> p) \<longrightarrow> r1 p = r p"
      "case res of
       Resolved p \<Rightarrow> p < nextAddr g1 \<and> r1 p = (if p < nextAddr g then Suc (r p) else 1) \<and>
         map_of (actors g1) i = Some p \<and> \<not> closed (heap g1 p)
     | ResolveErr e \<Rightarrow> g1 = g \<and> (e = GroupClosedError (Some i) \<and> stopping g \<or> e = ActorNotFoundError i \<and> \<not> live g i \<and> \<not> allow)
     | ResolveNil \<Rightarrow> False
     | ResolveBlocks \<Rightarrow> \<not> live g i" by blast
  show ?thesis
  proof (cases res)
    case (Resolved p)
    let ?n = "if p < nextAddr g then r p else 0"
    from R(3) have P: "p < nextAddr g1" "r1 p = Suc ?n" "map_of (actors g1) i = Some p" "\<not> closed (heap g1 p)"
      by (simp_all add: Resolved)
    have ns: "\<not> stopping g" using rs Resolved by (auto simp: resolveActor_def isStopping_def)
    have G: "grows g g1 \<and> inbox g1 = inbox g"
    proof (cases "live g i")
      case True
      then obtain q where "map_of (actors g) i = Some q" "\<not> closed (heap g q)"
        "resolveActor id i allow g = (Resolved q :: ('a, 'e) resolved, upd q (hold (heap g q)) g)"
        using resolve_live [OF True ns] by metis
      with rs Resolved have "g1 = upd p (hold (heap g p)) g" by auto
      then show ?thesis by (auto intro!: grows_upd inbox_upd_same)
    next
      case False
      from resolve_spawn [OF False ns rs [unfolded Resolved] inv] show ?thesis by simp
    qed
    from deliver_resolved [OF R(1) P rs [unfolded Resolved], of x] obtain err g' where
      D: "deliver id x allow i g = Ret (err :: ('a, 'e) goerr option, g')" "grows g1 g'" "group_inv (r1(p := ?n)) g'"
        "case err of
           None \<Rightarrow> live g' i \<and> \<not> full_at g1 i \<and> inbox g' = (inbox g1)(i := inbox g1 i @ [x])
         | Some e \<Rightarrow> inbox g' = inbox g1 \<and> e = ActorBusyError i \<and> full_at g' i" by blast
    have "\<forall>q<nextAddr g. (r1(p := ?n)) q = r q" using R(2) Resolved by auto
    with D(3) have "\<exists>r'. group_inv r' g' \<and> (\<forall>p<nextAddr g. r' p = r p)" by blast
    moreover have "grows g g'" using G D(2) grows_trans [of g g1 g'] by blast
    moreover have "full_at g i \<longrightarrow> full_at g1 i" using G grows_full [of g g1 i] by blast
    ultimately show ?thesis unfolding D(1) using D(4) G by (cases err) simp_all
  next
    case (ResolveErr e)
    with R(3) have "g1 = g" by simp
    with ResolveErr R(3) inv show ?thesis by (auto simp: deliver_def rs)
  next
    case ResolveBlocks
    have "stuck g i \<and> allow \<and> \<not> stopping g" by (rule resolve_blocks [OF inv rs [unfolded ResolveBlocks]])
    then show ?thesis using ResolveBlocks R(3) unfolding deliver_def rs by simp
  qed (use R(3) in simp)
qed

subsection \<open>The manager provides what the control block relies on\<close>

text \<open>
  \<open>fpost_op\<close> is \<open>FPost\<close> as \<open>APost\<close> sees it while no other goroutine interferes. A post that panics or
  waits does not come back to \<open>APost\<close>; the total function returns a runtime error there, and the
  laws for routable requests show that they never get that far.
\<close>

fun req_of :: "('f, 'q, 'err, 'k) invokable \<Rightarrow> ('q, 'err) request option" where
  "req_of (Invoke _ _ q _ _) = Some q"
| "req_of _ = None"

definition fpost_op ::
  "'a id_ops \<Rightarrow> ('a, ('q, ('a, 'e) goerr) request, 'e, ('a, 'f, 'q, 'e, 'k, 'r, 'o, 'v) Manager) fpost" where
  "fpost_op io w f i q =
     (case FPost io id f i q w of
        Ret (err, w') \<Rightarrow> (err, w')
      | _ \<Rightarrow> (Some (RuntimeErr ''post did not return''), w))"

definition mgr_wf :: "('a, 'f, 'q, 'e, 'k, 'r, 'o, 'v) Manager \<Rightarrow> bool" where
  "mgr_wf w \<longleftrightarrow> (\<forall>t g. map_of (groups w) t = Some g \<longrightarrow> (\<exists>r. group_inv r g))"

definition mgr_accepted ::
  "'a id_ops \<Rightarrow> ('a, 'f, 'q, 'e, 'k, 'r, 'o, 'v) Manager \<Rightarrow> 'a \<Rightarrow> ('q, ('a, 'e) goerr) request list" where
  "mgr_accepted io w i =
     (case map_of (groups w) (ActorType io i) of None \<Rightarrow> [] | Some g \<Rightarrow> List.map_filter req_of (inbox g i))"

definition mgr_full :: "'a id_ops \<Rightarrow> ('a, 'f, 'q, 'e, 'k, 'r, 'o, 'v) Manager \<Rightarrow> 'a \<Rightarrow> bool" where
  "mgr_full io w i = (case map_of (groups w) (ActorType io i) of None \<Rightarrow> False | Some g \<Rightarrow> full_at g i)"

definition mgr_routable ::
  "'a id_ops \<Rightarrow> ('a, 'f, 'q, 'e, 'k, 'r, 'o, 'v) Manager \<Rightarrow> 'a \<Rightarrow> ('q, ('a, 'e) goerr) request \<Rightarrow> bool" where
  "mgr_routable io w i q \<longleftrightarrow> \<not> mstopping w \<and>
     (case map_of (groups w) (ActorType io i) of
        None \<Rightarrow> False
      | Some g \<Rightarrow> \<not> stopping g \<and>
          (case registry g (reqTypeOf q) of
             None \<Rightarrow> False
           | Some h \<Rightarrow> live g i \<or> allow_spawn h \<and> \<not> stuck g i))"

lemma fpost_op_cases:
  fixes w :: "('a, 'f, 'q, 'e, 'k, 'r, 'o, 'v) Manager"
  assumes "mgr_wf w"
  obtains (unrouted) e where "fpost_op io w f i q = (Some e, w)" "\<not> is_ActorBusyError (Some e)" "\<not> mgr_routable io w i q"
  | (sent) g h err g' r where "fpost_op io w f i q = (err, set_group io i g' w)"
      "map_of (groups w) (ActorType io i) = Some g" "registry g (reqTypeOf q) = Some h" "\<not> mstopping w"
      "group_inv r g'" "grows g g'"
      "case err of
         None \<Rightarrow> live g' i \<and> \<not> full_at g i \<and> inbox g' = (inbox g)(i := inbox g i @ [Invoke f h q None False])
       | Some e \<Rightarrow> inbox g' = inbox g \<and>
           (e = GroupClosedError (Some i) \<and> stopping g \<or>
            e = ActorNotFoundError i \<and> \<not> live g i \<and> \<not> allow_spawn h \<or> e = ActorBusyError i \<and> full_at g' i)"
proof (cases "\<exists>g h. map_of (groups w) (ActorType io i) = Some g \<and> registry g (reqTypeOf q) = Some h \<and> \<not> mstopping w")
  case False
  then have "\<exists>e. findHandler io i q w = Inl e"
    by (auto simp: findHandler_def findGroup_def group_findHandler_def split: option.splits)
  then have "fpost_op io w f i q = (Some (GroupNotFoundError i), w)"
    by (auto simp: fpost_op_def FPost_def)
  moreover have "\<not> mgr_routable io w i q" using False by (auto simp: mgr_routable_def split: option.splits)
  ultimately show ?thesis using unrouted by simp
next
  case True
  then obtain g h where gh: "map_of (groups w) (ActorType io i) = Some g" "registry g (reqTypeOf q) = Some h"
    "\<not> mstopping w" by blast
  then have fh: "findHandler io i q w = Inr (g, h)"
    by (simp add: findHandler_def findGroup_def group_findHandler_def)
  from assms gh(1) obtain r where inv: "group_inv r g" by (auto simp: mgr_wf_def)
  note D = deliver_spec [OF inv, where x = "Invoke f h q None False" and allow = "allow_spawn h" and i = i and ?'e = 'e]
  show ?thesis
  proof (cases "deliver id (Invoke f h q None False) (allow_spawn h) i g :: (('a, 'e) goerr option \<times> _) go")
    case (Ret res)
    then obtain err g' where d: "deliver id (Invoke f h q None False) (allow_spawn h) i g = Ret (err :: ('a, 'e) goerr option, g')"
      by (cases res) auto
    then have "fpost_op io w f i q = (err, set_group io i g' w)"
      by (simp add: fpost_op_def FPost_def fh handlerPost_def)
    moreover from D [unfolded d] obtain r' where "group_inv r' g'" by auto
    ultimately show ?thesis using D [unfolded d] gh by (intro sent [of err g' g h r']) auto
  next
    case GoPanic
    with D show ?thesis by simp
  next
    case GoBlocks
    with D have "stuck g i" by simp
    then have "\<not> mgr_routable io w i q" using gh(1) by (auto simp: mgr_routable_def live_def stuck_def split: option.splits)
    moreover have "fpost_op io w f i q = (Some (RuntimeErr ''post did not return''), w)"
      using GoBlocks by (simp add: fpost_op_def FPost_def fh handlerPost_def)
    ultimately show ?thesis using unrouted by (simp add: is_ActorBusyError_def)
  qed
qed

lemma map_filter_append_one: "List.map_filter f (xs @ [x]) = List.map_filter f xs @ (case f x of None \<Rightarrow> [] | Some y \<Rightarrow> [y])"
  by (simp add: List.map_filter_def split: option.splits)

lemma set_group_lookup:
  "map_of (groups (set_group io i g w)) t = (if t = ActorType io i then Some g else map_of (groups w) t)"
  "mstopping (set_group io i g w) = mstopping w"
  by (simp_all add: set_group_def alist_lookup)

lemma mgr_full_set_group:
  "map_of (groups w) (ActorType io i) = Some g \<Longrightarrow> grows g g' \<Longrightarrow> mgr_full io w j \<Longrightarrow> mgr_full io (set_group io i g' w) j"
  by (auto simp: mgr_full_def set_group_lookup grows_full split: if_splits)

lemma mgr_routable_set_group:
  assumes "map_of (groups w) (ActorType io i) = Some g" "grows g g'" "mgr_routable io w j q"
  shows "mgr_routable io (set_group io i g' w) j q"
  using assms grows_live [OF assms(2)]
  by (auto simp: mgr_routable_def set_group_lookup grows_def split: if_splits option.splits)

lemma mgr_accepted_set_group:
  assumes "map_of (groups w) (ActorType io i) = Some g"
  shows "inbox g' = inbox g \<Longrightarrow> mgr_accepted io (set_group io i g' w) = mgr_accepted io w"
    "inbox g' = (inbox g)(i := inbox g i @ [Invoke f h q c b]) \<Longrightarrow>
       mgr_accepted io (set_group io i g' w) = (mgr_accepted io w)(i := mgr_accepted io w i @ [q])"
  using assms by (auto simp: mgr_accepted_def set_group_lookup map_filter_append_one fun_eq_iff)

lemma mgr_wf_set_group: "mgr_wf w \<Longrightarrow> group_inv r g' \<Longrightarrow> mgr_wf (set_group io i g' w)"
  by (auto simp: mgr_wf_def set_group_lookup)

interpretation fpost: mailer "fpost_op io" mgr_wf "mgr_accepted io" "mgr_full io" "mgr_routable io"
proof unfold_locales
  fix w w' :: "('a, 'b, 'c, 'd, 'e, 'f, 'g, 'h) Manager" and f i j q r e
  assume wf: "mgr_wf w"
  show "mgr_wf (snd (fpost_op io w f i q))"
    using wf by (cases rule: fpost_op_cases [where io = io and f = f and i = i and q = q])
      (auto intro: mgr_wf_set_group [OF wf] wf)
  show "mgr_accepted io w' = (mgr_accepted io w)(i := mgr_accepted io w i @ [q])"
    if "fpost_op io w f i q = (None, w')"
    using wf that by (cases rule: fpost_op_cases [where io = io and f = f and i = i and q = q])
      (auto intro: mgr_accepted_set_group)
  show "mgr_accepted io w' = mgr_accepted io w" if "fpost_op io w f i q = (Some e, w')"
    using wf that by (cases rule: fpost_op_cases [where io = io and f = f and i = i and q = q])
      (auto intro: mgr_accepted_set_group)
  show "mgr_full io w' i" if "fpost_op io w f i q = (Some (ActorBusyError j), w')"
    using wf that by (cases rule: fpost_op_cases [where io = io and f = f and i = i and q = q])
      (auto simp: mgr_full_def set_group_lookup)
  show "fst (fpost_op io w f i q) \<noteq> None" if "mgr_full io w i"
    using wf that by (cases rule: fpost_op_cases [where io = io and f = f and i = i and q = q])
      (auto simp: mgr_full_def split: option.splits)
  show "mgr_full io (snd (fpost_op io w f j q)) i" if "mgr_full io w i"
    using wf that by (cases rule: fpost_op_cases [where io = io and f = f and i = j and q = q])
      (auto intro: mgr_full_set_group)
  show "fst (fpost_op io w f i q) = None \<or> is_ActorBusyError (fst (fpost_op io w f i q))"
    if "mgr_routable io w i q"
    using wf that by (cases rule: fpost_op_cases [where io = io and f = f and i = i and q = q])
      (auto simp: mgr_routable_def split: option.splits)
  show "mgr_routable io (snd (fpost_op io w f j r)) i q" if "mgr_routable io w i q"
    using wf that by (cases rule: fpost_op_cases [where io = io and f = f and i = j and q = r])
      (auto intro: mgr_routable_set_group)
qed

subsection \<open>Closing all groups\<close>

lemma closeGroups_spec:
  "(\<forall>(t, g)\<in>set gs. \<exists>r. group_inv r g) \<Longrightarrow>
     \<exists>gs'. closeGroups gs = Some gs' \<and> map fst gs' = map fst gs \<and>
       (\<forall>(t, g)\<in>set gs'. stopping g \<and> (\<exists>r. group_inv r g)) \<and>
       ((\<forall>(t, g)\<in>set gs. \<not> stopping g) \<longrightarrow> (\<forall>(t, g)\<in>set gs'. \<forall>i. \<not> live g i))"
proof (induction gs)
  case (Cons x gs)
  obtain t g where x: "x = (t, g)" by fastforce
  from Cons obtain gs' where IH: "closeGroups gs = Some gs'" "map fst gs' = map fst gs"
    "\<forall>(t, g)\<in>set gs'. stopping g \<and> (\<exists>r. group_inv r g)"
    "(\<forall>(t, g)\<in>set gs. \<not> stopping g) \<longrightarrow> (\<forall>(t, g)\<in>set gs'. \<forall>i. \<not> live g i)" by auto
  from Cons.prems x obtain r where inv: "group_inv r g" by auto
  show ?case
  proof (cases "stopping g")
    case True
    with IH x inv show ?thesis by (auto simp: closeGroup_def)
  next
    case False
    from closeGroup_spec [OF inv False] obtain g' where "closeGroup g = Some g'" "group_inv r g'" "stopping g'"
      "\<forall>i. \<not> live g' i" by blast
    with IH x show ?thesis by auto
  qed
qed simp

subsection \<open>A concrete manager for the witnesses\<close>

text \<open>One actor type whose request \<open>t\<close> may spawn and query; mailboxes hold one message.\<close>

type_synonym demo_mgr = "(nat, nat, nat, unit, unit, nat, unit, unit) Manager"

definition demo_io :: "nat id_ops" where
  "demo_io = \<lparr>ActorType = (\<lambda>_. ''demo''), IdString = nat_dec\<rparr>"

definition demo_manager :: demo_mgr where
  "demo_manager = the (Serve demo_io 0 1 (RegisterServe ''t'' 0) NewManager)"

definition demo_control :: "(nat, (nat, (nat, unit) goerr) request, unit, unit) ActorControl" where
  "demo_control = newActorControl ''demo.9''"

lemma demo_manager_groups:
  "groups demo_manager =
     [(''demo'', newGroup (newActor 0 0)
        [''t'' \<mapsto> \<lparr>reqType = ''t'', allow_spawn = True, allow_query = True, fn = 0\<rparr>] None 1)]"
  "\<not> mstopping demo_manager"
  by (simp_all add: demo_manager_def Serve_def ServeWith_def NewManager_def actorTypeOf_def demo_io_def
      NewRegistryBuilder_def RegisterServe_def register_def)

lemma demo_manager_wf: "mgr_wf demo_manager"
  by (auto simp: mgr_wf_def demo_manager_groups group_inv_new split: if_splits)

lemma demo_manager_routable: "mgr_routable demo_io demo_manager i (UserReq ''t'' n)"
  by (simp add: mgr_routable_def demo_manager_groups demo_io_def newGroup_def stuck_def)

subsection \<open>Properties of sending\<close>

text \<open>C5: \<open>APost\<close> is FIFO per target. While no other goroutine interferes, for a well-formed control
  block and manager and requests whose target and handler exist, the requests a target has queued
  followed by those still postponed for it grow by exactly the posted request at the end, for the target of
  the post, and not at all for any other: whether the post was delivered, found the mailbox full or
  queued behind earlier postponed requests, nothing is lost, duplicated or reordered.\<close>

theorem APost_refines_outbox_append:
  assumes "ctl_inv a" "mgr_wf w"
    and "\<forall>x\<in>set (postpone a). pid x = j \<longrightarrow> mgr_routable io w j (preq x)"
    and "mgr_routable io w i q"
    and "APost (fpost_op io) i q a w = (err, a', w')"
  shows "outbox (mgr_accepted io) w' a' j = outbox (mgr_accepted io) w a j @ (if j = i then [q] else [])"
  by (rule fpost.APost_outbox [OF assms])

theorem APost_refines_outbox_append_witness:
  "case APost (fpost_op demo_io) 3 (UserReq ''t'' 8) demo_control demo_manager of
     (err, a', w') \<Rightarrow> outbox (mgr_accepted demo_io) w' a' 3 = [UserReq ''t'' 8]"
proof -
  obtain err a' w' where r: "APost (fpost_op demo_io) 3 (UserReq ''t'' 8) demo_control demo_manager = (err, a', w')"
    by (metis prod_cases3)
  have "ctl_inv demo_control" by (simp add: demo_control_def ctl_inv_new)
  from APost_refines_outbox_append [OF this demo_manager_wf _ demo_manager_routable r, of 3]
  have "outbox (mgr_accepted demo_io) w' a' 3 =
      outbox (mgr_accepted demo_io) demo_manager demo_control 3 @ [UserReq ''t'' 8]"
    by (simp add: demo_control_def newActorControl_def)
  moreover have "outbox (mgr_accepted demo_io) demo_manager demo_control 3 = []"
    by (simp add: outbox_def mgr_accepted_def demo_manager_groups demo_io_def newGroup_def inbox_def
        demo_control_def newActorControl_def List.map_filter_def)
  ultimately show ?thesis by (simp add: r)
qed



text \<open>A reply of a \<open>SafeCall\<close> is released exactly once. The handler returned a reply. If it is sent before
  the caller gives up, the caller either receives it and nobody closes it, or gives up and closes
  it; if the caller gives up first, the send fails and the actor closes it. In each order exactly one of
  the three happens and the actor goes on.\<close>

theorem safe_reply_released_once:
  assumes "run_fn env (fn h) (world mm) (c\<lparr>ctrl := invokeLogger f (ctrl c)\<rparr>) q sp = HReturn c' w' (Some r) err"
    and "replies m ch = make_chan 1"
  shows "(\<exists>mm1. invoke_Invoke env f h q (Some ch) True sp c (mm\<lparr>chans := replies m\<rparr>) = RNormal mm1 c' \<and>
      closedReps mm1 = closedReps mm \<and>
      (\<exists>m1. safeResult None ch (m\<lparr>replies := chans mm1\<rparr>) = Ret ((Some r, err), m1) \<and>
            closedByCaller m1 = closedByCaller m) \<and>
      (\<exists>m1. safeResult (Some e) ch (m\<lparr>replies := chans mm1\<rparr>) = Ret ((None, Some (ContextErr e)), m1) \<and>
            closedByCaller m1 = closedByCaller m @ [r])) \<and>
    (\<exists>m1 mm1. safeResult (Some e) ch m = Ret ((None, Some (ContextErr e)), m1) \<and>
      closedByCaller m1 = closedByCaller m \<and>
      invoke_Invoke env f h q (Some ch) True sp c (mm\<lparr>chans := replies m1\<rparr>) = RNormal mm1 c' \<and>
      closedReps mm1 = closedReps mm @ [r])"
  using assms
  by (simp add: invoke_Invoke_def put_opt_def put_result_def chan_send_def safeResult_def waitResult_def
      chan_recv_def chan_close_def List.map_filter_def)

theorem safe_reply_released_once_witness:
  "\<exists>m1 mm1. safeResult (Some ''deadline'') 0 demo_manager = Ret ((None, Some (ContextErr ''deadline'')), m1) \<and>
     invoke_Invoke demo_env (OriginFrom ''x'') \<lparr>reqType = ''t'', allow_spawn = True, allow_query = True, fn = 0\<rparr>
       (UserReq ''t'' 0) (Some 0) True True (newActorContext demo_env) ((demo_mach 0)\<lparr>chans := replies m1\<rparr>)
       = RNormal mm1 ((newActorContext demo_env)\<lparr>ctrl := Open (invokeLogger (OriginFrom ''x'') (ctrl (newActorContext demo_env)))\<rparr>) \<and>
     closedReps mm1 = [5]"
proof -
  have "run_fn demo_env (fn \<lparr>reqType = ''t'', allow_spawn = True, allow_query = True, fn = 0::nat\<rparr>) (world (demo_mach 0))
      ((newActorContext demo_env)\<lparr>ctrl := invokeLogger (OriginFrom ''x'') (ctrl (newActorContext demo_env))\<rparr>) (UserReq ''t'' 0) True
      = HReturn ((newActorContext demo_env)\<lparr>ctrl := Open (invokeLogger (OriginFrom ''x'') (ctrl (newActorContext demo_env)))\<rparr>) [0] (Some 5) None"
    by (simp add: demo_defs newActorContext_def)
  moreover have "replies demo_manager 0 = make_chan 1"
    by (simp add: demo_manager_def Serve_def ServeWith_def NewManager_def actorTypeOf_def demo_io_def)
  ultimately show ?thesis
    using safe_reply_released_once [where e = "''deadline''"] by (fastforce simp: demo_mach_def)
qed

text \<open>A missing handler is reported as a missing group. When the group exists but has no handler
  for the request, \<open>FPost\<close> (and likewise the sending half of every call) answers
  \<open>GroupNotFoundError\<close>, although \<open>findHandler\<close> itself says \<open>HandlerNotFoundError\<close>, which is what the
  same request gets through an \<open>ActorRef\<close>.\<close>

theorem missing_handler_masked:
  assumes "findGroup io i m = Some g" "registry g (reqTypeOf q) = None"
  shows "findHandler io i q m = Inl (HandlerNotFoundError i (reqTypeOf q)) \<and>
    FPost io ev f i q m = Ret (Some (GroupNotFoundError i), m) \<and>
    call_send io ev f i q clean m = Ret (Inl (GroupNotFoundError i), m)"
  using assms by (simp add: FPost_def call_send_def findHandler_def group_findHandler_def)

theorem missing_handler_masked_witness:
  "FPost demo_io id (OriginFrom ''x'') 3 (UserReq ''nope'' 8) demo_manager = Ret (Some (GroupNotFoundError 3), demo_manager)"
  using missing_handler_masked [of demo_io 3 demo_manager "snd (hd (groups demo_manager))" "UserReq ''nope'' 8" id "OriginFrom ''x''"]
  by (simp add: findGroup_def demo_manager_groups demo_io_def newGroup_def)

text \<open>\<open>CloseManager\<close> closes everything once. On a running manager whose groups are distinct, running
  and consistent it never panics; afterwards no group has an actor that accepts messages, no message of any kind is
  routed, and a second call changes nothing.\<close>

theorem CloseManager_stops_everything:
  assumes "mgr_wf m" "distinct (map fst (groups m))" "\<not> mstopping m" "\<forall>(t, g)\<in>set (groups m). \<not> stopping g"
  shows "\<exists>m'. CloseManager m = Some m' \<and> map fst (groups m') = map fst (groups m) \<and>
    (\<forall>(t, g)\<in>set (groups m'). stopping g \<and> (\<forall>i. \<not> live g i) \<and> (\<exists>r. group_inv r g)) \<and>
    (\<forall>ev f i q. FPost io ev f i q m' = Ret (Some (GroupNotFoundError i), m')) \<and> CloseManager m' = Some m'"
proof -
  have "\<forall>(t, g)\<in>set (groups m). \<exists>r. group_inv r g"
    using assms(1,2) by (auto simp: mgr_wf_def)
  from closeGroups_spec [OF this] assms(4) obtain gs' where
    gs': "closeGroups (groups m) = Some gs'" "map fst gs' = map fst (groups m)"
      "\<forall>(t, g)\<in>set gs'. stopping g \<and> (\<exists>r. group_inv r g)" "\<forall>(t, g)\<in>set gs'. \<forall>i. \<not> live g i" by auto
  let ?m' = "m\<lparr>mstopping := True, mcancelled := True, groups := gs'\<rparr>"
  have "CloseManager m = Some ?m'" using assms(3) gs'(1) by (simp add: CloseManager_def)
  moreover have "FPost io ev f i q ?m' = Ret (Some (GroupNotFoundError i), ?m')" for ev f i q
    by (simp add: FPost_def findHandler_def findGroup_def)
  moreover have "CloseManager ?m' = Some ?m'" by (simp add: CloseManager_def)
  moreover have "\<forall>(t, g)\<in>set gs'. stopping g \<and> (\<forall>i. \<not> live g i) \<and> (\<exists>r. group_inv r g)"
    using gs'(3,4) by auto
  ultimately show ?thesis using gs'(2) by (intro exI [of _ ?m']) simp
qed

theorem CloseManager_stops_everything_witness:
  "\<exists>m'. CloseManager demo_manager = Some m' \<and>
     FPost demo_io id (OriginFrom ''x'') 3 (UserReq ''t'' 8) m' = Ret (Some (GroupNotFoundError 3), m')"
proof -
  have "distinct (map fst (groups demo_manager))" "\<forall>(t, g)\<in>set (groups demo_manager). \<not> stopping g"
    by (simp_all add: demo_manager_groups newGroup_def)
  with CloseManager_stops_everything [OF demo_manager_wf _ demo_manager_groups(2), of demo_io] show ?thesis by blast
qed

text \<open>C13: A held reference is safe to use and keeps its actor. While an \<open>ActorRef\<close> to an actor has not been released,
  the actor's goroutine cannot quit for idleness, sending through the reference never panics, also after
  the actor was closed, and releasing it never panics; a second release does nothing.\<close>

theorem held_ref_is_safe:
  assumes "group_inv r g" "p < nextAddr g" "r p = Suc n" "map_of (groups m) t = Some g"
  shows "(\<exists>buf' g'. actorQuit p buf g = Some ((buf', False), g')) \<and>
    RefPost io t \<lparr>target = Some p\<rparr> q m \<noteq> GoPanic \<and>
    (closed (heap g p) \<longrightarrow> RefPost io t \<lparr>target = Some p\<rparr> q m = Ret (Some (ActorClosedError (aid (heap g p))), m)) \<and>
    (\<exists>g'. Release \<lparr>target = Some p\<rparr> g = Some (\<lparr>target = None\<rparr>, g') \<and> group_inv (r(p := n)) g' \<and>
       Release \<lparr>target = None\<rparr> g' = Some (\<lparr>target = None\<rparr>, g'))"
proof -
  from actorQuit_spec [OF assms(1,2), of buf] assms(3) have "\<exists>buf' g'. actorQuit p buf g = Some ((buf', False), g')"
    by (metis nat.distinct(1))
  moreover have "RefPost io t \<lparr>target = Some p\<rparr> q m \<noteq> GoPanic"
    using assms(3) by (auto simp: RefPost_def ref_send_def assms(4) send_at_held [OF assms(1,2)] split: sum.splits)
  moreover obtain g' where "unhold_at p g = Some g'" "group_inv (r(p := n)) g'"
    by (rule unhold_at_held [OF assms(1-3)])
  ultimately show ?thesis by (simp add: Release_def RefPost_def ref_send_def assms(4))
qed

theorem held_ref_is_safe_witness:
  "\<exists>g g'. Ref 3 (snd (spawnActor 3 (snd (hd (groups demo_manager))))) = (Some \<lparr>target = Some 0\<rparr>, g) \<and>
     Release \<lparr>target = Some 0\<rparr> g = Some (\<lparr>target = None\<rparr>, g')"
proof -
  define g where "g = snd (Ref 3 (snd (spawnActor 3 (snd (hd (groups demo_manager))))))"
  have R: "Ref 3 (snd (spawnActor 3 (snd (hd (groups demo_manager))))) = (Some \<lparr>target = Some 0\<rparr>, g)"
    "heap g 0 = (newActor 3 1)\<lparr>holder := 3\<rparr>" "nextAddr g = 1" "actors g = [(3, 0)]"
    by (simp_all add: g_def Ref_def holdActorForRef_def demo_manager_groups newGroup_def isStopping_def
        spawnActor_def actorIdle_def upd_def hold_def)
  have inv: "group_inv (\<lambda>_. Suc 1) g" by (simp add: group_inv_def R rt_ok_def)
  have "map_of (groups (demo_manager\<lparr>groups := [(''demo'', g)]\<rparr>)) ''demo'' = Some g" by simp
  from held_ref_is_safe [OF inv _ refl this, of 0 "[]" demo_io "UserReq ''t'' 8"] R(1,3) show ?thesis by auto
qed

subsection \<open>Multicast from inside an actor\<close>

definition fmulticast_op ::
  "'a id_ops \<Rightarrow> 'a \<Rightarrow> ('a, ('q, ('a, 'e) goerr) request, 'e, ('a, 'f, 'q, 'e, 'k, 'r, 'o, 'v) Manager) fmulticast" where
  "fmulticast_op io id0 w f ids q =
     (case FMulticast io id0 f ids q w of
        Ret (res, w') \<Rightarrow> (res, w')
      | _ \<Rightarrow> (Inl (RuntimeErr ''multicast did not return''), w))"

lemma fmulticast_op_accounts:
  fixes w :: "('a, 'f, 'q, 'e, 'k, 'r, 'o, 'v) Manager"
  assumes "mgr_wf w" "fmulticast_op io id0 w f ids q = (Inr l, w')"
  shows "mset (map ieId l) = mset ids \<and> (\<forall>x\<in>set l. is_queued (ieErr x) \<longrightarrow> is_ActorBusyError (ieErr x))"
proof (cases "ids = []")
  case True
  with assms(2) show ?thesis by (simp add: fmulticast_op_def FMulticast_def)
next
  case False
  with assms(2) obtain g h where fh: "findHandler io id0 q w = Inr (g, h)"
    by (auto simp: fmulticast_op_def FMulticast_def split: sum.splits)
  then have "map_of (groups w) (ActorType io id0) = Some g"
    by (auto simp: findHandler_def findGroup_def split: option.splits if_splits)
  with assms(1) obtain r where inv: "group_inv r g" by (auto simp: mgr_wf_def)
  have ns: "\<not> stopping g"
    using assms(2) False fh
    by (auto simp: fmulticast_op_def FMulticast_def handlerMulticast_def multicast_def isStopping_def)
  from multicast_spec [OF inv ns, of ids "Invoke f h q None False"] obtain l0 :: "('a, 'e) IdErr list" and g' where
    M: "multicast ids (Invoke f h q None False) g = Some (Inr l0, g')"
      "map ieId l0 = filter (live g) ids @ filter (\<lambda>i. \<not> live g i) ids"
      "\<forall>x\<in>set l0. if live g (ieId x) then ieErr x = None \<or> ieErr x = Some (ActorBusyError (ieId x))
               else ieErr x = Some (ActorNotFoundError (ieId x))" by blast
  have "l = l0" using assms(2) False fh M(1) by (simp add: fmulticast_op_def FMulticast_def handlerMulticast_def)
  moreover have "mset (map ieId l0) = mset ids" unfolding M(2) by simp
  moreover have "is_ActorBusyError (ieErr x)" if "x \<in> set l0" "is_queued (ieErr x)" for x
  proof -
    from M(3) that(1) have "ieErr x = None \<or> ieErr x = Some (ActorBusyError (ieId x)) \<or> ieErr x = Some (ActorNotFoundError (ieId x))"
      by (auto split: if_splits)
    with that(2) show ?thesis by (auto simp: is_queued_def)
  qed
  ultimately show ?thesis by blast
qed

text \<open>\<open>AMulticast\<close> accounts for every target. When it returns a list, the list has one entry per
  requested target, repetitions included, and exactly the targets reported as busy or postponed are
  appended to the postpone queue, in the order of the report: no target is dropped, reported twice or
  queued without being reported.\<close>

theorem AMulticast_accounts_for_targets:
  assumes "mgr_wf w" "AMulticast (fpost_op io) (fmulticast_op io id0) ids q a w = (Inr l, a', w')"
  shows "mset (map ieId l) = mset ids \<and>
    postpone a' = postpone (fst (poseponePost (fpost_op io) a w)) @
      map (\<lambda>x. \<lparr>pid = ieId x, preq = q\<rparr>) (filter (\<lambda>x. is_queued (ieErr x)) l)"
proof -
  obtain a1 w1 where p: "poseponePost (fpost_op io) a w = (a1, w1)" by fastforce
  have "mgr_wf w1" using fpost.poseponePost_wf_routable(1) [OF assms(1), of io a] p by simp
  from AMulticast_accounting [OF assms(2) p fmulticast_op_accounts [OF this]] p show ?thesis by simp
qed

theorem AMulticast_accounts_for_targets_witness:
  "\<exists>l a' w'. AMulticast (fpost_op demo_io) (fmulticast_op demo_io 0) [4, 5] (UserReq ''t'' 8) demo_control demo_manager
     = (Inr l, a', w') \<and> mset (map ieId l) = {#4, 5#}"
proof -
  have "\<exists>l a' w'. AMulticast (fpost_op demo_io) (fmulticast_op demo_io 0) [4, 5] (UserReq ''t'' 8) demo_control demo_manager
     = (Inr l, a', w')"
    by (simp add: AMulticast_def demo_control_def newActorControl_def poseponePost_def splitPostpone_def hasPostpone_def
        fmulticast_op_def FMulticast_def findHandler_def findGroup_def demo_manager_groups demo_io_def newGroup_def
        group_findHandler_def handlerMulticast_def multicast_def isStopping_def splitIdErr_def Let_def
        split: prod.split)
  then obtain l a' w' where r: "AMulticast (fpost_op demo_io) (fmulticast_op demo_io 0) [4, 5] (UserReq ''t'' 8) demo_control demo_manager
     = (Inr l, a', w')" by blast
  from AMulticast_accounts_for_targets [OF demo_manager_wf r] r show ?thesis by auto
qed

end
