(* ===== verification/Rpc.thy ===== *)
theory Rpc
  imports Rpc_Json Actor_Manager
begin

section \<open>Remote calls\<close>

text \<open>
  \<open>rpc/registry.go\<close>, \<open>rpc/entry.go\<close>, \<open>rpc/server.go\<close> and \<open>rpc/client.go\<close>. The actor operations a server
  entry calls are the fields of \<open>actor_api\<close>, over a state \<open>'w\<close>; \<open>mgr_api\<close> fills them with the manager of this
  development. The websocket is outside the sources: \<open>wr\<close> gives the error of \<open>WriteMessage\<close> on a frame, if
  any, and what is written is logged in \<open>conn\<close>. A registered request is its codec. Loggers and
  the upgrade of the connection are not modelled.
\<close>

fun bind_go :: "'x go \<Rightarrow> ('x \<Rightarrow> 'y go) \<Rightarrow> 'y go" where
  "bind_go (Ret x) f = f x"
| "bind_go GoPanic f = GoPanic"
| "bind_go GoBlocks f = GoBlocks"

record ('a, 'q, 'r, 'err, 'w) actor_api =
  apiPost :: "'a \<Rightarrow> 'q \<Rightarrow> 'w \<Rightarrow> ('err option \<times> 'w) go"
  apiCall :: "'a \<Rightarrow> 'q \<Rightarrow> 'w \<Rightarrow> (('err + 'r) \<times> 'w) go"
  apiBroadcast :: "'q \<Rightarrow> 'w \<Rightarrow> (('err + int) \<times> 'w) go"
  apiMulticast :: "'a list \<Rightarrow> 'q \<Rightarrow> 'w \<Rightarrow> (('err + int) \<times> 'w) go"
  errText :: "'err \<Rightarrow> string"

subsection \<open>Registry and entries\<close>

type_synonym ('a, 'q, 'r, 'm) entryMap = "string \<times> string \<rightharpoonup> ('a, 'q, 'r, 'm) Codec"

definition rpc_NewRegistryBuilder :: "('a, 'q, 'r, 'm) entryMap" where
  "rpc_NewRegistryBuilder = Map.empty"

definition RegisterRequest ::
  "string \<Rightarrow> string \<Rightarrow> ('a, 'q, 'r, 'm) Codec \<Rightarrow> ('a, 'q, 'r, 'm) entryMap \<Rightarrow> ('a, 'q, 'r, 'm) entryMap" where
  "RegisterRequest at rt C b = b((at, rt) \<mapsto> C)"

definition entry_post ::
  "('a, 'q, 'r, 'm) Codec \<Rightarrow> ('a, 'q, 'r, 'err, 'w) actor_api \<Rightarrow> 'm \<Rightarrow> 'm \<Rightarrow> 'w \<Rightarrow> (string option \<times> 'w) go" where
  "entry_post C api idM reqM w =
     (case decId C idM of
        Inl e \<Rightarrow> Ret (Some e, w)
      | Inr i \<Rightarrow>
          (case decReq C reqM of
             Inl e \<Rightarrow> Ret (Some e, w)
           | Inr q \<Rightarrow> bind_go (apiPost api i q w) (\<lambda>(err, w'). Ret (map_option (errText api) err, w'))))"

definition entry_call ::
  "('a, 'q, 'r, 'm) Codec \<Rightarrow> ('a, 'q, 'r, 'err, 'w) actor_api \<Rightarrow> 'm \<Rightarrow> 'm \<Rightarrow> 'w \<Rightarrow> ((string + 'm) \<times> 'w) go" where
  "entry_call C api idM reqM w =
     (case decId C idM of
        Inl e \<Rightarrow> Ret (Inl e, w)
      | Inr i \<Rightarrow>
          (case decReq C reqM of
             Inl e \<Rightarrow> Ret (Inl e, w)
           | Inr q \<Rightarrow> bind_go (apiCall api i q w) (\<lambda>(res, w').
               case res of
                 Inl e \<Rightarrow> Ret (Inl (errText api e), w')
               | Inr rep \<Rightarrow> Ret (encRep C rep, w'))))"

definition entry_broadcast ::
  "('a, 'q, 'r, 'm) Codec \<Rightarrow> ('a, 'q, 'r, 'err, 'w) actor_api \<Rightarrow> 'm \<Rightarrow> 'w \<Rightarrow> (string option \<times> 'w) go" where
  "entry_broadcast C api reqM w =
     (case decReq C reqM of
        Inl e \<Rightarrow> Ret (Some e, w)
      | Inr q \<Rightarrow> bind_go (apiBroadcast api q w) (\<lambda>(res, w').
          Ret (case res of Inl e \<Rightarrow> Some (errText api e) | Inr n \<Rightarrow> None, w')))"

fun decode_ids :: "('a, 'q, 'r, 'm) Codec \<Rightarrow> 'm list \<Rightarrow> string + 'a list" where
  "decode_ids C [] = Inr []"
| "decode_ids C (m # ms) =
     (case decId C m of
        Inl e \<Rightarrow> Inl e
      | Inr i \<Rightarrow> (case decode_ids C ms of Inl e \<Rightarrow> Inl e | Inr is \<Rightarrow> Inr (i # is)))"

definition entry_multicast ::
  "('a, 'q, 'r, 'm) Codec \<Rightarrow> ('a, 'q, 'r, 'err, 'w) actor_api \<Rightarrow> 'm list \<Rightarrow> 'm \<Rightarrow> 'w \<Rightarrow> (string option \<times> 'w) go" where
  "entry_multicast C api idsM reqM w =
     (case decode_ids C idsM of
        Inl e \<Rightarrow> Ret (Some e, w)
      | Inr ids \<Rightarrow>
          (case decReq C reqM of
             Inl e \<Rightarrow> Ret (Some e, w)
           | Inr q \<Rightarrow> bind_go (apiMulticast api ids q w) (\<lambda>(res, w').
               Ret (case res of Inl e \<Rightarrow> Some (errText api e) | Inr n \<Rightarrow> None, w'))))"

subsection \<open>Server\<close>

definition sendError :: "('d, 'm) Transport \<Rightarrow> 64 word \<Rightarrow> string \<Rightarrow> 'd list" where
  "sendError T s errMsg =
     (if s = 0 then []
      else [case EncodeRep T (s, zeroM T, errMsg) of Inl _ \<Rightarrow> zeroD T | Inr d \<Rightarrow> d])"

definition respond :: "('d, 'm) Transport \<Rightarrow> 64 word \<Rightarrow> 'm \<Rightarrow> string option \<Rightarrow> 'd list" where
  "respond T s repM err =
     (if s = 0 then []
      else case EncodeRep T (s, repM, case err of None \<Rightarrow> [] | Some e \<Rightarrow> e) of
             Inl e \<Rightarrow> sendError T s e
           | Inr d \<Rightarrow> [d])"

text \<open>One turn of the read loop: the frames written back and the new state of the actors.\<close>

definition server_step ::
  "('d, 'm) Transport \<Rightarrow> ('a, 'q, 'r, 'm) entryMap \<Rightarrow> ('a, 'q, 'r, 'err, 'w) actor_api \<Rightarrow> 'd \<Rightarrow> 'w \<Rightarrow> ('d list \<times> 'w) go" where
  "server_step T em api msgBytes w =
     (case DecodeReq T msgBytes of
        Inl _ \<Rightarrow> Ret ([], w)
      | Inr (s, meth, at, rt, idM, idsM, reqM) \<Rightarrow>
          (case em (at, rt) of
             None \<Rightarrow> Ret (sendError T s ''unknown reqType'', w)
           | Some C \<Rightarrow>
               if meth = ''post'' then
                 bind_go (entry_post C api idM reqM w) (\<lambda>(err, w'). Ret (respond T s (zeroM T) err, w'))
               else if meth = ''call'' then
                 bind_go (entry_call C api idM reqM w) (\<lambda>(res, w').
                   Ret (case res of Inl e \<Rightarrow> respond T s (zeroM T) (Some e) | Inr m \<Rightarrow> respond T s m None, w'))
               else if meth = ''broadcast'' then
                 bind_go (entry_broadcast C api reqM w) (\<lambda>(err, w'). Ret (respond T s (zeroM T) err, w'))
               else if meth = ''multicast'' then
                 bind_go (entry_multicast C api idsM reqM w) (\<lambda>(err, w'). Ret (respond T s (zeroM T) err, w'))
               else Ret (sendError T s ''unknown method'', w)))"

text \<open>The read loop over the frames received until the connection breaks.\<close>

fun handleRPC ::
  "('d, 'm) Transport \<Rightarrow> ('a, 'q, 'r, 'm) entryMap \<Rightarrow> ('a, 'q, 'r, 'err, 'w) actor_api \<Rightarrow> 'd list \<Rightarrow> 'w \<Rightarrow> ('d list \<times> 'w) go" where
  "handleRPC T em api [] w = Ret ([], w)"
| "handleRPC T em api (d # ds) w =
     bind_go (server_step T em api d w) (\<lambda>(out, w').
       bind_go (handleRPC T em api ds w') (\<lambda>(outs, w''). Ret (out @ outs, w'')))"

subsection \<open>Life of a server\<close>

text \<open>
  The listeners of the process are a list of addresses. \<open>lsn\<close> is \<open>net.Listen\<close>: an error, or the address that is really
  listened on. \<open>shttp\<close> is the \<open>http.Server\<close> the struct points to, by the address of its listener; \<open>http.Server.Shutdown\<close>
  closes that listener. The connections that are open are not modelled.
\<close>

record ('a, 'q, 'r, 'm) Server =
  saddr :: string
  sentries :: "('a, 'q, 'r, 'm) entryMap"
  shttp :: "string option"

definition NewServerWith :: "string \<Rightarrow> ('a, 'q, 'r, 'm) entryMap \<Rightarrow> ('a, 'q, 'r, 'm) Server" where
  "NewServerWith addr b = \<lparr>saddr = addr, sentries = b, shttp = None\<rparr>"

definition NewServer ::
  "string \<Rightarrow> (('a, 'q, 'r, 'm) entryMap \<Rightarrow> ('a, 'q, 'r, 'm) entryMap) \<Rightarrow> ('a, 'q, 'r, 'm) Server" where
  "NewServer addr reg = NewServerWith addr (reg rpc_NewRegistryBuilder)"

definition server_Start ::
  "(string \<Rightarrow> string list \<Rightarrow> string + string) \<Rightarrow> ('a, 'q, 'r, 'm) Server \<Rightarrow> string list
    \<Rightarrow> string option \<times> ('a, 'q, 'r, 'm) Server \<times> string list" where
  "server_Start lsn s ls =
     (case lsn (saddr s) ls of
        Inl e \<Rightarrow> (Some e, s, ls)
      | Inr a \<Rightarrow> (None, s\<lparr>saddr := a, shttp := Some a\<rparr>, ls @ [a]))"

definition server_Addr :: "('a, 'q, 'r, 'm) Server \<Rightarrow> string" where
  "server_Addr s = saddr s"

text \<open>\<open>Run\<close> up to the point where it serves; an error of \<open>ListenAndServe\<close> is returned with the struct changed already.\<close>

definition server_Run ::
  "(string \<Rightarrow> string list \<Rightarrow> string + string) \<Rightarrow> ('a, 'q, 'r, 'm) Server \<Rightarrow> string list
    \<Rightarrow> string option \<times> ('a, 'q, 'r, 'm) Server \<times> string list" where
  "server_Run lsn s ls =
     (case lsn (saddr s) ls of
        Inl e \<Rightarrow> (Some e, s\<lparr>shttp := Some (saddr s)\<rparr>, ls)
      | Inr a \<Rightarrow> (None, s\<lparr>shttp := Some a\<rparr>, ls @ [a]))"

definition server_Shutdown :: "('a, 'q, 'r, 'm) Server \<Rightarrow> string list \<Rightarrow> string list" where
  "server_Shutdown s ls = (case shttp s of None \<Rightarrow> ls | Some a \<Rightarrow> remove1 a ls)"

text \<open>A server that was started once frees its address when it is shut down; started twice it keeps the first one.\<close>

lemma server_Shutdown_frees:
  assumes "server_Start lsn s ls = (None, s', ls')" "\<And>a ls b. lsn a ls = Inr b \<Longrightarrow> b \<notin> set ls"
  shows "server_Shutdown s' ls' = ls"
  using assms by (auto simp: server_Start_def server_Shutdown_def remove1_append split: sum.splits)

lemma server_started_twice_leaks:
  assumes "server_Start lsn s ls = (None, s1, ls1)" "server_Start lsn s1 ls1 = (None, s2, ls2)"
    and "\<And>a ls b. lsn a ls = Inr b \<Longrightarrow> b \<notin> set ls"
  shows "server_Addr s1 \<in> set (server_Shutdown s2 ls2)"
proof -
  have eq: "ls1 = ls @ [saddr s1]" "ls2 = ls1 @ [saddr s2]" "shttp s2 = Some (saddr s2)" "lsn (saddr s1) ls1 = Inr (saddr s2)"
    using assms(1,2) by (auto simp: server_Start_def split: sum.splits)
  have "saddr s2 \<notin> set ls1" using assms(3) [OF eq(4)] by simp
  with eq show ?thesis by (simp add: server_Shutdown_def server_Addr_def remove1_append)
qed

text \<open>\<open>Start\<close> stores the address it listens on; \<open>Run\<close> leaves the one it was given, and \<open>Addr\<close> does not tell where the server listens.\<close>

lemma server_Addr_stale:
  assumes "lsn (saddr s) ls = Inr a"
  shows "server_Addr (fst (snd (server_Start lsn s ls))) = a" "server_Addr (fst (snd (server_Run lsn s ls))) = saddr s"
    "a \<in> set (snd (snd (server_Run lsn s ls)))"
  using assms by (simp_all add: server_Start_def server_Run_def server_Addr_def)

subsection \<open>Client\<close>

datatype rpcerr = CodecErr string | WriteErr string | ErrRpcCallFailed string | RpcContextErr string
  | ErrClientClosed

text \<open>\<open>cchans\<close> holds what is buffered in the reply channel of each call; \<open>conn\<close> is \<^const>\<open>None\<close> before \<open>Connect\<close>.\<close>

record ('d, 'm) Client =
  conn :: "'d list option"
  cclosed :: bool
  pendingCalls :: "(64 word \<times> nat) list"
  reqIDSeq :: "64 word"
  cdone :: bool
  cchans :: "nat \<Rightarrow> ('m \<times> string) list"
  nextChan :: nat

definition NewClient :: "('d, 'm) Client" where
  "NewClient = \<lparr>conn = None, cclosed = False, pendingCalls = [], reqIDSeq = 0, cdone = False,
     cchans = (\<lambda>_. []), nextChan = 0\<rparr>"

text \<open>\<open>Connect\<close> once dialling has succeeded.\<close>

definition Connect :: "('d, 'm) Client \<Rightarrow> ('d, 'm) Client" where
  "Connect c = c\<lparr>conn := Some []\<rparr>"

text \<open>A send on a reply channel of capacity 1: \<^const>\<open>None\<close> blocks.\<close>

definition put_reply :: "nat \<Rightarrow> 'm \<times> string \<Rightarrow> ('d, 'm) Client \<Rightarrow> ('d, 'm) Client option" where
  "put_reply ch x c = (if cchans c ch = [] then Some (c\<lparr>cchans := (cchans c)(ch := [x])\<rparr>) else None)"

fun fail_pending :: "'m \<Rightarrow> (64 word \<times> nat) list \<Rightarrow> ('d, 'm) Client \<Rightarrow> ('d, 'm) Client option" where
  "fail_pending z [] c = Some c"
| "fail_pending z ((s, ch) # ps) c =
     Option.bind (put_reply ch (z, ''connection closed'') c)
       (\<lambda>c'. fail_pending z ps (c'\<lparr>pendingCalls := AList.delete s (pendingCalls c')\<rparr>))"

definition client_Close :: "'m \<Rightarrow> ('d, 'm) Client \<Rightarrow> ('d, 'm) Client option" where
  "client_Close z c =
     (if cclosed c then Some c
      else fail_pending z (pendingCalls c) (c\<lparr>cclosed := True, cdone := True\<rparr>))"

text \<open>One turn of \<open>readResponses\<close> on a frame.\<close>

definition readResponse :: "('d, 'm) Transport \<Rightarrow> 'd \<Rightarrow> ('d, 'm) Client \<Rightarrow> ('d, 'm) Client option" where
  "readResponse T msgBytes c =
     (case DecodeRep T msgBytes of
        Inl _ \<Rightarrow> Some c
      | Inr (s, repM, rerr) \<Rightarrow>
          (case map_of (pendingCalls c) s of
             None \<Rightarrow> Some c
           | Some ch \<Rightarrow> put_reply ch (repM, rerr) (c\<lparr>pendingCalls := AList.delete s (pendingCalls c)\<rparr>)))"

definition newSeq :: "('d, 'm) Client \<Rightarrow> 64 word \<times> ('d, 'm) Client" where
  "newSeq c = (let s = reqIDSeq c + 1 in (s, c\<lparr>reqIDSeq := s\<rparr>))"

text \<open>\<open>WriteMessage\<close>; \<^const>\<open>None\<close> is the nil dereference of a client that never connected.\<close>

definition WriteMessage :: "('d \<Rightarrow> string option) \<Rightarrow> 'd \<Rightarrow> ('d, 'm) Client \<Rightarrow> (rpcerr option \<times> ('d, 'm) Client) option" where
  "WriteMessage wr d c =
     (case conn c of
        None \<Rightarrow> None
      | Some fs \<Rightarrow>
          (case wr d of
             Some e \<Rightarrow> Some (Some (WriteErr e), c)
           | None \<Rightarrow> Some (None, c\<lparr>conn := Some (fs @ [d])\<rparr>)))"

definition rpc_Post ::
  "('d, 'm) Transport \<Rightarrow> ('a, 'q, 'r, 'm) Codec \<Rightarrow> ('d \<Rightarrow> string option) \<Rightarrow> ('a \<Rightarrow> string) \<Rightarrow> ('q \<Rightarrow> string)
    \<Rightarrow> 'a \<Rightarrow> 'q \<Rightarrow> ('d, 'm) Client \<Rightarrow> (rpcerr option \<times> ('d, 'm) Client) option" where
  "rpc_Post T C wr at rt i q c =
     (case encId C i of
        Inl e \<Rightarrow> Some (Some (CodecErr e), c)
      | Inr idM \<Rightarrow>
          (case encReq C q of
             Inl e \<Rightarrow> Some (Some (CodecErr e), c)
           | Inr reqM \<Rightarrow>
               (case EncodeReq T (0, ''post'', at i, rt q, idM, [], reqM) of
                  Inl e \<Rightarrow> Some (Some (CodecErr e), c)
                | Inr d \<Rightarrow> WriteMessage wr d c)))"

text \<open>\<open>Call\<close> up to its \<open>select\<close>: the error, or the sequence number and the channel it waits on.\<close>

definition call_begin ::
  "('d, 'm) Transport \<Rightarrow> ('a, 'q, 'r, 'm) Codec \<Rightarrow> ('d \<Rightarrow> string option) \<Rightarrow> ('a \<Rightarrow> string) \<Rightarrow> ('q \<Rightarrow> string)
    \<Rightarrow> 'a \<Rightarrow> 'q \<Rightarrow> ('d, 'm) Client \<Rightarrow> ((rpcerr + 64 word \<times> nat) \<times> ('d, 'm) Client) option" where
  "call_begin T C wr at rt i q c =
     (case encId C i of
        Inl e \<Rightarrow> Some (Inl (CodecErr e), c)
      | Inr idM \<Rightarrow>
          (case encReq C q of
             Inl e \<Rightarrow> Some (Inl (CodecErr e), c)
           | Inr reqM \<Rightarrow>
               (let (s, c1) = newSeq c in
                case EncodeReq T (s, ''call'', at i, rt q, idM, [], reqM) of
                  Inl e \<Rightarrow> Some (Inl (CodecErr e), c1)
                | Inr d \<Rightarrow>
                    (let ch = nextChan c1;
                         c2 = c1\<lparr>cchans := (cchans c1)(ch := []), nextChan := Suc ch,
                                 pendingCalls := AList.update s ch (pendingCalls c1)\<rparr>
                     in case WriteMessage wr d c2 of
                          None \<Rightarrow> None
                        | Some (Some e, c3) \<Rightarrow>
                            Some (Inl e, c3\<lparr>pendingCalls := AList.delete s (pendingCalls c3)\<rparr>)
                        | Some (None, c3) \<Rightarrow> Some (Inr (s, ch), c3)))))"

datatype select_case = SelReply | SelCtx string | SelDone

text \<open>The \<open>select\<close> taking one of its cases, and the deferred removal; \<^const>\<open>None\<close>: the case is not ready.\<close>

definition call_end ::
  "('a, 'q, 'r, 'm) Codec \<Rightarrow> select_case \<Rightarrow> 64 word \<Rightarrow> nat \<Rightarrow> ('d, 'm) Client \<Rightarrow> ((rpcerr + 'r) \<times> ('d, 'm) Client) option" where
  "call_end C sel s ch c =
     map_option (\<lambda>(res, c'). (res, c'\<lparr>pendingCalls := AList.delete s (pendingCalls c')\<rparr>))
       (case sel of
          SelReply \<Rightarrow>
            (case cchans c ch of
               [] \<Rightarrow> None
             | (repM, rerr) # rest \<Rightarrow>
                 Some (if rerr \<noteq> [] then Inl (ErrRpcCallFailed rerr)
                       else (case decRep C repM of Inl e \<Rightarrow> Inl (CodecErr e) | Inr rep \<Rightarrow> Inr rep),
                       c\<lparr>cchans := (cchans c)(ch := rest)\<rparr>))
        | SelCtx e \<Rightarrow> Some (Inl (RpcContextErr e), c)
        | SelDone \<Rightarrow> (if cdone c then Some (Inl ErrClientClosed, c) else None))"

definition rpc_Broadcast ::
  "('d, 'm) Transport \<Rightarrow> ('a, 'q, 'r, 'm) Codec \<Rightarrow> ('d \<Rightarrow> string option) \<Rightarrow> ('a \<Rightarrow> string) \<Rightarrow> ('q \<Rightarrow> string)
    \<Rightarrow> 'a \<Rightarrow> 'q \<Rightarrow> ('d, 'm) Client \<Rightarrow> (rpcerr option \<times> ('d, 'm) Client) option" where
  "rpc_Broadcast T C wr at rt id0 q c =
     (case encReq C q of
        Inl e \<Rightarrow> Some (Some (CodecErr e), c)
      | Inr reqM \<Rightarrow>
          (case EncodeReq T (0, ''broadcast'', at id0, rt q, zeroM T, [], reqM) of
             Inl e \<Rightarrow> Some (Some (CodecErr e), c)
           | Inr d \<Rightarrow> WriteMessage wr d c))"

fun encode_ids :: "('a, 'q, 'r, 'm) Codec \<Rightarrow> 'a list \<Rightarrow> string + 'm list" where
  "encode_ids C [] = Inr []"
| "encode_ids C (i # is) =
     (case encId C i of
        Inl e \<Rightarrow> Inl e
      | Inr m \<Rightarrow> (case encode_ids C is of Inl e \<Rightarrow> Inl e | Inr ms \<Rightarrow> Inr (m # ms)))"

definition rpc_Multicast ::
  "('d, 'm) Transport \<Rightarrow> ('a, 'q, 'r, 'm) Codec \<Rightarrow> ('d \<Rightarrow> string option) \<Rightarrow> ('a \<Rightarrow> string) \<Rightarrow> ('q \<Rightarrow> string)
    \<Rightarrow> 'a list \<Rightarrow> 'q \<Rightarrow> ('d, 'm) Client \<Rightarrow> (rpcerr option \<times> ('d, 'm) Client) option" where
  "rpc_Multicast T C wr at rt targets q c =
     (case targets of
        [] \<Rightarrow> Some (None, c)
      | id0 # _ \<Rightarrow>
          (case encode_ids C targets of
             Inl e \<Rightarrow> Some (Some (CodecErr e), c)
           | Inr idsM \<Rightarrow>
               (case encReq C q of
                  Inl e \<Rightarrow> Some (Some (CodecErr e), c)
                | Inr reqM \<Rightarrow>
                    (case EncodeReq T (0, ''multicast'', at id0, rt q, zeroM T, idsM, reqM) of
                       Inl e \<Rightarrow> Some (Some (CodecErr e), c)
                     | Inr d \<Rightarrow> WriteMessage wr d c))))"

subsection \<open>The actor operations of a server\<close>

definition mgr_api ::
  "'a id_ops \<Rightarrow> ('e \<Rightarrow> string) \<Rightarrow> ('a, 'f, 'q, 'e, 'k, 'o) groupEv
    \<Rightarrow> (nat \<Rightarrow> ('a, 'f, 'q, 'e, 'k, 'r, 'o, 'v) Manager \<Rightarrow> string option \<times> ('a, 'f, 'q, 'e, 'k, 'r, 'o, 'v) Manager)
    \<Rightarrow> 'a \<Rightarrow> ('a, ('q, ('a, 'e) goerr) request, 'r option, ('a, 'e) goerr, ('a, 'f, 'q, 'e, 'k, 'r, 'o, 'v) Manager) actor_api" where
  "mgr_api io ue ev await id0 =
     \<lparr>apiPost = (\<lambda>i q m. Post io ev i q m),
      apiCall = (\<lambda>i q m. bind_go (Call io ev await i q m) (\<lambda>((rep, err), m').
        Ret (case err of Some e \<Rightarrow> Inl e | None \<Rightarrow> Inr rep, m'))),
      apiBroadcast = (\<lambda>q m. Broadcast io id0 q m),
      apiMulticast = (\<lambda>ids q m. bind_go (Multicast io id0 ids q m) (\<lambda>(res, m').
        Ret (case res of Inl e \<Rightarrow> Inl e | Inr l \<Rightarrow> Inr (CountNoErr l), m'))),
      errText = Error_String io ue\<rparr>"

subsection \<open>Location transparency\<close>

text \<open>What the rpc layer relies on in a codec: an identity, a request and a reply survive the round trip.\<close>

definition codec_ok :: "('m \<Rightarrow> bool) \<Rightarrow> ('a, 'q, 'r, 'm) Codec \<Rightarrow> 'a \<Rightarrow> 'q \<Rightarrow> bool" where
  "codec_ok ok C i q \<longleftrightarrow>
     (case encId C i of Inr m \<Rightarrow> ok m \<and> decId C m = Inr i | Inl _ \<Rightarrow> False) \<and>
     (case encReq C q of Inr m \<Rightarrow> ok m \<and> decReq C m = Inr q | Inl _ \<Rightarrow> False)"

definition rep_ok :: "('m \<Rightarrow> bool) \<Rightarrow> ('a, 'q, 'r, 'm) Codec \<Rightarrow> 'r \<Rightarrow> bool" where
  "rep_ok ok C r \<longleftrightarrow> (case encRep C r of Inr m \<Rightarrow> ok m \<and> decRep C m = Inr r | Inl _ \<Rightarrow> False)"

lemma codec_okE:
  assumes "codec_ok ok C i q"
  obtains idM reqM where "encId C i = Inr idM" "ok idM" "decId C idM = Inr i"
    "encReq C q = Inr reqM" "ok reqM" "decReq C reqM = Inr q"
  using assms unfolding codec_ok_def by (auto split: sum.splits)

context wire
begin

lemma post_frame:
  assumes "codec_ok sendable C i q" "em (at i, rt q) = Some C" "conn c = Some fs"
  shows "\<exists>d. rpc_Post T C (\<lambda>_. None) at rt i q c = Some (None, c\<lparr>conn := Some (fs @ [d])\<rparr>) \<and>
    server_step T em api d w = bind_go (apiPost api i q w) (\<lambda>(_, w'). Ret ([], w'))"
proof -
  obtain idM reqM where m: "encId C i = Inr idM" "sendable idM" "decId C idM = Inr i"
    "encReq C q = Inr reqM" "sendable reqM" "decReq C reqM = Inr q" using assms(1) by (rule codec_okE)
  obtain d where d: "EncodeReq T (0, ''post'', at i, rt q, idM, [], reqM) = Inr d"
    "DecodeReq T d = Inr (0, ''post'', at i, rt q, idM, [], reqM)"
    using req_roundtrip [of idM "[]" reqM 0 "''post''" "at i" "rt q"] m by auto
  have "server_step T em api d w = bind_go (apiPost api i q w) (\<lambda>(_, w'). Ret ([], w'))"
    by (cases "apiPost api i q w") (auto simp: server_step_def d assms(2) entry_post_def m respond_def)
  with d m assms(3) show ?thesis by (auto simp: rpc_Post_def WriteMessage_def)
qed

lemma broadcast_frame:
  assumes "encReq C q = Inr reqM" "sendable reqM" "decReq C reqM = Inr q" "em (at id0, rt q) = Some C" "conn c = Some fs"
  shows "\<exists>d. rpc_Broadcast T C (\<lambda>_. None) at rt id0 q c = Some (None, c\<lparr>conn := Some (fs @ [d])\<rparr>) \<and>
    server_step T em api d w = bind_go (apiBroadcast api q w) (\<lambda>(_, w'). Ret ([], w'))"
proof -
  obtain d where d: "EncodeReq T (0, ''broadcast'', at id0, rt q, zeroM T, [], reqM) = Inr d"
    "DecodeReq T d = Inr (0, ''broadcast'', at id0, rt q, zeroM T, [], reqM)"
    using req_roundtrip [of "zeroM T" "[]" reqM 0 "''broadcast''" "at id0" "rt q"] assms by auto
  have "server_step T em api d w = bind_go (apiBroadcast api q w) (\<lambda>(_, w'). Ret ([], w'))"
    by (cases "apiBroadcast api q w") (auto simp: server_step_def d assms entry_broadcast_def respond_def)
  with d assms show ?thesis by (auto simp: rpc_Broadcast_def WriteMessage_def)
qed

lemma server_call:
  assumes "EncodeReq T (s, ''call'', a, b, idM, [], reqM) = Inr d"
    "DecodeReq T d = Inr (s, ''call'', a, b, idM, [], reqM)"
    "decId C idM = Inr i" "decReq C reqM = Inr q" "em (a, b) = Some C" "s \<noteq> 0"
    "apiCall api i q w = Ret (res, w')" "\<And>r. res = Inr r \<Longrightarrow> rep_ok sendable C r"
  shows "\<exists>d' repM. server_step T em api d w = Ret ([d'], w') \<and>
    DecodeRep T d' = Inr (s, repM, case res of Inl e \<Rightarrow> errText api e | Inr r \<Rightarrow> []) \<and>
    (\<forall>r. res = Inr r \<longrightarrow> decRep C repM = Inr r)"
proof (cases res)
  case (Inl e)
  obtain d' where "EncodeRep T (s, zeroM T, errText api e) = Inr d'" "DecodeRep T d' = Inr (s, zeroM T, errText api e)"
    using rep_roundtrip [of "zeroM T" s "errText api e"] by auto
  with assms Inl show ?thesis by (auto simp: server_step_def entry_call_def respond_def)
next
  case (Inr r)
  then obtain repM where r: "encRep C r = Inr repM" "sendable repM" "decRep C repM = Inr r"
    using assms(8) by (auto simp: rep_ok_def split: sum.splits)
  obtain d' where "EncodeRep T (s, repM, []) = Inr d'" "DecodeRep T d' = Inr (s, repM, [])"
    using rep_roundtrip [of repM s "[]"] r by auto
  with assms Inr r show ?thesis by (auto simp: server_step_def entry_call_def respond_def)
qed

lemma call_frame:
  assumes "codec_ok sendable C i q" "conn c = Some fs"
  shows "\<exists>d c1 idM reqM. call_begin T C (\<lambda>_. None) at rt i q c = Some (Inr (reqIDSeq c + 1, nextChan c), c1) \<and>
    conn c1 = Some (fs @ [d]) \<and> cchans c1 (nextChan c) = [] \<and> map_of (pendingCalls c1) (reqIDSeq c + 1) = Some (nextChan c) \<and>
    EncodeReq T (reqIDSeq c + 1, ''call'', at i, rt q, idM, [], reqM) = Inr d \<and>
    DecodeReq T d = Inr (reqIDSeq c + 1, ''call'', at i, rt q, idM, [], reqM) \<and>
    decId C idM = Inr i \<and> decReq C reqM = Inr q"
proof -
  obtain idM reqM where m: "encId C i = Inr idM" "sendable idM" "decId C idM = Inr i"
    "encReq C q = Inr reqM" "sendable reqM" "decReq C reqM = Inr q" using assms(1) by (rule codec_okE)
  obtain d where d: "EncodeReq T (reqIDSeq c + 1, ''call'', at i, rt q, idM, [], reqM) = Inr d"
    "DecodeReq T d = Inr (reqIDSeq c + 1, ''call'', at i, rt q, idM, [], reqM)"
    using req_roundtrip [of idM "[]" reqM "reqIDSeq c + 1" "''call''" "at i" "rt q"] m by auto
  with m assms(2) show ?thesis
    by (auto simp: call_begin_def newSeq_def Let_def WriteMessage_def update_conv)
qed

end

text \<open>A call from its start on the client to its return.\<close>

lemma remote_call:
  assumes "wire T ok" "codec_ok ok C i q" "em (at i, rt q) = Some C" "conn c = Some fs" "reqIDSeq c + 1 \<noteq> 0"
    "apiCall api i q w = Ret (res, w')" "case res of Inl e \<Rightarrow> errText api e \<noteq> [] | Inr r \<Rightarrow> rep_ok ok C r"
  shows "\<exists>s ch d c1 d' c2 c3. call_begin T C (\<lambda>_. None) at rt i q c = Some (Inr (s, ch), c1) \<and>
    conn c1 = Some (fs @ [d]) \<and> server_step T em api d w = Ret ([d'], w') \<and> readResponse T d' c1 = Some c2 \<and>
    call_end C SelReply s ch c2 =
      Some (case res of Inl e \<Rightarrow> Inl (ErrRpcCallFailed (errText api e)) | Inr r \<Rightarrow> Inr r, c3)"
proof -
  let ?s = "reqIDSeq c + 1" and ?ch = "nextChan c"
  obtain d c1 idM reqM where b: "call_begin T C (\<lambda>_. None) at rt i q c = Some (Inr (?s, ?ch), c1)"
    "conn c1 = Some (fs @ [d])" "cchans c1 ?ch = []" "map_of (pendingCalls c1) ?s = Some ?ch"
    "EncodeReq T (?s, ''call'', at i, rt q, idM, [], reqM) = Inr d"
    "DecodeReq T d = Inr (?s, ''call'', at i, rt q, idM, [], reqM)" "decId C idM = Inr i" "decReq C reqM = Inr q"
    using wire.call_frame [OF assms(1,2,4), of at rt] by blast
  obtain d' repM where r: "server_step T em api d w = Ret ([d'], w')"
    "DecodeRep T d' = Inr (?s, repM, case res of Inl e \<Rightarrow> errText api e | Inr r \<Rightarrow> [])"
    "\<forall>r. res = Inr r \<longrightarrow> decRep C repM = Inr r"
    using wire.server_call [OF assms(1) b(5-8), where em = em and api = api and w = w, OF assms(3,5,6)] assms(7) by (auto split: sum.splits)
  define c2 where "c2 = c1\<lparr>pendingCalls := AList.delete ?s (pendingCalls c1),
    cchans := (cchans c1)(?ch := [(repM, case res of Inl e \<Rightarrow> errText api e | Inr r \<Rightarrow> [])])\<rparr>"
  have "readResponse T d' c1 = Some c2"
    using r(2) b(3,4) by (simp add: readResponse_def put_reply_def c2_def)
  moreover have "\<exists>c3. call_end C SelReply ?s ?ch c2 =
      Some (case res of Inl e \<Rightarrow> Inl (ErrRpcCallFailed (errText api e)) | Inr r \<Rightarrow> Inr r, c3)"
    using assms(7) r(3) by (auto simp: call_end_def c2_def split: sum.splits)
  ultimately show ?thesis using b(1,2) r(1) by blast
qed

text \<open>C19: A remote call returns what the local call would. Over a transport and a codec that round-trip, a call on a connected
  client writes one frame; the server that receives it performs exactly \<open>actor.Call\<close> on its manager and
  answers with one frame; when the client has read that frame, the call returns the reply of the local
  call, or \<open>ErrRpcCallFailed\<close> with the text of its error. So the type of a remote error is lost, and a
  \<open>grain.ErrLeaseTaken\<close> of a remote node cannot be recognised.\<close>

theorem remote_call_is_local:
  assumes "wire T ok" "codec_ok ok C i q" "em (at i, rt q) = Some C" "conn c = Some fs" "reqIDSeq c + 1 \<noteq> 0"
    "apiCall api i q w = Ret (res, w')" "case res of Inl e \<Rightarrow> errText api e \<noteq> [] | Inr r \<Rightarrow> rep_ok ok C r"
  shows "\<exists>s ch d c1 d' c2 c3. call_begin T C (\<lambda>_. None) at rt i q c = Some (Inr (s, ch), c1) \<and>
    conn c1 = Some (fs @ [d]) \<and> server_step T em api d w = Ret ([d'], w') \<and> readResponse T d' c1 = Some c2 \<and>
    call_end C SelReply s ch c2 =
      Some (case res of Inl e \<Rightarrow> Inl (ErrRpcCallFailed (errText api e)) | Inr r \<Rightarrow> Inr r, c3)"
  using assms by (rule remote_call)

definition demo_codec :: "(nat, (nat, (nat, unit) goerr) request, nat option, RawMessage) Codec" where
  "demo_codec =
     \<lparr>encId = (\<lambda>i. Inr (Some (JNum (int i)))),
      decId = (\<lambda>m. case m of Some (JNum n) \<Rightarrow> Inr (nat n) | _ \<Rightarrow> Inl ''bad id''),
      encReq = (\<lambda>q. case q of UserReq t n \<Rightarrow> Inr (Some (JArr [JStr t, JNum (int n)])) | PanicReq _ \<Rightarrow> Inl ''bad request''),
      decReq = (\<lambda>m. case m of Some (JArr [JStr t, JNum n]) \<Rightarrow> Inr (UserReq t (nat n)) | _ \<Rightarrow> Inl ''bad request''),
      encRep = (\<lambda>r. Inr (Some (case r of None \<Rightarrow> JNull | Some n \<Rightarrow> JNum (int n)))),
      decRep = (\<lambda>m. case m of Some (JNum n) \<Rightarrow> Inr (Some (nat n)) | Some JNull \<Rightarrow> Inr None | _ \<Rightarrow> Inl ''bad reply'')\<rparr>"

definition demo_api :: "(nat, (nat, (nat, unit) goerr) request, nat option, (nat, unit) goerr, demo_mgr) actor_api" where
  "demo_api = mgr_api demo_io (\<lambda>_. ''user error'') (\<lambda>g. g) (\<lambda>_ m. (None, m)) 0"

lemma demo_remote:
  "apiCall demo_api 7 (UserReq ''Get'' 1) NewManager =
     Ret (Inl (GroupNotFoundError 7), NewManager\<lparr>mseq := 1\<rparr>)"
  by (simp add: demo_api_def mgr_api_def Call_def FCall_def call_send_def newFrom_def findHandler_def findGroup_def
      NewManager_def wrap32_def)

theorem remote_call_is_local_witness:
  "\<exists>s ch d c1 d' c2 c3.
    call_begin JsonTransport demo_codec (\<lambda>_. None) (\<lambda>_. ''T'') reqTypeOf 7 (UserReq ''Get'' 1) (Connect NewClient) =
      Some (Inr (s, ch), c1) \<and> conn c1 = Some ([] @ [d]) \<and>
    server_step JsonTransport [(''T'', ''Get'') \<mapsto> demo_codec] demo_api d NewManager = Ret ([d'], NewManager\<lparr>mseq := 1\<rparr>) \<and>
    readResponse JsonTransport d' c1 = Some c2 \<and>
    call_end demo_codec SelReply s ch c2 =
      Some (Inl (ErrRpcCallFailed (errText demo_api (GroupNotFoundError 7))), c3)"
  using remote_call_is_local [OF json_wire.wire_axioms _ _ _ _ demo_remote, of demo_codec
      "[(''T'', ''Get'') \<mapsto> demo_codec]" "\<lambda>_. ''T''" reqTypeOf "Connect NewClient" "[]"]
  by (simp add: codec_ok_def demo_codec_def Connect_def NewClient_def demo_api_def mgr_api_def)

subsection \<open>Interleavings of calls on one client\<close>

text \<open>
  The goroutines of one client: any number of calls, posts, the reader and \<open>Close\<close>. \<open>creach T Cs z n c act\<close>: state \<open>c\<close> is
  reachable after \<open>n\<close> sequence numbers were drawn, with the calls \<open>act\<close> (channel, sequence number) in
  their \<open>select\<close>; \<open>Cs\<close> are the codecs of the registered requests. Fewer than \<open>2^64\<close> numbers are drawn.
\<close>

inductive creach :: "('d, 'm) Transport \<Rightarrow> ('a, 'q, 'r, 'm) Codec set \<Rightarrow> 'm \<Rightarrow> nat \<Rightarrow> ('d, 'm) Client \<Rightarrow> (nat \<times> 64 word) list \<Rightarrow> bool"
  for T Cs z where
  creach_init: "creach T Cs z 0 (Connect NewClient) []"
| creach_call: "creach T Cs z n c act \<Longrightarrow> Suc n < 2 ^ 64 \<Longrightarrow>
    C \<in> Cs \<Longrightarrow> call_begin T C wr at rt i q c = Some (Inr (s, ch), c') \<Longrightarrow> creach T Cs z (Suc n) c' ((ch, s) # act)"
| creach_refused: "creach T Cs z n c act \<Longrightarrow> Suc n < 2 ^ 64 \<Longrightarrow>
    C \<in> Cs \<Longrightarrow> call_begin T C wr at rt i q c = Some (Inl e, c') \<Longrightarrow> creach T Cs z (unat (reqIDSeq c')) c' act"
| creach_post: "creach T Cs z n c act \<Longrightarrow> WriteMessage wr d c = Some (e, c') \<Longrightarrow> creach T Cs z n c' act"
| creach_read: "creach T Cs z n c act \<Longrightarrow> readResponse T d c = Some c' \<Longrightarrow> creach T Cs z n c' act"
| creach_close: "creach T Cs z n c act \<Longrightarrow> client_Close z c = Some c' \<Longrightarrow> creach T Cs z n c' act"
| creach_return: "creach T Cs z n c act \<Longrightarrow> (ch, s) \<in> set act \<Longrightarrow> C \<in> Cs \<Longrightarrow> call_end C sel s ch c = Some (res, c') \<Longrightarrow>
    creach T Cs z n c' (remove1 (ch, s) act)"

definition client_inv :: "nat \<Rightarrow> ('d, 'm) Client \<Rightarrow> (nat \<times> 64 word) list \<Rightarrow> bool" where
  "client_inv n c act \<longleftrightarrow> n < 2 ^ 64 \<and> unat (reqIDSeq c) = n \<and>
     distinct (map fst act) \<and> distinct (map snd act) \<and>
     (\<forall>(ch, s)\<in>set act. ch < nextChan c \<and> 0 < unat s \<and> unat s \<le> n) \<and>
     distinct (map fst (pendingCalls c)) \<and>
     (\<forall>(s, ch)\<in>set (pendingCalls c). (ch, s) \<in> set act \<and> cchans c ch = [])"

lemma update_fresh: "k \<notin> fst ` set al \<Longrightarrow> AList.update k v al = al @ [(k, v)]"
  by (induction al) auto

lemma distinct_map_remove1: "distinct (map f xs) \<Longrightarrow> distinct (map f (remove1 x xs))"
proof (induction xs)
  case (Cons y ys)
  have "set (remove1 x ys) \<subseteq> set ys" by (rule set_remove1_subset)
  with Cons show ?case by auto
qed simp

lemma unat_Suc64: "Suc (unat (w :: 64 word)) < 2 ^ 64 \<Longrightarrow> unat (w + 1) = Suc (unat w)"
  using unat_add_lem [of w 1] by simp

lemma client_inv_init: "client_inv 0 (Connect NewClient) []"
  by (simp add: client_inv_def Connect_def NewClient_def)

lemma client_inv_call:
  assumes "client_inv n c act" "Suc n < 2 ^ 64" "call_begin T C wr at rt i q c = Some (Inr (s, ch), c')"
  shows "client_inv (Suc n) c' ((ch, s) # act)"
proof -
  let ?s = "reqIDSeq c + 1" and ?ch = "nextChan c"
  have eqs: "s = ?s" "ch = ?ch" "cchans c' = (cchans c)(?ch := [])" "nextChan c' = Suc ?ch"
    "pendingCalls c' = AList.update ?s ?ch (pendingCalls c)" "reqIDSeq c' = ?s"
    using assms(3)
    by (auto simp: call_begin_def newSeq_def Let_def WriteMessage_def split: sum.splits option.splits)
  have u: "unat ?s = Suc n" using assms(1,2) unat_Suc64 [of "reqIDSeq c"] by (simp add: client_inv_def)
  have act: "a < ?ch" "unat b \<le> n" if "(a, b) \<in> set act" for a b
    using assms(1) that unfolding client_inv_def by (auto simp: Ball_def)
  have pend: "(b, a) \<in> set act" if "(a, b) \<in> set (pendingCalls c)" for a b
    using assms(1) that unfolding client_inv_def by blast
  have fresh: "?s \<notin> snd ` set act" "?ch \<notin> fst ` set act" using act u by force+
  then have "?s \<notin> fst ` set (pendingCalls c)" using pend by force
  then have up: "pendingCalls c' = pendingCalls c @ [(?s, ?ch)]"
    by (simp add: eqs update_fresh)
  show ?thesis
    using assms(1,2) u fresh \<open>?s \<notin> fst ` set (pendingCalls c)\<close>
    unfolding client_inv_def up eqs by (auto simp: image_iff)
qed

lemma client_inv_mono:
  assumes inv: "client_inv n c act"
    and "n \<le> n'" "n' < 2 ^ 64" "unat (reqIDSeq c') = n'" "nextChan c \<le> nextChan c'"
    and "distinct (map fst act')" "distinct (map snd act')" "set act' \<subseteq> set act"
    and "distinct (map fst (pendingCalls c'))"
    and pend: "\<And>s ch. (s, ch) \<in> set (pendingCalls c') \<Longrightarrow>
      (s, ch) \<in> set (pendingCalls c) \<and> (ch, s) \<in> set act' \<and> cchans c' ch = cchans c ch"
  shows "client_inv n' c' act'"
proof -
  have "a < nextChan c' \<and> 0 < unat b \<and> unat b \<le> n'" if "(a, b) \<in> set act'" for a b
  proof -
    have "(a, b) \<in> set act" using that assms(8) by blast
    then have "a < nextChan c \<and> 0 < unat b \<and> unat b \<le> n" using inv by (auto simp: client_inv_def)
    with assms(2,5) show ?thesis by linarith
  qed
  moreover have "cchans c' ch = []" if "(s, ch) \<in> set (pendingCalls c')" for s ch
    using pend [OF that] inv by (auto simp: client_inv_def)
  ultimately show ?thesis using assms(3-9) pend by (auto simp: client_inv_def)
qed

lemma client_inv_pending:
  assumes "client_inv n c act" "(s, ch) \<in> set (pendingCalls c)"
  shows "(ch, s) \<in> set act" "cchans c ch = []"
  using assms by (auto simp: client_inv_def)

lemma client_inv_delete:
  assumes inv: "client_inv n c act" and s: "(ch, s) \<in> set act"
    and c': "reqIDSeq c' = reqIDSeq c" "nextChan c' = nextChan c"
      "pendingCalls c' = AList.delete s (pendingCalls c)" "\<And>x. x \<noteq> ch \<Longrightarrow> cchans c' x = cchans c x"
    and act': "act' = act \<or> act' = remove1 (ch, s) act"
  shows "client_inv n c' act'"
proof (rule client_inv_mono [OF inv])
  show "n \<le> n" "nextChan c \<le> nextChan c'" unfolding c'(2) by (rule order_refl)+
  show "n < 2 ^ 64" "unat (reqIDSeq c') = n" using inv by (simp_all add: client_inv_def c'(1))
  show "set act' \<subseteq> set act" using act' set_remove1_subset [of "(ch, s)" act] by auto
  show "distinct (map fst act')" "distinct (map snd act')"
    using inv act' by (auto simp: client_inv_def distinct_map_remove1)
  show "distinct (map fst (pendingCalls c'))" using inv c' by (simp add: client_inv_def distinct_delete)
  fix s' ch' assume p: "(s', ch') \<in> set (pendingCalls c')"
  then have p': "(s', ch') \<in> set (pendingCalls c)" "s' \<noteq> s"
    unfolding c'(3) AList.delete_eq by auto
  then have a: "(ch', s') \<in> set act" using client_inv_pending [OF inv] by blast
  have "ch' \<noteq> ch"
  proof
    assume "ch' = ch"
    moreover have "distinct (map fst act)" using inv by (simp add: client_inv_def)
    ultimately have "s' = s" using a s eq_key_imp_eq_value by metis
    with p' show False by simp
  qed
  with p' a c'(4) act' show "(s', ch') \<in> set (pendingCalls c) \<and> (ch', s') \<in> set act' \<and> cchans c' ch' = cchans c ch'"
    by (auto simp: in_set_remove1)
qed

lemma client_inv_refused:
  assumes "client_inv n c act" "Suc n < 2 ^ 64" "call_begin T C wr at rt i q c = Some (Inl e, c')"
  shows "client_inv (unat (reqIDSeq c')) c' act"
proof -
  let ?s = "reqIDSeq c + 1"
  have u: "unat (reqIDSeq c) = n" "unat ?s = Suc n"
    using assms(1,2) unat_Suc64 [of "reqIDSeq c"] by (simp_all add: client_inv_def)
  have fresh: "?s \<notin> fst ` set (pendingCalls c)"
  proof
    assume "?s \<in> fst ` set (pendingCalls c)"
    then obtain ch where "(?s, ch) \<in> set (pendingCalls c)" by force
    then have "unat ?s \<le> n" using assms(1) client_inv_pending(1) [OF assms(1)] by (fastforce simp: client_inv_def)
    with u show False by simp
  qed
  have c': "reqIDSeq c' = reqIDSeq c \<or> reqIDSeq c' = ?s" "nextChan c \<le> nextChan c'"
    "pendingCalls c' = pendingCalls c" "\<And>x. x < nextChan c \<Longrightarrow> cchans c' x = cchans c x"
    using assms(3) fresh
    by (auto simp: call_begin_def newSeq_def Let_def WriteMessage_def delete_update_same split: sum.splits option.splits)
  have "\<And>s ch. (s, ch) \<in> set (pendingCalls c) \<Longrightarrow> ch < nextChan c"
    using assms(1) client_inv_pending(1) [OF assms(1)] by (fastforce simp: client_inv_def)
  then show ?thesis
    using assms(1) c' u assms(2) client_inv_pending(1) [OF assms(1)]
    by (intro client_inv_mono [OF assms(1)]) (auto simp: client_inv_def)
qed

lemma client_inv_write: "client_inv n c act \<Longrightarrow> WriteMessage wr d c = Some (e, c') \<Longrightarrow> client_inv n c' act"
  by (auto simp: WriteMessage_def client_inv_def split: option.splits)

lemma readResponse_cases:
  assumes inv: "client_inv n c act"
  shows "\<exists>c'. readResponse T d c = Some c' \<and> client_inv n c' act \<and>
    (\<forall>s repM rerr. DecodeRep T d = Inr (s, repM, rerr) \<longrightarrow>
      (\<forall>ch. cchans c' ch = (if (s, ch) \<in> set (pendingCalls c) then [(repM, rerr)] else cchans c ch)))"
proof (cases "DecodeRep T d")
  case (Inl e)
  with inv show ?thesis by (simp add: readResponse_def)
next
  case (Inr x)
  obtain s repM rerr where x: "x = (s, repM, rerr)" by (cases x)
  have dis: "distinct (map fst (pendingCalls c))" using inv by (simp add: client_inv_def)
  show ?thesis
  proof (cases "map_of (pendingCalls c) s")
    case None
    then have "(s, ch) \<notin> set (pendingCalls c)" for ch by (auto simp: map_of_eq_None_iff image_iff)
    with None Inr x inv show ?thesis by (simp add: readResponse_def)
  next
    case (Some ch)
    then have p: "(s, ch') \<in> set (pendingCalls c) \<longleftrightarrow> ch' = ch" for ch'
      using map_of_eq_Some_iff [OF dis, of s ch'] by auto
    then have act: "(ch, s) \<in> set act" "cchans c ch = []" using client_inv_pending [OF inv] by blast+
    let ?c' = "c\<lparr>pendingCalls := AList.delete s (pendingCalls c), cchans := (cchans c)(ch := [(repM, rerr)])\<rparr>"
    have "readResponse T d c = Some ?c'" using Some Inr x act by (simp add: readResponse_def put_reply_def)
    moreover have "client_inv n ?c' act" by (rule client_inv_delete [OF inv act(1)]) simp_all
    ultimately show ?thesis using Inr x p by auto
  qed
qed

lemma fail_pending_cases:
  "client_inv n c act \<Longrightarrow> ps = pendingCalls c \<Longrightarrow> \<exists>c'. fail_pending z ps c = Some c' \<and> client_inv n c' act"
proof (induction ps arbitrary: c)
  case (Cons p ps)
  obtain s ch where p: "p = (s, ch)" by (cases p)
  then have mem: "(s, ch) \<in> set (pendingCalls c)" using Cons.prems(2) by (metis list.set_intros(1))
  note act = client_inv_pending [OF Cons.prems(1) mem]
  let ?c' = "c\<lparr>cchans := (cchans c)(ch := [(z, ''connection closed'')]), pendingCalls := AList.delete s (pendingCalls c)\<rparr>"
  have "s \<notin> fst ` set ps"
  proof -
    have "distinct (map fst (p # ps))" unfolding Cons.prems(2) using Cons.prems(1) by (simp add: client_inv_def)
    then show ?thesis by (simp add: p)
  qed
  then have ps: "ps = pendingCalls ?c'" using p by (simp flip: Cons.prems(2))
  moreover have "client_inv n ?c' act" by (rule client_inv_delete [OF Cons.prems(1) act(1)]) simp_all
  ultimately have "\<exists>c'. fail_pending z ps ?c' = Some c' \<and> client_inv n c' act" by (intro Cons.IH)
  then show ?case using p act(2) by (simp add: put_reply_def)
qed simp

lemma client_Close_cases:
  assumes "client_inv n c act"
  shows "\<exists>c'. client_Close z c = Some c' \<and> client_inv n c' act"
proof (cases "cclosed c")
  case True
  with assms show ?thesis by (simp add: client_Close_def)
next
  case False
  have "client_inv n (c\<lparr>cclosed := True, cdone := True\<rparr>) act" using assms by (simp add: client_inv_def)
  from fail_pending_cases [OF this] False show ?thesis by (simp add: client_Close_def)
qed

lemma client_inv_return:
  assumes "client_inv n c act" "(ch, s) \<in> set act" "call_end C sel s ch c = Some (res, c')"
  shows "client_inv n c' (remove1 (ch, s) act)"
proof (rule client_inv_delete [OF assms(1,2)])
  show "reqIDSeq c' = reqIDSeq c" "nextChan c' = nextChan c" "pendingCalls c' = AList.delete s (pendingCalls c)"
    "\<And>x. x \<noteq> ch \<Longrightarrow> cchans c' x = cchans c x"
    using assms(3) by (auto simp: call_end_def split: select_case.splits list.splits if_splits)
qed simp

lemma creach_inv: "creach T Cs z n c act \<Longrightarrow> client_inv n c act"
proof (induction rule: creach.induct)
  case creach_init
  show ?case by (rule client_inv_init)
next
  case (creach_call n c act C wr at rt i q s ch c')
  then show ?case by (blast intro: client_inv_call)
next
  case (creach_refused n c act C wr at rt i q e c')
  then show ?case by (blast intro: client_inv_refused)
next
  case (creach_post n c act wr d e c')
  then show ?case by (blast intro: client_inv_write)
next
  case (creach_read n c act d c')
  then show ?case using readResponse_cases [of n c act T d] by simp
next
  case (creach_close n c act c')
  then show ?case using client_Close_cases [of n c act z] by simp
next
  case (creach_return n c act ch s C sel res c')
  then show ?case by (blast intro: client_inv_return)
qed



end
