(* ===== verification/Grain_Driver.thy ===== *)
theory Grain_Driver
  imports Rpc_Json Actor_Manager
begin

section \<open>Persistence drivers and the JSON file driver\<close>

text \<open>
  The driver interface of \<open>grain/driver_json.go\<close>, \<open>grain/manager.go\<close>, \<open>grain/snapshot.go\<close> and the JSON file driver. A driver
  works on a store \<open>'w\<close> and on snapshots \<open>'p\<close>; \<open>Load\<close> returns the new content of its destination. The file system is a
  map from paths to contents, \<^term>\<open>Some None\<close> being a file that is not JSON; which operations the operating system
  refuses is the record \<open>os\<close>. How \<open>encoding/json\<close> maps a user's snapshot type is \<open>snapcodec\<close>.
\<close>

record ErrLeaseTaken =
  ltKey :: string
  ltOwner :: string
  ltGeneration :: int

definition ErrLeaseTaken_String :: "ErrLeaseTaken \<Rightarrow> string" where
  "ErrLeaseTaken_String e =
     ''grain: lease '' @ ltKey e @ '' taken by '' @ ltOwner e @ '' (generation='' @ Itoa (ltGeneration e) @ '')''"

record LeaseInfo =
  liKey :: string
  liOwner :: string
  liGeneration :: int

datatype drverr = ErrNotFound | LeaseTaken ErrLeaseTaken | DrvErr string | ErrNoDriver

record ('p, 'w) Driver =
  drvLoad :: "string \<Rightarrow> string \<Rightarrow> string \<Rightarrow> 'p \<Rightarrow> 'w \<Rightarrow> ((LeaseInfo option \<times> drverr option \<times> 'p) \<times> 'w) go"
  drvSave :: "string \<Rightarrow> string \<Rightarrow> string \<Rightarrow> 'p option \<Rightarrow> int \<Rightarrow> 'w \<Rightarrow> (drverr option \<times> 'w) go"
  drvRelease :: "string \<Rightarrow> string \<Rightarrow> string \<Rightarrow> int \<Rightarrow> 'w \<Rightarrow> (drverr option \<times> 'w) go"
  drvForceRelease :: "string \<Rightarrow> string \<Rightarrow> 'w \<Rightarrow> ((drverr + int) \<times> 'w) go"

subsection \<open>Persistence manager and snapshots\<close>

record ('p, 'w) PersistenceManager =
  driver :: "('p, 'w) Driver option"
  nodeId :: string
  persistInterval :: int

definition WithDriver :: "('p, 'w) Driver \<Rightarrow> ('p, 'w) PersistenceManager \<Rightarrow> ('p, 'w) PersistenceManager" where
  "WithDriver d pm = pm\<lparr>driver := Some d\<rparr>"

definition WithNodeId :: "string \<Rightarrow> ('p, 'w) PersistenceManager \<Rightarrow> ('p, 'w) PersistenceManager" where
  "WithNodeId i pm = pm\<lparr>nodeId := i\<rparr>"

definition WithAutoPersistInterval :: "int \<Rightarrow> ('p, 'w) PersistenceManager \<Rightarrow> ('p, 'w) PersistenceManager" where
  "WithAutoPersistInterval d pm = pm\<lparr>persistInterval := d\<rparr>"

definition NewPersistenceManager ::
  "(('p, 'w) PersistenceManager \<Rightarrow> ('p, 'w) PersistenceManager) list \<Rightarrow> ('p, 'w) PersistenceManager" where
  "NewPersistenceManager opts = fold (\<lambda>opt pm. opt pm) opts \<lparr>driver = None, nodeId = [], persistInterval = 0\<rparr>"

definition pm_ForceRelease ::
  "('p, 'w) PersistenceManager \<Rightarrow> string \<Rightarrow> string \<Rightarrow> 'w \<Rightarrow> ((drverr + int) \<times> 'w) go" where
  "pm_ForceRelease pm t i w =
     (case driver pm of None \<Rightarrow> Ret (Inl ErrNoDriver, w) | Some d \<Rightarrow> drvForceRelease d t i w)"

text \<open>
  \<open>Snapshotter\<close>; \<^const>\<open>None\<close> is a nil snapshot. \<open>writeThrough d p\<close> is what the data \<open>d\<close> becomes when the object that
  \<open>NewPersist\<close> returned has been changed to \<open>p\<close>: \<open>ShotSelf\<close> returns the data itself, other snapshotters a fresh
  object.
\<close>

record ('d, 'p) Snapshotter =
  NewPersist :: "'d \<Rightarrow> 'p"
  LoadSnapshot :: "'d \<Rightarrow> 'p \<Rightarrow> 'd"
  TakeSnapshot :: "'d \<Rightarrow> 'p option"
  writeThrough :: "'d \<Rightarrow> 'p \<Rightarrow> 'd"

definition ShotSelf :: "('d, 'd) Snapshotter" where
  "ShotSelf = \<lparr>NewPersist = (\<lambda>d. d), LoadSnapshot = (\<lambda>_ p. p), TakeSnapshot = Some, writeThrough = (\<lambda>_ p. p)\<rparr>"

subsection \<open>Paths\<close>

definition filePath :: "string \<Rightarrow> string \<Rightarrow> string \<Rightarrow> string" where
  "filePath dir t i = Join [dir, t, i @ ''.json'']"

subsection \<open>The JSON file driver\<close>

type_synonym fs = "string \<rightharpoonup> json option"

record os =
  openErr :: "string \<Rightarrow> string option"
  createErr :: "string \<Rightarrow> string option"
  mkdirErr :: "string \<Rightarrow> string option"

record 'p snapcodec =
  snapMarshal :: "'p \<Rightarrow> string + json"
  snapUnmarshal :: "json \<Rightarrow> 'p \<Rightarrow> string option \<times> 'p"

record fileDoc =
  Generation :: int
  Data :: RawMessage

fun dec_i64 :: "json \<Rightarrow> int \<Rightarrow> int option" where
  "dec_i64 (JNum n) old = (if - (2 ^ 63) \<le> n \<and> n < 2 ^ 63 then Some n else None)"
| "dec_i64 JNull old = Some old"
| "dec_i64 _ old = None"

definition set_doc_field :: "string \<Rightarrow> json \<Rightarrow> fileDoc \<Rightarrow> fileDoc option" where
  "set_doc_field f j m =
     (if f = ''generation'' then map_option (\<lambda>x. m\<lparr>Generation := x\<rparr>) (dec_i64 j (Generation m))
      else if f = ''data'' then Some (m\<lparr>Data := Some j\<rparr>)
      else Some m)"

text \<open>\<open>json.NewDecoder(f).Decode(&doc)\<close>\<close>

definition decode_doc :: "json option \<Rightarrow> string + fileDoc" where
  "decode_doc content =
     (case content of
        None \<Rightarrow> Inl ''EOF''
      | Some j \<Rightarrow> Unmarshal [''generation'', ''data''] set_doc_field j \<lparr>Generation = 0, Data = None\<rparr>)"

definition encode_doc :: "int \<Rightarrow> json \<Rightarrow> json" where
  "encode_doc gen data = JObj [(''generation'', JNum gen), (''data'', data)]"

definition json_Load ::
  "string \<Rightarrow> os \<Rightarrow> 'p snapcodec \<Rightarrow> string \<Rightarrow> string \<Rightarrow> string \<Rightarrow> 'p \<Rightarrow> fs
    \<Rightarrow> ((LeaseInfo option \<times> drverr option \<times> 'p) \<times> fs) go" where
  "json_Load dir sys sc t i owner dst fs =
     (let path = filePath dir t i in
      case openErr sys path of
        Some e \<Rightarrow> Ret ((None, Some (DrvErr e), dst), fs)
      | None \<Rightarrow>
          (case fs path of
             None \<Rightarrow> Ret ((Some \<lparr>liKey = i, liOwner = owner, liGeneration = 1\<rparr>, Some ErrNotFound, dst), fs)
           | Some content \<Rightarrow>
               (case decode_doc content of
                  Inl e \<Rightarrow> Ret ((None, Some (DrvErr e), dst), fs)
                | Inr doc \<Rightarrow>
                    (let (err, dst') = (case Data doc of None \<Rightarrow> (None, dst) | Some j \<Rightarrow> snapUnmarshal sc j dst)
                     in case err of
                          Some e \<Rightarrow> Ret ((None, Some (DrvErr e), dst'), fs)
                        | None \<Rightarrow>
                            Ret ((Some \<lparr>liKey = i, liOwner = owner, liGeneration = wrap64 (Generation doc + 1)\<rparr>,
                                  None, dst'), fs)))))"

text \<open>\<open>readData\<close>: the data of the present document, if it can be read.\<close>

definition readData :: "os \<Rightarrow> string \<Rightarrow> fs \<Rightarrow> RawMessage option" where
  "readData sys path fs =
     (case (openErr sys path, fs path) of
        (None, Some content) \<Rightarrow> (case decode_doc content of Inl _ \<Rightarrow> None | Inr doc \<Rightarrow> Some (Data doc))
      | _ \<Rightarrow> None)"

text \<open>\<open>Save\<close> truncates the file before it encodes: when encoding fails, an empty file is left.\<close>

definition json_Save ::
  "string \<Rightarrow> os \<Rightarrow> 'p snapcodec \<Rightarrow> string \<Rightarrow> string \<Rightarrow> string \<Rightarrow> 'p option \<Rightarrow> int \<Rightarrow> fs \<Rightarrow> (drverr option \<times> fs) go" where
  "json_Save dir sys sc t i owner src gen fs =
     (let path = filePath dir t i in
      case mkdirErr sys path of
        Some e \<Rightarrow> Ret (Some (DrvErr e), fs)
      | None \<Rightarrow>
          (let data = (case src of
                         Some p \<Rightarrow> snapMarshal sc p
                       | None \<Rightarrow> (case readData sys path fs of None \<Rightarrow> Inr JNull | Some rw \<Rightarrow> Inr (raw rw)))
           in case createErr sys path of
                Some e \<Rightarrow> Ret (Some (DrvErr e), fs)
              | None \<Rightarrow>
                  (case data of
                     Inl e \<Rightarrow> Ret (Some (DrvErr e), fs(path \<mapsto> None))
                   | Inr j \<Rightarrow> Ret (None, fs(path \<mapsto> Some (encode_doc gen j))))))"

definition json_Release :: "string \<Rightarrow> string \<Rightarrow> string \<Rightarrow> string \<Rightarrow> int \<Rightarrow> fs \<Rightarrow> (drverr option \<times> fs) go" where
  "json_Release dir t i owner gen fs = Ret (None, fs)"

definition writeForceReleaseDoc :: "os \<Rightarrow> string \<Rightarrow> int \<Rightarrow> RawMessage \<Rightarrow> fs \<Rightarrow> drverr option \<times> fs" where
  "writeForceReleaseDoc sys path gen data fs =
     (case createErr sys path of
        Some e \<Rightarrow> (Some (DrvErr e), fs)
      | None \<Rightarrow> (None, fs(path \<mapsto> Some (encode_doc gen (raw data)))))"

text \<open>The Go function returns the new generation beside the error of the write; the error decides.\<close>

definition json_ForceRelease :: "string \<Rightarrow> os \<Rightarrow> string \<Rightarrow> string \<Rightarrow> fs \<Rightarrow> ((drverr + int) \<times> fs) go" where
  "json_ForceRelease dir sys t i fs =
     (let path = filePath dir t i;
          result = (\<lambda>gen data. case writeForceReleaseDoc sys path gen data fs of
             (Some e, fs') \<Rightarrow> Ret (Inl e, fs') | (None, fs') \<Rightarrow> Ret (Inr gen, fs'))
      in case mkdirErr sys path of
           Some e \<Rightarrow> Ret (Inl (DrvErr e), fs)
         | None \<Rightarrow>
             (case openErr sys path of
                Some e \<Rightarrow> Ret (Inl (DrvErr e), fs)
              | None \<Rightarrow>
                  (case fs path of
                     None \<Rightarrow> result 1 None
                   | Some content \<Rightarrow>
                       (case decode_doc content of
                          Inl e \<Rightarrow> Ret (Inl (DrvErr e), fs)
                        | Inr doc \<Rightarrow> result (wrap64 (Generation doc + 1)) (Data doc)))))"

definition JsonDriver :: "string \<Rightarrow> os \<Rightarrow> 'p snapcodec \<Rightarrow> ('p, fs) Driver" where
  "JsonDriver dir sys sc =
     \<lparr>drvLoad = json_Load dir sys sc, drvSave = json_Save dir sys sc, drvRelease = json_Release dir,
      drvForceRelease = json_ForceRelease dir sys\<rparr>"

subsection \<open>Facts on documents and paths\<close>

lemma decode_encode_doc [simp]:
  "MinInt \<le> g \<Longrightarrow> g \<le> MaxInt \<Longrightarrow> decode_doc (Some (encode_doc g j)) = Inr \<lparr>Generation = g, Data = Some j\<rparr>"
  by (simp add: decode_doc_def encode_doc_def Unmarshal_def set_doc_field_def MinInt_def MaxInt_def)

definition no_faults :: os where
  "no_faults = \<lparr>openErr = (\<lambda>_. None), createErr = (\<lambda>_. None), mkdirErr = (\<lambda>_. None)\<rparr>"

lemma no_faults_sel [simp]: "openErr no_faults p = None" "createErr no_faults p = None" "mkdirErr no_faults p = None"
  by (simp_all add: no_faults_def)

text \<open>A path component: neither empty nor \<open>.\<close> nor \<open>..\<close>, and without a slash.\<close>

definition plain :: "string \<Rightarrow> bool" where
  "plain p \<longleftrightarrow> p \<noteq> [] \<and> p \<noteq> ''.'' \<and> p \<noteq> ''..'' \<and> CHR ''/'' \<notin> set p"

lemma split_path_plain: "CHR ''/'' \<notin> set p \<Longrightarrow> split_path p acc = [acc @ p]"
  by (induction p arbitrary: acc) auto

lemma split_path_slash:
  "CHR ''/'' \<notin> set p \<Longrightarrow> split_path (p @ ''/'' @ rest) acc = (acc @ p) # split_path rest []"
  by (induction p arbitrary: acc) auto

lemma split_path_append: "split_path (xs @ ''/'' @ ys) acc = split_path xs acc @ split_path ys []"
  by (induction xs arbitrary: acc) auto

lemma split_join: "ps \<noteq> [] \<Longrightarrow> \<forall>p\<in>set ps. CHR ''/'' \<notin> set p \<Longrightarrow> split_path (join_slash ps) [] = ps"
proof (induction ps rule: join_slash.induct)
  case (2 p)
  then show ?case by (simp add: split_path_plain)
next
  case (3 p q ps)
  then show ?case using split_path_slash [of p "join_slash (q # ps)" "[]"] by simp
qed simp

lemma clean_parts_append: "clean_parts b acc (xs @ ys) = clean_parts b (clean_parts b acc xs) ys"
  by (induction b acc xs rule: clean_parts.induct) auto

lemma clean_parts_slash:
  "\<forall>p\<in>set acc \<union> set ps. CHR ''/'' \<notin> set p \<Longrightarrow> \<forall>p\<in>set (clean_parts b acc ps). CHR ''/'' \<notin> set p"
proof (induction b acc ps rule: clean_parts.induct)
  case (2 b acc p ps)
  show ?case
    unfolding clean_parts.simps by (rule "2.IH") (use "2.prems" in \<open>auto dest: in_set_butlastD\<close>)
qed simp

lemma split_path_no_slash: "CHR ''/'' \<notin> set acc \<Longrightarrow> \<forall>p\<in>set (split_path xs acc). CHR ''/'' \<notin> set p"
  by (induction xs acc rule: split_path.induct) auto

lemma plain_json: "CHR ''/'' \<notin> set i \<Longrightarrow> plain (i @ ''.json'')"
  by (auto simp: plain_def append_eq_Cons_conv)

lemma filePath_parts:
  assumes "dir \<noteq> []" "plain t" "CHR ''/'' \<notin> set i"
  shows "\<exists>ps. (\<forall>p\<in>set ps. CHR ''/'' \<notin> set p) \<and>
    (\<forall>t i. plain t \<longrightarrow> CHR ''/'' \<notin> set i \<longrightarrow>
      filePath dir t i = (if hd dir = CHR ''/'' then ''/'' else []) @ join_slash (ps @ [t, i @ ''.json'']))"
proof -
  define b where "b = (hd dir = CHR ''/'')"
  define ps where "ps = clean_parts b [] (split_path dir [])"
  have "\<forall>p\<in>set ps. CHR ''/'' \<notin> set p"
    unfolding ps_def using split_path_no_slash [of "[]" dir] by (intro clean_parts_slash) auto
  moreover have "filePath dir t i = (if b then ''/'' else []) @ join_slash (ps @ [t, i @ ''.json''])"
    if t: "plain t" and i: "CHR ''/'' \<notin> set i" for t i
  proof -
    note pj = plain_json [OF i]
    have "split_path (join_slash [dir, t, i @ ''.json'']) [] = split_path dir [] @ [t, i @ ''.json'']"
      using t pj split_path_append [of dir "t @ ''/'' @ i @ ''.json''" "[]"]
        split_path_append [of t "i @ ''.json''" "[]"]
      by (simp add: plain_def split_path_plain)
    then have c: "clean_parts b [] (split_path (join_slash [dir, t, i @ ''.json'']) []) = ps @ [t, i @ ''.json'']"
      using t pj by (simp add: clean_parts_append ps_def plain_def)
    have "join_slash (ps @ [t, i @ ''.json'']) \<noteq> []" by (cases ps) (auto elim: join_slash.elims)
    moreover have "hd (join_slash [dir, t, i @ ''.json'']) = hd dir" "join_slash [dir, t, i @ ''.json''] \<noteq> []"
      using assms(1) by simp_all
    ultimately show ?thesis
      using assms(1) t c
      by (cases "hd dir = CHR ''/''") (simp_all add: filePath_def Join_def Clean_def Let_def plain_def b_def)
  qed
  ultimately show ?thesis unfolding b_def by blast
qed

text \<open>Different actors have different files. For a fixed directory, actor types that are plain path
  components and identifiers without a slash, \<open>filePath\<close> is injective; \<open>filepath.Join\<close> resolves the dots of
  the directory but never those of the names.\<close>

theorem filePath_injective:
  assumes "dir \<noteq> []" "plain t" "plain t'" "CHR ''/'' \<notin> set i" "CHR ''/'' \<notin> set i'"
  shows "filePath dir t i = filePath dir t' i' \<longleftrightarrow> t = t' \<and> i = i'"
proof
  assume eq: "filePath dir t i = filePath dir t' i'"
  obtain ps where ps: "\<forall>p\<in>set ps. CHR ''/'' \<notin> set p"
    "\<And>t i. plain t \<Longrightarrow> CHR ''/'' \<notin> set i \<Longrightarrow>
      filePath dir t i = (if hd dir = CHR ''/'' then ''/'' else []) @ join_slash (ps @ [t, i @ ''.json''])"
    using filePath_parts [OF assms(1,2,4)] by blast
  then have "join_slash (ps @ [t, i @ ''.json'']) = join_slash (ps @ [t', i' @ ''.json''])"
    using assms eq by (auto split: if_splits)
  moreover have "split_path (join_slash (ps @ [t, i @ ''.json''])) [] = ps @ [t, i @ ''.json'']"
    if "plain t" "CHR ''/'' \<notin> set i" for t i
    using split_join [of "ps @ [t, i @ ''.json'']"] ps(1) that by (auto simp: plain_def)
  ultimately have "ps @ [t, i @ ''.json''] = ps @ [t', i' @ ''.json'']" using assms by metis
  then show "t = t' \<and> i = i'" by simp
qed simp

theorem filePath_injective_witness: "filePath ''data'' ''Player'' ''p1'' \<noteq> filePath ''data'' ''Room'' ''p1''"
  using filePath_injective [of "''data''" "''Player''" "''Room''" "''p1''" "''p1''"] by (simp add: plain_def)

text \<open>Names that are not plain collide, and escape the directory.\<close>

lemma filePath_collision: "filePath ''d'' ''A'' ''../B/x'' = filePath ''d'' ''B'' ''x''"
  by (simp add: filePath_def Join_def Clean_def)

subsection \<open>Properties of the JSON file driver\<close>

lemma json_Save_nil_keeps_data:
  assumes "fs (filePath dir t i) = Some (Some (encode_doc g0 j))" "MinInt \<le> g0" "g0 \<le> MaxInt"
  shows "json_Save dir no_faults sc t i owner None g fs = Ret (None, fs(filePath dir t i \<mapsto> Some (encode_doc g j)))"
  using assms by (simp add: json_Save_def readData_def raw_def)

text \<open>C29: What the JSON driver saves, the next activation loads. Without faults of the operating system and for a
  snapshot that encodes to \<open>j\<close>, \<open>Save\<close> succeeds; a following \<open>Load\<close>, by any owner, decodes \<open>j\<close> into its
  destination and returns a lease whose generation is the saved one plus one, wrapping at 64 bits; and
  a \<open>Save\<close> of a nil snapshot in between, which only renews, does not change the data.\<close>

theorem json_save_load_roundtrip:
  assumes "snapMarshal sc p = Inr j" "snapUnmarshal sc j dst = (None, p')"
    "MinInt \<le> g" "g \<le> MaxInt" "MinInt \<le> g'" "g' \<le> MaxInt"
  shows "\<exists>fs' fs''. json_Save dir no_faults sc t i o1 (Some p) g fs = Ret (None, fs') \<and>
    json_Load dir no_faults sc t i o2 dst fs' =
      Ret ((Some \<lparr>liKey = i, liOwner = o2, liGeneration = wrap64 (g + 1)\<rparr>, None, p'), fs') \<and>
    json_Save dir no_faults sc t i o1 None g' fs' = Ret (None, fs'') \<and>
    json_Load dir no_faults sc t i o2 dst fs'' =
      Ret ((Some \<lparr>liKey = i, liOwner = o2, liGeneration = wrap64 (g' + 1)\<rparr>, None, p'), fs'')"
proof -
  let ?path = "filePath dir t i"
  have load: "json_Load dir no_faults sc t i o2 dst (fs(?path \<mapsto> Some (encode_doc n j))) =
      Ret ((Some \<lparr>liKey = i, liOwner = o2, liGeneration = wrap64 (n + 1)\<rparr>, None, p'), fs(?path \<mapsto> Some (encode_doc n j)))"
    if "MinInt \<le> n" "n \<le> MaxInt" for n
    using assms(2) that by (simp add: json_Load_def)
  have "json_Save dir no_faults sc t i o1 (Some p) g fs = Ret (None, fs(?path \<mapsto> Some (encode_doc g j)))"
    using assms(1) by (simp add: json_Save_def)
  moreover have "json_Save dir no_faults sc t i o1 None g' (fs(?path \<mapsto> Some (encode_doc g j))) =
      Ret (None, fs(?path \<mapsto> Some (encode_doc g' j)))"
    using json_Save_nil_keeps_data [of "fs(?path \<mapsto> Some (encode_doc g j))" dir t i g j] assms(3,4) by simp
  ultimately show ?thesis using load assms(3-6) by blast
qed

definition demo_snap :: "nat snapcodec" where
  "demo_snap = \<lparr>snapMarshal = (\<lambda>n. Inr (JNum (int n))),
     snapUnmarshal = (\<lambda>j d. case j of JNum n \<Rightarrow> (None, nat n) | JNull \<Rightarrow> (None, d) | _ \<Rightarrow> (Some ''bad snapshot'', d))\<rparr>"

theorem json_save_load_roundtrip_witness:
  "\<exists>fs' fs''. json_Save ''d'' no_faults demo_snap ''P'' ''1'' ''n1'' (Some 7) 1 Map.empty = Ret (None, fs') \<and>
    json_Load ''d'' no_faults demo_snap ''P'' ''1'' ''n2'' 0 fs' =
      Ret ((Some \<lparr>liKey = ''1'', liOwner = ''n2'', liGeneration = wrap64 (1 + 1)\<rparr>, None, 7), fs') \<and>
    json_Save ''d'' no_faults demo_snap ''P'' ''1'' ''n1'' None 5 fs' = Ret (None, fs'') \<and>
    json_Load ''d'' no_faults demo_snap ''P'' ''1'' ''n2'' 0 fs'' =
      Ret ((Some \<lparr>liKey = ''1'', liOwner = ''n2'', liGeneration = wrap64 (5 + 1)\<rparr>, None, 7), fs'')"
  by (rule json_save_load_roundtrip [where j = "JNum 7"]) (simp_all add: demo_snap_def MinInt_def MaxInt_def)

text \<open>The JSON driver hides the first activation after a forced release. When no document exists,
  \<open>ForceRelease\<close> writes one whose data is \<open>null\<close>; the next \<open>Load\<close> then reports no \<open>ErrNotFound\<close>, so the
  activation counts as loaded and the initialisation of a created grain is skipped, although nothing was
  ever saved. Before the forced release the same \<open>Load\<close> does report \<open>ErrNotFound\<close>.\<close>

theorem force_release_hides_creation:
  assumes "fs (filePath dir t i) = None" "snapUnmarshal sc JNull dst = (None, dst)"
  shows "\<exists>l fs' l'. json_Load dir no_faults sc t i owner dst fs = Ret ((Some l, Some ErrNotFound, dst), fs) \<and>
    json_ForceRelease dir no_faults t i fs = Ret (Inr 1, fs') \<and>
    json_Load dir no_faults sc t i owner dst fs' = Ret ((Some l', None, dst), fs')"
proof -
  have "json_ForceRelease dir no_faults t i fs = Ret (Inr 1, fs(filePath dir t i \<mapsto> Some (encode_doc 1 JNull)))"
    using assms(1) by (simp add: json_ForceRelease_def writeForceReleaseDoc_def raw_def)
  then show ?thesis using assms by (simp add: json_Load_def MinInt_def MaxInt_def)
qed

theorem force_release_hides_creation_witness:
  "\<exists>l fs' l'. json_Load ''d'' no_faults demo_snap ''P'' ''1'' ''n'' 0 Map.empty = Ret ((Some l, Some ErrNotFound, 0), Map.empty) \<and>
    json_ForceRelease ''d'' no_faults ''P'' ''1'' Map.empty = Ret (Inr 1, fs') \<and>
    json_Load ''d'' no_faults demo_snap ''P'' ''1'' ''n'' 0 fs' = Ret ((Some l', None, 0), fs')"
  by (rule force_release_hides_creation) (simp_all add: demo_snap_def)

text \<open>The JSON driver does not fence: any owner with any generation overwrites the document.\<close>

lemma json_Save_unfenced:
  assumes "snapMarshal sc p = Inr j"
  shows "json_Save dir no_faults sc t i owner (Some p) g fs = Ret (None, fs(filePath dir t i \<mapsto> Some (encode_doc g j)))"
  using assms by (simp add: json_Save_def)

lemma json_Save_failure_loses_data:
  assumes "snapMarshal sc p = Inl e"
  shows "json_Save dir no_faults sc t i owner (Some p) g fs = Ret (Some (DrvErr e), fs(filePath dir t i \<mapsto> None))"
  using assms by (simp add: json_Save_def)

end
