(* ===== verification/Cluster_Router.thy ===== *)
theory Cluster_Router
  imports Cluster_Placement Rpc Grain_Driver
begin

section \<open>Cluster routing\<close>

text \<open>
  \<open>cluster/cluster.go\<close> and the loop of \<open>cluster/migration.go\<close>. The router decides by placement whether a
  message is handled by the local manager, through \<open>actor_api\<close>, or sent to another node, through \<open>net\<close>: the
  operations on rpc clients, which are numbers. The pool maps an address to a client. \<open>others\<close> is what other goroutines
  do to the pool while \<open>getOrDial\<close> dials without the lock. The members do not change during one call.
\<close>

record ('a, 'q, 'r, 'n) net =
  dial :: "string \<Rightarrow> 'n \<Rightarrow> (string + nat) \<times> 'n"
  hangup :: "nat \<Rightarrow> 'n \<Rightarrow> 'n"
  nPost :: "nat \<Rightarrow> 'a \<Rightarrow> 'q \<Rightarrow> 'n \<Rightarrow> rpcerr option \<times> 'n"
  nCall :: "nat \<Rightarrow> 'a \<Rightarrow> 'q \<Rightarrow> 'n \<Rightarrow> (rpcerr + 'r) \<times> 'n"
  nBroadcast :: "nat \<Rightarrow> 'q \<Rightarrow> 'n \<Rightarrow> rpcerr option \<times> 'n"
  nMulticast :: "nat \<Rightarrow> 'a list \<Rightarrow> 'q \<Rightarrow> 'n \<Rightarrow> rpcerr option \<times> 'n"
  others :: "(string \<times> nat) list \<Rightarrow> (string \<times> nat) list"

datatype 'err routeerr =
    LocalErr 'err
  | RemoteErr rpcerr
  | RouteError string string string string
  | ForceFailed string "'err routeerr"
  | ForwardErr string

definition RouteError_String :: "string \<Rightarrow> string \<Rightarrow> string \<Rightarrow> string \<Rightarrow> string" where
  "RouteError_String t i owner reason =
     ''route error: actor '' @ t @ '':'' @ i @ '' should be on node '' @ owner @ '': '' @ reason"

text \<open>A router and the state it works on: the local manager, the network and the pool.\<close>

record ('w, 'n) rstate =
  rmgr :: 'w
  rnet :: 'n
  clients :: "(string \<times> nat) list"

record ('a, 'q, 'r, 'err, 'w, 'n) Router =
  Self :: Node
  Members :: NodeSet
  placement :: strategy
  LeaseRetry :: bool
  ForceReleaser :: "(string \<Rightarrow> string \<Rightarrow> 'w \<Rightarrow> (string + int) \<times> 'w) option"
  api :: "('a, 'q, 'r, 'err, 'w) actor_api"
  rnetwork :: "('a, 'q, 'r, 'n) net"
  asTaken :: "'err \<Rightarrow> ErrLeaseTaken option"
  idops :: "'a id_ops"

text \<open>Options: \<open>WithLeaseRetry\<close> and \<open>WithForceReleaser\<close>.\<close>

definition WithLeaseRetry ::
  "bool \<Rightarrow> ('a, 'q, 'r, 'err, 'w, 'n) Router \<Rightarrow> ('a, 'q, 'r, 'err, 'w, 'n) Router" where
  "WithLeaseRetry b r = r\<lparr>LeaseRetry := b\<rparr>"

definition WithForceReleaser ::
  "(string \<Rightarrow> string \<Rightarrow> 'w \<Rightarrow> (string + int) \<times> 'w) \<Rightarrow> ('a, 'q, 'r, 'err, 'w, 'n) Router
    \<Rightarrow> ('a, 'q, 'r, 'err, 'w, 'n) Router" where
  "WithForceReleaser f r = r\<lparr>ForceReleaser := Some f, LeaseRetry := True\<rparr>"

definition NewRouter ::
  "Node \<Rightarrow> NodeSet \<Rightarrow> strategy \<Rightarrow> ('a, 'q, 'r, 'err, 'w) actor_api \<Rightarrow> ('a, 'q, 'r, 'n) net
    \<Rightarrow> ('err \<Rightarrow> ErrLeaseTaken option) \<Rightarrow> 'a id_ops
    \<Rightarrow> (('a, 'q, 'r, 'err, 'w, 'n) Router \<Rightarrow> ('a, 'q, 'r, 'err, 'w, 'n) Router) list
    \<Rightarrow> ('a, 'q, 'r, 'err, 'w, 'n) Router" where
  "NewRouter me ms pl ap nw lt io opts = fold (\<lambda>opt r. opt r) opts
     \<lparr>Self = me, Members = ms, placement = pl, LeaseRetry = False, ForceReleaser = None, api = ap,
      rnetwork = nw, asTaken = lt, idops = io\<rparr>"

definition router_Place :: "('a, 'q, 'r, 'err, 'w, 'n) Router \<Rightarrow> string \<Rightarrow> string \<Rightarrow> Node go" where
  "router_Place r t i = (case placement r t i (Members r) of None \<Rightarrow> GoPanic | Some n \<Rightarrow> Ret n)"

definition IsLocal :: "('a, 'q, 'r, 'err, 'w, 'n) Router \<Rightarrow> string \<Rightarrow> string \<Rightarrow> bool go" where
  "IsLocal r t i = bind_go (router_Place r t i) (\<lambda>n. Ret (ID n = ID (Self r)))"

subsection \<open>The pool of clients\<close>

definition getOrDial ::
  "('a, 'q, 'r, 'n) net \<Rightarrow> Node \<Rightarrow> ('w, 'n) rstate \<Rightarrow> ('err routeerr + nat) \<times> ('w, 'n) rstate" where
  "getOrDial nw tgt s =
     (case map_of (clients s) (Addr tgt) of
        Some c \<Rightarrow> (Inr c, s)
      | None \<Rightarrow>
          (case dial nw (Addr tgt) (rnet s) of
             (Inl e, n') \<Rightarrow>
               (Inl (RouteError [] [] (ID tgt) (''failed to connect to remote node: '' @ e)), s\<lparr>rnet := n'\<rparr>)
           | (Inr c, n') \<Rightarrow>
               (let s1 = s\<lparr>rnet := n', clients := others nw (clients s)\<rparr>
                in case map_of (clients s1) (Addr tgt) of
                     Some existing \<Rightarrow> (Inr existing, s1\<lparr>rnet := hangup nw c n'\<rparr>)
                   | None \<Rightarrow> (Inr c, s1\<lparr>clients := AList.update (Addr tgt) c (clients s1)\<rparr>))))"

definition remove_client :: "('a, 'q, 'r, 'n) net \<Rightarrow> string \<Rightarrow> ('w, 'n) rstate \<Rightarrow> ('w, 'n) rstate" where
  "remove_client nw addr s =
     (case map_of (clients s) addr of
        None \<Rightarrow> s
      | Some c \<Rightarrow> s\<lparr>rnet := hangup nw c (rnet s), clients := AList.delete addr (clients s)\<rparr>)"

fun hangup_all :: "('a, 'q, 'r, 'n) net \<Rightarrow> (string \<times> nat) list \<Rightarrow> 'n \<Rightarrow> 'n" where
  "hangup_all nw [] n = n"
| "hangup_all nw ((_, c) # cs) n = hangup_all nw cs (hangup nw c n)"

definition closeAll :: "('a, 'q, 'r, 'n) net \<Rightarrow> ('w, 'n) rstate \<Rightarrow> ('w, 'n) rstate" where
  "closeAll nw s = s\<lparr>rnet := hangup_all nw (clients s) (rnet s), clients := []\<rparr>"

definition newClientPool :: "(string \<times> nat) list" where
  "newClientPool = []"

text \<open>The router's own operations on the pool. \<open>Close\<close> gives back what the membership's \<open>Close\<close> gives.\<close>

definition GetClient ::
  "('a, 'q, 'r, 'err, 'w, 'n) Router \<Rightarrow> Node \<Rightarrow> ('w, 'n) rstate \<Rightarrow> ('err routeerr + nat) \<times> ('w, 'n) rstate" where
  "GetClient r tgt s = getOrDial (rnetwork r) tgt s"

definition RemoveClient :: "('a, 'q, 'r, 'err, 'w, 'n) Router \<Rightarrow> string \<Rightarrow> ('w, 'n) rstate \<Rightarrow> ('w, 'n) rstate" where
  "RemoveClient r addr s = remove_client (rnetwork r) addr s"

definition router_Close ::
  "('a, 'q, 'r, 'err, 'w, 'n) Router \<Rightarrow> 'c option \<Rightarrow> ('w, 'n) rstate \<Rightarrow> 'c option \<times> ('w, 'n) rstate" where
  "router_Close r mclose s = (mclose, closeAll (rnetwork r) s)"

subsection \<open>One dispatch\<close>

definition postOnce ::
  "('a, 'q, 'r, 'err, 'w, 'n) Router \<Rightarrow> 'a \<Rightarrow> 'q \<Rightarrow> ('w, 'n) rstate \<Rightarrow> ('err routeerr option \<times> ('w, 'n) rstate) go" where
  "postOnce r i q s =
     bind_go (router_Place r (ActorType (idops r) i) (IdString (idops r) i)) (\<lambda>preferred.
       if ID preferred = ID (Self r) then
         bind_go (apiPost (api r) i q (rmgr s)) (\<lambda>(err, w). Ret (map_option LocalErr err, s\<lparr>rmgr := w\<rparr>))
       else
         (case getOrDial (rnetwork r) preferred s of
            (Inl e, s1) \<Rightarrow> Ret (Some e, s1)
          | (Inr c, s1) \<Rightarrow>
              (let (err, n) = nPost (rnetwork r) c i q (rnet s1)
               in Ret (map_option RemoteErr err, s1\<lparr>rnet := n\<rparr>))))"

definition callOnce ::
  "('a, 'q, 'r, 'err, 'w, 'n) Router \<Rightarrow> 'a \<Rightarrow> 'q \<Rightarrow> ('w, 'n) rstate \<Rightarrow> (('err routeerr + 'r) \<times> ('w, 'n) rstate) go" where
  "callOnce r i q s =
     bind_go (router_Place r (ActorType (idops r) i) (IdString (idops r) i)) (\<lambda>preferred.
       if ID preferred = ID (Self r) then
         bind_go (apiCall (api r) i q (rmgr s)) (\<lambda>(res, w).
           Ret (case res of Inl e \<Rightarrow> Inl (LocalErr e) | Inr rep \<Rightarrow> Inr rep, s\<lparr>rmgr := w\<rparr>))
       else
         (case getOrDial (rnetwork r) preferred s of
            (Inl e, s1) \<Rightarrow> Ret (Inl e, s1)
          | (Inr c, s1) \<Rightarrow>
              (let (res, n) = nCall (rnetwork r) c i q (rnet s1)
               in Ret (case res of Inl e \<Rightarrow> Inl (RemoteErr e) | Inr rep \<Rightarrow> Inr rep, s1\<lparr>rnet := n\<rparr>))))"

text \<open>\<open>errors.As\<close> on a routing error: only a local error can carry a \<open>grain.ErrLeaseTaken\<close>.\<close>

fun isLeaseTaken :: "('err \<Rightarrow> ErrLeaseTaken option) \<Rightarrow> 'err routeerr \<Rightarrow> ErrLeaseTaken option" where
  "isLeaseTaken lt (LocalErr e) = lt e"
| "isLeaseTaken lt (ForceFailed _ e) = isLeaseTaken lt e"
| "isLeaseTaken lt _ = None"

definition tryForwardPost ::
  "('a, 'q, 'r, 'err, 'w, 'n) Router \<Rightarrow> 'a \<Rightarrow> 'q \<Rightarrow> ErrLeaseTaken \<Rightarrow> ('w, 'n) rstate
    \<Rightarrow> 'err routeerr option \<times> ('w, 'n) rstate" where
  "tryForwardPost r i q tk s =
     (if ltOwner tk = [] \<or> ltOwner tk = ID (Self r) then (Some (ForwardErr ''cannot forward to self''), s)
      else case Lookup (Members r) (ltOwner tk) of
             None \<Rightarrow> (Some (ForwardErr (''lease owner '' @ ltOwner tk @ '' not in cluster'')), s)
           | Some ownerNode \<Rightarrow>
               (case getOrDial (rnetwork r) ownerNode s of
                  (Inl e, s1) \<Rightarrow> (Some e, s1)
                | (Inr c, s1) \<Rightarrow>
                    (case nPost (rnetwork r) c i q (rnet s1) of
                       (Some e, n) \<Rightarrow>
                         (Some (RemoteErr e), remove_client (rnetwork r) (Addr ownerNode) (s1\<lparr>rnet := n\<rparr>))
                     | (None, n) \<Rightarrow> (None, s1\<lparr>rnet := n\<rparr>))))"

definition tryForwardCall ::
  "('a, 'q, 'r, 'err, 'w, 'n) Router \<Rightarrow> 'a \<Rightarrow> 'q \<Rightarrow> ErrLeaseTaken \<Rightarrow> ('w, 'n) rstate \<Rightarrow> 'r option \<times> ('w, 'n) rstate" where
  "tryForwardCall r i q tk s =
     (if ltOwner tk = [] \<or> ltOwner tk = ID (Self r) then (None, s)
      else case Lookup (Members r) (ltOwner tk) of
             None \<Rightarrow> (None, s)
           | Some ownerNode \<Rightarrow>
               (case getOrDial (rnetwork r) ownerNode s :: ('err routeerr + nat) \<times> ('w, 'n) rstate of
                  (Inl e, s1) \<Rightarrow> (None, s1)
                | (Inr c, s1) \<Rightarrow>
                    (case nCall (rnetwork r) c i q (rnet s1) of
                       (Inl e, n) \<Rightarrow> (None, remove_client (rnetwork r) (Addr ownerNode) (s1\<lparr>rnet := n\<rparr>))
                     | (Inr rep, n) \<Rightarrow> (Some rep, s1\<lparr>rnet := n\<rparr>))))"

definition handleLeasePost ::
  "('a, 'q, 'r, 'err, 'w, 'n) Router \<Rightarrow> 'a \<Rightarrow> 'q \<Rightarrow> 'err routeerr \<Rightarrow> ('w, 'n) rstate
    \<Rightarrow> ('err routeerr option \<times> ('w, 'n) rstate) go" where
  "handleLeasePost r i q origErr s =
     (if \<not> LeaseRetry r then Ret (Some origErr, s)
      else case isLeaseTaken (asTaken r) origErr of
             None \<Rightarrow> Ret (Some origErr, s)
           | Some tk \<Rightarrow>
               (case tryForwardPost r i q tk s of
                  (None, s1) \<Rightarrow> Ret (None, s1)
                | (Some _, s1) \<Rightarrow>
                    (case ForceReleaser r of
                       None \<Rightarrow> Ret (Some origErr, s1)
                     | Some force \<Rightarrow>
                         (case force (ActorType (idops r) i) (IdString (idops r) i) (rmgr s1) of
                            (Inl e, w) \<Rightarrow> Ret (Some (ForceFailed e origErr), s1\<lparr>rmgr := w\<rparr>)
                          | (Inr _, w) \<Rightarrow> postOnce r i q (s1\<lparr>rmgr := w\<rparr>)))))"

definition handleLeaseCall ::
  "('a, 'q, 'r, 'err, 'w, 'n) Router \<Rightarrow> 'a \<Rightarrow> 'q \<Rightarrow> 'err routeerr \<Rightarrow> ('w, 'n) rstate
    \<Rightarrow> (('err routeerr + 'r) \<times> ('w, 'n) rstate) go" where
  "handleLeaseCall r i q origErr s =
     (if \<not> LeaseRetry r then Ret (Inl origErr, s)
      else case isLeaseTaken (asTaken r) origErr of
             None \<Rightarrow> Ret (Inl origErr, s)
           | Some tk \<Rightarrow>
               (case tryForwardCall r i q tk s of
                  (Some reply, s1) \<Rightarrow> Ret (Inr reply, s1)
                | (None, s1) \<Rightarrow>
                    (case ForceReleaser r of
                       None \<Rightarrow> Ret (Inl origErr, s1)
                     | Some force \<Rightarrow>
                         (case force (ActorType (idops r) i) (IdString (idops r) i) (rmgr s1) of
                            (Inl e, w) \<Rightarrow> Ret (Inl (ForceFailed e origErr), s1\<lparr>rmgr := w\<rparr>)
                          | (Inr _, w) \<Rightarrow> callOnce r i q (s1\<lparr>rmgr := w\<rparr>)))))"

subsection \<open>The routed operations\<close>

definition cluster_Post ::
  "('a, 'q, 'r, 'err, 'w, 'n) Router \<Rightarrow> 'a \<Rightarrow> 'q \<Rightarrow> ('w, 'n) rstate \<Rightarrow> ('err routeerr option \<times> ('w, 'n) rstate) go" where
  "cluster_Post r i q s =
     bind_go (postOnce r i q s) (\<lambda>(err, s1).
       case err of None \<Rightarrow> Ret (None, s1) | Some e \<Rightarrow> handleLeasePost r i q e s1)"

definition cluster_Call ::
  "('a, 'q, 'r, 'err, 'w, 'n) Router \<Rightarrow> 'a \<Rightarrow> 'q \<Rightarrow> ('w, 'n) rstate \<Rightarrow> (('err routeerr + 'r) \<times> ('w, 'n) rstate) go" where
  "cluster_Call r i q s =
     bind_go (callOnce r i q s) (\<lambda>(res, s1).
       case res of Inr rep \<Rightarrow> Ret (Inr rep, s1) | Inl e \<Rightarrow> handleLeaseCall r i q e s1)"

fun broadcast_nodes ::
  "('a, 'q, 'r, 'err, 'w, 'n) Router \<Rightarrow> 'q \<Rightarrow> NodeSet \<Rightarrow> 'err routeerr option \<Rightarrow> ('w, 'n) rstate
    \<Rightarrow> 'err routeerr option \<times> ('w, 'n) rstate" where
  "broadcast_nodes r q [] lastErr s = (lastErr, s)"
| "broadcast_nodes r q (n # ns) lastErr s =
     (if ID n = ID (Self r) then broadcast_nodes r q ns lastErr s
      else case getOrDial (rnetwork r) n s of
             (Inl e, s1) \<Rightarrow> broadcast_nodes r q ns (Some e) s1
           | (Inr c, s1) \<Rightarrow>
               (case nBroadcast (rnetwork r) c q (rnet s1) of
                  (Some e, n') \<Rightarrow> broadcast_nodes r q ns (Some (RemoteErr e)) (s1\<lparr>rnet := n'\<rparr>)
                | (None, n') \<Rightarrow> broadcast_nodes r q ns lastErr (s1\<lparr>rnet := n'\<rparr>)))"

definition cluster_Broadcast ::
  "('a, 'q, 'r, 'err, 'w, 'n) Router \<Rightarrow> 'q \<Rightarrow> ('w, 'n) rstate \<Rightarrow> ('err routeerr option \<times> ('w, 'n) rstate) go" where
  "cluster_Broadcast r q s =
     bind_go (apiBroadcast (api r) q (rmgr s)) (\<lambda>(res, w).
       case res of
         Inl e \<Rightarrow> Ret (Some (LocalErr e), s\<lparr>rmgr := w\<rparr>)
       | Inr _ \<Rightarrow> Ret (broadcast_nodes r q (Members r) None (s\<lparr>rmgr := w\<rparr>)))"

text \<open>The loop of \<open>Multicast\<close> that sorts the targets: the local ones, and those of each other node.\<close>

type_synonym 'a nodeGroups = "(string \<times> (Node \<times> 'a list)) list"

fun group_ids ::
  "('a, 'q, 'r, 'err, 'w, 'n) Router \<Rightarrow> string \<Rightarrow> 'a list \<Rightarrow> 'a list \<Rightarrow> 'a nodeGroups \<Rightarrow> ('a list \<times> 'a nodeGroups) go" where
  "group_ids r t [] localIds ng = Ret (localIds, ng)"
| "group_ids r t (i # is) localIds ng =
     bind_go (router_Place r t (IdString (idops r) i)) (\<lambda>preferred.
       if ID preferred = ID (Self r) then group_ids r t is (localIds @ [i]) ng
       else
         (let g = (case map_of ng (ID preferred) of Some g \<Rightarrow> g | None \<Rightarrow> (preferred, []))
          in group_ids r t is localIds (AList.update (ID preferred) (fst g, snd g @ [i]) ng)))"

fun send_groups ::
  "('a, 'q, 'r, 'err, 'w, 'n) Router \<Rightarrow> 'q \<Rightarrow> 'a nodeGroups \<Rightarrow> int \<Rightarrow> ('w, 'n) rstate \<Rightarrow> int \<times> ('w, 'n) rstate" where
  "send_groups r q [] tot s = (tot, s)"
| "send_groups r q ((_, (n, ids)) # gs) tot s =
     (case getOrDial (rnetwork r) n s :: ('err routeerr + nat) \<times> ('w, 'n) rstate of
        (Inl e, s1) \<Rightarrow> send_groups r q gs tot s1
      | (Inr c, s1) \<Rightarrow>
          (case nMulticast (rnetwork r) c ids q (rnet s1) of
             (Some e, n') \<Rightarrow> send_groups r q gs tot (s1\<lparr>rnet := n'\<rparr>)
           | (None, n') \<Rightarrow> send_groups r q gs (tot + int (length ids)) (s1\<lparr>rnet := n'\<rparr>)))"

text \<open>The iteration order of the Go map is the argument \<open>ord\<close>.\<close>

definition cluster_Multicast ::
  "('a nodeGroups \<Rightarrow> 'a nodeGroups) \<Rightarrow> ('a, 'q, 'r, 'err, 'w, 'n) Router \<Rightarrow> 'a list \<Rightarrow> 'q \<Rightarrow> ('w, 'n) rstate
    \<Rightarrow> ((int \<times> 'err routeerr option) \<times> ('w, 'n) rstate) go" where
  "cluster_Multicast ord r ids q s =
     (case ids of
        [] \<Rightarrow> Ret ((0, None), s)
      | id0 # _ \<Rightarrow>
          bind_go (group_ids r (ActorType (idops r) id0) ids [] []) (\<lambda>(localIds, ng).
            if localIds = [] then
              (let (tot, s') = send_groups r q (ord ng) 0 s in Ret ((tot, None), s'))
            else
              bind_go (apiMulticast (api r) localIds q (rmgr s)) (\<lambda>(res, w).
                case res of
                  Inl e \<Rightarrow> Ret ((0, Some (LocalErr e)), s\<lparr>rmgr := w\<rparr>)
                | Inr n \<Rightarrow>
                    (let (tot, s') = send_groups r q (ord ng) n (s\<lparr>rmgr := w\<rparr>) in Ret ((tot, None), s')))))"

subsection \<open>Member lists\<close>

text \<open>\<open>MembersToNodeSet\<close> with the sort of \<open>sort.Slice\<close> as an argument; \<open>MemberDiff\<close> with the order of the map iterations.\<close>

definition MembersToNodeSet :: "(Node list \<Rightarrow> Node list) \<Rightarrow> Node list \<Rightarrow> NodeSet" where
  "MembersToNodeSet srt ms = srt ms"

fun index_nodes :: "NodeSet \<Rightarrow> (string \<times> Node) list \<Rightarrow> (string \<times> Node) list" where
  "index_nodes [] m = m"
| "index_nodes (n # ns) m = index_nodes ns (AList.update (ID n) n m)"

fun missing_from :: "(string \<times> Node) list \<Rightarrow> (string \<times> Node) list \<Rightarrow> NodeSet \<Rightarrow> NodeSet" where
  "missing_from m [] acc = acc"
| "missing_from m ((i, n) # kvs) acc = missing_from m kvs (if map_of m i = None then acc @ [n] else acc)"

definition MemberDiff ::
  "((string \<times> Node) list \<Rightarrow> (string \<times> Node) list) \<Rightarrow> NodeSet \<Rightarrow> NodeSet \<Rightarrow> NodeSet \<times> NodeSet" where
  "MemberDiff ord old new =
     (let oldMap = index_nodes old []; newMap = index_nodes new []
      in (missing_from oldMap (ord newMap) [], missing_from newMap (ord oldMap) []))"

subsection \<open>The migration coordinator\<close>

record 'w MigrationCoordinator =
  notifiers :: "('w \<Rightarrow> 'w) list"

datatype coord_input = CtxDone | EventsClosed | MemberEvent bool Node NodeSet

definition NewMigrationCoordinator :: "'w MigrationCoordinator" where
  "NewMigrationCoordinator = \<lparr>notifiers = []\<rparr>"

definition RegisterNotify :: "('w \<Rightarrow> 'w) \<Rightarrow> 'w MigrationCoordinator \<Rightarrow> 'w MigrationCoordinator" where
  "RegisterNotify f mc = mc\<lparr>notifiers := notifiers mc @ [f]\<rparr>"

definition handleEvent :: "'w MigrationCoordinator \<Rightarrow> 'w \<Rightarrow> 'w" where
  "handleEvent mc w = fold (\<lambda>f w. f w) (notifiers mc) w"

text \<open>The cases the \<open>select\<close> of \<open>Run\<close> takes, one after another; the flag says whether the loop has ended.\<close>

fun coord_Run :: "'w MigrationCoordinator \<Rightarrow> coord_input list \<Rightarrow> 'w \<Rightarrow> bool \<times> 'w" where
  "coord_Run mc [] w = (False, w)"
| "coord_Run mc (CtxDone # _) w = (True, w)"
| "coord_Run mc (EventsClosed # _) w = (True, w)"
| "coord_Run mc (MemberEvent _ _ _ # evs) w = coord_Run mc evs (handleEvent mc w)"

subsection \<open>Facts on the pool and the member lists\<close>

lemma getOrDial_pooled:
  "getOrDial nw n s = (Inr c, s') \<Longrightarrow> map_of (clients s') (Addr n) = Some c"
  by (auto simp: getOrDial_def Let_def update_conv split: option.splits sum.splits prod.splits)

lemma remove_client_gone: "map_of (clients (remove_client nw a s)) a = None"
  by (simp add: remove_client_def delete_conv' split: option.splits)

definition diff_ok :: "NodeSet \<Rightarrow> (string \<times> Node) list \<Rightarrow> bool" where
  "diff_ok ns m \<longleftrightarrow> distinct (map fst m) \<and> (\<forall>(i, n)\<in>set m. ID n = i) \<and> snd ` set m \<subseteq> set ns"

lemma set_update_subset: "set (AList.update k v xs) \<subseteq> insert (k, v) (set xs)"
  by (induction xs) auto

lemma index_nodes_ok:
  "diff_ok ms m \<Longrightarrow> set ns \<subseteq> set ms \<Longrightarrow>
     diff_ok ms (index_nodes ns m) \<and> fst ` set (index_nodes ns m) = fst ` set m \<union> ID ` set ns"
proof (induction ns arbitrary: m)
  case (Cons n ns)
  have "diff_ok ms (AList.update (ID n) n m)"
    unfolding diff_ok_def
  proof (intro conjI ballI subsetI)
    show "distinct (map fst (AList.update (ID n) n m))"
      using Cons.prems(1) by (simp add: diff_ok_def distinct_update)
    have new: "kv = (ID n, n) \<or> kv \<in> set m" if "kv \<in> set (AList.update (ID n) n m)" for kv
      using that set_update_subset by fast
    show "case kv of (i, n) \<Rightarrow> ID n = i" if "kv \<in> set (AList.update (ID n) n m)" for kv
      using new [OF that] Cons.prems(1) by (auto simp: diff_ok_def)
    show "x \<in> set ms" if x: "x \<in> snd ` set (AList.update (ID n) n m)" for x
    proof -
      obtain kv where "kv \<in> set (AList.update (ID n) n m)" "x = snd kv" using x by (rule imageE)
      then show ?thesis using new [of kv] Cons.prems by (auto simp: diff_ok_def)
    qed
  qed
  with Cons show ?case by (simp add: dom_update)
qed simp

lemma missing_from_filter:
  "missing_from m kvs acc = acc @ map snd (filter (\<lambda>kv. map_of m (fst kv) = None) kvs)"
  by (induction m kvs acc rule: missing_from.induct) auto

lemma missing_ids:
  assumes "diff_ok xs m" "mset kvs = mset m"
  shows "ID ` set (missing_from m' kvs []) = fst ` set m - fst ` set m'" "distinct (map ID (missing_from m' kvs []))"
    "set (missing_from m' kvs []) \<subseteq> set xs"
proof -
  have s: "set kvs = set m" using assms(2) by (metis set_mset_mset)
  have i: "ID (snd kv) = fst kv" if "kv \<in> set kvs" for kv using that assms(1) s by (auto simp: diff_ok_def)
  have "distinct (map fst kvs)" using assms by (metis diff_ok_def distinct_map mset_map mset_eq_imp_distinct_iff)
  moreover have "map ID (missing_from m' kvs []) = map fst (filter (\<lambda>kv. map_of m' (fst kv) = None) kvs)"
    using i by (simp add: missing_from_filter)
  ultimately show "distinct (map ID (missing_from m' kvs []))" by (simp add: distinct_map_filter)
  show "ID ` set (missing_from m' kvs []) = fst ` set m - fst ` set m'"
  proof -
    have "ID ` set (missing_from m' kvs []) = fst ` {kv \<in> set kvs. map_of m' (fst kv) = None}"
      unfolding missing_from_filter append_Nil list.set_map image_image set_filter
      by (rule image_cong) (use i in auto)
    moreover have "fst ` {kv \<in> A. fst kv \<notin> B} = fst ` A - B" for A :: "(string \<times> Node) set" and B
      by auto
    ultimately show ?thesis unfolding s map_of_eq_None_iff by simp
  qed
  show "set (missing_from m' kvs []) \<subseteq> set xs"
    using s assms(1) by (auto simp: missing_from_filter diff_ok_def)
qed

subsection \<open>Properties of routing\<close>

text \<open>\<open>MemberDiff\<close> reports exactly the difference. Whatever the order of the map iterations, the joined
  nodes are those of the new list whose identifiers are not in the old one, each identifier once, and
  conversely for the nodes that left.\<close>

theorem MemberDiff_is_difference:
  assumes "\<And>m. mset (ord m) = mset m" "MemberDiff ord old new = (joined, left)"
  shows "ID ` set joined = ID ` set new - ID ` set old \<and> ID ` set left = ID ` set old - ID ` set new \<and>
    distinct (map ID joined) \<and> distinct (map ID left) \<and> set joined \<subseteq> set new \<and> set left \<subseteq> set old"
proof -
  have o: "diff_ok old (index_nodes old [])" "fst ` set (index_nodes old []) = ID ` set old"
    and n: "diff_ok new (index_nodes new [])" "fst ` set (index_nodes new []) = ID ` set new"
    using index_nodes_ok [of old "[]" old] index_nodes_ok [of new "[]" new] by (auto simp: diff_ok_def)
  have j: "joined = missing_from (index_nodes old []) (ord (index_nodes new [])) []"
    "left = missing_from (index_nodes new []) (ord (index_nodes old [])) []"
    using assms(2) by (auto simp: MemberDiff_def Let_def)
  note a = missing_ids [OF n(1) assms(1), of "index_nodes old []"]
    and b = missing_ids [OF o(1) assms(1), of "index_nodes new []"]
  show ?thesis unfolding j using a b o(2) n(2) by simp
qed

theorem MemberDiff_is_difference_witness:
  "ID ` set (fst (MemberDiff (\<lambda>m. m) [demo_node ''a'' []] [demo_node ''b'' []])) =
     {''b''} - ID ` set [demo_node ''a'' []]"
proof -
  obtain j l where "MemberDiff (\<lambda>m. m) [demo_node ''a'' []] [demo_node ''b'' []] = (j, l)" by fastforce
  with MemberDiff_is_difference [OF _ this] show ?thesis by (simp add: demo_node_def)
qed

subsection \<open>Multicast\<close>

definition group_targets :: "'a nodeGroups \<Rightarrow> 'a list" where
  "group_targets ng = concat (map (\<lambda>(_, (_, ids)). ids) ng)"

text \<open>Every target of a group is placed on that group's node, which is another node.\<close>

definition groups_ok :: "('a, 'q, 'r, 'err, 'w, 'n) Router \<Rightarrow> string \<Rightarrow> 'a nodeGroups \<Rightarrow> bool" where
  "groups_ok r t ng \<longleftrightarrow> distinct (map fst ng) \<and>
     (\<forall>(k, (n, ids))\<in>set ng. k \<noteq> ID (Self r) \<and> ID n = k \<and>
        (\<forall>i\<in>set ids. \<exists>p. placement r t (IdString (idops r) i) (Members r) = Some p \<and> ID p = k))"

lemma group_targets_update:
  assumes "distinct (map fst ng)"
    "g = (case map_of ng k of Some g \<Rightarrow> g | None \<Rightarrow> (n, []))"
  shows "mset (group_targets (AList.update k (fst g, snd g @ [i]) ng)) = mset (group_targets ng) + {#i#}"
  using assms
proof (induction ng)
  case (Cons kv ng)
  obtain k' n' ids where kv: "kv = (k', (n', ids))" by (cases kv) auto
  show ?case
  proof (cases "k' = k")
    case True
    with Cons.prems kv show ?thesis by (simp add: group_targets_def)
  next
    case False
    with Cons kv show ?thesis by (simp add: group_targets_def)
  qed
qed (simp add: group_targets_def)

lemma groups_ok_update:
  assumes "groups_ok r t ng" "placement r t (IdString (idops r) i) (Members r) = Some p" "ID p \<noteq> ID (Self r)"
    "g = (case map_of ng (ID p) of Some g \<Rightarrow> g | None \<Rightarrow> (p, []))"
  shows "groups_ok r t (AList.update (ID p) (fst g, snd g @ [i]) ng)"
proof -
  have g: "ID (fst g) = ID p"
    "\<forall>j\<in>set (snd g). \<exists>p'. placement r t (IdString (idops r) j) (Members r) = Some p' \<and> ID p' = ID p"
    using assms(1,4) by (auto simp: groups_ok_def dest!: map_of_SomeD split: option.splits)
  show ?thesis
    unfolding groups_ok_def
  proof (intro conjI ballI)
    show "distinct (map fst (AList.update (ID p) (fst g, snd g @ [i]) ng))"
      using assms(1) by (simp add: groups_ok_def distinct_update)
    fix kv assume "kv \<in> set (AList.update (ID p) (fst g, snd g @ [i]) ng)"
    then have "kv = (ID p, (fst g, snd g @ [i])) \<or> kv \<in> set ng" using set_update_subset by fast
    then show "case kv of (k, n, ids) \<Rightarrow> k \<noteq> ID (Self r) \<and> ID n = k \<and>
        (\<forall>i\<in>set ids. \<exists>p. placement r t (IdString (idops r) i) (Members r) = Some p \<and> ID p = k)"
    proof
      assume "kv = (ID p, (fst g, snd g @ [i]))"
      with g assms(2,3) show ?thesis by auto
    next
      assume "kv \<in> set ng"
      with assms(1) show ?thesis unfolding groups_ok_def by blast
    qed
  qed
qed

lemma group_ids_spec:
  assumes "\<And>i. i \<in> set ids \<Longrightarrow> placement r t (IdString (idops r) i) (Members r) \<noteq> None" "groups_ok r t ng"
  shows "\<exists>l' ng'. group_ids r t ids l ng = Ret (l @ l', ng') \<and> groups_ok r t ng' \<and>
    mset l' + mset (group_targets ng') = mset ids + mset (group_targets ng) \<and>
    (\<forall>i\<in>set l'. \<exists>p. placement r t (IdString (idops r) i) (Members r) = Some p \<and> ID p = ID (Self r))"
  using assms
proof (induction ids arbitrary: l ng)
  case (Cons i ids)
  obtain p where p: "placement r t (IdString (idops r) i) (Members r) = Some p" using Cons.prems(1) [of i] by auto
  then have rp: "router_Place r t (IdString (idops r) i) = Ret p" by (simp add: router_Place_def)
  have pre: "\<And>i. i \<in> set ids \<Longrightarrow> placement r t (IdString (idops r) i) (Members r) \<noteq> None"
    using Cons.prems(1) by simp
  show ?case
  proof (cases "ID p = ID (Self r)")
    case True
    obtain l' ng' where "group_ids r t ids (l @ [i]) ng = Ret ((l @ [i]) @ l', ng')" "groups_ok r t ng'"
      "mset l' + mset (group_targets ng') = mset ids + mset (group_targets ng)"
      "\<forall>i\<in>set l'. \<exists>p. placement r t (IdString (idops r) i) (Members r) = Some p \<and> ID p = ID (Self r)"
      using Cons.IH [OF pre Cons.prems(2), of "l @ [i]"] by blast
    then show ?thesis using p rp True by (intro exI [of _ "i # l'"] exI [of _ ng']) auto
  next
    case False
    define g where "g = (case map_of ng (ID p) of Some g \<Rightarrow> g | None \<Rightarrow> (p, []))"
    let ?ng = "AList.update (ID p) (fst g, snd g @ [i]) ng"
    have "distinct (map fst ng)" using Cons.prems(2) by (simp add: groups_ok_def)
    note m = group_targets_update [OF this g_def, of i]
    have "groups_ok r t ?ng" by (rule groups_ok_update [OF Cons.prems(2) p False g_def])
    from Cons.IH [OF pre this, of l] obtain l' ng' where
      "group_ids r t ids l ?ng = Ret (l @ l', ng')" "groups_ok r t ng'"
      "mset l' + mset (group_targets ng') = mset ids + mset (group_targets ?ng)"
      "\<forall>i\<in>set l'. \<exists>p. placement r t (IdString (idops r) i) (Members r) = Some p \<and> ID p = ID (Self r)" by blast
    then show ?thesis using rp False m
      by (intro exI [of _ l'] exI [of _ ng']) (simp add: Let_def flip: g_def)
  qed
qed simp

lemma send_groups_bound:
  fixes r :: "('a, 'q, 'r, 'err, 'w, 'n) Router"
  assumes "send_groups r q ng tot s = (tot', s')"
  shows "tot \<le> tot' \<and> tot' \<le> tot + int (length (group_targets ng))"
  using assms
proof (induction ng arbitrary: tot s)
  case (Cons kv ng)
  obtain k n ids where kv: "kv = (k, (n, ids))" by (cases kv) auto
  have IH: "tot0 \<le> tot' \<and> tot' \<le> tot0 + int (length (group_targets ng))"
    if "send_groups r q ng tot0 s0 = (tot', s')" for tot0 s0 by (rule Cons.IH [OF that])
  obtain a s1 where "(getOrDial (rnetwork r) n s :: ('err routeerr + nat) \<times> ('w, 'n) rstate) = (a, s1)" by fastforce
  with Cons.prems show ?case
    by (auto simp: kv group_targets_def split: sum.splits prod.splits option.splits dest!: IH)
qed (simp add: group_targets_def)

text \<open>A routed multicast sorts its targets by owner and loses none. If every target can be placed, the
  loop does not panic; the local targets and the targets of the other nodes' groups are together exactly
  the given targets, with their multiplicities; a target is local exactly when it is placed on this
  node, and is otherwise in the single group of the node it is placed on.\<close>

theorem multicast_partitions_targets:
  fixes r :: "('a, 'q, 'r, 'err, 'w, 'n) Router"
  assumes "\<And>i. i \<in> set ids \<Longrightarrow> placement r t (IdString (idops r) i) (Members r) \<noteq> None"
  shows "\<exists>localIds ng. group_ids r t ids [] [] = Ret (localIds, ng) \<and>
    mset localIds + mset (group_targets ng) = mset ids \<and> distinct (map fst ng) \<and>
    (\<forall>i\<in>set localIds. \<exists>p. placement r t (IdString (idops r) i) (Members r) = Some p \<and> ID p = ID (Self r)) \<and>
    (\<forall>(k, (n, is))\<in>set ng. k \<noteq> ID (Self r) \<and> ID n = k \<and>
       (\<forall>i\<in>set is. \<exists>p. placement r t (IdString (idops r) i) (Members r) = Some p \<and> ID p = k))"
proof -
  have "groups_ok r t []" by (simp add: groups_ok_def)
  then have "\<exists>l ng. group_ids r t ids [] [] = Ret ([] @ l, ng) \<and> groups_ok r t ng \<and>
    mset l + mset (group_targets ng) = mset ids + mset (group_targets ([] :: 'a nodeGroups)) \<and>
    (\<forall>i\<in>set l. \<exists>p. placement r t (IdString (idops r) i) (Members r) = Some p \<and> ID p = ID (Self r))"
    by (intro group_ids_spec assms)
  then obtain l ng where
    "group_ids r t ids [] [] = Ret (l, ng)" "groups_ok r t ng" "mset l + mset (group_targets ng) = mset ids"
    "\<forall>i\<in>set l. \<exists>p. placement r t (IdString (idops r) i) (Members r) = Some p \<and> ID p = ID (Self r)"
    by (auto simp: group_targets_def)
  then show ?thesis unfolding groups_ok_def by blast
qed

definition demo_net :: "(nat, (nat, (nat, unit) goerr) request, nat option, unit) net" where
  "demo_net = \<lparr>dial = (\<lambda>_ n. (Inr 0, n)), hangup = (\<lambda>_ n. n), nPost = (\<lambda>_ _ _ n. (None, n)),
     nCall = (\<lambda>_ _ _ n. (Inl (ErrRpcCallFailed ''grain: lease p taken by b''), n)),
     nBroadcast = (\<lambda>_ _ n. (None, n)), nMulticast = (\<lambda>_ _ _ n. (None, n)), others = (\<lambda>p. p)\<rparr>"

text \<open>\<open>errors.As(err, &taken)\<close> on an error of the actor package: \<open>f\<close> recognises the user errors that are a
  \<open>grain.ErrLeaseTaken\<close>.\<close>

definition takenOf :: "('e \<Rightarrow> ErrLeaseTaken option) \<Rightarrow> ('a, 'e) goerr \<Rightarrow> ErrLeaseTaken option" where
  "takenOf f err =
     (case errors_As (\<lambda>e. case e of UserErr u \<Rightarrow> f u \<noteq> None | _ \<Rightarrow> False) err of
        Some (UserErr u) \<Rightarrow> f u
      | _ \<Rightarrow> None)"

definition demo_router :: "NodeSet \<Rightarrow> (nat, (nat, (nat, unit) goerr) request, nat option, (nat, unit) goerr, demo_mgr, unit) Router" where
  "demo_router ms = NewRouter (demo_node ''n'' []) ms (Place (sort_key hash) demo_placement) demo_api demo_net
     (takenOf (\<lambda>_. None)) \<lparr>ActorType = (\<lambda>_. ''P''), IdString = (\<lambda>_. ''0'')\<rparr> [WithLeaseRetry True]"

theorem multicast_partitions_targets_witness:
  "\<exists>localIds ng. group_ids (demo_router [demo_node ''n'' [], demo_node ''k'' []]) ''P'' [1, 2, 1] [] [] = Ret (localIds, ng) \<and>
    mset localIds + mset (group_targets ng) = {#1, 2, 1#}"
proof -
  let ?r = "demo_router [demo_node ''n'' [], demo_node ''k'' []]"
  have "placement ?r ''P'' (IdString (idops ?r) i) (Members ?r) \<noteq> None" for i
    by (simp add: demo_router_def NewRouter_def WithLeaseRetry_def demo_place)
  from multicast_partitions_targets [OF this, of "[1, 2, 1]"] show ?thesis by (auto simp: add_mset_commute)
qed

subsection \<open>Lease retries\<close>

lemma callOnce_remote:
  assumes "placement r (ActorType (idops r) i) (IdString (idops r) i) (Members r) = Some n" "ID n \<noteq> ID (Self r)"
    "callOnce r i q s = Ret (Inl e, s')"
  shows "isLeaseTaken lt e = None"
  using assms
  by (auto simp: callOnce_def router_Place_def getOrDial_def Let_def
      split: sum.splits prod.splits option.splits)

text \<open>A lease taken on another node is never retried. When an actor is placed on another node, a routed call
  returns what the single remote call returned, and leaves the state the same, whatever the lease options: the remote
  error arrives as text, so neither forwarding to the lease owner nor a forced release is tried.\<close>

theorem remote_lease_not_retried:
  assumes "placement r (ActorType (idops r) i) (IdString (idops r) i) (Members r) = Some n" "ID n \<noteq> ID (Self r)"
  shows "cluster_Call r i q s = callOnce r i q s"
proof (cases "callOnce r i q s")
  case (Ret x)
  obtain res s' where x: "x = (res, s')" by (cases x)
  show ?thesis
  proof (cases res)
    case (Inl e)
    then have "isLeaseTaken (asTaken r) e = None" using callOnce_remote [OF assms] Ret x by blast
    with Inl Ret x show ?thesis by (simp add: cluster_Call_def handleLeaseCall_def)
  qed (simp add: Ret x cluster_Call_def)
qed (simp_all add: cluster_Call_def)

definition demo_rstate :: "(demo_mgr, unit) rstate" where
  "demo_rstate = \<lparr>rmgr = NewManager, rnet = (), clients = []\<rparr>"

theorem remote_lease_not_retried_witness:
  "cluster_Call (demo_router [demo_node ''k'' [], demo_node ''a'' [], demo_node ''n'' []]) 1 (UserReq ''Get'' 1) demo_rstate =
   callOnce (demo_router [demo_node ''k'' [], demo_node ''a'' [], demo_node ''n'' []]) 1 (UserReq ''Get'' 1) demo_rstate"
  by (rule remote_lease_not_retried [of _ _ "demo_node ''a'' []"])
    (simp_all add: demo_router_def NewRouter_def WithLeaseRetry_def demo_place, simp add: demo_node_def)

lemma FPost_errors:
  assumes "FPost io ev f i q m = Ret (Some e, m')"
  shows "e = GroupNotFoundError i \<or> (\<exists>x. e = GroupClosedError x) \<or> (\<exists>x. e = ActorNotFoundError x) \<or> (\<exists>x. e = ActorBusyError x)"
  using assms
  by (auto simp: FPost_def handlerPost_def deliver_def resolveActor_def send_at_def send_def Let_def
      split: sum.splits go.splits option.splits resolved.splits prod.splits if_splits spawned.splits send_result.splits)

lemma bind_go_Ret: "bind_go x f = Ret y \<longleftrightarrow> (\<exists>z. x = Ret z \<and> f z = Ret y)"
  by (cases x) auto

lemma getOrDial_error: "getOrDial nw n s = (Inl e, s') \<Longrightarrow> isLeaseTaken lt e = None"
  by (auto simp: getOrDial_def Let_def split: sum.splits prod.splits option.splits)

lemma postOnce_error:
  fixes r :: "('a, 'q, 'r, 'err, 'w, 'n) Router"
  assumes "postOnce r i q s = Ret (Some e, s')" "isLeaseTaken lt e \<noteq> None"
  shows "\<exists>e' w. apiPost (api r) i q (rmgr s) = Ret (Some e', w) \<and> e = LocalErr e'"
proof -
  obtain n where n: "router_Place r (ActorType (idops r) i) (IdString (idops r) i) = Ret n"
    using assms(1) by (auto simp: postOnce_def bind_go_Ret)
  obtain a :: "'err routeerr + nat" and s1 where g: "getOrDial (rnetwork r) n s = (a, s1)" by fastforce
  show ?thesis
  proof (cases "ID n = ID (Self r)")
    case True
    with assms(1) n show ?thesis by (auto simp: postOnce_def bind_go_Ret split: prod.splits)
  next
    case False
    have "isLeaseTaken lt e = None"
      using assms(1) n False g getOrDial_error [of "rnetwork r" n s e s1 lt]
      by (cases a) (auto simp: postOnce_def split: prod.splits)
    with assms(2) show ?thesis by simp
  qed
qed

lemma Post_not_taken: "Post io ev i q m = Ret (Some e, m') \<Longrightarrow> takenOf f e = None"
  by (auto simp: Post_def takenOf_def split: prod.splits dest!: FPost_errors)

text \<open>The lease retry of a routed post is unreachable. On a router over the manager, with any lease options,
  \<open>cluster.Post\<close> is the single dispatch \<open>postOnce\<close>: \<open>actor.Post\<close> reports only routing and mailbox errors and
  a remote post only transport errors, never the \<open>ErrLeaseTaken\<close> that \<open>handleLeasePost\<close> waits for.\<close>

theorem post_lease_retry_unreachable:
  assumes "api r = mgr_api io ue ev await zid" "asTaken r = takenOf f"
  shows "cluster_Post r i q s = postOnce r i q s"
proof (cases "postOnce r i q s")
  case (Ret x)
  obtain err s' where x: "x = (err, s')" by (cases x)
  have "isLeaseTaken (asTaken r) e = None" if e: "err = Some e" for e
  proof (rule ccontr)
    assume tk: "isLeaseTaken (asTaken r) e \<noteq> None"
    have "postOnce r i q s = Ret (Some e, s')" using Ret x e by simp
    from postOnce_error [OF this tk] obtain e' w where
      "apiPost (api r) i q (rmgr s) = Ret (Some e', w)" "e = LocalErr e'" by blast
    with tk show False using assms by (simp add: mgr_api_def Post_not_taken)
  qed
  with Ret x show ?thesis by (cases err) (simp_all add: cluster_Post_def handleLeasePost_def)
qed (simp_all add: cluster_Post_def)

theorem post_lease_retry_unreachable_witness:
  "cluster_Post (demo_router [demo_node ''n'' [], demo_node ''k'' []]) 1 (UserReq ''Get'' 1) demo_rstate =
   postOnce (demo_router [demo_node ''n'' [], demo_node ''k'' []]) 1 (UserReq ''Get'' 1) demo_rstate"
  by (rule post_lease_retry_unreachable [where io = demo_io and ue = "\<lambda>_. ''user error''" and ev = "\<lambda>g. g"
        and await = "\<lambda>_ m. (None, m)" and zid = 0 and f = "\<lambda>_. None"])
    (simp_all add: demo_router_def NewRouter_def WithLeaseRetry_def demo_api_def)

end
