(* ===== verification/Grain_Redis.thy ===== *)
theory Grain_Redis
  imports Grain_Driver
begin

section \<open>The Redis driver\<close>

text \<open>
  \<open>grain/driver_redis.go\<close>: the four Lua scripts, statement by statement, and the Go functions around them. The Redis server is
  not part of the sources: its commands are the record \<open>redis_ops\<close>, and the locale \<open>redis_hash\<close> states the documented
  behaviour of the hash and expiry commands that the scripts rely on. A value of a hash is a string; Lua numbers are
  printed in decimal, which holds for generations below \<open>10^14\<close>. A script runs atomically. An error of the connection
  returns before anything happens and is not modelled.
\<close>

record 's redis_ops =
  EXISTS :: "string \<Rightarrow> 's \<Rightarrow> bool"
  HGET :: "string \<Rightarrow> string \<Rightarrow> 's \<Rightarrow> string option"
  HSET :: "string \<Rightarrow> (string \<times> string) list \<Rightarrow> 's \<Rightarrow> 's"
  PEXPIRE :: "string \<Rightarrow> int \<Rightarrow> 's \<Rightarrow> 's"
  PTTL :: "string \<Rightarrow> 's \<Rightarrow> int"

datatype rval = RInt int | RStr string

record RedisDriver =
  prefix :: string
  rNodeId :: string
  leaseTimeout :: int
  dataTTL :: int

text \<open>Durations are in milliseconds; \<open>DefaultLeaseTimeout\<close> is ten minutes.\<close>

definition DefaultLeaseTimeout :: int where
  "DefaultLeaseTimeout = 600000"

definition NewRedisDriver :: "string \<Rightarrow> string \<Rightarrow> int \<Rightarrow> int \<Rightarrow> RedisDriver" where
  "NewRedisDriver pre node lt ttl =
     (let lt' = (if lt \<le> 0 then DefaultLeaseTimeout else lt);
          ttl' = (if ttl \<le> 0 then lt' else ttl)
      in \<lparr>prefix = pre, rNodeId = node, leaseTimeout = lt', dataTTL = ttl'\<rparr>)"

definition redis_key :: "RedisDriver \<Rightarrow> string \<Rightarrow> string \<Rightarrow> string" where
  "redis_key d t i = prefix d @ t @ '':'' @ i"

subsection \<open>The scripts\<close>

text \<open>\<open>tonumber\<close> of a decimal string, and the reads with their defaults.\<close>

definition lua_tonumber :: "string \<Rightarrow> int" where
  "lua_tonumber s = int (dec_val s)"

definition cur_owner :: "'s redis_ops \<Rightarrow> string \<Rightarrow> 's \<Rightarrow> string" where
  "cur_owner R key s = (case HGET R key ''owner'' s of None \<Rightarrow> [] | Some v \<Rightarrow> v)"

definition cur_gen :: "'s redis_ops \<Rightarrow> string \<Rightarrow> 's \<Rightarrow> int" where
  "cur_gen R key s = lua_tonumber (case HGET R key ''generation'' s of None \<Rightarrow> ''0'' | Some v \<Rightarrow> v)"

definition cur_data :: "'s redis_ops \<Rightarrow> string \<Rightarrow> 's \<Rightarrow> string" where
  "cur_data R key s = (case HGET R key ''data'' s of None \<Rightarrow> [] | Some v \<Rightarrow> v)"

definition loadLua :: "'s redis_ops \<Rightarrow> string \<Rightarrow> string \<Rightarrow> int \<Rightarrow> 's \<Rightarrow> rval list \<times> 's" where
  "loadLua R key owner ttl_ms s =
     (if \<not> EXISTS R key s then
        (let s1 = HSET R key [(''owner'', owner), (''generation'', ''1''), (''data'', [])] s;
             s2 = PEXPIRE R key ttl_ms s1
         in ([RInt 1, RStr owner, RInt 1, RInt 0], s2))
      else if cur_owner R key s = owner then
        (let s1 = PEXPIRE R key ttl_ms s
         in ([RInt 1, RStr owner, RInt (cur_gen R key s), RInt 0, RStr (cur_data R key s1)], s1))
      else if cur_owner R key s = [] \<or> PTTL R key s \<le> 0 then
        (let new_gen = cur_gen R key s + 1;
             s1 = HSET R key [(''owner'', owner), (''generation'', Itoa new_gen)] s;
             s2 = PEXPIRE R key ttl_ms s1
         in ([RInt 1, RStr owner, RInt new_gen, RInt 0, RStr (cur_data R key s2)], s2))
      else ([RInt 0, RStr (cur_owner R key s), RInt (cur_gen R key s)], s))"

definition saveLua ::
  "'s redis_ops \<Rightarrow> string \<Rightarrow> string \<Rightarrow> int \<Rightarrow> string \<Rightarrow> int \<Rightarrow> int \<Rightarrow> 's \<Rightarrow> int \<times> 's" where
  "saveLua R key owner gen data ttl_ms renew_only s =
     (if cur_owner R key s \<noteq> owner \<or> cur_gen R key s \<noteq> gen then (0, s)
      else
        (let s1 = (if renew_only \<noteq> 1
                   then HSET R key [(''owner'', owner), (''generation'', Itoa gen), (''data'', data)] s
                   else HSET R key [(''owner'', owner), (''generation'', Itoa gen)] s);
             s2 = (if ttl_ms > 0 then PEXPIRE R key ttl_ms s1 else s1)
         in (1, s2)))"

definition releaseLua :: "'s redis_ops \<Rightarrow> string \<Rightarrow> string \<Rightarrow> int \<Rightarrow> 's \<Rightarrow> int \<times> 's" where
  "releaseLua R key owner gen s =
     (if cur_owner R key s = owner \<and> cur_gen R key s = gen then (1, HSET R key [(''owner'', [])] s)
      else (0, s))"

definition forceReleaseLua :: "'s redis_ops \<Rightarrow> string \<Rightarrow> int \<Rightarrow> 's \<Rightarrow> int \<times> 's" where
  "forceReleaseLua R key ttl_ms s =
     (let new_gen = cur_gen R key s + 1;
          s1 = HSET R key [(''owner'', []), (''generation'', Itoa new_gen)] s;
          s2 = (if ttl_ms > 0 then PEXPIRE R key ttl_ms s1 else s1)
      in (new_gen, s2))"

subsection \<open>The Go functions\<close>

text \<open>The type assertions \<open>result[i].(int64)\<close> and \<open>result[i].(string)\<close>, which give the zero value on a mismatch.\<close>

fun as_int :: "rval \<Rightarrow> int" where
  "as_int (RInt n) = n"
| "as_int (RStr _) = 0"

fun as_str :: "rval \<Rightarrow> string" where
  "as_str (RStr s) = s"
| "as_str (RInt _) = []"

text \<open>\<open>marshalData\<close> and \<open>unmarshalData\<close> use methods of the user's snapshot type; empty data leaves the destination.\<close>

record 'p redis_codec =
  rMarshal :: "'p \<Rightarrow> string + string"
  rUnmarshal :: "string \<Rightarrow> 'p \<Rightarrow> string option \<times> 'p"

definition unmarshalData :: "'p redis_codec \<Rightarrow> string \<Rightarrow> 'p \<Rightarrow> string option \<times> 'p" where
  "unmarshalData rc data dst = (if length data = 0 then (None, dst) else rUnmarshal rc data dst)"

text \<open>Indexing past the end of \<open>result\<close> panics.\<close>

definition redis_Load ::
  "'s redis_ops \<Rightarrow> RedisDriver \<Rightarrow> 'p redis_codec \<Rightarrow> string \<Rightarrow> string \<Rightarrow> string \<Rightarrow> 'p \<Rightarrow> 's
    \<Rightarrow> ((LeaseInfo option \<times> drverr option \<times> 'p) \<times> 's) go" where
  "redis_Load R d rc t i owner dst s =
     (let (result, s') = loadLua R (redis_key d t i) owner (leaseTimeout d) s in
      if as_int (result ! 0) = 0 then
        Ret ((None, Some (LeaseTaken \<lparr>ltKey = i, ltOwner = as_str (result ! 1), ltGeneration = as_int (result ! 2)\<rparr>), dst), s')
      else if length result \<le> 3 then GoPanic
      else
        (let lease = \<lparr>liKey = i, liOwner = as_str (result ! 1), liGeneration = as_int (result ! 2)\<rparr> in
         if as_int (result ! 3) = 1 then Ret ((Some lease, Some ErrNotFound, dst), s')
         else if length result \<le> 4 then GoPanic
         else (case unmarshalData rc (as_str (result ! 4)) dst of
                 (Some e, dst') \<Rightarrow> Ret ((Some lease, Some (DrvErr e), dst'), s')
               | (None, dst') \<Rightarrow> Ret ((Some lease, None, dst'), s'))))"

definition redis_Save ::
  "'s redis_ops \<Rightarrow> RedisDriver \<Rightarrow> 'p redis_codec \<Rightarrow> string \<Rightarrow> string \<Rightarrow> string \<Rightarrow> 'p option \<Rightarrow> int \<Rightarrow> 's
    \<Rightarrow> (drverr option \<times> 's) go" where
  "redis_Save R d rc t i owner src gen s =
     (let ttlMs = (if dataTTL d \<le> 0 then leaseTimeout d else dataTTL d);
          run = (\<lambda>data renewOnly.
            let (result, s') = saveLua R (redis_key d t i) owner gen data ttlMs renewOnly s
            in Ret (if result = 0
                    then Some (DrvErr ''grain: save failed, lease expired or taken by another owner'') else None, s'))
      in case src of
           None \<Rightarrow> run [] 1
         | Some p \<Rightarrow> (case rMarshal rc p of Inl e \<Rightarrow> Ret (Some (DrvErr e), s) | Inr data \<Rightarrow> run data 0))"

definition redis_Release ::
  "'s redis_ops \<Rightarrow> RedisDriver \<Rightarrow> string \<Rightarrow> string \<Rightarrow> string \<Rightarrow> int \<Rightarrow> 's \<Rightarrow> (drverr option \<times> 's) go" where
  "redis_Release R d t i owner gen s =
     (let (result, s') = releaseLua R (redis_key d t i) owner gen s
      in Ret (if result = 0
              then Some (DrvErr ''grain: release failed, lease expired or taken by another owner'') else None, s'))"

definition redis_ForceRelease ::
  "'s redis_ops \<Rightarrow> RedisDriver \<Rightarrow> string \<Rightarrow> string \<Rightarrow> 's \<Rightarrow> ((drverr + int) \<times> 's) go" where
  "redis_ForceRelease R d t i s =
     (let (result, s') = forceReleaseLua R (redis_key d t i) (leaseTimeout d) s in Ret (Inr result, s'))"

definition redis_driver :: "'s redis_ops \<Rightarrow> RedisDriver \<Rightarrow> 'p redis_codec \<Rightarrow> ('p, 's) Driver" where
  "redis_driver R d rc =
     \<lparr>drvLoad = redis_Load R d rc, drvSave = redis_Save R d rc, drvRelease = redis_Release R d,
      drvForceRelease = redis_ForceRelease R d\<rparr>"

subsection \<open>The contract of the server\<close>

locale redis_hash =
  fixes R :: "'s redis_ops"
  assumes HGET_HSET: "HGET R k f (HSET R k' fvs s) =
      (if k = k' then (case map_of (rev fvs) f of Some v \<Rightarrow> Some v | None \<Rightarrow> HGET R k f s) else HGET R k f s)"
    and HGET_PEXPIRE: "0 < ms \<Longrightarrow> HGET R k f (PEXPIRE R k' ms s) = HGET R k f s"
    and EXISTS_iff: "EXISTS R k s \<longleftrightarrow> (\<exists>f. HGET R k f s \<noteq> None)"
    and PTTL_PEXPIRE: "0 < ms \<Longrightarrow> EXISTS R k s \<Longrightarrow> PTTL R k (PEXPIRE R k ms s) = ms"
begin

lemma tonumber_Itoa [simp]: "0 \<le> n \<Longrightarrow> lua_tonumber (Itoa n) = n"
  by (simp add: lua_tonumber_def Itoa_def dec_val_nat_dec)

lemma tonumber_one [simp]: "lua_tonumber ''1'' = 1"
  by code_simp

lemma cur_PEXPIRE [simp]:
  assumes "0 < ms"
  shows "cur_owner R k (PEXPIRE R k' ms s) = cur_owner R k s" "cur_gen R k (PEXPIRE R k' ms s) = cur_gen R k s"
    "cur_data R k (PEXPIRE R k' ms s) = cur_data R k s"
  using assms by (simp_all add: cur_owner_def cur_gen_def cur_data_def HGET_PEXPIRE)

lemma EXISTS_HSET [simp]: "EXISTS R k (HSET R k [(f, v), (f', v')] s)" "EXISTS R k (HSET R k [(f, v), (f', v'), (f'', v'')] s)"
  by (auto simp: EXISTS_iff HGET_HSET intro!: exI [of _ f] split: option.splits)

lemma cur_gen_nonneg: "0 \<le> cur_gen R k s"
  by (simp add: cur_gen_def lua_tonumber_def)

lemma save_fenced:
  assumes "0 < ttl" "0 \<le> gen"
  shows "if cur_owner R key s = owner \<and> cur_gen R key s = gen
    then \<exists>s'. saveLua R key owner gen data ttl renew s = (1, s') \<and> cur_owner R key s' = owner \<and> cur_gen R key s' = gen \<and>
           cur_data R key s' = (if renew = 1 then cur_data R key s else data) \<and> PTTL R key s' = ttl
    else saveLua R key owner gen data ttl renew s = (0, s)"
  using assms
  by (auto simp: saveLua_def Let_def PTTL_PEXPIRE cur_owner_def cur_gen_def cur_data_def HGET_HSET HGET_PEXPIRE)

lemma load_takes_over:
  assumes "EXISTS R key s" "cur_owner R key s \<noteq> owner" "cur_owner R key s = [] \<or> PTTL R key s \<le> 0" "0 < ttl"
  shows "\<exists>s'. loadLua R key owner ttl s =
      ([RInt 1, RStr owner, RInt (cur_gen R key s + 1), RInt 0, RStr (cur_data R key s)], s') \<and>
    cur_owner R key s' = owner \<and> cur_gen R key s' = cur_gen R key s + 1 \<and> cur_data R key s' = cur_data R key s \<and>
    PTTL R key s' = ttl"
proof -
  have "0 \<le> cur_gen R key s + 1" using cur_gen_nonneg [of key s] by simp
  with assms show ?thesis
    by (auto simp: loadLua_def Let_def PTTL_PEXPIRE)
      (simp_all add: cur_owner_def cur_gen_def cur_data_def HGET_HSET)
qed

lemma load_refused:
  assumes "EXISTS R key s" "cur_owner R key s \<noteq> owner" "cur_owner R key s \<noteq> []" "0 < PTTL R key s"
  shows "loadLua R key owner ttl s = ([RInt 0, RStr (cur_owner R key s), RInt (cur_gen R key s)], s)"
  using assms by (simp add: loadLua_def)

end

text \<open>A server that keeps hashes and remaining times in a map.\<close>

type_synonym memstore = "string \<rightharpoonup> (string \<rightharpoonup> string) \<times> int"

definition mem_redis :: "memstore redis_ops" where
  "mem_redis =
     \<lparr>EXISTS = (\<lambda>k s. case s k of None \<Rightarrow> False | Some (h, _) \<Rightarrow> h \<noteq> Map.empty),
      HGET = (\<lambda>k f s. case s k of None \<Rightarrow> None | Some (h, _) \<Rightarrow> h f),
      HSET = (\<lambda>k fvs s. s(k \<mapsto> (case s k of None \<Rightarrow> (map_of (rev fvs), -1) | Some (h, t) \<Rightarrow> (h ++ map_of (rev fvs), t)))),
      PEXPIRE = (\<lambda>k ms s. case s k of None \<Rightarrow> s | Some (h, _) \<Rightarrow> (if 0 < ms then s(k \<mapsto> (h, ms)) else s(k := None))),
      PTTL = (\<lambda>k s. case s k of None \<Rightarrow> -2 | Some (_, t) \<Rightarrow> t)\<rparr>"

interpretation mem: redis_hash mem_redis
  by unfold_locales (auto simp: mem_redis_def map_add_def fun_eq_iff split: option.splits)

subsection \<open>Properties of the Redis driver\<close>

text \<open>The first activation of a grain on Redis panics. When the key does not exist, the load script
  creates it and returns four values with the not-found flag 0; \<open>Load\<close> then reads a fifth value and
  panics with an index out of range, whatever the server, the owner and the snapshot type. The script's own
  comment names the fourth value \<open>not_found\<close>.\<close>

theorem redis_first_load_panics:
  assumes "\<not> EXISTS R (redis_key d t i) s"
  shows "redis_Load R d rc t i owner dst s = GoPanic"
  using assms by (simp add: redis_Load_def loadLua_def Let_def)

definition demo_rc :: "string redis_codec" where
  "demo_rc = \<lparr>rMarshal = Inr, rUnmarshal = (\<lambda>data _. (None, data))\<rparr>"

definition demo_redis :: RedisDriver where
  "demo_redis = NewRedisDriver ''g:'' ''n1'' 0 0"

theorem redis_first_load_panics_witness:
  "redis_Load mem_redis demo_redis demo_rc ''P'' ''1'' ''n1'' [] Map.empty = GoPanic"
  by (rule redis_first_load_panics) (simp add: mem_redis_def)


definition demo_store :: memstore where
  "demo_store = [''g:P:1'' \<mapsto> ([''owner'' \<mapsto> [], ''generation'' \<mapsto> ''3'', ''data'' \<mapsto> ''x''], 1000)]"

lemma demo_store_reads:
  "EXISTS mem_redis ''g:P:1'' demo_store" "cur_owner mem_redis ''g:P:1'' demo_store = []"
  "cur_data mem_redis ''g:P:1'' demo_store = ''x''" "redis_key demo_redis ''P'' ''1'' = ''g:P:1''"
  by (auto simp: mem_redis_def demo_store_def cur_owner_def cur_data_def redis_key_def demo_redis_def
      NewRedisDriver_def fun_eq_iff)


end
