(* ===== verification/Grain_Lifecycle.thy ===== *)
theory Grain_Lifecycle
  imports Grain_Redis
begin

section \<open>The life of a grain\<close>

text \<open>
  \<open>grain/lifecycle.go\<close> and \<open>grain/grain_lifecycle.go\<close>: activation, persisting, deactivation and the hooks \<open>SetupGrain\<close>
  installs, on the activation record and the control block of the actor runtime. The store of the driver is the
  world of the actor. \<open>GoPanic\<close> is the explicit panic of an inactive grain or a nil dereference. The contexts
  passed to the driver and the loggers are not modelled.
\<close>

datatype ActivateResult = ActivateCreated | ActivateLoaded

record ('d, 'p, 'w) GState =
  gData :: 'd
  lease :: "LeaseInfo option"
  gpm :: "('p, 'w) PersistenceManager option"
  snap :: "('d, 'p) Snapshotter option"

text \<open>The one timer callback the grain layer creates.\<close>

datatype grain_cb = AutoPersist

type_synonym ('a, 'q, 'd, 'p, 'w) gctx = "('a, 'q, ('d, 'p, 'w) GState, 'w, grain_cb) ActorContext"

definition persist ::
  "string \<Rightarrow> string \<Rightarrow> ('d, 'p, 'w) GState \<Rightarrow> 'w \<Rightarrow> (drverr option \<times> 'w) go" where
  "persist t i st w =
     (case (gpm st, lease st, snap st) of
        (Some pm, Some l, Some sn) \<Rightarrow>
          (case driver pm of
             None \<Rightarrow> GoPanic
           | Some drv \<Rightarrow> drvSave drv t i (nodeId pm) (TakeSnapshot sn (gData st)) (liGeneration l) w)
      | _ \<Rightarrow> GoPanic)"

text \<open>\<open>release\<close> only logs an error of the driver.\<close>

definition release :: "string \<Rightarrow> string \<Rightarrow> ('d, 'p, 'w) GState \<Rightarrow> 'w \<Rightarrow> 'w go" where
  "release t i st w =
     (case lease st of
        None \<Rightarrow> Ret w
      | Some l \<Rightarrow>
          (case gpm st of
             None \<Rightarrow> GoPanic
           | Some pm \<Rightarrow>
               (case driver pm of
                  None \<Rightarrow> GoPanic
                | Some drv \<Rightarrow>
                    (case drvRelease drv t i (nodeId pm) (liGeneration l) w of
                       Ret (_, w') \<Rightarrow> Ret w'
                     | GoPanic \<Rightarrow> GoPanic
                     | GoBlocks \<Rightarrow> GoBlocks))))"

definition Deactivate ::
  "string \<Rightarrow> string \<Rightarrow> ('a, 'q, 'd, 'p, 'w) gctx \<Rightarrow> 'w \<Rightarrow> (('a, 'q, 'd, 'p, 'w) gctx \<times> 'w) go" where
  "Deactivate t i c w =
     (case persist t i (state c) w of
        Ret (_, w1) \<Rightarrow>
          (case release t i (state c) w1 of
             Ret w2 \<Rightarrow> Ret (c\<lparr>ctrl := Quit (ctrl c)\<rparr>, w2)
           | GoPanic \<Rightarrow> GoPanic
           | GoBlocks \<Rightarrow> GoBlocks)
      | GoPanic \<Rightarrow> GoPanic
      | GoBlocks \<Rightarrow> GoBlocks)"

text \<open>\<open>activate\<close>; a nil lease beside \<open>ErrNotFound\<close> or success is dereferenced by the log line.\<close>

definition activate ::
  "string \<Rightarrow> string \<Rightarrow> ('p, 'w) PersistenceManager option \<Rightarrow> ('d, 'p) Snapshotter \<Rightarrow> ('d, 'p, 'w) GState \<Rightarrow> 'w
    \<Rightarrow> ((ActivateResult \<times> drverr option) \<times> ('d, 'p, 'w) GState \<times> 'w) go" where
  "activate t i pm sn st w =
     (if gpm st \<noteq> None then Ret ((ActivateLoaded, None), st, w)
      else case Option.bind pm driver of
             None \<Rightarrow> GoPanic
           | Some drv \<Rightarrow>
               (case drvLoad drv t i (nodeId (the pm)) (NewPersist sn (gData st)) w of
                  GoPanic \<Rightarrow> GoPanic
                | GoBlocks \<Rightarrow> GoBlocks
                | Ret ((l, err, snapshot), w') \<Rightarrow>
                    (let st1 = st\<lparr>gData := writeThrough sn (gData st) snapshot\<rparr> in
                     case err of
                       Some ErrNotFound \<Rightarrow>
                         (if l = None then GoPanic
                          else Ret ((ActivateCreated, None), st1\<lparr>gpm := pm, lease := l, snap := Some sn\<rparr>, w'))
                     | Some e \<Rightarrow> Ret ((ActivateLoaded, Some e), st1, w')
                     | None \<Rightarrow>
                         (if l = None then GoPanic
                          else Ret ((ActivateLoaded, None),
                                    st1\<lparr>gData := LoadSnapshot sn (gData st1) snapshot, gpm := pm, lease := l, snap := Some sn\<rparr>,
                                    w')))))"

definition Activate ::
  "string \<Rightarrow> string \<Rightarrow> ('p, 'w) PersistenceManager option \<Rightarrow> ('d, 'p) Snapshotter \<Rightarrow> ('a, 'q, 'd, 'p, 'w) gctx \<Rightarrow> 'w
    \<Rightarrow> ((ActivateResult \<times> drverr option) \<times> ('a, 'q, 'd, 'p, 'w) gctx \<times> 'w) go" where
  "Activate t i pm sn c w =
     (case activate t i pm sn (state c) w of
        Ret ((res, Some e), st, w') \<Rightarrow> Ret ((res, Some e), c\<lparr>state := st\<rparr>, w')
      | Ret ((res, None), st, w') \<Rightarrow> Ret ((res, None), c\<lparr>state := st, ctrl := Open (ctrl c)\<rparr>, w')
      | GoPanic \<Rightarrow> GoPanic
      | GoBlocks \<Rightarrow> GoBlocks)"

text \<open>\<open>Persist\<close> for handlers, and the adapter \<open>CIS\<close> for functions on the control block, the identity and the grain's data.\<close>

definition Persist ::
  "string \<Rightarrow> string \<Rightarrow> ('a, 'q, 'd, 'p, 'w) gctx \<Rightarrow> 'w \<Rightarrow> (drverr option \<times> 'w) go" where
  "Persist t i c w = persist t i (state c) w"

definition grain_ControlState ::
  "'a \<Rightarrow> ('a, 'q, 'd, 'p, 'w) gctx \<Rightarrow> ('a, 'q, (('d, 'p, 'w) GState, 'w) hookst, grain_cb) ActorControl \<times> 'a \<times> 'd" where
  "grain_ControlState i c = (ctrl c, i, gData (state c))"

definition grain_CIS ::
  "'a \<Rightarrow> (('a, 'q, (('d, 'p, 'w) GState, 'w) hookst, grain_cb) ActorControl \<Rightarrow> 'a \<Rightarrow> 'd \<Rightarrow> 'w \<Rightarrow> 'q \<Rightarrow> bool
        \<Rightarrow> (('a, 'q, (('d, 'p, 'w) GState, 'w) hookst, grain_cb) ActorControl \<times> 'd, 'w, 'r, 'err) outcome)
    \<Rightarrow> 'w \<Rightarrow> ('a, 'q, 'd, 'p, 'w) gctx \<Rightarrow> 'q \<Rightarrow> bool \<Rightarrow> (('a, 'q, 'd, 'p, 'w) gctx, 'w, 'r, 'err) outcome" where
  "grain_CIS i cis w c q spawning =
     (let (ct, j, d) = grain_ControlState i c in
      case cis ct j d w q spawning of
        HReturn (ct', d') w' rep err \<Rightarrow> HReturn (c\<lparr>ctrl := ct', state := (state c)\<lparr>gData := d'\<rparr>\<rparr>) w' rep err
      | HPanic (ct', d') w' e \<Rightarrow> HPanic (c\<lparr>ctrl := ct', state := (state c)\<lparr>gData := d'\<rparr>\<rparr>) w' e)"

text \<open>A handler made by \<open>CIS\<close> cannot touch the lease, the persistence manager or the snapshotter of its grain.\<close>

lemma grain_CIS_keeps_lease:
  assumes "grain_CIS i cis w c q sp = HReturn c' w' rep err \<or> grain_CIS i cis w c q sp = HPanic c' w' e"
  shows "lease (state c') = lease (state c) \<and> gpm (state c') = gpm (state c) \<and> snap (state c') = snap (state c)"
  using assms by (auto simp: grain_CIS_def grain_ControlState_def split: outcome.splits)

definition Activated :: "('d, 'p, 'w) GState \<Rightarrow> bool" where
  "Activated st \<longleftrightarrow> gpm st \<noteq> None \<and> lease st \<noteq> None"

subsection \<open>\<open>SetupGrain\<close>\<close>

text \<open>The timer's callback: an error is logged, a panic is recovered by the timer.\<close>

definition auto_persist ::
  "string \<Rightarrow> string \<Rightarrow> 'w \<Rightarrow> ('a, 'q, 'd, 'p, 'w) gctx \<Rightarrow> ('a, 'q, 'd, 'p, 'w) gctx \<times> 'w" where
  "auto_persist t i w c = (case persist t i (state c) w of Ret (_, w') \<Rightarrow> (c, w') | _ \<Rightarrow> (c, w))"

text \<open>The quit hook; the first component of its result says that it panicked.\<close>

definition grain_quit ::
  "string \<Rightarrow> string \<Rightarrow> (('d, 'p, 'w) GState, 'w) hookst \<Rightarrow> bool \<times> (('d, 'p, 'w) GState, 'w) hookst" where
  "grain_quit t i = (\<lambda>(cancelled, st, w).
     case persist t i st w of
       Ret (_, w1) \<Rightarrow>
         (case release t i st w1 of
            Ret w2 \<Rightarrow> (False, (cancelled, st, w2))
          | _ \<Rightarrow> (True, (cancelled, st, w1)))
     | _ \<Rightarrow> (True, (cancelled, st, w)))"

text \<open>The \<open>OnSpawn\<close> function; \<open>onActivate\<close> is the user's callback, which may change the data and the control block.\<close>

definition grain_OnSpawn ::
  "string \<Rightarrow> string \<Rightarrow> ('p, 'w) PersistenceManager option \<Rightarrow> ('d, 'p) Snapshotter
    \<Rightarrow> (bool \<Rightarrow> ('a, 'q, 'd, 'p, 'w) gctx \<Rightarrow> drverr option \<times> ('a, 'q, 'd, 'p, 'w) gctx) option
    \<Rightarrow> ('a, 'q, 'd, 'p, 'w) gctx \<Rightarrow> 'w \<Rightarrow> (drverr option \<times> ('a, 'q, 'd, 'p, 'w) gctx \<times> 'w) go" where
  "grain_OnSpawn t i pm sn onActivate c w =
     (case Activate t i pm sn c w of
        GoPanic \<Rightarrow> GoPanic
      | GoBlocks \<Rightarrow> GoBlocks
      | Ret ((res, Some e), c1, w1) \<Rightarrow> Ret (Some e, c1, w1)
      | Ret ((res, None), c1, w1) \<Rightarrow>
          (case (case onActivate of None \<Rightarrow> (None, c1) | Some f \<Rightarrow> f (res = ActivateCreated) c1) of
             (Some e, c2) \<Rightarrow> Ret (Some e, c2, w1)
           | (None, c2) \<Rightarrow>
               (let interval = (case pm of None \<Rightarrow> 0 | Some m \<Rightarrow> persistInterval m);
                    ct = (if interval > 0 then snd (Timer ''grain_auto_persist'' interval (UserFn AutoPersist) (ctrl c2))
                          else ctrl c2)
                in Ret (None, c2\<lparr>ctrl := PushOnQuit (Some (grain_quit t i)) ct\<rparr>, w1))))"

subsection \<open>Quitting and handing over on Redis\<close>

text \<open>A grain that is active on a Redis driver with its lease.\<close>

definition redis_grain ::
  "'s redis_ops \<Rightarrow> RedisDriver \<Rightarrow> 'p redis_codec \<Rightarrow> string \<Rightarrow> int \<Rightarrow> ('d, 'p) Snapshotter \<Rightarrow> ('d, 'p, 's) GState \<Rightarrow> bool" where
  "redis_grain R d rc node g sn st \<longleftrightarrow>
     (\<exists>pm l. gpm st = Some pm \<and> lease st = Some l \<and> snap st = Some sn \<and> driver pm = Some (redis_driver R d rc) \<and>
        nodeId pm = node \<and> liGeneration l = g)"

lemma redis_quit:
  assumes R: "redis_hash R" and st: "redis_grain R d rc node g sn st"
    and snap: "TakeSnapshot sn (gData st) = Some p" "rMarshal rc p = Inr data"
    and ttl: "0 < dataTTL d" "0 \<le> g"
    and held: "cur_owner R (redis_key d t i) w = node" "cur_gen R (redis_key d t i) w = g" and node: "node \<noteq> []"
  shows "\<exists>w'. grain_quit t i (cn, st, w) = (False, (cn, st, w')) \<and> EXISTS R (redis_key d t i) w' \<and>
    cur_owner R (redis_key d t i) w' = [] \<and> cur_gen R (redis_key d t i) w' = g \<and> cur_data R (redis_key d t i) w' = data"
proof -
  let ?k = "redis_key d t i"
  obtain w1 where w1: "saveLua R ?k node g data (dataTTL d) 0 w = (1, w1)"
    "cur_owner R ?k w1 = node" "cur_gen R ?k w1 = g" "cur_data R ?k w1 = data"
    using redis_hash.save_fenced [OF R ttl, where key = ?k and s = w and owner = node and data = data and renew = 0] held
    by auto
  let ?w2 = "HSET R ?k [(''owner'', [])] w1"
  have r: "releaseLua R ?k node g w1 = (1, ?w2)" using w1 by (simp add: releaseLua_def)
  have h: "HGET R ?k f ?w2 = (if f = ''owner'' then Some [] else HGET R ?k f w1)" for f
    using redis_hash.HGET_HSET [OF R] by simp
  have "cur_owner R ?k ?w2 = []" "cur_gen R ?k ?w2 = g" "cur_data R ?k ?w2 = data"
    using w1(3,4) by (simp_all add: cur_owner_def cur_gen_def cur_data_def h)
  moreover have "EXISTS R ?k ?w2" using redis_hash.EXISTS_iff [OF R] h by (metis option.distinct(1))
  moreover have "grain_quit t i (cn, st, w) = (False, (cn, st, ?w2))"
    using st snap w1(1) r ttl(1)
    by (auto simp: redis_grain_def grain_quit_def persist_def release_def redis_driver_def redis_Save_def redis_Release_def)
  ultimately show ?thesis by blast
qed

lemma redis_quit_fenced:
  assumes "redis_grain R d rc node g sn st"
    "cur_owner R (redis_key d t i) w \<noteq> node \<or> cur_gen R (redis_key d t i) w \<noteq> g"
  shows "grain_quit t i (cn, st, w) = (False, (cn, st, w))"
  using assms
  by (auto simp: redis_grain_def grain_quit_def persist_def release_def redis_driver_def redis_Save_def redis_Release_def
      saveLua_def releaseLua_def split: option.splits sum.splits)

text \<open>C25: A grain hands its last state over. A grain, on a Redis server that keeps the hash contract, that holds its lease when it
  quits saves its data and releases the lease; the next activation on another node then returns
  \<open>ActivateLoaded\<close> with exactly that data and a lease with the next generation. A grain whose lease was taken over
  in the meantime changes nothing when it quits.\<close>

theorem grain_hands_over:
  fixes st :: "('d, 'd, 's) GState"
  assumes "redis_hash R" "redis_grain R d rc node g ShotSelf st" "node \<noteq> []"
    "rMarshal rc (gData st) = Inr data" "unmarshalData rc data (gData st0) = (None, gData st)"
    "0 < dataTTL d" "0 < leaseTimeout d" "0 \<le> g" "gpm st0 = None"
    "driver pm' = Some (redis_driver R d rc)" "nodeId pm' \<noteq> []"
  shows "if cur_owner R (redis_key d t i) w = node \<and> cur_gen R (redis_key d t i) w = g
    then \<exists>w' st' w''. grain_quit t i (cn, st, w) = (False, (cn, st, w')) \<and>
      activate t i (Some pm') ShotSelf st0 w' = Ret ((ActivateLoaded, None), st', w'') \<and> gData st' = gData st \<and>
      lease st' = Some \<lparr>liKey = i, liOwner = nodeId pm', liGeneration = g + 1\<rparr>
    else grain_quit t i (cn, st, w) = (False, (cn, st, w))"
proof (cases "cur_owner R (redis_key d t i) w = node \<and> cur_gen R (redis_key d t i) w = g")
  case True
  let ?k = "redis_key d t i"
  obtain w' where w': "grain_quit t i (cn, st, w) = (False, (cn, st, w'))" "EXISTS R ?k w'"
    "cur_owner R ?k w' = []" "cur_gen R ?k w' = g" "cur_data R ?k w' = data"
    using redis_quit [OF assms(1,2) _ assms(4,6,8), of t i w cn] True assms(3) by (auto simp: ShotSelf_def)
  obtain w'' where "loadLua R ?k (nodeId pm') (leaseTimeout d) w' =
      ([RInt 1, RStr (nodeId pm'), RInt (g + 1), RInt 0, RStr data], w'')"
    using redis_hash.load_takes_over [OF assms(1) w'(2), of "nodeId pm'" "leaseTimeout d"] w'(3-5) assms(7,11) by auto
  then have "redis_Load R d rc t i (nodeId pm') (gData st0) w' =
      Ret ((Some \<lparr>liKey = i, liOwner = nodeId pm', liGeneration = g + 1\<rparr>, None, gData st), w'')"
    using assms(5) by (simp add: redis_Load_def)
  then have "\<exists>st'. activate t i (Some pm') ShotSelf st0 w' = Ret ((ActivateLoaded, None), st', w'') \<and>
      gData st' = gData st \<and> lease st' = Some \<lparr>liKey = i, liOwner = nodeId pm', liGeneration = g + 1\<rparr>"
    using assms(9,10) by (simp add: activate_def redis_driver_def ShotSelf_def Let_def)
  with w'(1) True show ?thesis by auto
next
  case False
  then have "grain_quit t i (cn, st, w) = (False, (cn, st, w))" by (intro redis_quit_fenced [OF assms(2)]) auto
  with False show ?thesis by (simp only: if_False)
qed

definition demo_pm :: "string \<Rightarrow> (string, memstore) PersistenceManager" where
  "demo_pm node = NewPersistenceManager [WithDriver (redis_driver mem_redis demo_redis demo_rc), WithNodeId node,
     WithAutoPersistInterval 30]"

definition demo_grain :: "(string, string, memstore) GState" where
  "demo_grain = \<lparr>gData = ''hp=9'', lease = Some \<lparr>liKey = ''1'', liOwner = ''n1'', liGeneration = 4\<rparr>, gpm = Some (demo_pm ''n1''),
     snap = Some ShotSelf\<rparr>"

theorem grain_hands_over_witness:
  "\<exists>w' st' w''. grain_quit ''P'' ''1'' (True, demo_grain, demo_store(''g:P:1'' \<mapsto> ([''owner'' \<mapsto> ''n1'', ''generation'' \<mapsto> ''4''], 50))) =
      (False, (True, demo_grain, w')) \<and>
    activate ''P'' ''1'' (Some (demo_pm ''n2'')) ShotSelf \<lparr>gData = [], lease = None, gpm = None, snap = None\<rparr> w' =
      Ret ((ActivateLoaded, None), st', w'') \<and> gData st' = ''hp=9''"
proof -
  let ?w = "demo_store(''g:P:1'' \<mapsto> ([''owner'' \<mapsto> ''n1'', ''generation'' \<mapsto> ''4''], 50))"
  let ?st0 = "\<lparr>gData = [], lease = None, gpm = None, snap = None\<rparr> :: (string, string, memstore) GState"
  have "lua_tonumber ''4'' = 4" by code_simp
  then have "cur_owner mem_redis (redis_key demo_redis ''P'' ''1'') ?w = ''n1'' \<and>
      cur_gen mem_redis (redis_key demo_redis ''P'' ''1'') ?w = 4"
    by (simp add: demo_store_reads(4)) (simp add: cur_owner_def cur_gen_def mem_redis_def)
  moreover have "redis_grain mem_redis demo_redis demo_rc ''n1'' 4 ShotSelf demo_grain"
    by (simp add: redis_grain_def demo_grain_def demo_pm_def NewPersistenceManager_def WithDriver_def WithNodeId_def
      WithAutoPersistInterval_def)
  moreover have "0 < dataTTL demo_redis" "0 < leaseTimeout demo_redis"
    by (simp_all add: demo_redis_def NewRedisDriver_def DefaultLeaseTimeout_def)
  ultimately show ?thesis
    using grain_hands_over [OF mem.redis_hash_axioms, of demo_redis demo_rc "''n1''" 4 demo_grain "''hp=9''" ?st0 "demo_pm ''n2''"
        "''P''" "''1''" ?w True]
    by (auto simp: demo_rc_def unmarshalData_def demo_grain_def demo_pm_def NewPersistenceManager_def
        WithDriver_def WithNodeId_def
      WithAutoPersistInterval_def)
qed

subsection \<open>Timers and failures of \<open>SetupGrain\<close>\<close>

lemma Timer_single:
  assumes "timers a = []" "Timer name d f a = (j, a')"
  shows "\<exists>it stub. timers a' = [(j, it)] \<and> runtimeTimers a' = runtimeTimers a @ [stub] \<and>
    stubFn stub = f \<and> stubId stub = j \<and> timer it = stubT stub"
  using assms by (auto simp: Timer_def next_from_def Let_def split: prod.splits)

lemma PushOnQuit_timers [simp]:
  "timers (PushOnQuit h a) = timers a" "runtimeTimers (PushOnQuit h a) = runtimeTimers a"
  by (simp_all add: PushOnQuit_def split: option.splits)

lemma Activate_ctrl:
  "Activate t i pm sn c w = Ret ((res, err), c', w') \<Longrightarrow>
     timers (ctrl c') = timers (ctrl c) \<and> runtimeTimers (ctrl c') = runtimeTimers (ctrl c)"
  by (auto simp: Activate_def Open_def split: go.splits prod.splits option.splits)

text \<open>The automatic save happens once. When \<open>SetupGrain\<close> starts a grain without timers, and with an interval, it arms
  exactly one timer; when that timer fires, the grain is persisted, the activation's table of timers is
  empty and no further timer has been armed, so that \<open>WithAutoPersistInterval\<close> does not give saves at that
  interval.\<close>

theorem auto_persist_fires_once:
  assumes "grain_OnSpawn t i (Some pm) sn None c w = Ret (None, c1, w1)" "0 < persistInterval pm"
    "timers (ctrl c) = []" "runtimeTimers (ctrl c) = []" "run_cb env = (\<lambda>_. auto_persist t i)"
  shows "\<exists>stub. runtimeTimers (ctrl c1) = [stub] \<and> stubFn stub = UserFn AutoPersist \<and>
    (\<forall>m. timers (ctrl (fst (timer_Invoke env stub c1 m))) = [] \<and>
       runtimeTimers (ctrl (fst (timer_Invoke env stub c1 m))) = runtimeTimers (ctrl c1) \<and>
       world (snd (timer_Invoke env stub c1 m)) =
         (case persist t i (state c1) (world m) of Ret (_, w') \<Rightarrow> w' | _ \<Rightarrow> world m))"
proof -
  obtain res c0 where c0: "Activate t i (Some pm) sn c w = Ret ((res, None), c0, w1)"
    "c1 = c0\<lparr>ctrl := PushOnQuit (Some (grain_quit t i))
       (snd (Timer ''grain_auto_persist'' (persistInterval pm) (UserFn AutoPersist) (ctrl c0)))\<rparr>"
    using assms(1,2) by (auto simp: grain_OnSpawn_def Let_def split: go.splits prod.splits option.splits)
  obtain j ct where ct: "Timer ''grain_auto_persist'' (persistInterval pm) (UserFn AutoPersist) (ctrl c0) = (j, ct)"
    by fastforce
  have "timers (ctrl c0) = []" "runtimeTimers (ctrl c0) = []" using Activate_ctrl [OF c0(1)] assms(3,4) by simp_all
  with Timer_single [OF _ ct] obtain it stub where s: "timers ct = [(j, it)]" "runtimeTimers ct = [stub]"
    "stubFn stub = UserFn AutoPersist" "stubId stub = j" "timer it = stubT stub" by auto
  show ?thesis
  proof (intro exI [of _ stub] conjI allI)
    fix m
    show "timers (ctrl (fst (timer_Invoke env stub c1 m))) = []"
      "runtimeTimers (ctrl (fst (timer_Invoke env stub c1 m))) = runtimeTimers (ctrl c1)"
      "world (snd (timer_Invoke env stub c1 m)) =
         (case persist t i (state c1) (world m) of Ret (_, w') \<Rightarrow> w' | _ \<Rightarrow> world m)"
      using s by (auto simp: c0(2) ct timer_Invoke_def assms(5) auto_persist_def invokeLogger_def Let_def
          split: go.splits prod.splits)
  qed (use s in \<open>simp_all add: c0(2) ct\<close>)
qed

text \<open>A failing \<open>onActivate\<close> keeps the lease. When the user's callback returns an error, \<open>SetupGrain\<close> refuses the spawn
  but neither releases the lease it has just loaded nor installs the quit hook that would; the store stays as
  activation left it, with this node as the owner.\<close>

theorem onActivate_error_keeps_lease:
  assumes "gpm (state c) = None" "OnQuit (ctrl c) = None" "Activate t i pm sn c w = Ret ((res, None), c1, w1)"
    "f (res = ActivateCreated) c1 = (Some e, c1)"
  shows "grain_OnSpawn t i pm sn (Some f) c w = Ret (Some e, c1, w1) \<and> OnQuit (ctrl c1) = None \<and> Activated (state c1)"
proof -
  have "Activated (state c1) \<and> OnQuit (ctrl c1) = None"
    using assms(1-3) by (auto simp: Activate_def activate_def Activated_def Let_def Open_def Option.bind_eq_Some_conv
        split: go.splits prod.splits option.splits if_splits drverr.splits)
  with assms(3,4) show ?thesis by (simp add: grain_OnSpawn_def)
qed

definition demo_gctx :: "(unit, (unit, (unit, unit) goerr) request, string, string, memstore) gctx" where
  "demo_gctx = \<lparr>ctrl = newActorControl ''P:1'', state = \<lparr>gData = [], lease = None, gpm = None, snap = None\<rparr>\<rparr>"

lemma demo_activate:
  "\<exists>c1 w1. Activate ''P'' ''1'' (Some (demo_pm ''n2'')) ShotSelf demo_gctx demo_store = Ret ((ActivateLoaded, None), c1, w1)"
proof -
  have "\<exists>s'. redis_Load mem_redis demo_redis demo_rc ''P'' ''1'' ''n2'' [] demo_store =
      Ret ((Some \<lparr>liKey = ''1'', liOwner = ''n2'', liGeneration = cur_gen mem_redis ''g:P:1'' demo_store + 1\<rparr>, None, ''x''), s')"
  proof -
    obtain s' where "loadLua mem_redis ''g:P:1'' ''n2'' (leaseTimeout demo_redis) demo_store =
        ([RInt 1, RStr ''n2'', RInt (cur_gen mem_redis ''g:P:1'' demo_store + 1), RInt 0, RStr ''x''], s')"
      using mem.load_takes_over [of "''g:P:1''" demo_store "''n2''" "leaseTimeout demo_redis"]
      by (auto simp: demo_store_reads demo_redis_def NewRedisDriver_def DefaultLeaseTimeout_def)
    then show ?thesis by (simp add: redis_Load_def demo_store_reads unmarshalData_def demo_rc_def)
  qed
  then show ?thesis
    by (auto simp: Activate_def activate_def demo_gctx_def demo_pm_def NewPersistenceManager_def WithDriver_def
        WithNodeId_def WithAutoPersistInterval_def redis_driver_def ShotSelf_def)
qed

theorem onActivate_error_keeps_lease_witness:
  "\<exists>c1 w1. grain_OnSpawn ''P'' ''1'' (Some (demo_pm ''n2'')) ShotSelf (Some (\<lambda>_ c. (Some (DrvErr ''bad''), c))) demo_gctx demo_store =
     Ret (Some (DrvErr ''bad''), c1, w1) \<and> Activated (state c1)"
proof -
  obtain c1 w1 where "Activate ''P'' ''1'' (Some (demo_pm ''n2'')) ShotSelf demo_gctx demo_store =
      Ret ((ActivateLoaded, None), c1, w1)" using demo_activate by blast
  from onActivate_error_keeps_lease [OF _ _ this, of "\<lambda>_ c. (Some (DrvErr ''bad''), c)" "DrvErr ''bad''"]
  show ?thesis by (auto simp: demo_gctx_def newActorControl_def)
qed

definition demo_genv :: "(unit, unit, unit, unit, (string, string, memstore) GState, memstore, grain_cb, unit) env" where
  "demo_genv = \<lparr>ops = \<lparr>ActorType = (\<lambda>_. ''P''), IdString = (\<lambda>_. ''1'')\<rparr>, self = (), zeroState = \<lparr>gData = [], lease = None, gpm = None, snap = None\<rparr>,
     run_fn = (\<lambda>_ w c _ _. HReturn c w None None), run_cb = (\<lambda>_. auto_persist ''P'' ''1''), onSpawn = None, panicHandler = None,
     fpostOp = (\<lambda>w _ _ _. (None, w))\<rparr>"

theorem auto_persist_fires_once_witness:
  "\<exists>c1 w1 stub. grain_OnSpawn ''P'' ''1'' (Some (demo_pm ''n2'')) ShotSelf None demo_gctx demo_store = Ret (None, c1, w1) \<and>
     runtimeTimers (ctrl c1) = [stub] \<and> (\<forall>m. timers (ctrl (fst (timer_Invoke demo_genv stub c1 m))) = [])"
proof -
  obtain c0 w1 where "Activate ''P'' ''1'' (Some (demo_pm ''n2'')) ShotSelf demo_gctx demo_store =
      Ret ((ActivateLoaded, None), c0, w1)" using demo_activate by blast
  then obtain c1 where c1: "grain_OnSpawn ''P'' ''1'' (Some (demo_pm ''n2'')) ShotSelf None demo_gctx demo_store = Ret (None, c1, w1)"
    by (simp add: grain_OnSpawn_def Let_def)
  have "0 < persistInterval (demo_pm ''n2'')"
    by (simp add: demo_pm_def NewPersistenceManager_def WithDriver_def WithNodeId_def WithAutoPersistInterval_def)
  from auto_persist_fires_once [OF c1 this, of demo_genv] c1 show ?thesis
    by (auto simp: demo_gctx_def newActorControl_def demo_genv_def)
qed

end
