(* ===== verification/Cluster_Lease.thy ===== *)
theory Cluster_Lease
  imports Cluster_Router Grain_Lifecycle
begin

section \<open>Lease retries of the router over a grain's store\<close>

text \<open>
  \<open>cluster/cluster.go\<close> together with \<open>grain/\<close>: a router whose \<open>ForceReleaser\<close> is the persistence manager of its node. The
  state of the router's node is a pair of whatever the local manager keeps and the store the driver works on. The
  theory shows what \<open>handleLeaseCall\<close> does to the lease, and what the former holder and the next activation then see.
\<close>

text \<open>A \<open>PersistenceManager\<close> as the interface \<open>LeaseForceReleaser\<close>, with its errors as text. The forced releases of the
  drivers return; a driver's panic, which the interface's type here cannot express, is an error of its own.\<close>

definition drverr_text :: "drverr \<Rightarrow> string" where
  "drverr_text e =
     (case e of ErrNotFound \<Rightarrow> ''grain: snapshot not found'' | LeaseTaken l \<Rightarrow> ErrLeaseTaken_String l | DrvErr m \<Rightarrow> m
      | ErrNoDriver \<Rightarrow> ''grain: no driver configured in PersistenceManager'')"

definition pm_releaser ::
  "('p, 's) PersistenceManager \<Rightarrow> string \<Rightarrow> string \<Rightarrow> 'm \<times> 's \<Rightarrow> (string + int) \<times> ('m \<times> 's)" where
  "pm_releaser pm t i = (\<lambda>(m, s).
     case pm_ForceRelease pm t i s of
       Ret (Inl e, s') \<Rightarrow> (Inl (drverr_text e), (m, s'))
     | Ret (Inr g, s') \<Rightarrow> (Inr g, (m, s'))
     | _ \<Rightarrow> (Inl ''panic'', (m, s)))"

subsection \<open>A forced release on Redis\<close>

text \<open>The store after a forced release: no owner, the next generation, the same data.\<close>

definition released :: "'s redis_ops \<Rightarrow> string \<Rightarrow> 's \<Rightarrow> 's \<Rightarrow> bool" where
  "released R k s s' \<longleftrightarrow>
     EXISTS R k s' \<and> cur_owner R k s' = [] \<and> cur_gen R k s' = cur_gen R k s + 1 \<and> cur_data R k s' = cur_data R k s"

context redis_hash
begin

lemma force_release:
  assumes "0 < ttl"
  shows "\<exists>s'. forceReleaseLua R k ttl s = (cur_gen R k s + 1, s') \<and> released R k s s'"
proof -
  have g: "0 \<le> cur_gen R k s + 1" using cur_gen_nonneg [of k s] by simp
  let ?s1 = "HSET R k [(''owner'', []), (''generation'', Itoa (cur_gen R k s + 1))] s"
  have "EXISTS R k (PEXPIRE R k ttl ?s1)"
    unfolding EXISTS_iff HGET_PEXPIRE [OF assms] by (auto simp: HGET_HSET intro: exI [of _ "''owner''"])
  moreover have "cur_owner R k ?s1 = []" "cur_gen R k ?s1 = cur_gen R k s + 1" "cur_data R k ?s1 = cur_data R k s"
    using g by (simp_all add: cur_owner_def cur_gen_def cur_data_def HGET_HSET)
  ultimately show ?thesis using assms by (simp add: forceReleaseLua_def Let_def released_def)
qed

lemma released_load:
  assumes "released R k s s'" "owner \<noteq> []" "0 < ttl"
  shows "\<exists>s''. loadLua R k owner ttl s' = ([RInt 1, RStr owner, RInt (cur_gen R k s + 2), RInt 0, RStr (cur_data R k s)], s'')"
  using load_takes_over [of k s' owner ttl] assms by (auto simp: released_def add.assoc)

end

lemma released_fences:
  assumes "released R (redis_key d t i) s s'" "nd \<noteq> []"
  shows "\<exists>e. redis_Save R d rc t i nd src g s' = Ret (Some e, s')"
  using assms by (auto simp: released_def redis_Save_def saveLua_def Let_def split: option.splits sum.splits)

lemma pm_releaser_redis:
  assumes "redis_hash R" "driver pm = Some (redis_driver R d rc)" "0 < leaseTimeout d"
  shows "\<exists>s'. pm_releaser pm t i (m, s) = (Inr (cur_gen R (redis_key d t i) s + 1), (m, s')) \<and>
    released R (redis_key d t i) s s'"
  using redis_hash.force_release [OF assms(1,3), of "redis_key d t i" s] assms(2)
  by (auto simp: pm_releaser_def pm_ForceRelease_def redis_driver_def redis_ForceRelease_def)

subsection \<open>The retry\<close>

text \<open>A local call that failed because the lease is taken by a holder, on a router with lease retries.\<close>

definition lease_refused ::
  "('a, 'q, 'r, 'err, 'w, 'n) Router \<Rightarrow> 'a \<Rightarrow> 'q \<Rightarrow> ErrLeaseTaken \<Rightarrow> ('w, 'n) rstate \<Rightarrow> ('w, 'n) rstate \<Rightarrow> bool" where
  "lease_refused r i q tk s s1 \<longleftrightarrow>
     LeaseRetry r \<and> (\<exists>e. callOnce r i q s = Ret (Inl (LocalErr e), s1) \<and> asTaken r e = Some tk)"

lemma retry_after_release:
  assumes "lease_refused r i q tk s s1" "tryForwardCall r i q tk s1 = (None, s2)" "ForceReleaser r = Some force"
    and "force (ActorType (idops r) i) (IdString (idops r) i) (rmgr s2) = (Inr g, w)"
  shows "cluster_Call r i q s = callOnce r i q (s2\<lparr>rmgr := w\<rparr>)"
  using assms by (auto simp: lease_refused_def cluster_Call_def handleLeaseCall_def)

text \<open>The lease's holder cannot be reached: it left the cluster, or dialling it fails.\<close>

definition unreachable :: "('a, 'q, 'r, 'err, 'w, 'n) Router \<Rightarrow> string \<Rightarrow> ('w, 'n) rstate \<Rightarrow> bool" where
  "unreachable r owner s \<longleftrightarrow>
     (\<forall>n. Lookup (Members r) owner = Some n \<longrightarrow>
        map_of (clients s) (Addr n) = None \<and> (\<exists>e n'. dial (rnetwork r) (Addr n) (rnet s) = (Inl e, n')))"

lemma forward_unreachable:
  assumes "unreachable r (ltOwner tk) s"
  shows "\<exists>s2. tryForwardCall r i q tk s = (None, s2) \<and> rmgr s2 = rmgr s"
  using assms by (auto simp: unreachable_def tryForwardCall_def getOrDial_def Let_def split: option.splits)

text \<open>The holder is a healthy member with a pooled connection, but the forwarded call returns an error.\<close>

lemma forward_error:
  assumes "ltOwner tk \<noteq> []" "ltOwner tk \<noteq> ID (Self r)" "Lookup (Members r) (ltOwner tk) = Some n"
    and "map_of (clients s) (Addr n) = Some c" "nCall (rnetwork r) c i q (rnet s) = (Inl e, n')"
  shows "tryForwardCall r i q tk s = (None, remove_client (rnetwork r) (Addr n) (s\<lparr>rnet := n'\<rparr>))"
  using assms by (simp add: tryForwardCall_def getOrDial_def)

lemma rmgr_remove_client [simp]: "rmgr (remove_client nw a s) = rmgr s"
  by (simp add: remove_client_def split: option.splits)

subsection \<open>Properties\<close>

text \<open>C22: A call to a grain whose lease is held by a node that cannot be reached takes the grain over. With the
  persistence manager of the local node on Redis as \<open>ForceReleaser\<close>, a call that is refused because of the lease
  releases it by force and is dispatched once more, on a store with no owner and the next generation. There the
  former holder can no longer save, nor change anything when it quits, and an activation on any node loads
  exactly the data last saved, with the generation after that.\<close>

theorem forced_takeover_resumes:
  fixes st0 :: "('d, 'd, 's) GState"
  assumes "redis_hash R" "driver pm = Some (redis_driver R d rc)" "0 < leaseTimeout d"
    and "lease_refused r i q tk st (st1 :: ('m \<times> 's, 'n) rstate)" "ForceReleaser r = Some (pm_releaser pm)"
    and "unreachable r (ltOwner tk) st1"
    and "rmgr st1 = (m, s)" "k = redis_key d (ActorType (idops r) i) (IdString (idops r) i)"
    and "unmarshalData rc (cur_data R k s) (gData st0) = (None, p)" "gpm st0 = None"
  shows "\<exists>st' s'. cluster_Call r i q st = callOnce r i q st' \<and> rmgr st' = (m, s') \<and>
    (\<forall>nd src g. nd \<noteq> [] \<longrightarrow>
       (\<exists>e. redis_Save R d rc (ActorType (idops r) i) (IdString (idops r) i) nd src g s' = Ret (Some e, s'))) \<and>
    (\<forall>nd g sn (gst :: ('d, 'd, 's) GState) cn. nd \<noteq> [] \<longrightarrow> redis_grain R d rc nd g sn gst \<longrightarrow>
       grain_quit (ActorType (idops r) i) (IdString (idops r) i) (cn, gst, s') = (False, (cn, gst, s'))) \<and>
    (\<forall>pm'. driver pm' = Some (redis_driver R d rc) \<longrightarrow> nodeId pm' \<noteq> [] \<longrightarrow>
       (\<exists>gst s''. activate (ActorType (idops r) i) (IdString (idops r) i) (Some pm') ShotSelf st0 s' =
          Ret ((ActivateLoaded, None), gst, s'') \<and> gData gst = p \<and>
          lease gst = Some \<lparr>liKey = IdString (idops r) i, liOwner = nodeId pm', liGeneration = cur_gen R k s + 2\<rparr>))"
proof -
  let ?t = "ActorType (idops r) i" and ?i = "IdString (idops r) i"
  obtain st2 where st2: "tryForwardCall r i q tk st1 = (None, st2)" "rmgr st2 = (m, s)"
    using forward_unreachable [OF assms(6)] assms(7) by metis
  obtain s' where s': "pm_releaser pm ?t ?i (m, s) = (Inr (cur_gen R k s + 1), (m, s'))" "released R k s s'"
    using pm_releaser_redis [OF assms(1-3), where t = ?t and i = ?i and m = m and s = s] assms(8) by auto
  have "cluster_Call r i q st = callOnce r i q (st2\<lparr>rmgr := (m, s')\<rparr>)"
    using retry_after_release [OF assms(4) st2(1) assms(5)] s'(1) st2(2) by simp
  moreover have "grain_quit ?t ?i (cn, gst, s') = (False, (cn, gst, s'))"
    if "nd \<noteq> []" "redis_grain R d rc nd g sn gst" for nd g sn cn and gst :: "('d, 'd, 's) GState"
    using redis_quit_fenced [OF that(2)] s'(2) that(1) assms(8) by (simp add: released_def)
  moreover have "\<exists>gst s''. activate ?t ?i (Some pm') ShotSelf st0 s' = Ret ((ActivateLoaded, None), gst, s'') \<and>
      gData gst = p \<and> lease gst = Some \<lparr>liKey = ?i, liOwner = nodeId pm', liGeneration = cur_gen R k s + 2\<rparr>"
    if drv: "driver pm' = Some (redis_driver R d rc)" and nd: "nodeId pm' \<noteq> []" for pm'
  proof -
    obtain s'' where "loadLua R k (nodeId pm') (leaseTimeout d) s' =
        ([RInt 1, RStr (nodeId pm'), RInt (cur_gen R k s + 2), RInt 0, RStr (cur_data R k s)], s'')"
      using redis_hash.released_load [OF assms(1) s'(2) nd assms(3)] by blast
    then have "redis_Load R d rc ?t ?i (nodeId pm') (gData st0) s' =
        Ret ((Some \<lparr>liKey = ?i, liOwner = nodeId pm', liGeneration = cur_gen R k s + 2\<rparr>, None, p), s'')"
      using assms(8,9) by (simp add: redis_Load_def)
    then show ?thesis using drv assms(10) by (simp add: activate_def redis_driver_def ShotSelf_def Let_def)
  qed
  ultimately show ?thesis
    using released_fences [OF s'(2) [unfolded assms(8)], where rc = rc]
    by (intro exI [of _ "st2\<lparr>rmgr := (m, s')\<rparr>"] exI [of _ s']) simp
qed

text \<open>C24: A business error of a healthy lease holder costs it its lease. When the holder is a member with an open
  connection and the forwarded call reaches it but returns an error, as every error of its handler does, the router
  closes the connection, releases the lease by force and runs the request a second time itself; the holder, still
  active, can then neither save nor keep anything when it quits.\<close>

theorem business_error_steals_lease:
  assumes "redis_hash R" "driver pm = Some (redis_driver R d rc)" "0 < leaseTimeout d"
    and "lease_refused r i q tk st (st1 :: ('m \<times> 's, 'n) rstate)" "ForceReleaser r = Some (pm_releaser pm)"
    and "ltOwner tk \<noteq> []" "ltOwner tk \<noteq> ID (Self r)" "Lookup (Members r) (ltOwner tk) = Some n"
    and "map_of (clients st1) (Addr n) = Some c"
    and "nCall (rnetwork r) c i q (rnet st1) = (Inl (ErrRpcCallFailed msg), n')"
    and "redis_grain R d rc (ltOwner tk) (ltGeneration tk) sn gst"
  shows "\<exists>st'. cluster_Call r i q st = callOnce r i q st' \<and>
    map_of (clients st') (Addr n) = None \<and>
    (\<exists>e. persist (ActorType (idops r) i) (IdString (idops r) i) gst (snd (rmgr st')) = Ret (Some e, snd (rmgr st'))) \<and>
    grain_quit (ActorType (idops r) i) (IdString (idops r) i) (cn, gst, snd (rmgr st')) =
      (False, (cn, gst, snd (rmgr st')))"
proof -
  let ?t = "ActorType (idops r) i" and ?i = "IdString (idops r) i"
  obtain m s where ms: "rmgr st1 = (m, s)" by fastforce
  let ?st2 = "remove_client (rnetwork r) (Addr n) (st1\<lparr>rnet := n'\<rparr>)"
  have fwd: "tryForwardCall r i q tk st1 = (None, ?st2)" by (rule forward_error [OF assms(6-10)])
  obtain s' where s': "pm_releaser pm ?t ?i (m, s) = (Inr (cur_gen R (redis_key d ?t ?i) s + 1), (m, s'))"
      "released R (redis_key d ?t ?i) s s'"
    using pm_releaser_redis [OF assms(1-3), where t = ?t and i = ?i and m = m and s = s] by auto
  have "cluster_Call r i q st = callOnce r i q (?st2\<lparr>rmgr := (m, s')\<rparr>)"
    using retry_after_release [OF assms(4) fwd assms(5)] s'(1) ms by simp
  moreover have "map_of (clients (?st2\<lparr>rmgr := (m, s')\<rparr>)) (Addr n) = None"
    using remove_client_gone [of "rnetwork r" "Addr n"] by simp
  moreover have "\<exists>e. persist ?t ?i gst s' = Ret (Some e, s')"
    using assms(11) released_fences [OF s'(2) assms(6)] by (auto simp: redis_grain_def persist_def redis_driver_def)
  moreover have "grain_quit ?t ?i (cn, gst, s') = (False, (cn, gst, s'))"
    using redis_quit_fenced [OF assms(11)] s'(2) assms(6) by (simp add: released_def)
  ultimately show ?thesis by (intro exI [of _ "?st2\<lparr>rmgr := (m, s')\<rparr>"]) simp
qed

text \<open>A node whose actor activates on every call, as node \<open>n2\<close> of a cluster with \<open>n1\<close>, which holds the lease.\<close>

definition lease_api :: "(unit, unit, nat, ErrLeaseTaken, unit \<times> memstore) actor_api" where
  "lease_api =
     \<lparr>apiPost = (\<lambda>_ _ w. Ret (None, w)),
      apiCall = (\<lambda>_ _ (m, s).
        case redis_Load mem_redis demo_redis demo_rc ''P'' ''1'' ''n2'' [] s of
          Ret ((_, Some (LeaseTaken l), _), s') \<Rightarrow> Ret (Inl l, (m, s'))
        | Ret (_, s') \<Rightarrow> Ret (Inr 0, (m, s'))
        | _ \<Rightarrow> GoPanic),
      apiBroadcast = (\<lambda>_ w. Ret (Inr 0, w)), apiMulticast = (\<lambda>_ _ w. Ret (Inr 0, w)), errText = ErrLeaseTaken_String\<rparr>"

definition lease_net :: "(unit, unit, nat, unit) net" where
  "lease_net = \<lparr>dial = (\<lambda>_ n. (Inl ''refused'', n)), hangup = (\<lambda>_ n. n), nPost = (\<lambda>_ _ _ n. (None, n)),
     nCall = (\<lambda>_ _ _ n. (Inl (ErrRpcCallFailed ''not enough gold''), n)),
     nBroadcast = (\<lambda>_ _ n. (None, n)), nMulticast = (\<lambda>_ _ _ n. (None, n)), others = (\<lambda>p. p)\<rparr>"

definition lease_router :: "(unit, unit, nat, ErrLeaseTaken, unit \<times> memstore, unit) Router" where
  "lease_router = NewRouter (demo_node ''n2'' []) [demo_node ''n1'' [], demo_node ''n2'' []] (\<lambda>_ _ _. Some (demo_node ''n2'' []))
     lease_api lease_net Some \<lparr>ActorType = (\<lambda>_. ''P''), IdString = (\<lambda>_. ''1'')\<rparr> [WithForceReleaser (pm_releaser (demo_pm ''n2''))]"

definition lease_store :: memstore where
  "lease_store = demo_store(''g:P:1'' \<mapsto> ([''owner'' \<mapsto> ''n1'', ''generation'' \<mapsto> ''4'', ''data'' \<mapsto> ''hp=9''], 50))"

definition lease_state :: "(string \<times> nat) list \<Rightarrow> (unit \<times> memstore, unit) rstate" where
  "lease_state cs = \<lparr>rmgr = ((), lease_store), rnet = (), clients = cs\<rparr>"

lemma lease_router_sel [simp]:
  "Self lease_router = demo_node ''n2'' []" "Members lease_router = [demo_node ''n1'' [], demo_node ''n2'' []]"
  "placement lease_router = (\<lambda>_ _ _. Some (demo_node ''n2'' []))" "LeaseRetry lease_router"
  "ForceReleaser lease_router = Some (pm_releaser (demo_pm ''n2''))" "api lease_router = lease_api"
  "rnetwork lease_router = lease_net" "asTaken lease_router = Some"
  "idops lease_router = \<lparr>ActorType = (\<lambda>_. ''P''), IdString = (\<lambda>_. ''1'')\<rparr>"
  by (simp_all add: lease_router_def NewRouter_def WithForceReleaser_def)

lemma lease_store_reads:
  "EXISTS mem_redis ''g:P:1'' lease_store" "cur_owner mem_redis ''g:P:1'' lease_store = ''n1''"
  "cur_data mem_redis ''g:P:1'' lease_store = ''hp=9''" "cur_gen mem_redis ''g:P:1'' lease_store = 4"
  "PTTL mem_redis ''g:P:1'' lease_store = 50"
proof -
  have "lua_tonumber ''4'' = 4" by code_simp
  then show "cur_gen mem_redis ''g:P:1'' lease_store = 4"
    by (simp add: mem_redis_def lease_store_def cur_gen_def)
qed (auto simp: mem_redis_def lease_store_def cur_owner_def cur_data_def fun_eq_iff)

lemma lease_demo_refused:
  "lease_refused lease_router () () \<lparr>ltKey = ''1'', ltOwner = ''n1'', ltGeneration = 4\<rparr> (lease_state cs) (lease_state cs)"
proof -
  have "loadLua mem_redis ''g:P:1'' ''n2'' ttl lease_store = ([RInt 0, RStr ''n1'', RInt 4], lease_store)" for ttl
    using mem.load_refused [OF lease_store_reads(1), of "''n2''" ttl] by (simp add: lease_store_reads)
  then show ?thesis
    by (simp add: lease_refused_def callOnce_def router_Place_def lease_api_def lease_state_def demo_store_reads(4)
        redis_Load_def)
qed

lemma lease_demo_driver:
  "driver (demo_pm nd) = Some (redis_driver mem_redis demo_redis demo_rc)" "nodeId (demo_pm nd) = nd"
  "0 < leaseTimeout demo_redis"
  by (simp_all add: demo_pm_def NewPersistenceManager_def WithDriver_def WithNodeId_def WithAutoPersistInterval_def
      demo_redis_def NewRedisDriver_def DefaultLeaseTimeout_def)

theorem forced_takeover_resumes_witness:
  "\<exists>st' s'. cluster_Call lease_router () () (lease_state []) = callOnce lease_router () () st' \<and> rmgr st' = ((), s') \<and>
    (\<exists>e. redis_Save mem_redis demo_redis demo_rc ''P'' ''1'' ''n1'' (Some ''hp=0'') 4 s' = Ret (Some e, s')) \<and>
    (\<exists>gst s''. activate ''P'' ''1'' (Some (demo_pm ''n2'')) ShotSelf \<lparr>gData = [], lease = None, gpm = None, snap = None\<rparr> s' =
       Ret ((ActivateLoaded, None), gst, s'') \<and> gData gst = ''hp=9'' \<and>
       lease gst = Some \<lparr>liKey = ''1'', liOwner = ''n2'', liGeneration = 6\<rparr>)"
proof -
  let ?st0 = "\<lparr>gData = [], lease = None, gpm = None, snap = None\<rparr> :: (string, string, memstore) GState"
  have u: "unreachable lease_router ''n1'' (lease_state [])"
    by (simp add: unreachable_def lease_state_def lease_net_def)
  have d: "unmarshalData demo_rc ''hp=9'' (gData ?st0) = (None, ''hp=9'')" by (simp add: unmarshalData_def demo_rc_def)
  obtain st' s' where f: "cluster_Call lease_router () () (lease_state []) = callOnce lease_router () () st'" "rmgr st' = ((), s')"
    and save: "\<And>nd src g. nd \<noteq> [] \<Longrightarrow> \<exists>e. redis_Save mem_redis demo_redis demo_rc ''P'' ''1'' nd src g s' = Ret (Some e, s')"
    and act: "\<And>pm'. driver pm' = Some (redis_driver mem_redis demo_redis demo_rc) \<Longrightarrow> nodeId pm' \<noteq> [] \<Longrightarrow>
      \<exists>gst s''. activate ''P'' ''1'' (Some pm') ShotSelf ?st0 s' = Ret ((ActivateLoaded, None), gst, s'') \<and>
        gData gst = ''hp=9'' \<and> lease gst = Some \<lparr>liKey = ''1'', liOwner = nodeId pm', liGeneration = 4 + 2\<rparr>"
    using forced_takeover_resumes [OF mem.redis_hash_axioms lease_demo_driver(1) [of "''n2''"] lease_demo_driver(3)
        lease_demo_refused [of "[]"], where k = "''g:P:1''" and ?st0.0 = ?st0 and p = "''hp=9''" and m = "()" and s = lease_store,
        unfolded lease_router_sel id_ops.simps demo_store_reads(4) lease_store_reads] u d
    by (simp only: lease_state_def rstate.simps GState.simps ErrLeaseTaken.simps) blast
  show ?thesis
    using f save [of "''n1''"] act [of "demo_pm ''n2''"] lease_demo_driver by (intro exI [of _ st'] exI [of _ s']) simp
qed

theorem business_error_steals_lease_witness:
  "\<exists>st'. cluster_Call lease_router () () (lease_state [(''n1'', 7)]) = callOnce lease_router () () st' \<and>
    map_of (clients st') ''n1'' = None \<and>
    (\<exists>e. persist ''P'' ''1'' demo_grain (snd (rmgr st')) = Ret (Some e, snd (rmgr st')))"
proof -
  have g: "redis_grain mem_redis demo_redis demo_rc ''n1'' 4 ShotSelf demo_grain"
    by (simp add: redis_grain_def demo_grain_def lease_demo_driver)
  have "Lookup (Members lease_router) ''n1'' = Some (demo_node ''n1'' [])" by (simp add: demo_node_def)
  then show ?thesis
    using business_error_steals_lease [OF mem.redis_hash_axioms lease_demo_driver(1) [of "''n2''"] lease_demo_driver(3)
        lease_demo_refused [of "[(''n1'', 7)]"], where n = "demo_node ''n1'' []" and c = 7 and n' = "()"
        and msg = "''not enough gold''" and gst = demo_grain and sn = ShotSelf and cn = True] g
    by (fastforce simp: lease_state_def lease_net_def demo_node_def)
qed

end
