(* ===== verification/Go_Strings.thy ===== *)
theory Go_Strings
  imports Go_Prelude
begin

section \<open>Functions of Go's strings and strconv packages\<close>

text \<open>
  The functions of \<open>strings\<close> and \<open>strconv\<close> that the programs under \<open>cmd/\<close> use, on ASCII white space.
\<close>

abbreviation LF :: char where "LF \<equiv> CHR 0x0A"
abbreviation CR :: char where "CR \<equiv> CHR 0x0D"

definition ws :: "char \<Rightarrow> bool" where
  "ws c \<longleftrightarrow> c \<in> {CHR 0x09, LF, CHR 0x0B, CHR 0x0C, CR, CHR 0x20}"

definition TrimSpace :: "string \<Rightarrow> string" where
  "TrimSpace s = rev (dropWhile ws (rev (dropWhile ws s)))"

definition TrimLeft :: "string \<Rightarrow> string \<Rightarrow> string" where
  "TrimLeft s cutset = dropWhile (\<lambda>c. c \<in> set cutset) s"

definition HasPrefix :: "string \<Rightarrow> string \<Rightarrow> bool" where
  "HasPrefix s p \<longleftrightarrow> length p \<le> length s \<and> take (length p) s = p"

definition HasSuffix :: "string \<Rightarrow> string \<Rightarrow> bool" where
  "HasSuffix s p \<longleftrightarrow> length p \<le> length s \<and> drop (length s - length p) s = p"

definition TrimPrefix :: "string \<Rightarrow> string \<Rightarrow> string" where
  "TrimPrefix s p = (if HasPrefix s p then drop (length p) s else s)"

definition TrimSuffix :: "string \<Rightarrow> string \<Rightarrow> string" where
  "TrimSuffix s p = (if HasSuffix s p then take (length s - length p) s else s)"

text \<open>\<open>strings.ReplaceAll\<close> and \<open>strings.Contains\<close> for a non-empty pattern.\<close>

function ReplaceAll :: "string \<Rightarrow> string \<Rightarrow> string \<Rightarrow> string" where
  "ReplaceAll [] old new = []"
| "ReplaceAll (c # s) old new =
     (if old \<noteq> [] \<and> HasPrefix (c # s) old then new @ ReplaceAll (drop (length old) (c # s)) old new
      else c # ReplaceAll s old new)"
  by pat_completeness auto
termination
  by (relation "measure (\<lambda>(s, old, new). length s)") (auto simp: neq_Nil_conv)

fun Contains :: "string \<Rightarrow> string \<Rightarrow> bool" where
  "Contains [] p = (p = [])"
| "Contains (c # s) p = (HasPrefix (c # s) p \<or> Contains s p)"

text \<open>\<open>strings.Fields\<close>: the maximal words without white space.\<close>

function Fields :: "string \<Rightarrow> string list" where
  "Fields s =
     (let s1 = dropWhile ws s in
      if s1 = [] then [] else takeWhile (\<lambda>c. \<not> ws c) s1 # Fields (dropWhile (\<lambda>c. \<not> ws c) s1))"
  by pat_completeness auto
termination
proof (relation "measure length")
  fix s x assume x: "x = dropWhile ws s" "x \<noteq> []"
  then have "\<not> ws (hd x)" using hd_dropWhile [of ws s] by simp
  then have "length (dropWhile (\<lambda>c. \<not> ws c) x) < length x"
    using x(2) length_dropWhile_le [of "\<lambda>c. \<not> ws c" "tl x"] by (cases x) (auto simp: le_imp_less_Suc)
  also have "\<dots> \<le> length s" using x(1) length_dropWhile_le [of ws s] by simp
  finally show "(dropWhile (\<lambda>c. \<not> ws c) x, s) \<in> measure length" by simp
qed simp

declare Fields.simps [simp del]

definition word_ok :: "string \<Rightarrow> bool" where
  "word_ok s \<longleftrightarrow> s \<noteq> [] \<and> (\<forall>c\<in>set s. \<not> ws c)"

lemma Fields_one:
  assumes "word_ok s"
  shows "Fields s = [s]"
proof -
  have "dropWhile ws s = s" using assms by (cases s) (auto simp: word_ok_def)
  then have f: "Fields s = takeWhile (\<lambda>c. \<not> ws c) s # Fields (dropWhile (\<lambda>c. \<not> ws c) s)"
    using assms by (subst Fields.simps) (simp add: word_ok_def)
  have w: "takeWhile (\<lambda>c. \<not> ws c) s = s" "dropWhile (\<lambda>c. \<not> ws c) s = []"
    using assms by (auto simp: word_ok_def takeWhile_eq_all_conv)
  show ?thesis unfolding f w by (simp add: Fields.simps [of "[]"])
qed

lemma Fields_word:
  assumes "word_ok s"
  shows "Fields (s @ '' '' @ r) = s # Fields r"
proof -
  obtain c cs where s: "s = c # cs" using assms by (cases s) (auto simp: word_ok_def)
  have sp: "ws (CHR '' '')" by (simp add: ws_def)
  have "dropWhile ws (s @ '' '' @ r) = s @ '' '' @ r" using assms by (simp add: s word_ok_def)
  moreover have "takeWhile (\<lambda>c. \<not> ws c) (s @ '' '' @ r) = s" "dropWhile (\<lambda>c. \<not> ws c) (s @ '' '' @ r) = CHR '' '' # r"
    using assms sp by (simp_all add: word_ok_def takeWhile_append2 dropWhile_append2)
  moreover have "Fields (CHR '' '' # r) = Fields r"
    using sp by (subst (1 2) Fields.simps) simp
  ultimately show ?thesis using s by (subst Fields.simps) simp
qed

text \<open>The value of \<open>strconv.Atoi\<close>, zero beside a syntax error and the nearest value beside a range error.\<close>

definition is_digit :: "char \<Rightarrow> bool" where
  "is_digit c \<longleftrightarrow> (48 :: nat) \<le> of_char c \<and> of_char c \<le> (57 :: nat)"

definition Atoi :: "string \<Rightarrow> int" where
  "Atoi s =
     (let neg = (s \<noteq> [] \<and> hd s = CHR ''-'');
          ds = (if s \<noteq> [] \<and> (hd s = CHR ''-'' \<or> hd s = CHR ''+'') then tl s else s)
      in if ds = [] \<or> \<not> list_all is_digit ds then 0
         else max MinInt (min MaxInt (if neg then - int (dec_val ds) else int (dec_val ds))))"

lemma Atoi_Itoa: "MinInt \<le> x \<Longrightarrow> x \<le> MaxInt \<Longrightarrow> Atoi (Itoa x) = x"
proof -
  assume r: "MinInt \<le> x" "x \<le> MaxInt"
  have d: "list_all is_digit (nat_dec n)" for n
    using nat_dec_digits by (fastforce simp: list_all_iff is_digit_def)
  have "hd (nat_dec n) \<in> set (nat_dec n)" for n by simp
  then have "hd (nat_dec n) \<noteq> CHR ''-''" "hd (nat_dec n) \<noteq> CHR ''+''" for n
    using nat_dec_digits [of "hd (nat_dec n)" n] by auto
  then show ?thesis using r d by (auto simp: Atoi_def Itoa_def dec_val_nat_dec Let_def)
qed

lemma word_ok_Itoa: "word_ok (Itoa x)"
proof -
  have "\<not> ws c" if "c \<in> set (nat_dec n)" for c n
    using nat_dec_digits [OF that] by (auto simp: ws_def)
  then show ?thesis by (auto simp: word_ok_def Itoa_def ws_def)
qed

end
