(* ===== verification/Cluster_Example.thy ===== *)
theory Cluster_Example
  imports Cluster_Router Go_Strings
begin

section \<open>The cluster example\<close>

text \<open>
  \<open>cmd/cluster_example/main.go\<close>: nodes of different types that host different groups, a membership that can be changed from
  the command line, and the command line itself. The theory has the identities and handlers of the three groups, the
  start of a node (its member list from the seeds, the groups it serves, the requests its rpc server accepts), the
  membership, and the commands. The node as a whole is in \<open>Cluster_Node\<close>. Sleeps are left out. An event channel that is
  full blocks the sender, which is \<^const>\<open>GoBlocks\<close>.
\<close>

subsection \<open>Identities and requests\<close>

datatype ceid = CePlayer int string | CeRoom int | CeChat string

fun ce_type :: "ceid \<Rightarrow> string" where
  "ce_type (CePlayer _ _) = ''Player''"
| "ce_type (CeRoom _) = ''Room''"
| "ce_type (CeChat _) = ''Chat''"

fun ce_String :: "ceid \<Rightarrow> string" where
  "ce_String (CePlayer sv openId) = ''Player('' @ Itoa sv @ '','' @ openId @ '')''"
| "ce_String (CeRoom r) = ''Room('' @ Itoa r @ '')''"
| "ce_String (CeChat ch) = ''Chat('' @ ch @ '')''"

definition ce_ids :: "ceid id_ops" where
  "ce_ids = \<lparr>ActorType = ce_type, IdString = ce_String\<rparr>"

datatype cereq =
    CeLogin int int
  | CeAttack int
  | CeHeal int
  | CeClose
  | CeState
  | CeCheckPlayer
  | CeCreateRoom int
  | CeRoomInfo
  | CeCheckRoom
  | CeSendMessage string
  | CeCheckChat

text \<open>The group a request belongs to, the identity parameter of its \<open>ReqType\<close>, and its name.\<close>

fun ce_group :: "cereq \<Rightarrow> string" where
  "ce_group (CeCreateRoom _) = ''Room''"
| "ce_group CeRoomInfo = ''Room''"
| "ce_group CeCheckRoom = ''Room''"
| "ce_group (CeSendMessage _) = ''Chat''"
| "ce_group CeCheckChat = ''Chat''"
| "ce_group _ = ''Player''"

fun ce_ReqType :: "cereq \<Rightarrow> string" where
  "ce_ReqType (CeLogin _ _) = ''Login''"
| "ce_ReqType (CeAttack _) = ''Attack''"
| "ce_ReqType (CeHeal _) = ''Heal''"
| "ce_ReqType CeClose = ''Close''"
| "ce_ReqType CeState = ''PlayerState''"
| "ce_ReqType CeCheckPlayer = ''CheckOwnership''"
| "ce_ReqType (CeCreateRoom _) = ''CreateRoom''"
| "ce_ReqType CeRoomInfo = ''RoomInfo''"
| "ce_ReqType CeCheckRoom = ''CheckOwnership''"
| "ce_ReqType (CeSendMessage _) = ''SendMessage''"
| "ce_ReqType CeCheckChat = ''CheckOwnership''"

datatype cerep = CeOk | CeAttackReply int | CeHealReply int | CePlayerStateReply int int bool | CeRoomInfoReply int | CeEcho string

subsection \<open>Handlers\<close>

record cePlayer =
  ceHP :: int
  ceLevel :: int

record ceRoom =
  ceMax :: int

record ceChat =
  Messages :: "string list"

type_synonym ('s, 'q, 'w) ectx = "(ceid, 'q, 's, 'w, unit) ActorContext"

text \<open>
  Each handler gives the new context and its reply; none of them fails or sends. The check of ownership only writes a
  line to the log, so it leaves everything as it is. Arithmetic on hit points is 64 bits wide.
\<close>

fun ce_player :: "cereq \<Rightarrow> bool \<Rightarrow> (cePlayer, 'q, 'w) ectx \<Rightarrow> (cePlayer, 'q, 'w) ectx \<times> cerep" where
  "ce_player (CeLogin hp lv) spawning c =
     ((if spawning then c\<lparr>ctrl := Open (ctrl c)\<rparr> else c)\<lparr>state := \<lparr>ceHP = hp, ceLevel = lv\<rparr>\<rparr>, CeOk)"
| "ce_player (CeAttack dmg) spawning c =
     (let s = (state c)\<lparr>ceHP := wrap64 (ceHP (state c) - dmg)\<rparr> in (c\<lparr>state := s\<rparr>, CeAttackReply (ceHP s)))"
| "ce_player (CeHeal n) spawning c =
     (let s = (state c)\<lparr>ceHP := wrap64 (ceHP (state c) + n)\<rparr> in (c\<lparr>state := s\<rparr>, CeHealReply (ceHP s)))"
| "ce_player CeClose spawning c = (c\<lparr>ctrl := Quit (ctrl c)\<rparr>, CeOk)"
| "ce_player CeState spawning c = (c, CePlayerStateReply (ceHP (state c)) (ceLevel (state c)) False)"
| "ce_player _ spawning c = (c, CeOk)"

fun ce_room :: "cereq \<Rightarrow> bool \<Rightarrow> (ceRoom, 'q, 'w) ectx \<Rightarrow> (ceRoom, 'q, 'w) ectx \<times> cerep" where
  "ce_room (CeCreateRoom n) spawning c =
     ((if spawning then c\<lparr>ctrl := Open (ctrl c)\<rparr> else c)\<lparr>state := \<lparr>ceMax = n\<rparr>\<rparr>, CeOk)"
| "ce_room CeRoomInfo spawning c = (c, CeRoomInfoReply (ceMax (state c)))"
| "ce_room _ spawning c = (c, CeOk)"

fun ce_chat :: "cereq \<Rightarrow> bool \<Rightarrow> (ceChat, 'q, 'w) ectx \<Rightarrow> (ceChat, 'q, 'w) ectx \<times> cerep" where
  "ce_chat (CeSendMessage s) spawning c =
     ((if spawning then c\<lparr>ctrl := Open (ctrl c)\<rparr> else c)\<lparr>state := (state c)\<lparr>Messages := Messages (state c) @ [s]\<rparr>\<rparr>, CeEcho s)"
| "ce_chat _ spawning c = (c, CeOk)"

subsection \<open>The start of a node\<close>

definition ce_groupMapping :: GroupMapping where
  "ce_groupMapping =
     [''player-server'' \<mapsto> [''Player''], ''room-server'' \<mapsto> [''Room''], ''chat-server'' \<mapsto> [''Chat''],
      ''all-in-one'' \<mapsto> [''Player'', ''Room'', ''Chat'']]"

definition inferTypeFromAddr :: "string \<Rightarrow> string" where
  "inferTypeFromAddr addr =
     (if Go_Strings.Contains addr ''8002'' then ''room-server''
      else if Go_Strings.Contains addr ''8003'' then ''chat-server''
      else if Go_Strings.Contains addr ''8004'' then ''all-in-one''
      else ''player-server'')"

definition ce_node :: "string \<Rightarrow> string \<Rightarrow> Node" where
  "ce_node t addr = Node0\<lparr>ID := t @ ''-'' @ addr, Addr := addr, NType := t\<rparr>"

fun seed_nodes :: "string \<Rightarrow> string list \<Rightarrow> NodeSet" where
  "seed_nodes addr [] = []"
| "seed_nodes addr (x # xs) =
     (let seed = TrimSpace x in
      if seed = [] \<or> seed = addr then seed_nodes addr xs
      else ce_node (inferTypeFromAddr seed) seed # seed_nodes addr xs)"

definition start_members :: "Node \<Rightarrow> string \<Rightarrow> NodeSet" where
  "start_members slf seeds =
     slf # (if seeds \<noteq> [] then seed_nodes (Addr slf) (split_on (CHR '','') seeds) else [])"

definition ce_placement :: ConsistentHashPlacement where
  "ce_placement = WithGroupMapping (Some ce_groupMapping) (NewConsistentHashPlacement 128)"

definition player_handlers :: "(string, unit) RegistryBuilder \<Rightarrow> (string, unit) RegistryBuilder" where
  "player_handlers b =
     fold (\<lambda>t. RegisterServe t t) [''Login'', ''Attack'', ''Heal'', ''Close'', ''PlayerState'', ''CheckOwnership''] b"

definition room_handlers :: "(string, unit) RegistryBuilder \<Rightarrow> (string, unit) RegistryBuilder" where
  "room_handlers b = fold (\<lambda>t. RegisterServe t t) [''CreateRoom'', ''RoomInfo'', ''CheckOwnership''] b"

definition chat_handlers :: "(string, unit) RegistryBuilder \<Rightarrow> (string, unit) RegistryBuilder" where
  "chat_handlers b = fold (\<lambda>t. RegisterServe t t) [''SendMessage'', ''CheckOwnership''] b"

type_synonym 'k ce_manager = "(ceid, string, cereq, unit, 'k, cerep, unit, unit) Manager"

definition hosts :: "string \<Rightarrow> string \<Rightarrow> bool" where
  "hosts t srv \<longleftrightarrow> t = srv \<or> t = ''all-in-one''"

definition serve_groups :: "string \<Rightarrow> 'k ce_manager option" where
  "serve_groups t =
     Option.bind (if hosts t ''player-server'' then Serve ce_ids (CePlayer 0 []) 100 player_handlers NewManager else Some NewManager) (\<lambda>m1.
     Option.bind (if hosts t ''room-server'' then Serve ce_ids (CeRoom 0) 100 room_handlers m1 else Some m1) (\<lambda>m2.
       if hosts t ''chat-server'' then Serve ce_ids (CeChat []) 100 chat_handlers m2 else Some m2))"

text \<open>The requests \<open>startNode\<close> registers with the rpc server; the ownership checks are not among them.\<close>

definition serve_rpc :: "string \<Rightarrow> (ceid, cereq, cerep, 'm) Codec \<Rightarrow> (ceid, cereq, cerep, 'm) entryMap" where
  "serve_rpc t C =
     (let reg = (\<lambda>at rts b. fold (\<lambda>rt. RegisterRequest at rt C) rts b);
          b1 = (if hosts t ''player-server''
                then reg ''Player'' [''Login'', ''Attack'', ''Heal'', ''Close'', ''PlayerState''] rpc_NewRegistryBuilder
                else rpc_NewRegistryBuilder);
          b2 = (if hosts t ''room-server'' then reg ''Room'' [''CreateRoom'', ''RoomInfo''] b1 else b1)
      in if hosts t ''chat-server'' then reg ''Chat'' [''SendMessage''] b2 else b2)"

text \<open>The notifications \<open>startNode\<close> registers with the migration coordinator: the broadcasts, in order.\<close>

definition notify_checks :: "string \<Rightarrow> cereq list" where
  "notify_checks t =
     (if hosts t ''player-server'' then [CeCheckPlayer] else []) @
     (if hosts t ''room-server'' then [CeCheckRoom] else []) @
     (if hosts t ''chat-server'' then [CeCheckChat] else [])"

subsection \<open>The membership\<close>

record dynamicMembership =
  dself :: Node
  dmembers :: NodeSet
  devents :: "coord_input chan"

definition newDynamicMembership :: "Node \<Rightarrow> NodeSet \<Rightarrow> dynamicMembership" where
  "newDynamicMembership slf ms = \<lparr>dself = slf, dmembers = ms, devents = make_chan 100\<rparr>"

definition dm_Self :: "dynamicMembership \<Rightarrow> Node" where "dm_Self d = dself d"
definition dm_Members :: "dynamicMembership \<Rightarrow> NodeSet" where "dm_Members d = dmembers d"

definition send_event :: "coord_input \<Rightarrow> dynamicMembership \<Rightarrow> dynamicMembership go" where
  "send_event e d =
     (case chan_send e (devents d) of
        Sent ch \<Rightarrow> Ret (d\<lparr>devents := ch\<rparr>)
      | Full \<Rightarrow> GoBlocks
      | PanicSend \<Rightarrow> GoPanic)"

text \<open>The two halves of \<open>AddNode\<close> and \<open>RemoveNode\<close>: under the lock, and the event after it.\<close>

definition add_locked :: "Node \<Rightarrow> dynamicMembership \<Rightarrow> (coord_input option \<times> dynamicMembership)" where
  "add_locked n d =
     (if \<exists>m\<in>set (dmembers d). ID m = ID n then (None, d)
      else let ms = dmembers d @ [n] in (Some (MemberEvent True n ms), d\<lparr>dmembers := ms\<rparr>))"

fun split_node :: "string \<Rightarrow> NodeSet \<Rightarrow> Node \<Rightarrow> Node \<times> NodeSet" where
  "split_node i [] removed = (removed, [])"
| "split_node i (m # ms) removed =
     (if ID m = i then split_node i ms m else let (r, rest) = split_node i ms removed in (r, m # rest))"

definition remove_locked :: "string \<Rightarrow> dynamicMembership \<Rightarrow> (coord_input option \<times> dynamicMembership)" where
  "remove_locked i d =
     (let (removed, ms) = split_node i (dmembers d) Node0 in
      if ID removed = [] then (None, d) else (Some (MemberEvent False removed ms), d\<lparr>dmembers := ms\<rparr>))"

definition announce :: "coord_input option \<times> dynamicMembership \<Rightarrow> dynamicMembership go" where
  "announce = (\<lambda>(e, d). case e of None \<Rightarrow> Ret d | Some e \<Rightarrow> send_event e d)"

definition AddNode :: "Node \<Rightarrow> dynamicMembership \<Rightarrow> dynamicMembership go" where
  "AddNode n d = announce (add_locked n d)"

definition RemoveNode :: "string \<Rightarrow> dynamicMembership \<Rightarrow> dynamicMembership go" where
  "RemoveNode i d = announce (remove_locked i d)"

subsection \<open>The command line\<close>

definition ToLower :: "string \<Rightarrow> string" where
  "ToLower s = map lower s"

datatype migrate_cmd = MJoin Node | MLeave string | MRefuseSelf | MUsage | MUnknown string

definition handleMigrate :: "string list \<Rightarrow> Node \<Rightarrow> migrate_cmd" where
  "handleMigrate args slf =
     (let sub = ToLower (args ! 0) in
      if sub = ''join'' then (if length args < 3 then MUsage else MJoin (ce_node (args ! 1) (args ! 2)))
      else if sub = ''leave'' then
        (if length args < 2 then MUsage else if args ! 1 = ID slf then MRefuseSelf else MLeave (args ! 1))
      else MUnknown sub)"

datatype command =
    CmdNone
  | CmdUsage string
  | CmdPost ceid cereq
  | CmdCall ceid cereq
  | CmdInfo
  | CmdStatus
  | CmdMigrate migrate_cmd
  | CmdQuit
  | CmdUnknown string

text \<open>One turn of \<open>repl\<close> up to the call it makes.\<close>

definition parse_line :: "string \<Rightarrow> Node \<Rightarrow> command" where
  "parse_line line slf =
     (let parts = Fields (TrimSpace line) in
      if parts = [] then CmdNone
      else
        let cmd = ToLower (hd parts); args = tl parts; need = (\<lambda>n c. if length args < n then CmdUsage cmd else c)
        in if cmd = ''login'' then need 2 (CmdPost (CePlayer 1 (args ! 0)) (CeLogin (Atoi (args ! 1)) 1))
           else if cmd = ''attack'' then need 2 (CmdCall (CePlayer 1 (args ! 0)) (CeAttack (Atoi (args ! 1))))
           else if cmd = ''heal'' then need 2 (CmdCall (CePlayer 1 (args ! 0)) (CeHeal (Atoi (args ! 1))))
           else if cmd = ''room'' then need 2 (CmdPost (CeRoom (Atoi (args ! 0))) (CeCreateRoom (Atoi (args ! 1))))
           else if cmd = ''roominfo'' then need 1 (CmdCall (CeRoom (Atoi (args ! 0))) CeRoomInfo)
           else if cmd = ''chat'' then need 2 (CmdCall (CeChat (args ! 0)) (CeSendMessage (join_with '' '' (tl args))))
           else if cmd = ''info'' then CmdInfo
           else if cmd = ''status'' then CmdStatus
           else if cmd = ''migrate'' then need 1 (CmdMigrate (handleMigrate args slf))
           else if cmd = ''quit'' \<or> cmd = ''exit'' then CmdQuit
           else CmdUnknown cmd)"

text \<open>What a migrate command does to the membership.\<close>

fun run_migrate :: "migrate_cmd \<Rightarrow> dynamicMembership \<Rightarrow> dynamicMembership go" where
  "run_migrate (MJoin n) d = AddNode n d"
| "run_migrate (MLeave i) d = RemoveNode i d"
| "run_migrate _ d = Ret d"

subsection \<open>What a node serves\<close>

lemmas serve_defs = Serve_def ServeWith_def NewManager_def actorTypeOf_def ce_ids_def newGroup_def player_handlers_def room_handlers_def
  chat_handlers_def RegisterServe_def register_def NewRegistryBuilder_def

text \<open>The ownership checks, which only the node itself sends.\<close>

definition internal :: "cereq \<Rightarrow> bool" where
  "internal q \<longleftrightarrow> q \<in> {CeCheckPlayer, CeCheckRoom, CeCheckChat}"

lemma ce_types: "dom ce_groupMapping = {''player-server'', ''room-server'', ''chat-server'', ''all-in-one''}"
  by (auto simp: ce_groupMapping_def)

lemma hosts_mapping:
  assumes "t \<in> dom ce_groupMapping"
  shows "HasGroup ce_groupMapping t ''Player'' = hosts t ''player-server''"
    "HasGroup ce_groupMapping t ''Room'' = hosts t ''room-server''"
    "HasGroup ce_groupMapping t ''Chat'' = hosts t ''chat-server''"
  using assms unfolding ce_types by (auto simp: HasGroup_def ce_groupMapping_def hosts_def)

lemma serve_groups_registry:
  "\<exists>m. serve_groups t = Some m \<and> \<not> mstopping m \<and>
     map_option registry (map_of (groups m) ''Player'') =
       (if hosts t ''player-server'' then Some (handlers (player_handlers NewRegistryBuilder)) else None) \<and>
     map_option registry (map_of (groups m) ''Room'') =
       (if hosts t ''room-server'' then Some (handlers (room_handlers NewRegistryBuilder)) else None) \<and>
     map_option registry (map_of (groups m) ''Chat'') =
       (if hosts t ''chat-server'' then Some (handlers (chat_handlers NewRegistryBuilder)) else None)"
  by (cases "hosts t ''player-server''"; cases "hosts t ''room-server''"; cases "hosts t ''chat-server''")
    (simp_all add: serve_groups_def Serve_def ServeWith_def NewManager_def actorTypeOf_def ce_ids_def newGroup_def)

text \<open>Every request of a group has a handler that may create the actor.\<close>

lemma group_handlers:
  "ce_group q = ''Player'' \<Longrightarrow> \<exists>h. handlers (player_handlers NewRegistryBuilder) (ce_ReqType q) = Some h \<and> allow_spawn h"
  "ce_group q = ''Room'' \<Longrightarrow> \<exists>h. handlers (room_handlers NewRegistryBuilder) (ce_ReqType q) = Some h \<and> allow_spawn h"
  "ce_group q = ''Chat'' \<Longrightarrow> \<exists>h. handlers (chat_handlers NewRegistryBuilder) (ce_ReqType q) = Some h \<and> allow_spawn h"
  by (cases q; simp add: serve_defs)+

lemma ce_group_cases: "ce_group q \<in> {''Player'', ''Room'', ''Chat''}"
  by (cases q) simp_all

lemma hosted_request:
  assumes "t \<in> dom ce_groupMapping" "HasGroup ce_groupMapping t (ce_group q)" "ce_type i = ce_group q"
  shows "\<exists>(m :: 'k ce_manager) g h. serve_groups t = Some m \<and> findHandler ce_ids i (UserReq (ce_ReqType q) q) m = Inr (g, h) \<and> allow_spawn h"
proof -
  obtain m :: "'k ce_manager" where m: "serve_groups t = Some m" "\<not> mstopping m" and
    reg: "map_option registry (map_of (groups m) ''Player'') =
       (if hosts t ''player-server'' then Some (handlers (player_handlers NewRegistryBuilder)) else None)"
      "map_option registry (map_of (groups m) ''Room'') =
       (if hosts t ''room-server'' then Some (handlers (room_handlers NewRegistryBuilder)) else None)"
      "map_option registry (map_of (groups m) ''Chat'') =
       (if hosts t ''chat-server'' then Some (handlers (chat_handlers NewRegistryBuilder)) else None)"
    using serve_groups_registry [of t] by blast
  have "\<exists>g h. map_of (groups m) (ce_group q) = Some g \<and> registry g (ce_ReqType q) = Some h \<and> allow_spawn h"
    using ce_group_cases [of q] reg assms(2) group_handlers [of q] hosts_mapping [OF assms(1)] by auto
  then obtain g h where gh: "map_of (groups m) (ce_group q) = Some g" "registry g (ce_ReqType q) = Some h" "allow_spawn h" by blast
  then have "findHandler ce_ids i (UserReq (ce_ReqType q) q) m = Inr (g, h)"
    using m(2) assms(3) by (simp add: findHandler_def findGroup_def group_findHandler_def ce_ids_def)
  then show ?thesis using m(1) gh(3) by blast
qed

lemma hosted_rpc:
  assumes "t \<in> dom ce_groupMapping" "HasGroup ce_groupMapping t (ce_group q)" "\<not> internal q"
  shows "serve_rpc t C (ce_group q, ce_ReqType q) = Some C"
  using assms hosts_mapping [OF assms(1)] by (cases q) (auto simp: serve_rpc_def RegisterRequest_def internal_def Let_def)

subsection \<open>The membership\<close>

definition member_inv :: "dynamicMembership \<Rightarrow> bool" where
  "member_inv d \<longleftrightarrow> distinct (map ID (dmembers d)) \<and> dself d \<in> set (dmembers d) \<and> (\<forall>m\<in>set (dmembers d). ID m \<noteq> [])"

lemma split_node_spec:
  "split_node i ms r = (r', rest) \<Longrightarrow>
     rest = filter (\<lambda>m. ID m \<noteq> i) ms \<and> (if \<exists>m\<in>set ms. ID m = i then r' \<in> set ms \<and> ID r' = i else r' = r)"
proof (induction ms arbitrary: r r' rest)
  case (Cons m ms)
  obtain q s where qs: "split_node i ms (if ID m = i then m else r) = (q, s)" by fastforce
  show ?case using Cons.IH [OF qs] Cons.prems qs by (cases "ID m = i") (auto split: if_splits)
qed simp

lemma send_event_members: "send_event e d = Ret d' \<Longrightarrow> dmembers d' = dmembers d \<and> dself d' = dself d \<and> items (devents d') = items (devents d) @ [e]"
  by (auto simp: send_event_def chan_send_def split: if_splits)

lemma AddNode_spec:
  assumes "AddNode n d = Ret d'"
  shows "dself d' = dself d \<and>
    (if \<exists>m\<in>set (dmembers d). ID m = ID n then d' = d
     else dmembers d' = dmembers d @ [n] \<and> items (devents d') = items (devents d) @ [MemberEvent True n (dmembers d')])"
  using assms by (auto simp: AddNode_def announce_def add_locked_def Let_def dest!: send_event_members split: if_splits)

lemma RemoveNode_spec:
  assumes "RemoveNode i d = Ret d'" "\<forall>m\<in>set (dmembers d). ID m \<noteq> []"
  shows "dself d' = dself d \<and> dmembers d' = filter (\<lambda>m. ID m \<noteq> i) (dmembers d) \<and>
    (if \<exists>m\<in>set (dmembers d). ID m = i
     then \<exists>r\<in>set (dmembers d). ID r = i \<and> items (devents d') = items (devents d) @ [MemberEvent False r (dmembers d')]
     else d' = d)"
proof -
  obtain r rest where s: "split_node i (dmembers d) Node0 = (r, rest)" by fastforce
  note sp = split_node_spec [OF s]
  show ?thesis
  proof (cases "\<exists>m\<in>set (dmembers d). ID m = i")
    case True
    then have "r \<in> set (dmembers d)" "ID r = i" "ID r \<noteq> []" using sp assms(2) by auto
    then show ?thesis
      using assms(1) sp True
      by (auto simp: RemoveNode_def announce_def remove_locked_def s dest!: send_event_members)
  next
    case False
    then have "ID r = []" "filter (\<lambda>m. ID m \<noteq> i) (dmembers d) = dmembers d" using sp by (auto simp: filter_id_conv Node0_def)
    then show ?thesis using assms(1) False by (auto simp: RemoveNode_def announce_def remove_locked_def s)
  qed
qed

lemma member_inv_migrate:
  assumes "member_inv d" "run_migrate (handleMigrate args (dself d)) d = Ret d'"
  shows "member_inv d' \<and> dself d' = dself d"
proof (cases "handleMigrate args (dself d)")
  case (MJoin n)
  then have "ID n \<noteq> []" by (auto simp: handleMigrate_def ce_node_def Let_def split: if_splits)
  then show ?thesis
    using assms MJoin AddNode_spec [of n d d'] by (cases "\<exists>m\<in>set (dmembers d). ID m = ID n") (auto simp: member_inv_def)
next
  case (MLeave i)
  then have "i \<noteq> ID (dself d)" by (auto simp: handleMigrate_def Let_def split: if_splits)
  then show ?thesis
    using assms MLeave RemoveNode_spec [of i d d'] by (auto simp: member_inv_def distinct_map_filter)
qed (use assms in auto)

subsection \<open>Properties\<close>

text \<open>Where a request is placed, it is served. In a cluster of nodes of the four types, the placement of an actor whose
  group some member hosts is a member, and the manager that such a node starts has the group and a handler, which may
  create the actor, for every request of that group; its rpc server accepts every request except the ownership
  checks, which a node sends to itself.\<close>

theorem placed_node_serves:
  assumes "slice_sort srt" "\<forall>n\<in>set ms. NType n \<in> dom ce_groupMapping" "\<exists>n\<in>set ms. HasGroup ce_groupMapping (NType n) (ce_type i)"
    and "ce_group q = ce_type i"
  shows "\<exists>n (m :: 'k ce_manager) g h. Place srt ce_placement (ce_type i) (ce_String i) ms = Some n \<and> n \<in> set ms \<and>
    serve_groups (NType n) = Some m \<and> findHandler ce_ids i (UserReq (ce_ReqType q) q) m = Inr (g, h) \<and> allow_spawn h \<and>
    (\<not> internal q \<longrightarrow> serve_rpc (NType n) C (ce_type i, ce_ReqType q) = Some C)"
proof -
  have p: "0 < VirtualNodes ce_placement" "Mapping ce_placement = Some ce_groupMapping"
    by (simp_all add: ce_placement_def WithGroupMapping_def NewConsistentHashPlacement_def)
  have e: "set (filterEligible ce_placement (ce_type i) ms) = {n \<in> set ms. HasGroup ce_groupMapping (NType n) (ce_type i)}"
    using p(2) by (simp add: set_filterEligible NodeCanHost_def)
  then have "filterEligible ce_placement (ce_type i) ms \<noteq> []" using assms(3) by force
  then obtain n where n: "Place srt ce_placement (ce_type i) (ce_String i) ms = Some n"
      "n \<in> set (filterEligible ce_placement (ce_type i) ms)"
    using Place_nearest [OF assms(1) p(1)] unfolding nearest_def by blast
  then have h: "n \<in> set ms" "HasGroup ce_groupMapping (NType n) (ce_group q)" "NType n \<in> dom ce_groupMapping"
    using e assms(2,4) by auto
  obtain m :: "'k ce_manager" and g h where m: "serve_groups (NType n) = Some m" "findHandler ce_ids i (UserReq (ce_ReqType q) q) m = Inr (g, h)" "allow_spawn h"
    using hosted_request [OF h(3,2), of i] assms(4) by metis
  show ?thesis
    using n(1) h(1) m hosted_rpc [OF h(3,2), of C] assms(4) by (intro exI [of _ n] exI [of _ m] exI [of _ g] exI [of _ h]) simp
qed

text \<open>The nodes that the comment at the head of the file starts, as one cluster.\<close>

definition demo_members :: NodeSet where
  "demo_members = [ce_node ''player-server'' ''localhost:8001'', ce_node ''room-server'' ''localhost:8002'']"

theorem placed_node_serves_witness:
  "\<exists>n (m :: unit ce_manager) g h. Place (sort_key hash) ce_placement ''Room'' ''Room(5)'' demo_members = Some n \<and> n \<in> set demo_members \<and>
    serve_groups (NType n) = Some m \<and> findHandler ce_ids (CeRoom 5) (UserReq ''RoomInfo'' CeRoomInfo) m = Inr (g, h) \<and> allow_spawn h"
proof -
  have "\<forall>n\<in>set demo_members. NType n \<in> dom ce_groupMapping"
    by (simp add: demo_members_def ce_node_def ce_groupMapping_def)
  moreover have "\<exists>n\<in>set demo_members. HasGroup ce_groupMapping (NType n) ''Room''"
    by (simp add: demo_members_def ce_node_def ce_groupMapping_def HasGroup_def)
  moreover have "ce_String (CeRoom 5) = ''Room(5)''" by code_simp
  ultimately show ?thesis
    using placed_node_serves [where srt = "sort_key hash" and ms = demo_members and i = "CeRoom 5" and q = CeRoomInfo] stable.slice_sort_axioms
    by fastforce
qed

text \<open>The commands keep the membership in order: whatever a \<open>migrate\<close> command says, identities stay unique and the node
  itself stays a member, and each change is announced by one event that carries the new member list.\<close>

lemma migrate_keeps_membership:
  assumes "member_inv d" "run_migrate (handleMigrate args (dself d)) d = Ret d'"
  shows "member_inv d' \<and>
    (d' = d \<or> (\<exists>b n. items (devents d') = items (devents d) @ [MemberEvent b n (dmembers d')]))"
proof -
  have inv: "member_inv d'" using member_inv_migrate [OF assms] by blast
  show ?thesis
  proof (cases "handleMigrate args (dself d)")
    case (MJoin n)
    then show ?thesis using inv assms(2) AddNode_spec [of n d d'] by (auto split: if_splits)
  next
    case (MLeave i)
    then show ?thesis using inv assms RemoveNode_spec [of i d d'] by (auto simp: member_inv_def split: if_splits)
  qed (use inv assms(2) in auto)
qed

text \<open>What is typed is what is sent: the line \<open>login id hp\<close> with a word and a number.\<close>

lemma parse_login:
  assumes "word_ok w" "MinInt \<le> hp" "hp \<le> MaxInt"
  shows "parse_line (''login '' @ w @ '' '' @ Itoa hp) slf = CmdPost (CePlayer 1 w) (CeLogin hp 1)"
proof -
  let ?l = "''login '' @ w @ '' '' @ Itoa hp"
  have "Fields ?l = [''login'', w, Itoa hp]"
    using Fields_word [of "''login''" "w @ '' '' @ Itoa hp"] Fields_word [OF assms(1), of "Itoa hp"] Fields_one [OF word_ok_Itoa]
    by (simp add: word_ok_def ws_def)
  moreover have "TrimSpace ?l = ?l"
  proof -
    have n: "Itoa hp \<noteq> []" "\<not> ws (last (Itoa hp))" using word_ok_Itoa [of hp] by (auto simp: word_ok_def)
    then obtain x xs where x: "rev (Itoa hp) = x # xs" "\<not> ws x" by (cases "rev (Itoa hp)") (auto simp: last_rev [symmetric])
    have "dropWhile ws ?l = ?l" by (simp add: ws_def)
    moreover have "dropWhile ws (rev ?l) = rev ?l" using x by simp
    ultimately show ?thesis unfolding TrimSpace_def by (metis rev_rev_ident)
  qed
  moreover have "ToLower ''login'' = ''login''" by code_simp
  ultimately show ?thesis using assms(2,3) by (simp add: parse_line_def Atoi_Itoa)
qed

text \<open>An attack on a player that does not exist creates it with no hit points, answers with a negative number, and
  leaves it closed, so that it is forgotten again.\<close>

lemma attack_creates_player:
  assumes "state c = \<lparr>ceHP = 0, ceLevel = 0\<rparr>" "\<not> active (ctrl c)" "0 < dmg" "dmg \<le> MaxInt"
  shows "allow_spawn (the (handlers (player_handlers NewRegistryBuilder) ''Attack''))"
    "ce_player (CeAttack dmg) True c = (c\<lparr>state := \<lparr>ceHP = - dmg, ceLevel = 0\<rparr>\<rparr>, CeAttackReply (- dmg))"
  using assms by (simp_all add: serve_defs Let_def wrap64_id MinInt_def MaxInt_def)

end
