(* ===== verification/Cluster_Node.thy ===== *)
theory Cluster_Node
  imports Cluster_Example
begin

section \<open>A running node of the cluster example\<close>

text \<open>
  The rest of \<open>cmd/cluster_example/main.go\<close>: \<open>main\<close> and \<open>startNode\<close> as a whole, what \<open>info\<close>, \<open>status\<close> and the banner
  show, and the node as it runs: its command line changes the membership while the migration coordinator, in a
  goroutine of its own, takes the events from the channel. \<open>log.Fatalf\<close> is the left injection of the result.
  The text that is printed around the shown values is left out; the names in the banner are those of the commands.
\<close>

subsection \<open>Start and exit\<close>

record ('k, 'm) ce_process =
  pMgr :: "'k ce_manager"
  pMem :: dynamicMembership
  pServer :: "(ceid, cereq, cerep, 'm) Server"
  pCoord :: "'k ce_manager go MigrationCoordinator"

text \<open>The zero value of the identity type of a request's group, which \<open>actor.Broadcast\<close> takes the actor type from.\<close>

fun zero_id :: "cereq \<Rightarrow> ceid" where
  "zero_id q = (if ce_group q = ''Room'' then CeRoom 0 else if ce_group q = ''Chat'' then CeChat [] else CePlayer 0 [])"

text \<open>A notification broadcasts its check and drops both results; a panic ends the process.\<close>

definition notify :: "cereq \<Rightarrow> 'k ce_manager go \<Rightarrow> 'k ce_manager go" where
  "notify q w = bind_go w (\<lambda>m. bind_go (Broadcast ce_ids (zero_id q) (UserReq (ce_ReqType q) q) m) (\<lambda>(_, m'). Ret m'))"

definition node_coordinator :: "string \<Rightarrow> 'k ce_manager go MigrationCoordinator" where
  "node_coordinator t = fold (\<lambda>q. RegisterNotify (notify q)) (notify_checks t) NewMigrationCoordinator"

definition startNode ::
  "(string \<Rightarrow> string list \<Rightarrow> string + string) \<Rightarrow> (ceid, cereq, cerep, 'm) Codec \<Rightarrow> string \<Rightarrow> string \<Rightarrow> string \<Rightarrow> string
    \<Rightarrow> string list \<Rightarrow> ((string + ('k, 'm) ce_process) \<times> string list) go" where
  "startNode lsn C i t addr seeds ls =
     (let slf = Node0\<lparr>ID := i, Addr := addr, NType := t\<rparr>;
          mem = newDynamicMembership slf (start_members slf seeds)
      in case serve_groups t of
           None \<Rightarrow> GoPanic
         | Some mgr \<Rightarrow>
             (case server_Start lsn (NewServerWith addr (serve_rpc t C)) ls of
                (Some e, _, ls') \<Rightarrow> Ret (Inl e, ls')
              | (None, srv, ls') \<Rightarrow>
                  Ret (Inr \<lparr>pMgr = mgr, pMem = mem, pServer = srv, pCoord = node_coordinator t\<rparr>, ls')))"

definition ce_main ::
  "(string \<Rightarrow> string list \<Rightarrow> string + string) \<Rightarrow> (ceid, cereq, cerep, 'm) Codec \<Rightarrow> string \<Rightarrow> string \<Rightarrow> string
    \<Rightarrow> string list \<Rightarrow> ((string + ('k, 'm) ce_process) \<times> string list) go" where
  "ce_main lsn C t addr seeds ls =
     (if ce_groupMapping t = None then Ret (Inl t, ls) else startNode lsn C (t @ ''-'' @ addr) t addr seeds ls)"

definition dm_Join :: "string list \<Rightarrow> dynamicMembership \<Rightarrow> string option" where "dm_Join seeds d = None"
definition dm_Leave :: "dynamicMembership \<Rightarrow> string option" where "dm_Leave d = None"
definition dm_Close :: "dynamicMembership \<Rightarrow> string option" where "dm_Close d = None"
definition dm_Events :: "dynamicMembership \<Rightarrow> coord_input chan" where "dm_Events d = devents d"

text \<open>The router of a node reads the membership at each call. The interfaces it works through are the arguments.\<close>

definition node_router ::
  "(hashRingEntry list \<Rightarrow> hashRingEntry list) \<Rightarrow> (ceid, 'q, 'r, 'err, 'w) actor_api \<Rightarrow> (ceid, 'q, 'r, 'n) net
    \<Rightarrow> ('err \<Rightarrow> ErrLeaseTaken option) \<Rightarrow> dynamicMembership \<Rightarrow> (ceid, 'q, 'r, 'err, 'w, 'n) Router" where
  "node_router srt ap nw lt d = NewRouter (dm_Self d) (dm_Members d) (Place srt ce_placement) ap nw lt ce_ids []"

text \<open>A signal closes the router; \<open>quit\<close> calls \<open>os.Exit\<close>, which closes nothing.\<close>

datatype exit_way = Signal | QuitCommand

fun ce_exit :: "exit_way \<Rightarrow> (ceid, 'q, 'r, 'err, 'w, 'n) Router \<Rightarrow> dynamicMembership \<Rightarrow> ('w, 'n) rstate \<Rightarrow> ('w, 'n) rstate" where
  "ce_exit Signal r d s = snd (router_Close r (dm_Close d) s)"
| "ce_exit QuitCommand r d s = s"

subsection \<open>What is shown\<close>

text \<open>The groups of a node type as one string; \<open>None\<close> stands for the word for all groups.\<close>

definition groups_shown :: "string \<Rightarrow> string option" where
  "groups_shown t =
     (let gs = GroupsOf ce_groupMapping t in
      if length gs > 0 \<and> t \<noteq> ''all-in-one'' then Some (join_with '', '' gs) else None)"

definition banner_commands :: "string \<Rightarrow> string list" where
  "banner_commands t =
     (if hosts t ''player-server'' then [''login''] else []) @ [''attack'', ''heal''] @
     (if hosts t ''room-server'' then [''room''] else []) @ [''roominfo''] @
     (if hosts t ''chat-server'' then [''chat''] else []) @ [''info'', ''status'', ''migrate'', ''migrate'', ''quit'']"

definition printBanner ::
  "string \<Rightarrow> string \<Rightarrow> (ceid, 'q, 'r, 'err, 'w, 'n) Router \<Rightarrow> (string \<times> string \<times> string \<times> string option \<times> nat) \<times> string list" where
  "printBanner t addr r = ((ID (Self r), t, addr, groups_shown t, length (Members r)), banner_commands t)"

definition printClusterInfo ::
  "(ceid, 'q, 'r, 'err, 'w, 'n) Router \<Rightarrow> nat \<times> (bool \<times> string \<times> string \<times> string \<times> string option) list" where
  "printClusterInfo r =
     (length (Members r),
      map (\<lambda>n. (ID n = ID (Self r), ID n, Addr n, NType n, groups_shown (NType n))) (Members r))"

fun count_local :: "(ceid, 'q, 'r, 'err, 'w, 'n) Router \<Rightarrow> string \<Rightarrow> nat list \<Rightarrow> nat \<Rightarrow> nat go" where
  "count_local r at [] k = Ret k"
| "count_local r at (i # is) k =
     bind_go (IsLocal r at (ToLower at @ ''-'' @ Itoa (int i))) (\<lambda>b. count_local r at is (if b then k + 1 else k))"

fun status_rows :: "(ceid, 'q, 'r, 'err, 'w, 'n) Router \<Rightarrow> string list \<Rightarrow> (string \<times> nat option) list go" where
  "status_rows r [] = Ret []"
| "status_rows r (at # ats) =
     (if \<not> HasGroup ce_groupMapping (NType (Self r)) at
      then bind_go (status_rows r ats) (\<lambda>rows. Ret ((at, None) # rows))
      else bind_go (count_local r at [0..<10] 0) (\<lambda>k. bind_go (status_rows r ats) (\<lambda>rows. Ret ((at, Some k) # rows))))"

definition printStatus ::
  "(ceid, 'q, 'r, 'err, 'w, 'n) Router
    \<Rightarrow> ((string \<times> string \<times> string \<times> string option \<times> nat) \<times> (string \<times> nat option) list) go" where
  "printStatus r =
     bind_go (status_rows r [''Player'', ''Room'', ''Chat'']) (\<lambda>rows.
       Ret ((ID (Self r), NType (Self r), Addr (Self r), groups_shown (NType (Self r)), length (Members r)), rows))"

subsection \<open>The node as it runs\<close>

text \<open>
  \<open>act\<close> is what the commands other than \<open>migrate\<close> do to the world, through the router. The last component of a state
  collects the events the coordinator has taken.
\<close>

inductive ce_reach ::
  "'w MigrationCoordinator \<Rightarrow> (command \<Rightarrow> 'w \<Rightarrow> 'w) \<Rightarrow> dynamicMembership \<Rightarrow> 'w \<Rightarrow> dynamicMembership \<Rightarrow> 'w \<Rightarrow> coord_input list \<Rightarrow> bool"
  for mc act d0 w0 where
  ce_start: "ce_reach mc act d0 w0 d0 w0 []"
| ce_migrate: "ce_reach mc act d0 w0 d w es \<Longrightarrow> parse_line l (dself d) = CmdMigrate c \<Longrightarrow> run_migrate c d = Ret d'
    \<Longrightarrow> ce_reach mc act d0 w0 d' w es"
| ce_other: "ce_reach mc act d0 w0 d w es \<Longrightarrow> parse_line l (dself d) = c \<Longrightarrow> (\<forall>mg. c \<noteq> CmdMigrate mg)
    \<Longrightarrow> ce_reach mc act d0 w0 d (act c w) es"
| ce_notify: "ce_reach mc act d0 w0 d w es \<Longrightarrow> chan_recv (dm_Events d) = Got e ch
    \<Longrightarrow> ce_reach mc act d0 w0 (d\<lparr>devents := ch\<rparr>) (snd (coord_Run mc [e] w)) (es @ [e])"

text \<open>A list of events tells how one member list became another: each event carries the list after its change.\<close>

fun announced :: "NodeSet \<Rightarrow> coord_input list \<Rightarrow> NodeSet \<Rightarrow> bool" where
  "announced ms [] ms' \<longleftrightarrow> ms' = ms"
| "announced ms (MemberEvent joined n ns # es) ms' \<longleftrightarrow>
     (if joined then ns = ms @ [n] else n \<in> set ms \<and> ns = filter (\<lambda>m. ID m \<noteq> ID n) ms) \<and> announced ns es ms'"
| "announced ms (_ # es) ms' \<longleftrightarrow> False"

lemma announced_snoc:
  "announced ms es ms1 \<Longrightarrow> (if j then ns = ms1 @ [n] else n \<in> set ms1 \<and> ns = filter (\<lambda>m. ID m \<noteq> ID n) ms1) \<Longrightarrow>
    announced ms (es @ [MemberEvent j n ns]) ns"
  by (induction ms es ms1 rule: announced.induct) auto

lemma announced_last:
  "announced ms es ms' \<Longrightarrow> es \<noteq> [] \<Longrightarrow> \<exists>j n. last es = MemberEvent j n ms'"
  by (induction ms es ms' rule: announced.induct) (auto split: if_splits)

lemma migrate_announced:
  assumes "member_inv d" "run_migrate c d = Ret d'" "announced ms (es @ items (devents d)) (dmembers d)"
  shows "announced ms (es @ items (devents d')) (dmembers d')"
proof (cases c)
  case (MJoin n)
  then show ?thesis
    using assms(2,3) AddNode_spec [of n d d'] announced_snoc [OF assms(3), of True "dmembers d'" n]
    by (cases "\<exists>m\<in>set (dmembers d). ID m = ID n") auto
next
  case (MLeave i)
  have sp: "dself d' = dself d \<and> dmembers d' = filter (\<lambda>m. ID m \<noteq> i) (dmembers d) \<and>
    (if \<exists>m\<in>set (dmembers d). ID m = i
     then \<exists>r\<in>set (dmembers d). ID r = i \<and> items (devents d') = items (devents d) @ [MemberEvent False r (dmembers d')]
     else d' = d)"
    by (rule RemoveNode_spec) (use assms(1,2) MLeave in \<open>auto simp: member_inv_def\<close>)
  show ?thesis
  proof (cases "\<exists>m\<in>set (dmembers d). ID m = i")
    case True
    with sp obtain r where "r \<in> set (dmembers d)" "ID r = i"
      "items (devents d') = items (devents d) @ [MemberEvent False r (dmembers d')]" by auto
    then show ?thesis using announced_snoc [OF assms(3), of False "dmembers d'" r] sp by simp
  qed (use sp assms(3) in auto)
qed (use assms(2,3) in auto)

lemma parse_migrate:
  assumes "parse_line l slf = CmdMigrate c"
  shows "\<exists>args. c = handleMigrate args slf"
  using assms by (auto simp: parse_line_def Let_def split: if_splits)

lemma chan_recv_items: "chan_recv ch = Got e ch' \<Longrightarrow> items ch = e # items ch' \<and> chan_closed ch' = chan_closed ch"
  by (auto simp: chan_recv_def split: list.splits if_splits)

text \<open>The invariant of a running node: identities stay unique, the node stays a member of its own cluster, and the events
  the coordinator has taken, followed by those still in the channel, tell the whole history of the member list.\<close>

lemma ce_reach_inv:
  assumes "ce_reach mc act d0 w0 d w es" "member_inv d0" "items (devents d0) = []"
  shows "member_inv d \<and> dself d = dself d0 \<and> announced (dmembers d0) (es @ items (devents d)) (dmembers d)"
  using assms
proof (induction rule: ce_reach.induct)
  case (ce_migrate d w es l c d')
  then obtain args where "c = handleMigrate args (dself d)" using parse_migrate by blast
  then show ?case using ce_migrate member_inv_migrate [of d args d'] migrate_announced [of d c d' "dmembers d0" es] by simp
next
  case (ce_notify d w es e ch)
  then show ?case using chan_recv_items [of "devents d" e ch] by (auto simp: member_inv_def dm_Events_def)
qed auto

subsection \<open>The start\<close>

lemma start_member_inv:
  assumes "ID slf \<noteq> []" "distinct (map ID (start_members slf seeds))"
  shows "member_inv (newDynamicMembership slf (start_members slf seeds))"
proof -
  have "ID m \<noteq> []" if "m \<in> set (seed_nodes a xs)" for m a xs
    using that by (induction a xs rule: seed_nodes.induct) (auto simp: Let_def ce_node_def split: if_splits)
  then show ?thesis using assms by (auto simp: member_inv_def newDynamicMembership_def start_members_def)
qed

text \<open>\<open>main\<close> refuses a type it does not know and an address it cannot listen on. Otherwise the node starts, whatever its
  type and seeds; none of the calls to \<open>Serve\<close> panics, and its server listens.\<close>

lemma ce_main_cases:
  "ce_groupMapping t = None \<Longrightarrow> ce_main lsn C t addr seeds ls = Ret (Inl t, ls)"
  "ce_groupMapping t \<noteq> None \<Longrightarrow> lsn addr ls = Inl e \<Longrightarrow> ce_main lsn C t addr seeds ls = (Ret (Inl e, ls) :: ((string + ('k, 'm) ce_process) \<times> string list) go)"
  "ce_groupMapping t \<noteq> None \<Longrightarrow> lsn addr ls = Inr a \<Longrightarrow>
     \<exists>p :: ('k, 'm) ce_process. ce_main lsn C t addr seeds ls = Ret (Inr p, ls @ [a]) \<and> serve_groups t = Some (pMgr p) \<and>
       dm_Self (pMem p) = ce_node t addr \<and> dm_Members (pMem p) = start_members (ce_node t addr) seeds \<and>
       dm_Events (pMem p) = make_chan 100 \<and> server_Addr (pServer p) = a \<and> sentries (pServer p) = serve_rpc t C"
proof -
  obtain m :: "'k ce_manager" where m: "serve_groups t = Some m" using serve_groups_registry [of t] by blast
  show "ce_groupMapping t = None \<Longrightarrow> ce_main lsn C t addr seeds ls = Ret (Inl t, ls)" by (simp add: ce_main_def)
  show "ce_groupMapping t \<noteq> None \<Longrightarrow> lsn addr ls = Inl e \<Longrightarrow> ce_main lsn C t addr seeds ls = (Ret (Inl e, ls) :: ((string + ('k, 'm) ce_process) \<times> string list) go)"
    by (auto simp: m ce_main_def startNode_def Let_def server_Start_def NewServerWith_def)
  show "\<exists>p :: ('k, 'm) ce_process. ce_main lsn C t addr seeds ls = Ret (Inr p, ls @ [a]) \<and> serve_groups t = Some (pMgr p) \<and>
       dm_Self (pMem p) = ce_node t addr \<and> dm_Members (pMem p) = start_members (ce_node t addr) seeds \<and>
       dm_Events (pMem p) = make_chan 100 \<and> server_Addr (pServer p) = a \<and> sentries (pServer p) = serve_rpc t C"
    if "ce_groupMapping t \<noteq> None" "lsn addr ls = Inr a"
    using that m
    by (auto simp: ce_main_def startNode_def Let_def server_Start_def NewServerWith_def server_Addr_def dm_Self_def dm_Members_def
        dm_Events_def newDynamicMembership_def ce_node_def)
qed

subsection \<open>The notifications\<close>

text \<open>The groups of a manager, each with reference counts that add up.\<close>

definition mgr_ok :: "'k ce_manager \<Rightarrow> bool" where
  "mgr_ok m \<longleftrightarrow> (\<forall>g\<in>snd ` set (groups m). \<exists>r. group_inv r g)"

lemma mgr_ok_update: "mgr_ok m \<Longrightarrow> group_inv r g \<Longrightarrow> mgr_ok (m\<lparr>groups := AList.update t g (groups m)\<rparr>)"
  using set_update_subset [of t g "groups m"] by (fastforce simp: mgr_ok_def)

lemma serve_mgr_ok:
  fixes m' :: "'k ce_manager"
  assumes "Serve io i n reg m = Some m'" "mgr_ok m"
  shows "mgr_ok m'"
  using assms mgr_ok_update [OF assms(2) group_inv_new] by (auto simp: Serve_def ServeWith_def Let_def split: if_splits)

lemma start_mgr_ok: "serve_groups t = Some m \<Longrightarrow> mgr_ok m"
proof -
  have "mgr_ok (NewManager :: 'k ce_manager)" by (simp add: mgr_ok_def NewManager_def)
  then show "serve_groups t = Some m \<Longrightarrow> mgr_ok m"
    by (auto simp: serve_groups_def bind_eq_Some_conv split: if_splits dest: serve_mgr_ok)
qed

lemma notify_total:
  assumes "mgr_ok m"
  shows "\<exists>m'. notify q (Ret m) = Ret m' \<and> mgr_ok m'"
proof -
  let ?i = "zero_id q" and ?q = "UserReq (ce_ReqType q) q"
  obtain f m1 where f: "newFrom m = (f, m1)" "groups m1 = groups m" by (auto simp: newFrom_def Let_def)
  show ?thesis
  proof (cases "findHandler ce_ids ?i ?q m1")
    case (Inl e)
    then show ?thesis using f assms by (auto simp: notify_def Broadcast_def FBroadcast_def mgr_ok_def)
  next
    case (Inr gh)
    then obtain g h where gh: "findHandler ce_ids ?i ?q m1 = Inr (g, h)" by (cases gh) auto
    then have "g \<in> snd ` set (groups m)"
      using f(2) by (force simp: findHandler_def findGroup_def split: option.splits if_splits dest!: map_of_SomeD)
    then obtain r where r: "group_inv r g" using assms by (auto simp: mgr_ok_def)
    have "\<exists>res g'. handlerBroadcast f h ?q g = Some (res, g') \<and> group_inv r g'"
    proof (cases "stopping g")
      case True
      with r show ?thesis by (simp add: handlerBroadcast_def broadcast_def isStopping_def)
    next
      case False
      with broadcast_spec [OF r, of "Invoke f h ?q None False"] show ?thesis unfolding handlerBroadcast_def by blast
    qed
    then obtain res g' where b: "handlerBroadcast f h ?q g = Some (res, g')" "group_inv r g'" by blast
    have "mgr_ok (set_group ce_ids ?i g' m1)"
      using mgr_ok_update [of m1 r g'] assms f(2) b(2) by (simp add: set_group_def mgr_ok_def)
    then show ?thesis using f b(1) gh by (simp add: notify_def Broadcast_def FBroadcast_def del: zero_id.simps)
  qed
qed

lemma node_notifiers: "notifiers (node_coordinator t :: 'k ce_manager go MigrationCoordinator) = map notify (notify_checks t)"
proof -
  have "notifiers (fold (\<lambda>q. RegisterNotify (notify q)) qs mc) = notifiers mc @ map notify qs" for qs and mc :: "'k ce_manager go MigrationCoordinator"
    by (induction qs arbitrary: mc) (simp_all add: RegisterNotify_def)
  then show ?thesis by (simp add: node_coordinator_def NewMigrationCoordinator_def)
qed

definition alive :: "'k ce_manager go \<Rightarrow> bool" where
  "alive w \<longleftrightarrow> (\<exists>m. w = Ret m \<and> mgr_ok m)"

lemma handleEvent_alive:
  fixes w :: "'k ce_manager go"
  shows "alive w \<Longrightarrow> alive (handleEvent (node_coordinator t) w)"
proof -
  have "alive w \<Longrightarrow> alive (fold (\<lambda>f w. f w) (map notify qs) w)" for qs and w :: "'k ce_manager go"
  proof (induction qs arbitrary: w)
    case (Cons q qs)
    then show ?case using notify_total [of _ q] by (fastforce simp: alive_def)
  qed simp
  then show "alive w \<Longrightarrow> alive (handleEvent (node_coordinator t) w)" by (simp add: handleEvent_def node_notifiers)
qed

text \<open>The coordinator never takes the node down: as long as the commands keep the manager's groups consistent, every
  reachable state is alive.\<close>

lemma ce_reach_alive:
  assumes "ce_reach (node_coordinator t) act d0 w0 d w es" "alive w0" "\<And>c w. alive w \<Longrightarrow> alive (act c w)"
  shows "alive w"
  using assms
proof (induction rule: ce_reach.induct)
  case (ce_notify d w es e ch)
  then show ?case by (cases e) (simp_all add: handleEvent_alive)
qed auto

subsection \<open>Ownership and the status of the nodes\<close>

lemma ce_placement_sel [simp]: "VirtualNodes ce_placement = 128" "Mapping ce_placement = Some ce_groupMapping"
  by (simp_all add: ce_placement_def WithGroupMapping_def NewConsistentHashPlacement_def)

lemma ce_place_member:
  assumes "slice_sort srt" "\<exists>n\<in>set ms. HasGroup ce_groupMapping (NType n) t"
  shows "\<exists>n\<in>set ms. Place srt ce_placement t i ms = Some n \<and> HasGroup ce_groupMapping (NType n) t"
proof -
  have e: "set (filterEligible ce_placement t ms) = {n \<in> set ms. HasGroup ce_groupMapping (NType n) t}"
    by (simp add: set_filterEligible NodeCanHost_def)
  then have "filterEligible ce_placement t ms \<noteq> []" using assms(2) by force
  then show ?thesis using Place_nearest [OF assms(1), of ce_placement t ms i] e unfolding nearest_def by auto
qed

text \<open>Whatever the command line did to the membership, the ownership check of an actor that this node hosts has an answer,
  and tells the actor to leave only for another member that hosts its group.\<close>

lemma ownership_check_answers:
  assumes "slice_sort srt" "ce_reach mc act d0 w0 d w es" "member_inv d0" "items (devents d0) = []"
    and "HasGroup ce_groupMapping (NType (dself d0)) (ce_type i)"
  shows "\<exists>target leave. CheckOwnership (Place srt ce_placement) (dm_Members d) (ID (dm_Self d)) (ce_type i) (ce_String i) = Some (target, leave) \<and>
    (leave \<longrightarrow> target \<noteq> ID (dself d0) \<and> (\<exists>n\<in>set (dmembers d). ID n = target \<and> HasGroup ce_groupMapping (NType n) (ce_type i)))"
proof -
  have inv: "member_inv d" "dself d = dself d0" using ce_reach_inv [OF assms(2-4)] by auto
  then obtain n where "n \<in> set (dmembers d)" "Place srt ce_placement (ce_type i) (ce_String i) (dmembers d) = Some n"
      "HasGroup ce_groupMapping (NType n) (ce_type i)"
    using ce_place_member [OF assms(1), of "dmembers d" "ce_type i" "ce_String i"] assms(5) by (auto simp: member_inv_def)
  then show ?thesis using inv by (auto simp: CheckOwnership_def dm_Members_def dm_Self_def)
qed

lemma count_local_filter:
  assumes "\<And>i. Place srt ce_placement at i (dmembers d) = Some (pl i)"
  shows "count_local (node_router srt ap nw lt d) at ks k =
    Ret (k + length (filter (\<lambda>j. ID (pl (ToLower at @ ''-'' @ Itoa (int j))) = ID (dself d)) ks))"
  using assms
  by (induction ks arbitrary: k) (simp_all add: IsLocal_def router_Place_def node_router_def NewRouter_def dm_Self_def dm_Members_def)

text \<open>The counts that \<open>status\<close> shows on the members of one cluster add up: each of the ten keys of a group is local to
  exactly one member.\<close>

lemma status_adds_up:
  assumes "slice_sort srt" "\<exists>n\<in>set ms. HasGroup ce_groupMapping (NType n) at" "distinct (map ID ms)"
  shows "\<exists>cnt. (\<forall>n\<in>set ms. \<forall>d. dself d = n \<longrightarrow> dmembers d = ms \<longrightarrow>
      count_local (node_router srt ap nw lt d) at [0..<10] 0 = Ret (cnt n)) \<and> (\<Sum>n\<leftarrow>ms. cnt n) = 10"
proof -
  obtain pl where pl: "\<And>i. Place srt ce_placement at i ms = Some (pl i)" "\<And>i. pl i \<in> set ms"
    using ce_place_member [OF assms(1,2)] by metis
  let ?key = "\<lambda>j. ToLower at @ ''-'' @ Itoa (int j)"
  let ?cnt = "\<lambda>n. length (filter (\<lambda>j. ID (pl (?key j)) = ID n) [0..<10])"
  have one: "(\<Sum>n\<leftarrow>xs. if ID p = ID n then 1 else 0 :: nat) = (if ID p \<in> ID ` set xs then 1 else 0)" if "distinct (map ID xs)" for p :: Node and xs
    using that by (induction xs) (auto simp: image_iff)
  have "(\<Sum>n\<leftarrow>ms. length (filter (\<lambda>j. ID (pl (?key j)) = ID n) ks)) = length ks" for ks :: "nat list"
  proof (induction ks)
    case (Cons j ks)
    have "(\<Sum>n\<leftarrow>ms. length (filter (\<lambda>j. ID (pl (?key j)) = ID n) (j # ks))) =
        (\<Sum>n\<leftarrow>ms. (if ID (pl (?key j)) = ID n then 1 else 0) + length (filter (\<lambda>j. ID (pl (?key j)) = ID n) ks))"
      by (intro arg_cong [where f = sum_list] map_cong) simp_all
    also have "\<dots> = 1 + length ks" using Cons.IH one [OF assms(3), of "pl (?key j)"] pl(2) by (simp add: sum_list_addf)
    finally show ?case by simp
  qed simp
  then have "(\<Sum>n\<leftarrow>ms. ?cnt n) = 10" by simp
  moreover have "count_local (node_router srt ap nw lt d) at [0..<10] 0 = Ret (?cnt n)" if "dself d = n" "dmembers d = ms" for d n
    using count_local_filter [of srt at d pl ap nw lt "[0..<10]" 0] pl(1) that by simp
  ultimately show ?thesis by (intro exI [of _ ?cnt]) simp
qed

text \<open>\<open>status\<close> shows a count for the groups of the node's type and for no other, and does not panic.\<close>

lemma status_shows_hosted:
  assumes "slice_sort srt" "member_inv d"
  shows "\<exists>f. status_rows (node_router srt ap nw lt d) ats =
    Ret (map (\<lambda>at. (at, if HasGroup ce_groupMapping (NType (dself d)) at then Some (f at) else None)) ats)"
proof -
  have "\<exists>k. count_local (node_router srt ap nw lt d) at [0..<10] 0 = Ret k" if "HasGroup ce_groupMapping (NType (dself d)) at" for at
  proof -
    have "\<exists>n\<in>set (dmembers d). HasGroup ce_groupMapping (NType n) at" using that assms(2) by (auto simp: member_inv_def)
    then obtain pl where "\<And>i. Place srt ce_placement at i (dmembers d) = Some (pl i)"
      using ce_place_member [OF assms(1)] by metis
    then show ?thesis using count_local_filter [of srt at d pl] by blast
  qed
  then obtain f where f: "\<And>at. HasGroup ce_groupMapping (NType (dself d)) at \<Longrightarrow> count_local (node_router srt ap nw lt d) at [0..<10] 0 = Ret (f at)"
    by metis
  have [simp]: "Self (node_router srt ap nw lt d) = dself d" by (simp add: node_router_def NewRouter_def dm_Self_def)
  have "status_rows (node_router srt ap nw lt d) ats =
      Ret (map (\<lambda>at. (at, if HasGroup ce_groupMapping (NType (dself d)) at then Some (f at) else None)) ats)"
    by (induction ats) (simp_all add: f)
  then show ?thesis by blast
qed

text \<open>A type that the mapping does not have hosts nothing, yet \<open>info\<close> shows it as a node for all groups; \<open>migrate join\<close> takes
  any type.\<close>

lemma unknown_type_shown_as_all:
  assumes "ce_groupMapping t = None" "t \<noteq> []"
  shows "groups_shown t = groups_shown ''all-in-one''" "\<not> HasGroup ce_groupMapping t g" "handleMigrate [''join'', t, a] slf = MJoin (ce_node t a)"
proof -
  show "groups_shown t = groups_shown ''all-in-one''" using assms by (simp add: groups_shown_def GroupsOf_def)
  show "\<not> HasGroup ce_groupMapping t g" using assms by (simp add: HasGroup_def)
  have "ToLower ''join'' = ''join''" by code_simp
  then show "handleMigrate [''join'', t, a] slf = MJoin (ce_node t a)" by (simp add: handleMigrate_def)
qed

text \<open>Closing the router hangs up and empties the pool; \<open>quit\<close> leaves every connection as it is.\<close>

lemma exit_signal_closes:
  "clients (ce_exit Signal r d s) = []" "rnet (ce_exit Signal r d s) = hangup_all (rnetwork r) (clients s) (rnet s)"
  "ce_exit QuitCommand r d s = s"
  by (simp_all add: router_Close_def closeAll_def)

subsection \<open>The coordinator sees every change\<close>


text \<open>A node of all types, one line typed, and the coordinator taking the event.\<close>

definition demo_lines :: "string list" where
  "demo_lines = [''migrate join player-server localhost:8005'']"

definition no_codec :: "(ceid, cereq, cerep, unit) Codec" where
  "no_codec = \<lparr>encId = (\<lambda>_. Inl []), decId = (\<lambda>_. Inl []), encReq = (\<lambda>_. Inl []), decReq = (\<lambda>_. Inl []),
     encRep = (\<lambda>_. Inl []), decRep = (\<lambda>_. Inl [])\<rparr>"


end
