(* ===== verification/Grain_Redis_Expiry.thy ===== *)
theory Grain_Redis_Expiry
  imports Grain_Redis
begin

section \<open>Time and types in the Redis driver\<close>

text \<open>
  Two questions the scripts of \<open>grain/driver_redis.go\<close> leave to Redis and to Go's type switch. First, what becomes of a key when
  time passes: the locale \<open>redis_time\<close> adds the documented expiry of keys to the contract of the server, and a step
  relation runs the scripts of any number of nodes with time passing in between. Second, which snapshot types can be
  saved and loaded: the type switches of \<open>marshalData\<close> and \<open>unmarshalData\<close>.
\<close>

subsection \<open>Keys that expire\<close>

text \<open>
  \<open>tick ms\<close> is the passing of \<open>ms\<close> milliseconds. A key lives while its remaining time is not negative and is deleted with all its
  fields afterwards; \<open>HSET\<close> does not change the remaining time of a key.
\<close>

locale redis_time = redis_hash R for R :: "'s redis_ops" +
  fixes tick :: "int \<Rightarrow> 's \<Rightarrow> 's"
  assumes PTTL_HSET: "k \<noteq> k' \<or> EXISTS R k s \<Longrightarrow> PTTL R k (HSET R k' fvs s) = PTTL R k s"
    and PTTL_PEXPIRE_other: "k \<noteq> k' \<Longrightarrow> PTTL R k (PEXPIRE R k' ms s) = PTTL R k s"
    and tick_alive: "EXISTS R k s \<Longrightarrow> 0 \<le> ms \<Longrightarrow> ms \<le> PTTL R k s \<Longrightarrow>
        HGET R k f (tick ms s) = HGET R k f s \<and> PTTL R k (tick ms s) = PTTL R k s - ms"
    and tick_gone: "EXISTS R k s \<Longrightarrow> 0 \<le> PTTL R k s \<Longrightarrow> PTTL R k s < ms \<Longrightarrow> HGET R k f (tick ms s) = None"
    and tick_absent: "\<not> EXISTS R k s \<Longrightarrow> HGET R k f (tick ms s) = None"

definition mem_tick :: "int \<Rightarrow> memstore \<Rightarrow> memstore" where
  "mem_tick ms s k =
     (case s k of
        None \<Rightarrow> None
      | Some (h, t) \<Rightarrow> if t < 0 then Some (h, t) else if ms \<le> t then Some (h, t - ms) else None)"

interpretation memt: redis_time mem_redis mem_tick
proof unfold_locales
  fix k k' :: string and s :: memstore and fvs f and ms :: int
  show "k \<noteq> k' \<or> EXISTS mem_redis k s \<Longrightarrow> PTTL mem_redis k (HSET mem_redis k' fvs s) = PTTL mem_redis k s"
    by (auto simp: mem_redis_def split: option.splits)
  show "k \<noteq> k' \<Longrightarrow> PTTL mem_redis k (PEXPIRE mem_redis k' ms s) = PTTL mem_redis k s"
    by (auto simp: mem_redis_def split: option.splits)
  show "EXISTS mem_redis k s \<Longrightarrow> 0 \<le> ms \<Longrightarrow> ms \<le> PTTL mem_redis k s \<Longrightarrow>
      HGET mem_redis k f (mem_tick ms s) = HGET mem_redis k f s \<and> PTTL mem_redis k (mem_tick ms s) = PTTL mem_redis k s - ms"
    by (auto simp: mem_redis_def mem_tick_def split: option.splits)
  show "EXISTS mem_redis k s \<Longrightarrow> 0 \<le> PTTL mem_redis k s \<Longrightarrow> PTTL mem_redis k s < ms \<Longrightarrow> HGET mem_redis k f (mem_tick ms s) = None"
    by (auto simp: mem_redis_def mem_tick_def split: option.splits)
  show "\<not> EXISTS mem_redis k s \<Longrightarrow> HGET mem_redis k f (mem_tick ms s) = None"
    by (auto simp: mem_redis_def mem_tick_def split: option.splits)
qed

text \<open>
  The scripts of the nodes of a cluster, which share the settings \<open>d\<close>, and time. A node that releases has a name.
\<close>

inductive redis_step :: "'s redis_ops \<Rightarrow> (int \<Rightarrow> 's \<Rightarrow> 's) \<Rightarrow> RedisDriver \<Rightarrow> 's \<Rightarrow> 's \<Rightarrow> bool"
  for R tick d where
  load: "loadLua R (redis_key d t i) owner (leaseTimeout d) s = (res, s') \<Longrightarrow> redis_step R tick d s s'"
| save: "saveLua R (redis_key d t i) owner gen data (if dataTTL d \<le> 0 then leaseTimeout d else dataTTL d) renew s = (n, s')
    \<Longrightarrow> redis_step R tick d s s'"
| release: "owner \<noteq> [] \<Longrightarrow> releaseLua R (redis_key d t i) owner gen s = (n, s') \<Longrightarrow> redis_step R tick d s s'"
| force: "forceReleaseLua R (redis_key d t i) (leaseTimeout d) s = (n, s') \<Longrightarrow> redis_step R tick d s s'"
| time: "0 \<le> ms \<Longrightarrow> redis_step R tick d s (tick ms s)"

definition max_ttl :: "RedisDriver \<Rightarrow> int" where
  "max_ttl d = max (leaseTimeout d) (dataTTL d)"

text \<open>Every key is on its way to expiry.\<close>

definition all_expire :: "'s redis_ops \<Rightarrow> int \<Rightarrow> 's \<Rightarrow> bool" where
  "all_expire R mx s \<longleftrightarrow> (\<forall>k. EXISTS R k s \<longrightarrow> 0 \<le> PTTL R k s \<and> PTTL R k s \<le> mx)"

context redis_time
begin

lemma EXISTS_HSET_iff: "fvs \<noteq> [] \<Longrightarrow> EXISTS R k (HSET R k' fvs s) \<longleftrightarrow> k = k' \<or> EXISTS R k s"
proof (cases "k = k'")
  case True
  assume "fvs \<noteq> []"
  then have "fst (hd fvs) \<in> fst ` set (rev fvs)" by simp
  then obtain f v where "map_of (rev fvs) f = Some v" by (metis map_of_eq_None_iff not_Some_eq)
  then have "HGET R k f (HSET R k' fvs s) = Some v" using True by (simp add: HGET_HSET)
  then show ?thesis using True by (auto simp: EXISTS_iff)
qed (simp add: EXISTS_iff HGET_HSET)

lemma EXISTS_PEXPIRE: "0 < ms \<Longrightarrow> EXISTS R k (PEXPIRE R k' ms s) \<longleftrightarrow> EXISTS R k s"
  by (simp add: EXISTS_iff HGET_PEXPIRE)

text \<open>Writing a key and setting its time.\<close>

lemma all_expire_write:
  assumes "all_expire R mx s" "fvs \<noteq> []" "0 < ttl" "ttl \<le> mx"
  shows "all_expire R mx (PEXPIRE R k ttl (HSET R k fvs s))"
  unfolding all_expire_def
proof (intro allI impI)
  fix k'
  assume "EXISTS R k' (PEXPIRE R k ttl (HSET R k fvs s))"
  then have ex: "k' = k \<or> EXISTS R k' s" using assms(2,3) by (simp add: EXISTS_PEXPIRE EXISTS_HSET_iff)
  show "0 \<le> PTTL R k' (PEXPIRE R k ttl (HSET R k fvs s)) \<and> PTTL R k' (PEXPIRE R k ttl (HSET R k fvs s)) \<le> mx"
  proof (cases "k' = k")
    case True
    with assms(2-4) show ?thesis by (simp add: PTTL_PEXPIRE EXISTS_HSET_iff)
  next
    case False
    with ex assms(1) show ?thesis by (simp add: PTTL_PEXPIRE_other PTTL_HSET all_expire_def)
  qed
qed

lemma all_expire_touch:
  assumes "all_expire R mx s" "EXISTS R k s" "0 < ttl" "ttl \<le> mx"
  shows "all_expire R mx (PEXPIRE R k ttl s)"
  unfolding all_expire_def
proof (intro allI impI)
  fix k'
  assume "EXISTS R k' (PEXPIRE R k ttl s)"
  with assms show "0 \<le> PTTL R k' (PEXPIRE R k ttl s) \<and> PTTL R k' (PEXPIRE R k ttl s) \<le> mx"
    by (cases "k' = k") (auto simp: PTTL_PEXPIRE PTTL_PEXPIRE_other EXISTS_PEXPIRE all_expire_def)
qed

lemma all_expire_HSET:
  assumes "all_expire R mx s" "EXISTS R k s" "fvs \<noteq> []"
  shows "all_expire R mx (HSET R k fvs s)"
  using assms by (auto simp: all_expire_def EXISTS_HSET_iff PTTL_HSET)

lemma all_expire_tick:
  assumes "all_expire R mx s" "0 \<le> ms"
  shows "all_expire R mx (tick ms s)"
  unfolding all_expire_def
proof (intro allI impI)
  fix k
  assume ex: "EXISTS R k (tick ms s)"
  have "EXISTS R k s"
  proof (rule ccontr)
    assume "\<not> EXISTS R k s"
    from tick_absent [OF this] ex show False by (simp add: EXISTS_iff)
  qed
  moreover from this have "ms \<le> PTTL R k s" using ex tick_gone [of k s ms] assms(1) by (force simp: EXISTS_iff all_expire_def)
  ultimately show "0 \<le> PTTL R k (tick ms s) \<and> PTTL R k (tick ms s) \<le> mx"
    using tick_alive [of k s ms] assms by (auto simp: all_expire_def)
qed

lemma script_all_expire:
  assumes all: "all_expire R (max_ttl d) s" and lt: "0 < leaseTimeout d" and step: "redis_step R tick d s s'"
  shows "all_expire R (max_ttl d) s'"
  using step
proof cases
  case (load t i owner res)
  have "leaseTimeout d \<le> max_ttl d" by (simp add: max_ttl_def)
  with load all lt show ?thesis
    by (auto simp: loadLua_def Let_def intro: all_expire_write all_expire_touch split: if_splits)
next
  case (save t i owner gen data renew n)
  have "0 < (if dataTTL d \<le> 0 then leaseTimeout d else dataTTL d)" "(if dataTTL d \<le> 0 then leaseTimeout d else dataTTL d) \<le> max_ttl d"
    using lt by (simp_all add: max_ttl_def)
  with save all show ?thesis
    by (auto simp: saveLua_def Let_def intro!: all_expire_write split: if_splits)
next
  case (release owner t i gen n)
  have "EXISTS R (redis_key d t i) s" if "cur_owner R (redis_key d t i) s = owner"
    using that release(1) by (auto simp: cur_owner_def EXISTS_iff split: option.splits)
  with release all show ?thesis by (auto simp: releaseLua_def intro!: all_expire_HSET split: if_splits)
next
  case (force t i n)
  have "leaseTimeout d \<le> max_ttl d" by (simp add: max_ttl_def)
  with force all lt show ?thesis by (auto simp: forceReleaseLua_def Let_def intro!: all_expire_write)
next
  case (time ms)
  with all show ?thesis by (simp add: all_expire_tick)
qed

lemma reach_all_expire:
  assumes "\<And>k. \<not> EXISTS R k s0" "0 < leaseTimeout d" "(redis_step R tick d)\<^sup>*\<^sup>* s0 s"
  shows "all_expire R (max_ttl d) s"
  using assms(3)
proof (induction rule: rtranclp_induct)
  case base
  with assms(1) show ?case by (simp add: all_expire_def)
next
  case (step s1 s2)
  with script_all_expire assms(2) show ?case by blast
qed

lemma gone_after:
  assumes "all_expire R mx s" "mx < ms"
  shows "\<not> EXISTS R k (tick ms s)"
proof (cases "EXISTS R k s")
  case True
  with assms tick_gone [of k s ms] show ?thesis by (force simp: all_expire_def EXISTS_iff)
next
  case False
  from tick_absent [OF this] show ?thesis by (simp add: EXISTS_iff)
qed

end


definition demo_loaded :: memstore where
  "demo_loaded = snd (loadLua mem_redis (redis_key demo_redis ''P'' ''1'') ''n1'' (leaseTimeout demo_redis) Map.empty)"

lemma demo_ttl: "leaseTimeout demo_redis = 600000" "dataTTL demo_redis = 600000"
  by (simp_all add: demo_redis_def NewRedisDriver_def DefaultLeaseTimeout_def Let_def)


subsection \<open>Which snapshot types the driver stores\<close>

text \<open>
  The dynamic type of a snapshot: whether it is \<open>[]byte\<close> or a pointer to one, and the methods it has. \<open>State.persist\<close> and \<open>activate\<close>
  hand the driver a pointer to the snapshot, for saving as for loading.
\<close>

datatype gotype = TBytes | TPtrBytes | TOther

record 'p dyntype =
  gt :: gotype
  mBinary :: "('p \<Rightarrow> string + string) option"
  mJson :: "('p \<Rightarrow> string + string) option"
  uBinary :: "(string \<Rightarrow> 'p \<Rightarrow> string option \<times> 'p) option"
  uJson :: "(string \<Rightarrow> 'p \<Rightarrow> string option \<times> 'p) option"
  as_bytes :: "'p \<Rightarrow> string"
  of_bytes :: "string \<Rightarrow> 'p"

definition ErrRedisMarshalFailed :: string where
  "ErrRedisMarshalFailed = ''grain: RedisDriver: src must implement encoding.BinaryMarshaler, json.Marshaler, or be []byte''"

definition ErrRedisUnmarshalFailed :: string where
  "ErrRedisUnmarshalFailed = ''grain: RedisDriver: dst must implement encoding.BinaryUnmarshaler, json.Unmarshaler, or be *[]byte''"

definition marshalData :: "'p dyntype \<Rightarrow> 'p \<Rightarrow> string + string" where
  "marshalData T v =
     (case mBinary T of
        Some f \<Rightarrow> f v
      | None \<Rightarrow>
          (case mJson T of
             Some f \<Rightarrow> f v
           | None \<Rightarrow> if gt T = TBytes then Inr (as_bytes T v) else Inl ErrRedisMarshalFailed))"

definition unmarshal_switch :: "'p dyntype \<Rightarrow> string \<Rightarrow> 'p \<Rightarrow> string option \<times> 'p" where
  "unmarshal_switch T data dst =
     (case uBinary T of
        Some f \<Rightarrow> f data dst
      | None \<Rightarrow>
          (case uJson T of
             Some f \<Rightarrow> f data dst
           | None \<Rightarrow> if gt T = TPtrBytes then (None, of_bytes T data) else (Some ErrRedisUnmarshalFailed, dst)))"

definition codec_of :: "'p dyntype \<Rightarrow> 'p redis_codec" where
  "codec_of T = \<lparr>rMarshal = marshalData T, rUnmarshal = unmarshal_switch T\<rparr>"

text \<open>
  A pointer without marshalling methods is never saved, also one to \<open>[]byte\<close>, which the loading side accepts: the case for
  \<open>[]byte\<close> is never reached from a grain. With methods that invert each other, what was saved is loaded.
\<close>

lemma pointer_never_saved:
  assumes "mBinary T = None" "mJson T = None" "gt T \<noteq> TBytes"
  shows "redis_Save R d (codec_of T) t i owner (Some p) gen s = Ret (Some (DrvErr ErrRedisMarshalFailed), s)"
    "gt T = TPtrBytes \<Longrightarrow> uBinary T = None \<Longrightarrow> uJson T = None \<Longrightarrow> data \<noteq> [] \<Longrightarrow> unmarshalData (codec_of T) data p = (None, of_bytes T data)"
  using assms by (simp_all add: redis_Save_def codec_of_def marshalData_def unmarshalData_def unmarshal_switch_def Let_def)

lemma codec_of_roundtrip:
  assumes "mBinary T = Some f" "uBinary T = Some g" "\<And>p q. f p = Inr data \<Longrightarrow> g data q = (None, p)" "f p = Inr data" "data \<noteq> []"
  shows "rMarshal (codec_of T) p = Inr data \<and> unmarshalData (codec_of T) data q = (None, p)"
  using assms by (simp add: codec_of_def marshalData_def unmarshalData_def unmarshal_switch_def)

end
