(* ===== verification/Grain_Mongo.thy ===== *)
theory Grain_Mongo
  imports Grain_Driver
begin

section \<open>The MongoDB driver\<close>

text \<open>
  \<open>grain/driver_mongo.go\<close>. The filters, the update pipeline and the update documents are BSON values built as the Go code
  builds them. The server is outside the sources: its commands are the record \<open>mongo_ops\<close>, and the locale
  \<open>mongo_server\<close> states what they do to a document selected by its \<open>_id\<close>, in terms of the documented meaning of the
  operators the driver uses (\<open>matches\<close> for queries, \<open>eval\<close> for aggregation expressions; \<^const>\<open>None\<close> is an expression
  outside that fragment). Times are milliseconds. A generation stays below \<open>2^63\<close>. An error of the connection is
  returned before anything happens; the contract covers calls without one.
\<close>

datatype bson =
    BNull
  | BBool bool
  | BInt int
  | BStr string
  | BDate int
  | BArr "bson list"
  | BDoc "(string \<times> bson) list"

type_synonym doc = "(string \<times> bson) list"

subsection \<open>The query and expression language\<close>

text \<open>A missing field reads as null.\<close>

definition field :: "doc \<Rightarrow> string \<Rightarrow> bson" where
  "field d f = (case map_of d f of None \<Rightarrow> BNull | Some v \<Rightarrow> v)"

text \<open>Query conditions: \<open>$or\<close>, \<open>$lt\<close> on dates, which compares values of the same type only, and equality.\<close>

fun lt_date :: "bson \<Rightarrow> int \<Rightarrow> bool" where
  "lt_date (BDate x) t = (x < t)"
| "lt_date _ t = False"

fun cond_matches :: "doc \<Rightarrow> string \<times> bson \<Rightarrow> bool" where
  "cond_matches d (k, BDoc [(op, BDate t)]) = (op = ''$lt'' \<and> lt_date (field d k) t)"
| "cond_matches d (k, v) = (field d k = v)"

fun filter_matches :: "doc \<Rightarrow> bson \<Rightarrow> bool" where
  "filter_matches d (BDoc cs) = (\<forall>c\<in>set cs. cond_matches d c)"
| "filter_matches d _ = False"

fun matches :: "doc \<Rightarrow> doc \<Rightarrow> bool" where
  "matches [] d = True"
| "matches ((k, v) # cs) d =
     ((case v of
         BArr fs \<Rightarrow> if k = ''$or'' then (\<exists>f\<in>set fs. filter_matches d f) else cond_matches d (k, v)
       | _ \<Rightarrow> cond_matches d (k, v)) \<and> matches cs d)"

text \<open>Boolean value of an expression: false, null and zero are false, everything else is true, documents included.\<close>

fun truthy :: "bson \<Rightarrow> bool" where
  "truthy BNull = False"
| "truthy (BBool b) = b"
| "truthy (BInt n) = (n \<noteq> 0)"
| "truthy _ = True"

definition is_op :: "string \<Rightarrow> bool" where
  "is_op s \<longleftrightarrow> s \<noteq> [] \<and> hd s = CHR ''$''"

text \<open>Null sorts before every date.\<close>

fun op_lt :: "bson list \<Rightarrow> bson option" where
  "op_lt [BDate x, BDate y] = Some (BBool (x < y))"
| "op_lt [BNull, BDate y] = Some (BBool True)"
| "op_lt _ = None"

fun op_ne :: "bson list \<Rightarrow> bson option" where
  "op_ne [a, b] = Some (BBool (a \<noteq> b))"
| "op_ne _ = None"

fun op_add :: "bson list \<Rightarrow> bson option" where
  "op_add [BInt x, BInt y] = Some (BInt (x + y))"
| "op_add _ = None"

fun op_ifNull :: "bson list \<Rightarrow> bson option" where
  "op_ifNull [a, b] = Some (if a = BNull then b else a)"
| "op_ifNull _ = None"

definition bson_op :: "string \<Rightarrow> bson list \<Rightarrow> bson option" where
  "bson_op k vs =
     (if k = ''$or'' then Some (BBool (\<exists>v\<in>set vs. truthy v))
      else if k = ''$ne'' then op_ne vs
      else if k = ''$lt'' then op_lt vs
      else if k = ''$add'' then op_add vs
      else if k = ''$ifNull'' then op_ifNull vs
      else None)"

text \<open>An object without operator is a literal: it evaluates to the document with its fields evaluated.\<close>

fun eval :: "doc \<Rightarrow> bson \<Rightarrow> bson option" where
  "eval d (BStr s) = Some (if is_op s then field d (tl s) else BStr s)"
| "eval d (BDoc [(k, BArr es)]) = (if is_op k then Option.bind (those (map (eval d) es)) (bson_op k) else None)"
| "eval d (BDoc [(k, BDoc [(k1, a), (k2, b), (k3, c)])]) =
     (if k = ''$cond'' \<and> k1 = ''if'' \<and> k2 = ''then'' \<and> k3 = ''else''
      then (case eval d a of None \<Rightarrow> None | Some v \<Rightarrow> if truthy v then eval d b else eval d c)
      else None)"
| "eval d (BDoc [(k, e)]) = (if is_op k then None else map_option (\<lambda>v. BDoc [(k, v)]) (eval d e))"
| "eval d (BDoc _) = None"
| "eval d (BArr es) = map_option BArr (those (map (eval d) es))"
| "eval d v = Some v"

text \<open>A \<open>$set\<close> stage evaluates all its expressions on the document before it changes it.\<close>

definition set_fields :: "(string \<times> bson) list \<Rightarrow> doc \<Rightarrow> doc" where
  "set_fields fs d = fold (\<lambda>(k, v) d. AList.update k v d) fs d"

definition apply_set_stage :: "(string \<times> bson) list \<Rightarrow> doc \<Rightarrow> doc option" where
  "apply_set_stage fs d =
     map_option (\<lambda>vs. set_fields (zip (map fst fs) vs) d) (those (map (\<lambda>(k, e). eval d e) fs))"

text \<open>An update document: \<open>$set\<close> takes values, \<open>$inc\<close> adds to a number, a missing field counting as zero.\<close>

fun inc_field :: "string \<Rightarrow> int \<Rightarrow> doc \<Rightarrow> doc option" where
  "inc_field f n d = (case field d f of BInt m \<Rightarrow> Some (AList.update f (BInt (m + n)) d) | BNull \<Rightarrow> Some (AList.update f (BInt n) d) | _ \<Rightarrow> None)"

record update =
  uSet :: "(string \<times> bson) list"
  uInc :: "(string \<times> int) list"

definition apply_update :: "update \<Rightarrow> doc \<Rightarrow> doc option" where
  "apply_update u d =
     fold (\<lambda>(f, n) acc. Option.bind acc (inc_field f n)) (uInc u) (Some (set_fields (uSet u) d))"

subsection \<open>The commands\<close>

datatype mongoerr = DuplicateKeyError string | ErrNoDocuments | MongoErr string

fun mongoerr_String :: "mongoerr \<Rightarrow> string" where
  "mongoerr_String (DuplicateKeyError t) = t"
| "mongoerr_String ErrNoDocuments = ''mongo: no documents in result''"
| "mongoerr_String (MongoErr t) = t"

fun IsDuplicateKeyError :: "mongoerr \<Rightarrow> bool" where
  "IsDuplicateKeyError (DuplicateKeyError _) = True"
| "IsDuplicateKeyError _ = False"

text \<open>Collection, filter, change and whether to insert when nothing matches; the document after the change is returned.\<close>

record 's mongo_ops =
  FindOneAndSet :: "string \<Rightarrow> doc \<Rightarrow> (string \<times> bson) list \<Rightarrow> bool \<Rightarrow> 's \<Rightarrow> (mongoerr + doc) \<times> 's"
  FindOneAndUpdate :: "string \<Rightarrow> doc \<Rightarrow> update \<Rightarrow> bool \<Rightarrow> 's \<Rightarrow> (mongoerr + doc) \<times> 's"
  FindOne :: "string \<Rightarrow> doc \<Rightarrow> 's \<Rightarrow> mongoerr + doc"
  UpdateOne :: "string \<Rightarrow> doc \<Rightarrow> update \<Rightarrow> 's \<Rightarrow> (mongoerr + int) \<times> 's"
  ReplaceOne :: "string \<Rightarrow> doc \<Rightarrow> doc \<Rightarrow> bool \<Rightarrow> 's \<Rightarrow> (mongoerr + int) \<times> 's"

subsection \<open>The Go functions\<close>

record MongoDriver =
  mCollection :: "string \<rightharpoonup> string"
  mNodeId :: string
  mLeaseTimeout :: int

text \<open>Both constructors differ only in how they obtain the database; \<open>DefaultLeaseTimeout\<close> is ten minutes.\<close>

definition NewMongoDriver :: "string \<Rightarrow> int \<Rightarrow> MongoDriver" where
  "NewMongoDriver node lt =
     \<lparr>mCollection = Map.empty, mNodeId = node, mLeaseTimeout = (if lt \<le> 0 then 600000 else lt)\<rparr>"

definition RegisterCollection :: "string \<Rightarrow> string \<Rightarrow> MongoDriver \<Rightarrow> MongoDriver" where
  "RegisterCollection t name d = d\<lparr>mCollection := (mCollection d)(t \<mapsto> name)\<rparr>"

definition col :: "MongoDriver \<Rightarrow> string \<Rightarrow> string" where
  "col d t = (case mCollection d t of Some name \<Rightarrow> name | None \<Rightarrow> t)"

definition load_filter :: "string \<Rightarrow> string \<Rightarrow> int \<Rightarrow> doc" where
  "load_filter i owner expireTime =
     [(''_id'', BStr i),
      (''$or'', BArr
        [BDoc [(''owner'', BStr [])],
         BDoc [(''owner'', BStr owner)],
         BDoc [(''updated_at'', BDoc [(''$lt'', BDate expireTime)])]])]"

definition load_stage :: "string \<Rightarrow> int \<Rightarrow> int \<Rightarrow> (string \<times> bson) list" where
  "load_stage owner now expireTime =
     [(''owner'', BStr owner),
      (''updated_at'', BDate now),
      (''generation'', BDoc [(''$cond'', BDoc
        [(''if'', BDoc [(''$or'', BArr
            [BDoc [(''owner'', BStr [])],
             BDoc [(''$ne'', BArr [BStr ''$owner'', BStr owner])],
             BDoc [(''$lt'', BArr [BStr ''$updated_at'', BDate expireTime])]])]),
         (''then'', BDoc [(''$add'', BArr [BDoc [(''$ifNull'', BArr [BStr ''$generation'', BInt 0])], BInt 1])]),
         (''else'', BDoc [(''$ifNull'', BArr [BStr ''$generation'', BInt 1])])])])]"

text \<open>
  Decoding a document into the driver's structs: a missing field gives the zero value. How the \<open>bson\<close> package maps the
  user's snapshot type, and a value to \<open>bson.Raw\<close> (\<^const>\<open>None\<close> is an empty one), is \<open>bson_codec\<close>, with the text of
  its type errors.
\<close>

record 'p bson_codec =
  bMarshal :: "'p \<Rightarrow> string + bson"
  bUnmarshal :: "bson \<Rightarrow> 'p \<Rightarrow> string option \<times> 'p"
  bRaw :: "bson \<Rightarrow> string + bson option"
  bTypeErr :: "string \<Rightarrow> string"

record mongoDoc =
  mdID :: string
  mdOwner :: string
  mdGeneration :: int
  mdSnapshot :: "bson option"

fun dec_bstr :: "bson \<Rightarrow> string option" where
  "dec_bstr (BStr x) = Some x"
| "dec_bstr BNull = Some []"
| "dec_bstr _ = None"

fun dec_bint :: "bson \<Rightarrow> int option" where
  "dec_bint (BInt n) = Some n"
| "dec_bint BNull = Some 0"
| "dec_bint _ = None"

fun is_bdate :: "bson \<Rightarrow> bool" where
  "is_bdate (BDate _) = True"
| "is_bdate BNull = True"
| "is_bdate _ = False"

definition decode_mongoDoc :: "(string \<Rightarrow> string) \<Rightarrow> doc \<Rightarrow> string + mongoDoc" where
  "decode_mongoDoc typeErr d =
     (case (dec_bstr (field d ''_id''), dec_bstr (field d ''owner''), dec_bint (field d ''generation'')) of
        (None, _, _) \<Rightarrow> Inl (typeErr ''_id'')
      | (_, None, _) \<Rightarrow> Inl (typeErr ''owner'')
      | (_, _, None) \<Rightarrow> Inl (typeErr ''generation'')
      | (Some i, Some ow, Some g) \<Rightarrow>
          if \<not> is_bdate (field d ''updated_at'') then Inl (typeErr ''updated_at'')
          else Inr \<lparr>mdID = i, mdOwner = ow, mdGeneration = g, mdSnapshot = map_of d ''snapshot''\<rparr>)"

definition decode_raw :: "'p bson_codec \<Rightarrow> bson option \<Rightarrow> string + bson option" where
  "decode_raw bc x = (case x of None \<Rightarrow> Inr None | Some v \<Rightarrow> bRaw bc v)"

definition mongo_Load ::
  "'s mongo_ops \<Rightarrow> MongoDriver \<Rightarrow> 'p bson_codec \<Rightarrow> int \<Rightarrow> string \<Rightarrow> string \<Rightarrow> string \<Rightarrow> 'p \<Rightarrow> 's
    \<Rightarrow> ((LeaseInfo option \<times> drverr option \<times> 'p) \<times> 's) go" where
  "mongo_Load R d bc now t i owner dst s =
     (let c = col d t;
          expireTime = now - mLeaseTimeout d;
          failed = (\<lambda>e s'. Ret ((None, Some (DrvErr e), dst), s'))
      in case FindOneAndSet R c (load_filter i owner expireTime) (load_stage owner now expireTime) True s of
           (Inl e, s') \<Rightarrow>
             if \<not> IsDuplicateKeyError e then failed (mongoerr_String e) s'
             else (case FindOne R c [(''_id'', BStr i)] s' of
                     Inl fe \<Rightarrow> failed (mongoerr_String fe) s'
                   | Inr ex \<Rightarrow>
                       (case decode_mongoDoc (bTypeErr bc) ex of
                          Inl de \<Rightarrow> failed de s'
                        | Inr existing \<Rightarrow>
                            Ret ((None, Some (LeaseTaken \<lparr>ltKey = i, ltOwner = mdOwner existing,
                                                           ltGeneration = mdGeneration existing\<rparr>), dst), s')))
         | (Inr dd, s') \<Rightarrow>
             (case decode_mongoDoc (bTypeErr bc) dd of
                Inl de \<Rightarrow> failed de s'
              | Inr m \<Rightarrow>
                  (case decode_raw bc (mdSnapshot m) of
                     Inl de \<Rightarrow> failed de s'
                   | Inr None \<Rightarrow>
                       Ret ((Some \<lparr>liKey = i, liOwner = mdOwner m, liGeneration = mdGeneration m\<rparr>, Some ErrNotFound, dst), s')
                   | Inr (Some rv) \<Rightarrow>
                       (case bUnmarshal bc rv dst of
                          (Some ue, dst') \<Rightarrow> Ret ((None, Some (DrvErr ue), dst'), s')
                        | (None, dst') \<Rightarrow>
                            Ret ((Some \<lparr>liKey = i, liOwner = mdOwner m, liGeneration = mdGeneration m\<rparr>, None, dst'), s')))))"

definition lease_filter :: "string \<Rightarrow> string \<Rightarrow> int \<Rightarrow> doc" where
  "lease_filter i owner gen = [(''_id'', BStr i), (''owner'', BStr owner), (''generation'', BInt gen)]"

text \<open>\<open>result.MatchedCount == 0\<close> means that the lease is gone.\<close>

definition lease_result :: "string \<Rightarrow> (mongoerr + int) \<times> 's \<Rightarrow> (drverr option \<times> 's) go" where
  "lease_result what r =
     (case r of
        (Inl e, s') \<Rightarrow> Ret (Some (DrvErr (mongoerr_String e)), s')
      | (Inr matched, s') \<Rightarrow>
          Ret (if matched = 0 then Some (DrvErr (''grain: '' @ what @ '' failed, lease expired or taken by another owner''))
               else None, s'))"

definition mongo_Save ::
  "'s mongo_ops \<Rightarrow> MongoDriver \<Rightarrow> 'p bson_codec \<Rightarrow> int \<Rightarrow> string \<Rightarrow> string \<Rightarrow> string \<Rightarrow> 'p option \<Rightarrow> int \<Rightarrow> 's
    \<Rightarrow> (drverr option \<times> 's) go" where
  "mongo_Save R d bc now t i owner src gen s =
     (case src of
        None \<Rightarrow>
          lease_result ''save'' (UpdateOne R (col d t) (lease_filter i owner gen)
            \<lparr>uSet = [(''generation'', BInt gen), (''updated_at'', BDate now)], uInc = []\<rparr> s)
      | Some p \<Rightarrow>
          (case bMarshal bc p of
             Inl e \<Rightarrow> Ret (Some (DrvErr e), s)
           | Inr b \<Rightarrow>
               lease_result ''save'' (ReplaceOne R (col d t) (lease_filter i owner gen)
                 [(''_id'', BStr i), (''owner'', BStr owner), (''generation'', BInt gen), (''updated_at'', BDate now),
                  (''snapshot'', b)] False s)))"

definition mongo_Release ::
  "'s mongo_ops \<Rightarrow> MongoDriver \<Rightarrow> int \<Rightarrow> string \<Rightarrow> string \<Rightarrow> string \<Rightarrow> int \<Rightarrow> 's \<Rightarrow> (drverr option \<times> 's) go" where
  "mongo_Release R d now t i owner gen s =
     lease_result ''release'' (UpdateOne R (col d t) (lease_filter i owner gen)
       \<lparr>uSet = [(''owner'', BStr []), (''updated_at'', BDate now)], uInc = []\<rparr> s)"

definition mongo_ForceRelease ::
  "'s mongo_ops \<Rightarrow> MongoDriver \<Rightarrow> (string \<Rightarrow> string) \<Rightarrow> int \<Rightarrow> string \<Rightarrow> string \<Rightarrow> 's \<Rightarrow> ((drverr + int) \<times> 's) go" where
  "mongo_ForceRelease R d typeErr now t i s =
     (case FindOneAndUpdate R (col d t) [(''_id'', BStr i)]
             \<lparr>uSet = [(''owner'', BStr []), (''updated_at'', BDate now)], uInc = [(''generation'', 1)]\<rparr> True s of
        (Inl e, s') \<Rightarrow> Ret (Inl (DrvErr (mongoerr_String e)), s')
      | (Inr dd, s') \<Rightarrow>
          (case decode_mongoDoc typeErr dd of
             Inl de \<Rightarrow> Ret (Inl (DrvErr de), s')
           | Inr m \<Rightarrow> Ret (Inr (mdGeneration m), s')))"

text \<open>The driver at the time \<open>now\<close>.\<close>

definition mongo_driver :: "'s mongo_ops \<Rightarrow> MongoDriver \<Rightarrow> 'p bson_codec \<Rightarrow> int \<Rightarrow> ('p, 's) Driver" where
  "mongo_driver R d bc now =
     \<lparr>drvLoad = mongo_Load R d bc now, drvSave = mongo_Save R d bc now, drvRelease = mongo_Release R d now,
      drvForceRelease = mongo_ForceRelease R d (bTypeErr bc) now\<rparr>"

subsection \<open>The contract of the server\<close>

text \<open>
  \<open>coll s c i\<close> is the document with \<open>_id\<close> \<open>i\<close> in collection \<open>c\<close>. An upsert that matches nothing inserts the document
  built from the equality on \<open>_id\<close>, which the unique index refuses when such a document exists.
\<close>

locale mongo_server =
  fixes R :: "'s mongo_ops" and coll :: "'s \<Rightarrow> string \<Rightarrow> string \<Rightarrow> doc option"
  assumes foas_match: "coll s c i = Some d \<Longrightarrow> matches cs d \<Longrightarrow> apply_set_stage st d = Some d' \<Longrightarrow>
      \<exists>s'. FindOneAndSet R c ((''_id'', BStr i) # cs) st True s = (Inr d', s') \<and> coll s' = (coll s)(c := (coll s c)(i \<mapsto> d'))"
    and foas_conflict: "coll s c i = Some d \<Longrightarrow> \<not> matches cs d \<Longrightarrow>
      \<exists>t. FindOneAndSet R c ((''_id'', BStr i) # cs) st True s = (Inl (DuplicateKeyError t), s)"
    and foas_insert: "coll s c i = None \<Longrightarrow> apply_set_stage st [(''_id'', BStr i)] = Some d' \<Longrightarrow>
      \<exists>s'. FindOneAndSet R c ((''_id'', BStr i) # cs) st True s = (Inr d', s') \<and> coll s' = (coll s)(c := (coll s c)(i \<mapsto> d'))"
    and foau_id: "apply_update u (case coll s c i of None \<Rightarrow> [(''_id'', BStr i)] | Some d \<Rightarrow> d) = Some d' \<Longrightarrow>
      \<exists>s'. FindOneAndUpdate R c [(''_id'', BStr i)] u True s = (Inr d', s') \<and> coll s' = (coll s)(c := (coll s c)(i \<mapsto> d'))"
    and findOne_id: "FindOne R c [(''_id'', BStr i)] s = (case coll s c i of None \<Rightarrow> Inl ErrNoDocuments | Some d \<Rightarrow> Inr d)"
    and update_match: "coll s c i = Some d \<Longrightarrow> matches cs d \<Longrightarrow> apply_update u d = Some d' \<Longrightarrow>
      \<exists>s'. UpdateOne R c ((''_id'', BStr i) # cs) u s = (Inr 1, s') \<and> coll s' = (coll s)(c := (coll s c)(i \<mapsto> d'))"
    and update_none: "(\<forall>d. coll s c i = Some d \<longrightarrow> \<not> matches cs d) \<Longrightarrow> UpdateOne R c ((''_id'', BStr i) # cs) u s = (Inr 0, s)"
    and replace_match: "coll s c i = Some d \<Longrightarrow> matches cs d \<Longrightarrow>
      \<exists>s'. ReplaceOne R c ((''_id'', BStr i) # cs) d' False s = (Inr 1, s') \<and> coll s' = (coll s)(c := (coll s c)(i \<mapsto> d'))"
    and replace_none: "(\<forall>d. coll s c i = Some d \<longrightarrow> \<not> matches cs d) \<Longrightarrow>
      ReplaceOne R c ((''_id'', BStr i) # cs) d' False s = (Inr 0, s)"
begin

lemma load_taken:
  assumes "coll s (col d t) i = Some dc" "\<not> matches (tl (load_filter i owner (now - mLeaseTimeout d))) dc"
    "decode_mongoDoc (bTypeErr bc) dc = Inr m"
  shows "mongo_Load R d bc now t i owner dst s =
    Ret ((None, Some (LeaseTaken \<lparr>ltKey = i, ltOwner = mdOwner m, ltGeneration = mdGeneration m\<rparr>), dst), s)"
proof -
  obtain e where "FindOneAndSet R (col d t) (load_filter i owner (now - mLeaseTimeout d))
      (load_stage owner now (now - mLeaseTimeout d)) True s = (Inl (DuplicateKeyError e), s)"
    using foas_conflict [OF assms(1,2)] by (auto simp: load_filter_def)
  with assms(1,3) show ?thesis by (simp add: mongo_Load_def findOne_id)
qed

lemma save_refused:
  assumes "\<And>dc. coll s (col d t) i = Some dc \<Longrightarrow> field dc ''owner'' \<noteq> BStr owner \<or> field dc ''generation'' \<noteq> BInt gen"
  shows "\<exists>e. mongo_Save R d bc now t i owner src gen s = Ret (Some e, s)"
proof -
  have no: "\<forall>dc. coll s (col d t) i = Some dc \<longrightarrow> \<not> matches (tl (lease_filter i owner gen)) dc"
    using assms by (auto simp: lease_filter_def)
  show ?thesis
  proof (cases src)
    case None
    then show ?thesis
      using update_none [OF no] by (simp add: mongo_Save_def lease_filter_def lease_result_def)
  next
    case (Some p)
    then show ?thesis
      using replace_none [OF no] by (auto simp: mongo_Save_def lease_filter_def lease_result_def split: sum.splits)
  qed
qed

lemma release_refused:
  assumes "\<And>dc. coll s (col d t) i = Some dc \<Longrightarrow> field dc ''owner'' \<noteq> BStr owner \<or> field dc ''generation'' \<noteq> BInt gen"
  shows "\<exists>e. mongo_Release R d now t i owner gen s = Ret (Some e, s)"
proof -
  have "\<forall>dc. coll s (col d t) i = Some dc \<longrightarrow> \<not> matches (tl (lease_filter i owner gen)) dc"
    using assms by (auto simp: lease_filter_def)
  from update_none [OF this] show ?thesis
    by (simp add: mongo_Release_def lease_filter_def lease_result_def)
qed

end

subsection \<open>What a load does to a document\<close>

lemma field_update [simp]: "field (AList.update k v d) f = (if f = k then v else field d f)"
  by (simp add: field_def AList.update_conv')

text \<open>The document with the new holder.\<close>

definition held_doc :: "string \<Rightarrow> int \<Rightarrow> int \<Rightarrow> doc \<Rightarrow> doc" where
  "held_doc owner now g d =
     AList.update ''generation'' (BInt g) (AList.update ''updated_at'' (BDate now) (AList.update ''owner'' (BStr owner) d))"

lemma held_doc_fields [simp]:
  "field (held_doc ow now g d) ''_id'' = field d ''_id''"
  "field (held_doc ow now g d) ''owner'' = BStr ow"
  "field (held_doc ow now g d) ''generation'' = BInt g"
  "field (held_doc ow now g d) ''updated_at'' = BDate now"
  "map_of (held_doc ow now g d) ''snapshot'' = map_of d ''snapshot''"
  by (simp_all add: held_doc_def AList.update_conv')

text \<open>The first operand of \<open>$or\<close> in the pipeline is a literal document, which counts as true: the generation grows
  whoever loads.\<close>

lemma load_stage_bumps:
  assumes "field d ''generation'' = BInt g \<or> field d ''generation'' = BNull \<and> g = 0"
    "field d ''updated_at'' = BDate u \<or> field d ''updated_at'' = BNull" "\<not> is_op owner"
  shows "apply_set_stage (load_stage owner now ex) d = Some (held_doc owner now (g + 1) d)"
proof -
  have "is_op ''$or''" "is_op ''$ne''" "is_op ''$lt''" "is_op ''$add''" "is_op ''$ifNull''" "is_op ''$owner''"
    "is_op ''$updated_at''" "is_op ''$generation''" "\<not> is_op ''owner''" "\<not> is_op []"
    by (simp_all add: is_op_def)
  with assms show ?thesis
    by (auto simp: apply_set_stage_def load_stage_def set_fields_def held_doc_def bson_op_def)
qed

text \<open>What \<open>Load\<close> makes of a document that matches its filter, and of a missing one.\<close>

lemma load_acquires:
  assumes srv: "mongo_server R coll" and dc: "coll s (col d t) i = Some dc" "field dc ''_id'' = BStr i"
      "field dc ''owner'' = BStr o1" "field dc ''updated_at'' = BDate u" "field dc ''generation'' = BInt g"
    and free: "o1 = [] \<or> o1 = o2 \<or> u < now - mLeaseTimeout d" and o2: "\<not> is_op o2"
    and snap: "map_of dc ''snapshot'' = Some b" "bRaw bc b = Inr (Some b)" "bUnmarshal bc b dst = (None, dst')"
  shows "\<exists>s'. mongo_Load R d bc now t i o2 dst s = Ret ((Some \<lparr>liKey = i, liOwner = o2, liGeneration = g + 1\<rparr>, None, dst'), s') \<and>
    coll s' (col d t) i = Some (held_doc o2 now (g + 1) dc)"
proof -
  let ?ex = "now - mLeaseTimeout d"
  have m: "matches (tl (load_filter i o2 ?ex)) dc"
    using dc free by (auto simp: load_filter_def)
  have st: "apply_set_stage (load_stage o2 now ?ex) dc = Some (held_doc o2 now (g + 1) dc)"
    using dc o2 by (intro load_stage_bumps) auto
  obtain s' where "FindOneAndSet R (col d t) (load_filter i o2 ?ex) (load_stage o2 now ?ex) True s = (Inr (held_doc o2 now (g + 1) dc), s')"
    "coll s' (col d t) i = Some (held_doc o2 now (g + 1) dc)"
    using mongo_server.foas_match [OF srv dc(1) m st] by (auto simp: load_filter_def)
  then show ?thesis
    using dc(2) snap by (simp add: mongo_Load_def decode_mongoDoc_def decode_raw_def)
qed

lemma first_load:
  assumes srv: "mongo_server R coll" and dc: "coll s (col d t) i = None" and ow: "\<not> is_op owner"
  shows "\<exists>s'. mongo_Load R d bc now t i owner dst s =
      Ret ((Some \<lparr>liKey = i, liOwner = owner, liGeneration = 1\<rparr>, Some ErrNotFound, dst), s') \<and>
    coll s' (col d t) i = Some (held_doc owner now 1 [(''_id'', BStr i)])"
proof -
  let ?ex = "now - mLeaseTimeout d"
  have st: "apply_set_stage (load_stage owner now ?ex) [(''_id'', BStr i)] = Some (held_doc owner now (0 + 1) [(''_id'', BStr i)])"
    using ow by (intro load_stage_bumps) (auto simp: field_def)
  obtain s' where "FindOneAndSet R (col d t) (load_filter i owner ?ex) (load_stage owner now ?ex) True s =
      (Inr (held_doc owner now 1 [(''_id'', BStr i)]), s')" "coll s' (col d t) i = Some (held_doc owner now 1 [(''_id'', BStr i)])"
    using mongo_server.foas_insert [OF srv dc st, of "tl (load_filter i owner ?ex)"] by (auto simp: load_filter_def)
  moreover have "field [(''_id'', BStr i)] ''_id'' = BStr i" by (simp add: field_def)
  ultimately show ?thesis
    by (simp add: mongo_Load_def decode_mongoDoc_def decode_raw_def)
qed

subsection \<open>A server in memory\<close>

type_synonym memdb = "string \<Rightarrow> string \<Rightarrow> doc option"

fun by_id :: "doc \<Rightarrow> (string \<times> doc) option" where
  "by_id ((k, BStr i) # cs) = (if k = ''_id'' then Some (i, cs) else None)"
| "by_id _ = None"

definition put :: "string \<Rightarrow> string \<Rightarrow> doc \<Rightarrow> memdb \<Rightarrow> memdb" where
  "put c i d s = s(c := (s c)(i \<mapsto> d))"

definition change :: "string \<Rightarrow> string \<Rightarrow> doc option \<Rightarrow> memdb \<Rightarrow> (mongoerr + doc) \<times> memdb" where
  "change c i r s = (case r of None \<Rightarrow> (Inl (MongoErr ''unsupported''), s) | Some d \<Rightarrow> (Inr d, put c i d s))"

definition upsert :: "string \<Rightarrow> doc \<Rightarrow> (doc \<Rightarrow> doc option) \<Rightarrow> bool \<Rightarrow> memdb \<Rightarrow> (mongoerr + doc) \<times> memdb" where
  "upsert c f h up s =
     (case by_id f of
        None \<Rightarrow> (Inl (MongoErr ''unsupported''), s)
      | Some (i, cs) \<Rightarrow>
          (case s c i of
             Some d \<Rightarrow>
               if matches cs d then change c i (h d) s
               else (Inl (if up then DuplicateKeyError ''E11000'' else ErrNoDocuments), s)
           | None \<Rightarrow> if up then change c i (h [(''_id'', BStr i)]) s else (Inl ErrNoDocuments, s)))"

definition modify :: "string \<Rightarrow> doc \<Rightarrow> (doc \<Rightarrow> doc option) \<Rightarrow> memdb \<Rightarrow> (mongoerr + int) \<times> memdb" where
  "modify c f h s =
     (case by_id f of
        None \<Rightarrow> (Inl (MongoErr ''unsupported''), s)
      | Some (i, cs) \<Rightarrow>
          (case s c i of
             None \<Rightarrow> (Inr 0, s)
           | Some d \<Rightarrow>
               if matches cs d
               then (case h d of None \<Rightarrow> (Inl (MongoErr ''unsupported''), s) | Some d' \<Rightarrow> (Inr 1, put c i d' s))
               else (Inr 0, s)))"

definition mem_mongo :: "memdb mongo_ops" where
  "mem_mongo =
     \<lparr>FindOneAndSet = (\<lambda>c f st up s. upsert c f (apply_set_stage st) up s),
      FindOneAndUpdate = (\<lambda>c f u up s. upsert c f (apply_update u) up s),
      FindOne = (\<lambda>c f s. case by_id f of None \<Rightarrow> Inl (MongoErr ''unsupported'')
         | Some (i, cs) \<Rightarrow> (case s c i of None \<Rightarrow> Inl ErrNoDocuments
             | Some d \<Rightarrow> if matches cs d then Inr d else Inl ErrNoDocuments)),
      UpdateOne = (\<lambda>c f u s. modify c f (apply_update u) s),
      ReplaceOne = (\<lambda>c f d' up s. modify c f (\<lambda>_. Some d') s)\<rparr>"

interpretation memdb: mongo_server mem_mongo "\<lambda>s. s"
  by unfold_locales (auto simp: mem_mongo_def upsert_def modify_def change_def put_def split: option.splits)

subsection \<open>Properties of the MongoDB driver\<close>

text \<open>C28: A takeover on MongoDB fences everyone else. Take any server that keeps the contract. When the lease of a stored
  document is released or expired, \<open>Load\<close> by a new owner returns the stored snapshot and a lease with the next
  generation. From then on \<open>Save\<close> and \<open>Release\<close> by any other owner, or with any other generation, fail and change
  nothing; \<open>Load\<close> by any other owner before the lease runs out is refused with the new owner's name and
  generation and changes nothing; and \<open>Save\<close> by the new owner with its generation stores the snapshot.\<close>

theorem mongo_takeover_fences:
  assumes "mongo_server R coll" "coll s (col d t) i = Some dc" "field dc ''_id'' = BStr i" "field dc ''owner'' = BStr o1"
    "field dc ''updated_at'' = BDate u" "field dc ''generation'' = BInt g"
    "o1 \<noteq> o2" "o1 = [] \<or> u < now - mLeaseTimeout d" "\<not> is_op o2" "o2 \<noteq> []"
    "map_of dc ''snapshot'' = Some b" "bRaw bc b = Inr (Some b)" "bUnmarshal bc b dst = (None, dst')"
  shows "\<exists>s'. mongo_Load R d bc now t i o2 dst s = Ret ((Some \<lparr>liKey = i, liOwner = o2, liGeneration = g + 1\<rparr>, None, dst'), s') \<and>
    (\<forall>ow g' src now'. (ow, g') \<noteq> (o2, g + 1) \<longrightarrow> (\<exists>e. mongo_Save R d bc now' t i ow src g' s' = Ret (Some e, s'))) \<and>
    (\<forall>ow g' now'. (ow, g') \<noteq> (o2, g + 1) \<longrightarrow> (\<exists>e. mongo_Release R d now' t i ow g' s' = Ret (Some e, s'))) \<and>
    (\<forall>ow now' x. ow \<noteq> o2 \<longrightarrow> now' \<le> now + mLeaseTimeout d \<longrightarrow> mongo_Load R d bc now' t i ow x s' =
       Ret ((None, Some (LeaseTaken \<lparr>ltKey = i, ltOwner = o2, ltGeneration = g + 1\<rparr>), x), s')) \<and>
    (\<forall>p b' now'. bMarshal bc p = Inr b' \<longrightarrow>
       (\<exists>s'' dc'. mongo_Save R d bc now' t i o2 (Some p) (g + 1) s' = Ret (None, s'') \<and>
          coll s'' (col d t) i = Some dc' \<and> map_of dc' ''snapshot'' = Some b'))"
proof -
  obtain s' where s': "mongo_Load R d bc now t i o2 dst s = Ret ((Some \<lparr>liKey = i, liOwner = o2, liGeneration = g + 1\<rparr>, None, dst'), s')"
    "coll s' (col d t) i = Some (held_doc o2 now (g + 1) dc)"
    using load_acquires [OF assms(1-6) _ assms(9,11-13), of now] assms(8) by blast
  have "\<exists>e. mongo_Save R d bc now' t i ow src g' s' = Ret (Some e, s')" if "(ow, g') \<noteq> (o2, g + 1)" for ow g' src now'
    using that s'(2) by (intro mongo_server.save_refused [OF assms(1)]) auto
  moreover have "\<exists>e. mongo_Release R d now' t i ow g' s' = Ret (Some e, s')" if "(ow, g') \<noteq> (o2, g + 1)" for ow g' now'
    using that s'(2) by (intro mongo_server.release_refused [OF assms(1)]) auto
  moreover have "mongo_Load R d bc now' t i ow x s' =
      Ret ((None, Some (LeaseTaken \<lparr>ltKey = i, ltOwner = o2, ltGeneration = g + 1\<rparr>), x), s')"
    if ow: "ow \<noteq> o2" and now': "now' \<le> now + mLeaseTimeout d" for ow now' x
  proof -
    have "decode_mongoDoc (bTypeErr bc) (held_doc o2 now (g + 1) dc) =
        Inr \<lparr>mdID = i, mdOwner = o2, mdGeneration = g + 1, mdSnapshot = Some b\<rparr>"
      using assms(3,11) by (simp add: decode_mongoDoc_def)
    from mongo_server.load_taken [OF assms(1) s'(2) _ this] show ?thesis
      using ow now' assms(10) by (simp add: load_filter_def)
  qed
  moreover have "\<exists>s'' dc'. mongo_Save R d bc now' t i o2 (Some p) (g + 1) s' = Ret (None, s'') \<and>
      coll s'' (col d t) i = Some dc' \<and> map_of dc' ''snapshot'' = Some b'" if "bMarshal bc p = Inr b'" for p b' now'
  proof -
    let ?new = "[(''_id'', BStr i), (''owner'', BStr o2), (''generation'', BInt (g + 1)), (''updated_at'', BDate now'), (''snapshot'', b')]"
    have "matches (tl (lease_filter i o2 (g + 1))) (held_doc o2 now (g + 1) dc)" by (simp add: lease_filter_def)
    from mongo_server.replace_match [OF assms(1) s'(2) this, of ?new] obtain s'' where
      "ReplaceOne R (col d t) (lease_filter i o2 (g + 1)) ?new False s' = (Inr 1, s'')" "coll s'' (col d t) i = Some ?new"
      by (auto simp: lease_filter_def)
    with that show ?thesis by (simp add: mongo_Save_def lease_result_def)
  qed
  ultimately show ?thesis using s'(1) by blast
qed

definition demo_bc :: "int bson_codec" where
  "demo_bc = \<lparr>bMarshal = (\<lambda>n. Inr (BDoc [(''hp'', BInt n)])),
     bUnmarshal = (\<lambda>b x. case b of BDoc [(_, BInt n)] \<Rightarrow> (None, n) | _ \<Rightarrow> (Some ''bad'', x)),
     bRaw = (\<lambda>b. Inr (Some b)), bTypeErr = (\<lambda>f. ''cannot decode '' @ f)\<rparr>"

definition demo_doc :: "string \<Rightarrow> doc" where
  "demo_doc ow = [(''_id'', BStr ''1''), (''owner'', BStr ow), (''generation'', BInt 3), (''updated_at'', BDate 100),
     (''snapshot'', BDoc [(''hp'', BInt 9)])]"

definition demo_db :: "string \<Rightarrow> memdb" where
  "demo_db ow = put ''P'' ''1'' (demo_doc ow) (\<lambda>_. Map.empty)"

lemma demo_db_reads:
  "demo_db ow (col (NewMongoDriver ''n1'' 50) ''P'') ''1'' = Some (demo_doc ow)"
  "field (demo_doc ow) ''_id'' = BStr ''1''" "field (demo_doc ow) ''owner'' = BStr ow"
  "field (demo_doc ow) ''updated_at'' = BDate 100" "field (demo_doc ow) ''generation'' = BInt 3"
  "map_of (demo_doc ow) ''snapshot'' = Some (BDoc [(''hp'', BInt 9)])"
  "bRaw demo_bc (BDoc [(''hp'', BInt 9)]) = Inr (Some (BDoc [(''hp'', BInt 9)]))"
  "bUnmarshal demo_bc (BDoc [(''hp'', BInt 9)]) 0 = (None, 9)"
  by (simp_all add: demo_db_def put_def demo_doc_def field_def demo_bc_def col_def NewMongoDriver_def)

theorem mongo_takeover_fences_witness:
  "\<exists>s'. mongo_Load mem_mongo (NewMongoDriver ''n1'' 50) demo_bc 200 ''P'' ''1'' ''n2'' 0 (demo_db ''n1'') =
      Ret ((Some \<lparr>liKey = ''1'', liOwner = ''n2'', liGeneration = 4\<rparr>, None, 9), s') \<and>
    (\<exists>e. mongo_Save mem_mongo (NewMongoDriver ''n1'' 50) demo_bc 210 ''P'' ''1'' ''n1'' (Some 5) 3 s' = Ret (Some e, s'))"
  using mongo_takeover_fences [OF memdb.mongo_server_axioms, where s = "demo_db ''n1''" and d = "NewMongoDriver ''n1'' 50" and t = "''P''"
      and i = "''1''" and dc = "demo_doc ''n1''" and ?o1.0 = "''n1''" and ?o2.0 = "''n2''" and u = 100 and g = 3 and now = 200 and bc = demo_bc
      and b = "BDoc [(''hp'', BInt 9)]" and dst = 0 and dst' = 9, OF demo_db_reads(1-5) _ _ _ _ demo_db_reads(6-8)]
  by (auto simp: NewMongoDriver_def is_op_def)

text \<open>Loading again invalidates the holder's own lease. When the owner of a document loads it again, the generation
  grows by one, although nothing was taken over, and a \<open>Save\<close> with the generation the owner had before is
  refused. The comment beside the pipeline promises that the generation stays the same in this case.\<close>

theorem mongo_reload_invalidates_lease:
  assumes "mongo_server R coll" "coll s (col d t) i = Some dc" "field dc ''_id'' = BStr i" "field dc ''owner'' = BStr ow"
    "field dc ''updated_at'' = BDate u" "field dc ''generation'' = BInt g" "\<not> is_op ow"
    "map_of dc ''snapshot'' = Some b" "bRaw bc b = Inr (Some b)" "bUnmarshal bc b dst = (None, dst')"
  shows "\<exists>s'. mongo_Load R d bc now t i ow dst s = Ret ((Some \<lparr>liKey = i, liOwner = ow, liGeneration = g + 1\<rparr>, None, dst'), s') \<and>
    (\<forall>src now'. \<exists>e. mongo_Save R d bc now' t i ow src g s' = Ret (Some e, s'))"
proof -
  obtain s' where s': "mongo_Load R d bc now t i ow dst s = Ret ((Some \<lparr>liKey = i, liOwner = ow, liGeneration = g + 1\<rparr>, None, dst'), s')"
    "coll s' (col d t) i = Some (held_doc ow now (g + 1) dc)"
    using load_acquires [OF assms(1-6) _ assms(7-10), of now] by blast
  have "\<exists>e. mongo_Save R d bc now' t i ow src g s' = Ret (Some e, s')" for src now'
    using s'(2) by (intro mongo_server.save_refused [OF assms(1)]) auto
  with s'(1) show ?thesis by blast
qed

theorem mongo_reload_invalidates_lease_witness:
  "\<exists>s'. mongo_Load mem_mongo (NewMongoDriver ''n1'' 50) demo_bc 120 ''P'' ''1'' ''n1'' 0 (demo_db ''n1'') =
      Ret ((Some \<lparr>liKey = ''1'', liOwner = ''n1'', liGeneration = 4\<rparr>, None, 9), s') \<and>
    (\<exists>e. mongo_Save mem_mongo (NewMongoDriver ''n1'' 50) demo_bc 130 ''P'' ''1'' ''n1'' (Some 5) 3 s' = Ret (Some e, s'))"
  using mongo_reload_invalidates_lease [OF memdb.mongo_server_axioms, where s = "demo_db ''n1''" and d = "NewMongoDriver ''n1'' 50"
      and t = "''P''" and i = "''1''" and dc = "demo_doc ''n1''" and ow = "''n1''" and u = 100 and g = 3 and now = 120 and bc = demo_bc
      and b = "BDoc [(''hp'', BInt 9)]" and dst = 0 and dst' = 9, OF demo_db_reads(1-5) _ demo_db_reads(6-8)]
  by (auto simp: is_op_def)

end
