(* ===== verification/Grain_Yaml.thy ===== *)
theory Grain_Yaml
  imports Grain_Driver
begin

section \<open>The YAML file driver\<close>

text \<open>
  \<open>grain/driver_yaml.go\<close>. The package \<open>yaml.v3\<close> is outside the sources: its encoders and decoders, on files of a type
  \<open>'f\<close>, are the record \<open>yaml\<close>, and the locale \<open>yaml_lib\<close> states what the driver relies on. A \<open>yaml.Node\<close> is its exported
  struct, without anchors, comments and positions; the code that edits such trees is modelled on them. The file
  system is a map from paths; the faults of the operating system are the record of the JSON driver.
\<close>

datatype yKind = DocumentNode | SequenceNode | MappingNode | ScalarNode | AliasNode | ZeroKind

datatype ynode = Node (Kind: yKind) (Tag: string) (Value: string) (Content: "ynode list")

definition zeroNode :: ynode where
  "zeroNode = Node ZeroKind [] [] []"

text \<open>
  \<open>decDoc\<close> decodes a file into the struct \<open>fileDoc\<close>, \<open>decRoot\<close> into a \<open>yaml.Node\<close>; \<open>encAny\<close>, \<open>encNode\<close> and \<open>encPtr\<close> encode the struct of
  a generation with data that is a snapshot, a \<open>yaml.Node\<close> or a pointer to one; \<open>encRoot\<close> encodes a document node;
  \<open>nodeDecode\<close> is the method \<open>Decode\<close>, which gives the new content of its destination. \<open>emptyFile\<close> is what
  \<open>os.Create\<close> leaves.
\<close>

record ('p, 'f) yaml =
  decDoc :: "'f \<Rightarrow> string + int \<times> ynode"
  decRoot :: "'f \<Rightarrow> string + ynode"
  encAny :: "int \<Rightarrow> 'p \<Rightarrow> string + 'f"
  encNode :: "int \<Rightarrow> ynode \<Rightarrow> string + 'f"
  encPtr :: "int \<Rightarrow> ynode option \<Rightarrow> string + 'f"
  encRoot :: "ynode \<Rightarrow> string + 'f"
  nodeDecode :: "ynode \<Rightarrow> 'p \<Rightarrow> string option \<times> 'p"
  emptyFile :: 'f

type_synonym 'f yfs = "string \<rightharpoonup> 'f"

definition yaml_filePath :: "string \<Rightarrow> string \<Rightarrow> string \<Rightarrow> string" where
  "yaml_filePath dir t i = Join [dir, t, i @ ''.yaml'']"

text \<open>\<open>os.Create\<close> and an encoder on the new file: when encoding fails an empty file is left.\<close>

definition create_encode ::
  "('p, 'f) yaml \<Rightarrow> os \<Rightarrow> string \<Rightarrow> string + 'f \<Rightarrow> 'f yfs \<Rightarrow> drverr option \<times> 'f yfs" where
  "create_encode Y sys path out fs =
     (case createErr sys path of
        Some e \<Rightarrow> (Some (DrvErr e), fs)
      | None \<Rightarrow> (case out of Inl e \<Rightarrow> (Some (DrvErr e), fs(path \<mapsto> emptyFile Y)) | Inr f \<Rightarrow> (None, fs(path \<mapsto> f))))"

definition yaml_Load ::
  "string \<Rightarrow> os \<Rightarrow> ('p, 'f) yaml \<Rightarrow> string \<Rightarrow> string \<Rightarrow> string \<Rightarrow> 'p \<Rightarrow> 'f yfs
    \<Rightarrow> ((LeaseInfo option \<times> drverr option \<times> 'p) \<times> 'f yfs) go" where
  "yaml_Load dir sys Y t i owner dst fs =
     (let path = yaml_filePath dir t i in
      case openErr sys path of
        Some e \<Rightarrow> Ret ((None, Some (DrvErr e), dst), fs)
      | None \<Rightarrow>
          (case fs path of
             None \<Rightarrow> Ret ((Some \<lparr>liKey = i, liOwner = owner, liGeneration = 1\<rparr>, Some ErrNotFound, dst), fs)
           | Some f \<Rightarrow>
               (case decDoc Y f of
                  Inl e \<Rightarrow> Ret ((None, Some (DrvErr e), dst), fs)
                | Inr (gen, data) \<Rightarrow>
                    (case nodeDecode Y data dst of
                       (Some e, dst') \<Rightarrow> Ret ((None, Some (DrvErr e), dst'), fs)
                     | (None, dst') \<Rightarrow>
                         Ret ((Some \<lparr>liKey = i, liOwner = owner, liGeneration = wrap64 (gen + 1)\<rparr>, None, dst'), fs)))))"

text \<open>The loop of \<open>renewOnlyYaml\<close> over the keys and values of a mapping.\<close>

fun set_generation :: "int \<Rightarrow> ynode list \<Rightarrow> ynode list" where
  "set_generation gen (key # val # rest) =
     key # (if Value key = ''generation'' then Node (Kind val) ''!!int'' (Itoa gen) (Content val) else val) #
     set_generation gen rest"
| "set_generation gen rest = rest"

definition renew_mapping :: "int \<Rightarrow> ynode \<Rightarrow> ynode" where
  "renew_mapping gen m =
     (if Kind m = MappingNode then Node (Kind m) (Tag m) (Value m) (set_generation gen (Content m)) else m)"

definition renew_root :: "int \<Rightarrow> ynode \<Rightarrow> ynode" where
  "renew_root gen root =
     (if Kind root = DocumentNode \<and> Content root \<noteq> []
      then Node (Kind root) (Tag root) (Value root) (renew_mapping gen (hd (Content root)) # tl (Content root))
      else renew_mapping gen root)"

definition writeRenewDoc ::
  "('p, 'f) yaml \<Rightarrow> os \<Rightarrow> string \<Rightarrow> int \<Rightarrow> ynode option \<Rightarrow> 'f yfs \<Rightarrow> drverr option \<times> 'f yfs" where
  "writeRenewDoc Y sys path gen data fs = create_encode Y sys path (encPtr Y gen data) fs"

definition renewOnlyYaml :: "('p, 'f) yaml \<Rightarrow> os \<Rightarrow> string \<Rightarrow> int \<Rightarrow> 'f yfs \<Rightarrow> drverr option \<times> 'f yfs" where
  "renewOnlyYaml Y sys path gen fs =
     (case openErr sys path of
        Some e \<Rightarrow> (Some (DrvErr e), fs)
      | None \<Rightarrow>
          (case fs path of
             None \<Rightarrow> writeRenewDoc Y sys path gen None fs
           | Some f \<Rightarrow>
               (case decRoot Y f of
                  Inl e \<Rightarrow> (Some (DrvErr e), fs)
                | Inr root \<Rightarrow> create_encode Y sys path (encRoot Y (renew_root gen root)) fs)))"

definition yaml_Save ::
  "string \<Rightarrow> os \<Rightarrow> ('p, 'f) yaml \<Rightarrow> string \<Rightarrow> string \<Rightarrow> string \<Rightarrow> 'p option \<Rightarrow> int \<Rightarrow> 'f yfs
    \<Rightarrow> (drverr option \<times> 'f yfs) go" where
  "yaml_Save dir sys Y t i owner src gen fs =
     (let path = yaml_filePath dir t i in
      case mkdirErr sys path of
        Some e \<Rightarrow> Ret (Some (DrvErr e), fs)
      | None \<Rightarrow>
          (case src of
             None \<Rightarrow> Ret (renewOnlyYaml Y sys path gen fs)
           | Some p \<Rightarrow> Ret (create_encode Y sys path (encAny Y gen p) fs)))"

definition yaml_Release :: "string \<Rightarrow> string \<Rightarrow> string \<Rightarrow> string \<Rightarrow> int \<Rightarrow> 'f yfs \<Rightarrow> (drverr option \<times> 'f yfs) go" where
  "yaml_Release dir t i owner gen fs = Ret (None, fs)"

definition writeForceReleaseYaml ::
  "('p, 'f) yaml \<Rightarrow> os \<Rightarrow> string \<Rightarrow> int \<Rightarrow> ynode \<Rightarrow> 'f yfs \<Rightarrow> drverr option \<times> 'f yfs" where
  "writeForceReleaseYaml Y sys path gen data fs = create_encode Y sys path (encNode Y gen data) fs"

definition yaml_ForceRelease ::
  "string \<Rightarrow> os \<Rightarrow> ('p, 'f) yaml \<Rightarrow> string \<Rightarrow> string \<Rightarrow> 'f yfs \<Rightarrow> ((drverr + int) \<times> 'f yfs) go" where
  "yaml_ForceRelease dir sys Y t i fs =
     (let path = yaml_filePath dir t i;
          result = (\<lambda>gen data. case writeForceReleaseYaml Y sys path gen data fs of
             (Some e, fs') \<Rightarrow> Ret (Inl e, fs') | (None, fs') \<Rightarrow> Ret (Inr gen, fs'))
      in case mkdirErr sys path of
           Some e \<Rightarrow> Ret (Inl (DrvErr e), fs)
         | None \<Rightarrow>
             (case openErr sys path of
                Some e \<Rightarrow> Ret (Inl (DrvErr e), fs)
              | None \<Rightarrow>
                  (case fs path of
                     None \<Rightarrow> result 1 zeroNode
                   | Some f \<Rightarrow>
                       (case decDoc Y f of
                          Inl e \<Rightarrow> Ret (Inl (DrvErr e), fs)
                        | Inr (gen, data) \<Rightarrow> result (wrap64 (gen + 1)) data))))"

definition YamlDriver :: "string \<Rightarrow> os \<Rightarrow> ('p, 'f) yaml \<Rightarrow> ('p, 'f yfs) Driver" where
  "YamlDriver dir sys Y =
     \<lparr>drvLoad = yaml_Load dir sys Y, drvSave = yaml_Save dir sys Y, drvRelease = yaml_Release dir,
      drvForceRelease = yaml_ForceRelease dir sys Y\<rparr>"

subsection \<open>What the driver relies on\<close>

definition scalar :: "string \<Rightarrow> string \<Rightarrow> ynode" where
  "scalar tag v = Node ScalarNode tag v []"

text \<open>The document node of a file with a generation and data.\<close>

definition doc_node :: "int \<Rightarrow> ynode \<Rightarrow> ynode" where
  "doc_node gen n =
     Node DocumentNode [] []
       [Node MappingNode ''!!map'' []
          [scalar ''!!str'' ''generation'', scalar ''!!int'' (Itoa gen), scalar ''!!str'' ''data'', n]]"

definition nullNode :: ynode where
  "nullNode = scalar ''!!null'' ''null''"

text \<open>
  Encoding the struct gives a mapping of its two fields; decoding it reads them by their keys; a node that was
  read is written back unchanged; a zero node and a nil pointer are written as null. \<open>represents n p\<close> says that
  the node \<open>n\<close> is how the snapshot \<open>p\<close> is written.
\<close>

locale yaml_lib =
  fixes Y :: "('p, 'f) yaml" and represents :: "ynode \<Rightarrow> 'p \<Rightarrow> bool"
  assumes enc_any: "encAny Y g p = Inr f \<Longrightarrow> \<exists>n. represents n p \<and> n \<noteq> zeroNode \<and> decRoot Y f = Inr (doc_node g n)"
    and dec_doc: "decRoot Y f = Inr (doc_node g n) \<Longrightarrow> MinInt \<le> g \<Longrightarrow> g \<le> MaxInt \<Longrightarrow> decDoc Y f = Inr (g, n)"
    and enc_root: "decRoot Y f = Inr (doc_node g n) \<Longrightarrow> \<exists>f'. encRoot Y (doc_node g' n) = Inr f' \<and> decRoot Y f' = Inr (doc_node g' n)"
    and enc_node: "decRoot Y f = Inr (doc_node g n) \<Longrightarrow> n \<noteq> zeroNode \<Longrightarrow> \<exists>f'. encNode Y g' n = Inr f' \<and> decRoot Y f' = Inr (doc_node g' n)"
    and enc_zero: "\<exists>f. encNode Y g zeroNode = Inr f \<and> decRoot Y f = Inr (doc_node g nullNode)"
    and enc_nil: "\<exists>f. encPtr Y g None = Inr f \<and> decRoot Y f = Inr (doc_node g nullNode)"
begin

lemma renew_doc_node: "renew_root g' (doc_node g n) = doc_node g' n"
  by (simp add: renew_root_def doc_node_def renew_mapping_def scalar_def)

text \<open>The file of an actor holds a generation and data.\<close>

definition holds :: "'f yfs \<Rightarrow> string \<Rightarrow> int \<Rightarrow> ynode \<Rightarrow> bool" where
  "holds fs path g n \<longleftrightarrow> n \<noteq> zeroNode \<and> (\<exists>f. fs path = Some f \<and> decRoot Y f = Inr (doc_node g n))"

lemma save_holds:
  assumes "encAny Y g p = Inr f"
  shows "\<exists>n fs'. yaml_Save dir no_faults Y t i owner (Some p) g fs = Ret (None, fs') \<and>
    represents n p \<and> holds fs' (yaml_filePath dir t i) g n"
  using enc_any [OF assms] assms by (auto simp: yaml_Save_def create_encode_def holds_def)

lemma renew_holds:
  assumes "holds fs (yaml_filePath dir t i) g n"
  shows "\<exists>fs'. yaml_Save dir no_faults Y t i owner None g' fs = Ret (None, fs') \<and>
    holds fs' (yaml_filePath dir t i) g' n"
proof -
  obtain f where f: "fs (yaml_filePath dir t i) = Some f" "decRoot Y f = Inr (doc_node g n)" "n \<noteq> zeroNode"
    using assms by (auto simp: holds_def)
  obtain f' where "encRoot Y (doc_node g' n) = Inr f'" "decRoot Y f' = Inr (doc_node g' n)"
    using enc_root [OF f(2)] by blast
  with f show ?thesis by (simp add: yaml_Save_def renewOnlyYaml_def create_encode_def renew_doc_node holds_def)
qed

lemma load_holds:
  assumes "holds fs (yaml_filePath dir t i) g n" "MinInt \<le> g" "g \<le> MaxInt" "nodeDecode Y n dst = (None, p)"
  shows "yaml_Load dir no_faults Y t i owner dst fs =
    Ret ((Some \<lparr>liKey = i, liOwner = owner, liGeneration = wrap64 (g + 1)\<rparr>, None, p), fs)"
  using assms dec_doc by (auto simp: holds_def yaml_Load_def)

lemma force_release_holds:
  assumes "holds fs (yaml_filePath dir t i) g n" "MinInt \<le> g" "g \<le> MaxInt"
  shows "\<exists>fs'. yaml_ForceRelease dir no_faults Y t i fs = Ret (Inr (wrap64 (g + 1)), fs') \<and>
    holds fs' (yaml_filePath dir t i) (wrap64 (g + 1)) n"
proof -
  obtain f where f: "fs (yaml_filePath dir t i) = Some f" "decRoot Y f = Inr (doc_node g n)" "n \<noteq> zeroNode"
    using assms by (auto simp: holds_def)
  obtain f' where "encNode Y (wrap64 (g + 1)) n = Inr f'" "decRoot Y f' = Inr (doc_node (wrap64 (g + 1)) n)"
    using enc_node [OF f(2,3)] by blast
  with f dec_doc [OF f(2)] assms(2,3) show ?thesis
    by (simp add: yaml_ForceRelease_def writeForceReleaseYaml_def create_encode_def holds_def)
qed

lemma first_force_release_holds:
  assumes "fs (yaml_filePath dir t i) = None"
  shows "\<exists>fs'. yaml_ForceRelease dir no_faults Y t i fs = Ret (Inr 1, fs') \<and>
    holds fs' (yaml_filePath dir t i) 1 nullNode"
  using assms enc_zero [of 1]
  by (auto simp: yaml_ForceRelease_def writeForceReleaseYaml_def create_encode_def holds_def nullNode_def zeroNode_def
      scalar_def)

end

subsection \<open>A reference package\<close>

text \<open>Files as document trees, or empty; snapshots are numbers. It shows that the contract can be met.\<close>

fun digits_int :: "string \<Rightarrow> int" where
  "digits_int (c # s) = (if c = CHR ''-'' then - int (dec_val s) else int (dec_val (c # s)))"
| "digits_int [] = 0"

definition tree_decRoot :: "ynode option \<Rightarrow> string + ynode" where
  "tree_decRoot f = (case f of None \<Rightarrow> Inl ''EOF'' | Some d \<Rightarrow> Inr d)"

fun tree_decDoc :: "ynode option \<Rightarrow> string + int \<times> ynode" where
  "tree_decDoc (Some (Node DocumentNode _ _ [Node MappingNode _ _ [_, g, _, n]])) = Inr (digits_int (Value g), n)"
| "tree_decDoc _ = Inl ''EOF''"

definition tree_yaml :: "(nat, ynode option) yaml" where
  "tree_yaml = \<lparr>decDoc = tree_decDoc, decRoot = tree_decRoot,
     encAny = (\<lambda>g p. Inr (Some (doc_node g (scalar ''!!int'' (nat_dec p))))),
     encNode = (\<lambda>g n. Inr (Some (doc_node g (if n = zeroNode then nullNode else n)))),
     encPtr = (\<lambda>g n. Inr (Some (doc_node g (case n of None \<Rightarrow> nullNode | Some m \<Rightarrow> m)))),
     encRoot = (\<lambda>d. Inr (Some d)),
     nodeDecode = (\<lambda>n dst. if Tag n = ''!!int'' then (None, dec_val (Value n)) else (None, dst)), emptyFile = None\<rparr>"

lemma digits_Itoa: "digits_int (Itoa g) = g"
proof (cases "g < 0")
  case True
  then show ?thesis by (simp add: Itoa_def dec_val_nat_dec)
next
  case False
  moreover obtain c s where c: "nat_dec (nat g) = c # s" by (meson nat_dec_nonempty neq_Nil_conv)
  moreover have "c \<noteq> CHR ''-''" using c minus_not_in_nat_dec [of "nat g"] by auto
  ultimately show ?thesis using dec_val_nat_dec [of "nat g"] by (simp add: Itoa_def)
qed

interpretation tree: yaml_lib tree_yaml "\<lambda>n p. n = scalar ''!!int'' (nat_dec p)"
  by unfold_locales
     (auto simp: tree_yaml_def tree_decRoot_def doc_node_def digits_Itoa zeroNode_def scalar_def split: option.splits)

subsection \<open>Properties\<close>

text \<open>C30: What the YAML driver saves survives renewals and forced releases. Without faults of the operating system,
  for a snapshot \<open>p\<close> that can be encoded, \<open>Save\<close> succeeds; a \<open>Save\<close> of a nil snapshot, which edits the document tree,
  sets the new generation \<open>g'\<close> and a following \<open>Load\<close> decodes the data of \<open>p\<close> with generation \<open>g' + 1\<close>; a forced
  release reports \<open>g' + 1\<close>, and a \<open>Load\<close> after it decodes the same data with the generation after that.\<close>

theorem yaml_data_survives:
  assumes "yaml_lib Y represents" "encAny Y g p = Inr f" "\<forall>n. represents n p \<longrightarrow> nodeDecode Y n dst = (None, p')"
    and "MinInt \<le> g'" "g' + 1 \<le> MaxInt"
  shows "\<exists>fs1 fs2 fs3. yaml_Save dir no_faults Y t i o1 (Some p) g fs = Ret (None, fs1) \<and>
    yaml_Save dir no_faults Y t i o1 None g' fs1 = Ret (None, fs2) \<and>
    yaml_Load dir no_faults Y t i o2 dst fs2 =
      Ret ((Some \<lparr>liKey = i, liOwner = o2, liGeneration = g' + 1\<rparr>, None, p'), fs2) \<and>
    yaml_ForceRelease dir no_faults Y t i fs2 = Ret (Inr (g' + 1), fs3) \<and>
    yaml_Load dir no_faults Y t i o2 dst fs3 =
      Ret ((Some \<lparr>liKey = i, liOwner = o2, liGeneration = wrap64 (g' + 2)\<rparr>, None, p'), fs3)"
proof -
  let ?path = "yaml_filePath dir t i"
  obtain n fs1 where 1: "yaml_Save dir no_faults Y t i o1 (Some p) g fs = Ret (None, fs1)" "represents n p"
      "yaml_lib.holds Y fs1 ?path g n"
    using yaml_lib.save_holds [OF assms(1,2)] by blast
  obtain fs2 where 2: "yaml_Save dir no_faults Y t i o1 None g' fs1 = Ret (None, fs2)" "yaml_lib.holds Y fs2 ?path g' n"
    using yaml_lib.renew_holds [OF assms(1) 1(3)] by blast
  have w: "wrap64 (g' + 1) = g' + 1" using assms(4,5) by (simp add: wrap64_id)
  obtain fs3 where 3: "yaml_ForceRelease dir no_faults Y t i fs2 = Ret (Inr (g' + 1), fs3)"
      "yaml_lib.holds Y fs3 ?path (g' + 1) n"
    using yaml_lib.force_release_holds [OF assms(1) 2(2)] assms(4,5) w by auto
  have d: "nodeDecode Y n dst = (None, p')" using assms(3) 1(2) by blast
  note load = yaml_lib.load_holds [OF assms(1)]
  show ?thesis
    using 1(1) 2(1) 3(1) load [OF 2(2) _ _ d, of o2] load [OF 3(2) _ _ d, of o2] assms(4,5) w by (simp add: add.assoc)
qed

theorem yaml_data_survives_witness:
  "\<exists>fs1 fs2 fs3. yaml_Save ''d'' no_faults tree_yaml ''P'' ''1'' ''n1'' (Some 7) 1 Map.empty = Ret (None, fs1) \<and>
    yaml_Save ''d'' no_faults tree_yaml ''P'' ''1'' ''n1'' None 5 fs1 = Ret (None, fs2) \<and>
    yaml_Load ''d'' no_faults tree_yaml ''P'' ''1'' ''n2'' 0 fs2 =
      Ret ((Some \<lparr>liKey = ''1'', liOwner = ''n2'', liGeneration = 5 + 1\<rparr>, None, 7), fs2) \<and>
    yaml_ForceRelease ''d'' no_faults tree_yaml ''P'' ''1'' fs2 = Ret (Inr (5 + 1), fs3) \<and>
    yaml_Load ''d'' no_faults tree_yaml ''P'' ''1'' ''n2'' 0 fs3 =
      Ret ((Some \<lparr>liKey = ''1'', liOwner = ''n2'', liGeneration = wrap64 (5 + 2)\<rparr>, None, 7), fs3)"
  by (rule yaml_data_survives [OF tree.yaml_lib_axioms])
     (simp_all add: tree_yaml_def scalar_def dec_val_nat_dec MinInt_def MaxInt_def)

text \<open>
  As with the JSON driver, a forced release of an actor that was never saved hides its creation: the next \<open>Load\<close>
  succeeds instead of reporting \<open>ErrNotFound\<close>.
\<close>

lemma yaml_force_release_hides_creation:
  assumes "yaml_lib Y represents" "fs (yaml_filePath dir t i) = None" "nodeDecode Y nullNode dst = (None, dst)"
  shows "\<exists>l fs' l'. yaml_Load dir no_faults Y t i owner dst fs = Ret ((Some l, Some ErrNotFound, dst), fs) \<and>
    yaml_ForceRelease dir no_faults Y t i fs = Ret (Inr 1, fs') \<and>
    yaml_Load dir no_faults Y t i owner dst fs' = Ret ((Some l', None, dst), fs')"
proof -
  obtain fs' where f: "yaml_ForceRelease dir no_faults Y t i fs = Ret (Inr 1, fs')"
      "yaml_lib.holds Y fs' (yaml_filePath dir t i) 1 nullNode"
    using yaml_lib.first_force_release_holds [OF assms(1), of fs dir t i, OF assms(2)] by blast
  then show ?thesis
    using yaml_lib.load_holds [OF assms(1) f(2) _ _ assms(3), of owner] assms(2)
    by (simp add: yaml_Load_def MinInt_def MaxInt_def)
qed

text \<open>
  A snapshot that cannot be encoded destroys the stored one: the file is truncated first, and both \<open>Load\<close> and a
  renewal then fail on the empty file.
\<close>

lemma yaml_Save_failure_loses_data:
  assumes "encAny Y g p = Inl e" "decDoc Y (emptyFile Y) = Inl e1" "decRoot Y (emptyFile Y) = Inl e2"
  shows "\<exists>fs'. yaml_Save dir no_faults Y t i owner (Some p) g fs = Ret (Some (DrvErr e), fs') \<and>
    yaml_Load dir no_faults Y t i owner dst fs' = Ret ((None, Some (DrvErr e1), dst), fs') \<and>
    yaml_Save dir no_faults Y t i owner None g fs' = Ret (Some (DrvErr e2), fs')"
  using assms by (simp add: yaml_Save_def yaml_Load_def renewOnlyYaml_def create_encode_def)

end
