(* ===== verification/Shared.thy ===== *)
theory Shared
  imports Actor_Manager "HOL-Library.Word"
begin

section \<open>Shared values\<close>

text \<open>
  \<open>shared/key.go\<close>, \<open>shared/store.go\<close>, \<open>shared/reader.go\<close>, \<open>shared/owner.go\<close> and \<open>shared/peek.go\<close>: a shard of the store, with its
  entries on a heap because the refresh timers hold a pointer to an entry that may since have been
  unpublished, and the cache of a reader. Values are \<open>'v\<close>; a type assertion is a predicate on them. Times and
  durations are integers in nanoseconds, \<^const>\<open>None\<close> being the zero time. The store sends through
  \<open>AMulticast\<close> of the control block; \<open>mk\<close> builds the reader group's refresh request. A binding is a number: its
  closures work on the set of the group's readers, and every reader identity has the group's type.
\<close>

unbundle bit_operations_syntax

subsection \<open>Keys\<close>

record 'v defInfo =
  pattern :: string
  cooldown :: int
  ttl :: int
  clone :: "('v \<Rightarrow> 'v go) option"
  immutable :: bool

record 'v Key =
  kname :: string
  kinfo :: "'v defInfo option"

text \<open>\<open>Define\<close>: the options applied in order; \<^const>\<open>None\<close> is the panic for a pattern that is already defined.\<close>

definition Define ::
  "string \<Rightarrow> ('v defInfo \<Rightarrow> 'v defInfo) list \<Rightarrow> string set \<Rightarrow> ('v defInfo \<times> string set) option" where
  "Define p opts seen =
     (let info = fold (\<lambda>opt i. opt i) opts \<lparr>pattern = p, cooldown = 0, ttl = 0, clone = None, immutable = False\<rparr>
      in if p \<in> seen then None else Some (info, insert p seen))"

text \<open>\<open>Of\<close>; \<open>sprintf\<close> is \<open>fmt.Sprintf\<close>, which is not called without arguments.\<close>

definition Def_Of :: "(string \<Rightarrow> 'x list \<Rightarrow> string) \<Rightarrow> 'v defInfo \<Rightarrow> 'x list \<Rightarrow> 'v Key" where
  "Def_Of sprintf d args =
     \<lparr>kname = (if length args > 0 then sprintf (pattern d) args else pattern d), kinfo = Some d\<rparr>"

definition WithCooldown :: "int \<Rightarrow> 'v defInfo \<Rightarrow> 'v defInfo" where
  "WithCooldown d i = i\<lparr>cooldown := d\<rparr>"

definition WithTTL :: "int \<Rightarrow> 'v defInfo \<Rightarrow> 'v defInfo" where
  "WithTTL d i = i\<lparr>ttl := d\<rparr>"

definition Immutable :: "'v defInfo \<Rightarrow> 'v defInfo" where
  "Immutable i = i\<lparr>immutable := True\<rparr>"

text \<open>The type assertion in the clone function panics on a value of another type.\<close>

definition WithClone :: "('v \<Rightarrow> bool) \<Rightarrow> ('v \<Rightarrow> 'v) \<Rightarrow> 'v defInfo \<Rightarrow> 'v defInfo" where
  "WithClone isV f i = i\<lparr>clone := Some (\<lambda>v. if isV v then Ret (f v) else GoPanic)\<rparr>"

subsection \<open>Shards\<close>

record Options =
  Shards :: int
  BufMails :: int
  Cooldown :: int
  Sweep :: int
  IdleTTL :: int
  FetchTimeout :: int

definition withDefaults :: "Options \<Rightarrow> Options" where
  "withDefaults o1 =
     (let o2 = (if Shards o1 \<le> 0 then o1\<lparr>Shards := 1\<rparr> else o1);
          o3 = (if BufMails o2 \<le> 0 then o2\<lparr>BufMails := 1024\<rparr> else o2)
      in if FetchTimeout o3 \<le> 0 then o3\<lparr>FetchTimeout := 2000000000\<rparr> else o3)"

text \<open>The process-wide part of \<open>Serve\<close>: the shard count is fixed by the first call. \<^const>\<open>None\<close> is the panic.\<close>

definition fix_shards :: "Options \<Rightarrow> int \<times> Options \<Rightarrow> (int \<times> Options) option" where
  "fix_shards opts cfg =
     (let o1 = withDefaults opts
      in if fst cfg = 0 then Some (Shards o1, o1)
         else if fst cfg \<noteq> Shards o1 then None
         else Some cfg)"

text \<open>\<open>hash/fnv\<close>'s FNV-1a on 32 bits.\<close>

definition fnv32a :: "string \<Rightarrow> 32 word" where
  "fnv32a s = foldl (\<lambda>h b. (h XOR word_of_nat (of_char b)) * 16777619) 2166136261 s"

text \<open>\<open>uint32(n)\<close> truncates; \<^const>\<open>None\<close> is the division by zero.\<close>

definition shardOf :: "int \<Rightarrow> string \<Rightarrow> int option" where
  "shardOf storeShards name =
     (let n = (if storeShards \<le> 0 then 1 else storeShards);
          m = word_of_int n :: 32 word
      in if m = 0 then None else Some (uint (fnv32a name mod m)))"

subsection \<open>The state of a shard\<close>

record ('v, 'a) entry =
  ename :: string
  evalue :: "'v option"
  version :: int
  hasValue :: bool
  einfo :: "'v defInfo option"
  lastPub :: "int option"
  lastSent :: "int option"
  pending :: bool
  subs :: "(nat \<times> 'a list) list"

record ('v, 'a) storeState =
  entries :: "(string \<times> nat) list"
  eheap :: "nat \<Rightarrow> ('v, 'a) entry"
  nextEntry :: nat

datatype store_cb = RefreshCb nat | SweepCb

record 'v refreshReq =
  rName :: string
  rVersion :: int
  rValue :: "'v option"
  rTTL :: int

definition new_entry :: "string \<Rightarrow> ('v, 'a) entry" where
  "new_entry name = \<lparr>ename = name, evalue = None, version = 0, hasValue = False, einfo = None, lastPub = None,
     lastSent = None, pending = False, subs = []\<rparr>"

definition store_entry :: "string \<Rightarrow> ('v, 'a) storeState \<Rightarrow> nat \<times> ('v, 'a) storeState" where
  "store_entry name s =
     (case map_of (entries s) name of
        Some p \<Rightarrow> (p, s)
      | None \<Rightarrow>
          (let p = nextEntry s
           in (p, s\<lparr>entries := AList.update name p (entries s), eheap := (eheap s)(p := new_entry name), nextEntry := Suc p\<rparr>)))"

definition set_entry :: "nat \<Rightarrow> ('v, 'a) entry \<Rightarrow> ('v, 'a) storeState \<Rightarrow> ('v, 'a) storeState" where
  "set_entry p e s = s\<lparr>eheap := (eheap s)(p := e)\<rparr>"

subsection \<open>Bindings\<close>

definition bind_add :: "'a list option \<Rightarrow> 'a \<Rightarrow> 'a list" where
  "bind_add m i = (let rs = (case m of None \<Rightarrow> [] | Some rs \<Rightarrow> rs) in if i \<in> set rs then rs else rs @ [i])"

definition bind_remove :: "'a list \<Rightarrow> 'a \<Rightarrow> 'a list" where
  "bind_remove rs i = removeAll i rs"

fun gone_readers :: "('a, 'e) IdErr list \<Rightarrow> 'a list" where
  "gone_readers [] = []"
| "gone_readers (x # xs) =
     (case ieErr x of
        None \<Rightarrow> gone_readers xs
      | Some e \<Rightarrow>
          if errors_As is_ActorNotFoundError e \<noteq> None then ieId x # gone_readers xs else gone_readers xs)"

type_synonym ('a, 'q, 'k) sctl = "('a, 'q, unit, 'k) ActorControl"

definition bind_deliver ::
  "('a, 'q, 'e, 'w) fpost \<Rightarrow> ('a, 'q, 'e, 'w) fmulticast \<Rightarrow> ('v refreshReq \<Rightarrow> 'q) \<Rightarrow> 'a list \<Rightarrow> 'v refreshReq
    \<Rightarrow> ('a, 'q, store_cb) sctl \<Rightarrow> 'w \<Rightarrow> 'a list \<times> ('a, 'q, store_cb) sctl \<times> 'w" where
  "bind_deliver fp fm mk rs req a w =
     (if length rs = 0 then ([], a, w)
      else case AMulticast fp fm rs (mk req) a w of
             (Inl _, a', w') \<Rightarrow> ([], a', w')
           | (Inr errs, a', w') \<Rightarrow> (gone_readers errs, a', w'))"

text \<open>The loop of \<open>sendRefresh\<close> over the bindings of an entry.\<close>

fun deliver_subs ::
  "('a, 'q, 'e, 'w) fpost \<Rightarrow> ('a, 'q, 'e, 'w) fmulticast \<Rightarrow> ('v refreshReq \<Rightarrow> 'q) \<Rightarrow> 'v refreshReq \<Rightarrow> (nat \<times> 'a list) list
    \<Rightarrow> ('a, 'q, store_cb) sctl \<Rightarrow> 'w \<Rightarrow> (nat \<times> 'a list) list \<times> ('a, 'q, store_cb) sctl \<times> 'w" where
  "deliver_subs fp fm mk req [] a w = ([], a, w)"
| "deliver_subs fp fm mk req ((b, rs) # bs) a w =
     (let (gone, a1, w1) = bind_deliver fp fm mk rs req a w;
          (bs', a2, w2) = deliver_subs fp fm mk req bs a1 w1
      in ((b, fold (\<lambda>i rs. bind_remove rs i) gone rs) # bs', a2, w2))"

definition sendRefresh ::
  "('a, 'q, 'e, 'w) fpost \<Rightarrow> ('a, 'q, 'e, 'w) fmulticast \<Rightarrow> ('v refreshReq \<Rightarrow> 'q) \<Rightarrow> int \<Rightarrow> ('v, 'a) entry
    \<Rightarrow> ('a, 'q, store_cb) sctl \<Rightarrow> 'w \<Rightarrow> ('v, 'a) entry \<times> ('a, 'q, store_cb) sctl \<times> 'w" where
  "sendRefresh fp fm mk now e a w =
     (if subs e = [] then (e, a, w)
      else
        (let e1 = e\<lparr>lastSent := Some now\<rparr>;
             req = \<lparr>rName = ename e, rVersion = version e, rValue = evalue e,
                    rTTL = (case einfo e of None \<Rightarrow> 0 | Some i \<Rightarrow> ttl i)\<rparr>;
             (sb, a', w') = deliver_subs fp fm mk req (subs e) a w
         in (e1\<lparr>subs := sb\<rparr>, a', w')))"

definition scheduleRefresh ::
  "('a, 'q, 'e, 'w) fpost \<Rightarrow> ('a, 'q, 'e, 'w) fmulticast \<Rightarrow> ('v refreshReq \<Rightarrow> 'q) \<Rightarrow> int \<Rightarrow> nat \<Rightarrow> int
    \<Rightarrow> ('v, 'a) storeState \<Rightarrow> ('a, 'q, store_cb) sctl \<Rightarrow> 'w \<Rightarrow> ('v, 'a) storeState \<times> ('a, 'q, store_cb) sctl \<times> 'w" where
  "scheduleRefresh fp fm mk now p defaultCooldown s a w =
     (let e = eheap s p in
      if pending e then (s, a, w)
      else
        (let cd = (case einfo e of Some i \<Rightarrow> if cooldown i > 0 then cooldown i else defaultCooldown | None \<Rightarrow> defaultCooldown)
         in if cd \<le> 0 \<or> (case lastSent e of None \<Rightarrow> True | Some t \<Rightarrow> now - t \<ge> cd) then
              (let (e', a', w') = sendRefresh fp fm mk now e a w in (set_entry p e' s, a', w'))
            else
              (set_entry p (e\<lparr>pending := True\<rparr>) s,
               snd (Timer (''shared_refresh:'' @ ename e) (the (lastSent e) + cd - now) (UserFn (RefreshCb p)) a), w)))"

text \<open>The callback of the refresh timer.\<close>

definition refresh_fired ::
  "('a, 'q, 'e, 'w) fpost \<Rightarrow> ('a, 'q, 'e, 'w) fmulticast \<Rightarrow> ('v refreshReq \<Rightarrow> 'q) \<Rightarrow> int \<Rightarrow> nat
    \<Rightarrow> ('v, 'a) storeState \<Rightarrow> ('a, 'q, store_cb) sctl \<Rightarrow> 'w \<Rightarrow> ('v, 'a) storeState \<times> ('a, 'q, store_cb) sctl \<times> 'w" where
  "refresh_fired fp fm mk now p s a w =
     (let (e', a', w') = sendRefresh fp fm mk now ((eheap s p)\<lparr>pending := False\<rparr>) a w
      in (set_entry p e' s, a', w'))"

subsection \<open>The handlers of a shard\<close>

definition scheduleSweep :: "Options \<Rightarrow> ('a, 'q, store_cb) sctl \<Rightarrow> ('a, 'q, store_cb) sctl" where
  "scheduleSweep opts a = snd (Timer ''shared_sweep'' (Sweep opts) (UserFn SweepCb) a)"

text \<open>The zero time of an entry that was never published is far in the past.\<close>

definition idle_entry :: "Options \<Rightarrow> int \<Rightarrow> ('v, 'a) entry \<Rightarrow> bool" where
  "idle_entry opts now e \<longleftrightarrow> subs e = [] \<and> (case lastPub e of None \<Rightarrow> True | Some t \<Rightarrow> now - t > IdleTTL opts)"

definition sweep_fired ::
  "Options \<Rightarrow> int \<Rightarrow> ('v, 'a) storeState \<Rightarrow> ('a, 'q, store_cb) sctl \<Rightarrow> ('v, 'a) storeState \<times> ('a, 'q, store_cb) sctl" where
  "sweep_fired opts now s a =
     (let s' = (if IdleTTL opts > 0
                then s\<lparr>entries := filter (\<lambda>(name, p). \<not> idle_entry opts now (eheap s p)) (entries s)\<rparr> else s)
      in (s', scheduleSweep opts a))"

definition handle_publish ::
  "('a, 'q, 'e, 'w) fpost \<Rightarrow> ('a, 'q, 'e, 'w) fmulticast \<Rightarrow> ('v refreshReq \<Rightarrow> 'q) \<Rightarrow> Options \<Rightarrow> int
    \<Rightarrow> string \<Rightarrow> 'v \<Rightarrow> 'v defInfo option \<Rightarrow> bool \<Rightarrow> ('v, 'a) storeState \<Rightarrow> ('a, 'q, store_cb) sctl \<Rightarrow> 'w
    \<Rightarrow> ('v, 'a) storeState \<times> ('a, 'q, store_cb) sctl \<times> 'w" where
  "handle_publish fp fm mk opts now name v info spawning s a w =
     (let a1 = (if spawning then (let a0 = Open a in if Sweep opts > 0 then scheduleSweep opts a0 else a0) else a);
          (p, s1) = store_entry name s;
          e = eheap s1 p;
          e1 = e\<lparr>einfo := info, evalue := Some v, version := wrap64 (version e + 1), hasValue := True, lastPub := Some now\<rparr>
      in scheduleRefresh fp fm mk now p (Cooldown opts) (set_entry p e1 s1) a1 w)"

datatype sharederr = NotPublishedError string | TypeMismatchError string | ReaderNotRegisteredError string | ErrStoreNotServed

fun sharederr_String :: "sharederr \<Rightarrow> string" where
  "sharederr_String (NotPublishedError n) = ''shared: key not published: '' @ n"
| "sharederr_String (TypeMismatchError n) = ''shared: value type mismatch: '' @ n"
| "sharederr_String (ReaderNotRegisteredError t) = ''shared: reader group not registered: '' @ t"
| "sharederr_String ErrStoreNotServed = ''shared: store group not served; call shared.Serve before use''"

definition handle_subscribe ::
  "string \<Rightarrow> 'a \<Rightarrow> nat option \<Rightarrow> bool \<Rightarrow> ('v, 'a) storeState \<Rightarrow> ('a, 'q, store_cb) sctl
    \<Rightarrow> (sharederr + int \<times> 'v option) \<times> ('v, 'a) storeState \<times> ('a, 'q, store_cb) sctl" where
  "handle_subscribe name reader bind spawning s a =
     (let a1 = (if spawning then Open a else a);
          (p, s1) = store_entry name s;
          e = eheap s1 p;
          e1 = (case bind of
                  None \<Rightarrow> e
                | Some b \<Rightarrow> e\<lparr>subs := AList.update b (bind_add (map_of (subs e) b) reader) (subs e)\<rparr>)
      in (if \<not> hasValue e1 then Inl (NotPublishedError name) else Inr (version e1, evalue e1), set_entry p e1 s1, a1))"

definition handle_fetch :: "string \<Rightarrow> ('v, 'a) storeState \<Rightarrow> sharederr + int \<times> 'v option" where
  "handle_fetch name s =
     (case map_of (entries s) name of
        None \<Rightarrow> Inl (NotPublishedError name)
      | Some p \<Rightarrow>
          if \<not> hasValue (eheap s p) then Inl (NotPublishedError name)
          else Inr (version (eheap s p), evalue (eheap s p)))"

definition handle_unpublish :: "string \<Rightarrow> ('v, 'a) storeState \<Rightarrow> ('v, 'a) storeState" where
  "handle_unpublish name s = s\<lparr>entries := AList.delete name (entries s)\<rparr>"

subsection \<open>Owners\<close>

definition publishMessage :: "'v Key \<Rightarrow> 'v \<Rightarrow> (string \<times> 'v \<times> 'v defInfo option) go" where
  "publishMessage k v =
     (case kinfo k of
        None \<Rightarrow> Ret (kname k, v, None)
      | Some i \<Rightarrow>
          (case clone i of
             None \<Rightarrow> Ret (kname k, v, Some i)
           | Some f \<Rightarrow>
               (case f v of
                  Ret v' \<Rightarrow> Ret (kname k, v', Some i)
                | GoPanic \<Rightarrow> GoPanic
                | GoBlocks \<Rightarrow> GoBlocks)))"

text \<open>
  \<open>PublishFrom\<close>, \<open>PublishWaitFrom\<close> and \<open>UnpublishFrom\<close>; \<open>post\<close> and \<open>call\<close> are the manager's operations on a shard, a call's
  reply is dropped. \<open>Publish\<close>, \<open>PublishWait\<close> and \<open>Unpublish\<close> pass them the manager of the context.
\<close>

definition to_shard :: "int \<Rightarrow> string \<Rightarrow> (int \<Rightarrow> 'x go) \<Rightarrow> 'x go" where
  "to_shard n name f = (case shardOf n name of None \<Rightarrow> GoPanic | Some sh \<Rightarrow> f sh)"

definition PublishFrom ::
  "int \<Rightarrow> (int \<Rightarrow> string \<times> 'v \<times> 'v defInfo option \<Rightarrow> 'w \<Rightarrow> 'err option \<times> 'w) \<Rightarrow> 'v Key \<Rightarrow> 'v \<Rightarrow> 'w
    \<Rightarrow> ('err option \<times> 'w) go" where
  "PublishFrom n post k v w =
     to_shard n (kname k) (\<lambda>sh. case publishMessage k v of
       Ret m \<Rightarrow> Ret (post sh m w) | GoPanic \<Rightarrow> GoPanic | GoBlocks \<Rightarrow> GoBlocks)"

definition PublishWaitFrom ::
  "int \<Rightarrow> (int \<Rightarrow> string \<times> 'v \<times> 'v defInfo option \<Rightarrow> 'w \<Rightarrow> 'err option \<times> 'w) \<Rightarrow> 'v Key \<Rightarrow> 'v \<Rightarrow> 'w
    \<Rightarrow> ('err option \<times> 'w) go" where
  "PublishWaitFrom n call k v w =
     to_shard n (kname k) (\<lambda>sh. case publishMessage k v of
       Ret m \<Rightarrow> Ret (call sh m w) | GoPanic \<Rightarrow> GoPanic | GoBlocks \<Rightarrow> GoBlocks)"

definition UnpublishFrom ::
  "int \<Rightarrow> (int \<Rightarrow> string \<Rightarrow> 'w \<Rightarrow> 'err option \<times> 'w) \<Rightarrow> 'v Key \<Rightarrow> 'w \<Rightarrow> ('err option \<times> 'w) go" where
  "UnpublishFrom n post k w = to_shard n (kname k) (\<lambda>sh. Ret (post sh (kname k) w))"

subsection \<open>Readers\<close>

record 'v cacheEntry =
  cvalue :: "'v option"
  cversion :: int
  loaded :: bool
  cat :: int
  cttl :: int

type_synonym 'v Reader = "(string \<times> 'v cacheEntry) list"

definition reader_entry :: "string \<Rightarrow> 'v Reader \<Rightarrow> 'v cacheEntry" where
  "reader_entry name r =
     (case map_of r name of
        Some e \<Rightarrow> e
      | None \<Rightarrow> \<lparr>cvalue = None, cversion = 0, loaded = False, cat = 0, cttl = 0\<rparr>)"

definition reader_set :: "int \<Rightarrow> string \<Rightarrow> int \<Rightarrow> 'v option \<Rightarrow> int \<Rightarrow> 'v Reader \<Rightarrow> 'v Reader" where
  "reader_set now name v x tt r =
     (let e = reader_entry name r in
      if loaded e \<and> v \<le> cversion e then AList.update name e r
      else AList.update name \<lparr>cvalue = x, cversion = v, loaded = True, cat = now, cttl = tt\<rparr> r)"

text \<open>The refresh handler that \<open>ServeReader\<close> registers.\<close>

definition handle_refresh :: "int \<Rightarrow> 'v refreshReq \<Rightarrow> 'v Reader \<Rightarrow> 'v Reader" where
  "handle_refresh now req r = reader_set now (rName req) (rVersion req) (rValue req) (rTTL req) r"

definition cacheGet :: "('v \<Rightarrow> bool) \<Rightarrow> int \<Rightarrow> 'v Key \<Rightarrow> 'v Reader \<Rightarrow> 'v option" where
  "cacheGet isV now k r =
     (case map_of r (kname k) of
        None \<Rightarrow> None
      | Some e \<Rightarrow>
          if \<not> loaded e then None
          else if cttl e > 0 \<and> now - cat e > cttl e then None
          else (case cvalue e of None \<Rightarrow> None | Some v \<Rightarrow> if isV v then Some v else None))"

definition Peek :: "('v \<Rightarrow> bool) \<Rightarrow> int \<Rightarrow> 'v Key \<Rightarrow> 'v Reader \<Rightarrow> 'v option" where
  "Peek isV now k r = cacheGet isV now k r"

text \<open>\<open>translateStoreError\<close> on an error of the actor package; \<open>Inr\<close> leaves it as it is.\<close>

fun is_GroupNotFoundError :: "('a, 'e) goerr \<Rightarrow> bool" where
  "is_GroupNotFoundError (GroupNotFoundError _) = True"
| "is_GroupNotFoundError _ = False"

definition translateStoreError :: "('a, 'e) goerr \<Rightarrow> string \<Rightarrow> sharederr + ('a, 'e) goerr" where
  "translateStoreError err name =
     (if errors_As is_GroupNotFoundError err \<noteq> None then Inl ErrStoreNotServed
      else if errors_As is_ActorNotFoundError err \<noteq> None then Inl (NotPublishedError name)
      else Inr err)"

text \<open>
  \<open>WatchFrom\<close> and \<open>FetchFrom\<close>; \<open>call\<close> is the call to the shard, with the time at which its result is used. A key
  without definition has no time to live to read: the nil dereference is \<^const>\<open>GoPanic\<close>.
\<close>

definition WatchFrom ::
  "(string \<Rightarrow> nat option) \<Rightarrow> ('v \<Rightarrow> bool) \<Rightarrow> (string \<Rightarrow> nat \<Rightarrow> 'w \<Rightarrow> (('a, 'e) goerr + int \<times> 'v option) \<times> int \<times> 'w)
    \<Rightarrow> string \<Rightarrow> int \<Rightarrow> 'v Key \<Rightarrow> 'v Reader \<Rightarrow> 'w
    \<Rightarrow> (((sharederr + ('a, 'e) goerr) + 'v) \<times> 'v Reader \<times> 'w) go" where
  "WatchFrom lookupBinding isV call t now k r w =
     (case lookupBinding t of
        None \<Rightarrow> Ret (Inl (Inl (ReaderNotRegisteredError t)), r, w)
      | Some b \<Rightarrow>
          (case cacheGet isV now k r of
             Some v \<Rightarrow> Ret (Inr v, r, w)
           | None \<Rightarrow>
               (case call (kname k) b w of
                  (Inl e, _, w') \<Rightarrow> Ret (Inl (translateStoreError e (kname k)), r, w')
                | (Inr (ver, x), now', w') \<Rightarrow>
                    (case x of
                       None \<Rightarrow> Ret (Inl (Inl (TypeMismatchError (kname k))), r, w')
                     | Some v \<Rightarrow>
                         if \<not> isV v then Ret (Inl (Inl (TypeMismatchError (kname k))), r, w')
                         else (case kinfo k of
                                 None \<Rightarrow> GoPanic
                               | Some i \<Rightarrow> Ret (Inr v, reader_set now' (kname k) ver (Some v) (ttl i) r, w'))))))"

definition FetchFrom ::
  "('v \<Rightarrow> bool) \<Rightarrow> (string \<Rightarrow> 'w \<Rightarrow> (('a, 'e) goerr + int \<times> 'v option) \<times> 'w) \<Rightarrow> 'v Key \<Rightarrow> 'w
    \<Rightarrow> ((sharederr + ('a, 'e) goerr) + 'v) \<times> 'w" where
  "FetchFrom isV call k w =
     (case call (kname k) w of
        (Inl e, w') \<Rightarrow> (Inl (translateStoreError e (kname k)), w')
      | (Inr (_, Some v), w') \<Rightarrow> (if isV v then Inr v else Inl (Inl (TypeMismatchError (kname k))), w')
      | (Inr (_, None), w') \<Rightarrow> (Inl (Inl (TypeMismatchError (kname k))), w'))"

definition Invalidate :: "'v Key \<Rightarrow> 'v Reader \<Rightarrow> 'v Reader" where
  "Invalidate k r =
     (case map_of r (kname k) of None \<Rightarrow> r | Some e \<Rightarrow> AList.update (kname k) (e\<lparr>loaded := False\<rparr>) r)"

definition VersionOf :: "'v Key \<Rightarrow> 'v Reader \<Rightarrow> int \<times> bool" where
  "VersionOf k r =
     (case map_of r (kname k) of
        None \<Rightarrow> (0, False)
      | Some e \<Rightarrow> if \<not> loaded e then (0, False) else (cversion e, True))"

subsection \<open>Readers converge\<close>

lemma handle_refresh_lookup:
  "map_of (handle_refresh t q r) n =
     (if n = rName q then
        Some (let e = reader_entry n r in
              if loaded e \<and> rVersion q \<le> cversion e then e
              else \<lparr>cvalue = rValue q, cversion = rVersion q, loaded = True, cat = t, cttl = rTTL q\<rparr>)
      else map_of r n)"
  by (simp add: handle_refresh_def reader_set_def Let_def AList.update_conv')

definition pushed :: "string \<Rightarrow> (int \<times> 'v refreshReq) list \<Rightarrow> int set" where
  "pushed n ps = set (map (\<lambda>p. rVersion (snd p)) (filter (\<lambda>p. rName (snd p) = n) ps))"

definition receive_all :: "(int \<times> 'v refreshReq) list \<Rightarrow> 'v Reader \<Rightarrow> 'v Reader" where
  "receive_all ps r = fold (\<lambda>(t, q). handle_refresh t q) ps r"

lemma pushed_snoc:
  "pushed n (ps @ [(t, q)]) = (if rName q = n then insert (rVersion q) (pushed n ps) else pushed n ps)"
  by (simp add: pushed_def)

lemma finite_pushed [simp]: "finite (pushed n ps)"
  by (simp add: pushed_def)

definition cache_ok :: "(int \<Rightarrow> 'v option) \<Rightarrow> int set \<Rightarrow> 'v cacheEntry option \<Rightarrow> bool" where
  "cache_ok val V c =
     (if V = {} then c = None
      else case c of None \<Rightarrow> False | Some e \<Rightarrow> loaded e \<and> cversion e = Max V \<and> cvalue e = val (Max V))"

lemma cache_ok_step:
  assumes ok: "cache_ok val V (map_of r n)" and fin: "finite V" and q: "rName q = n" "rValue q = val (rVersion q)"
  shows "cache_ok val (insert (rVersion q) V) (map_of (handle_refresh t q r) n)"
proof (cases "V = {}")
  case True
  with ok q show ?thesis
    by (simp add: cache_ok_def handle_refresh_lookup reader_entry_def)
next
  case False
  with ok obtain e where e: "map_of r n = Some e" "loaded e" "cversion e = Max V" "cvalue e = val (Max V)"
    by (auto simp: cache_ok_def split: option.splits)
  with False fin q show ?thesis
    by (auto simp: cache_ok_def handle_refresh_lookup reader_entry_def max_def)
qed

lemma receive_all_ok:
  assumes "\<forall>p\<in>set ps. rName (snd p) = n \<longrightarrow> rValue (snd p) = val (rVersion (snd p))"
  shows "cache_ok val (pushed n ps) (map_of (receive_all ps []) n)"
  using assms
proof (induction ps rule: rev_induct)
  case Nil
  then show ?case by (simp add: cache_ok_def pushed_def receive_all_def)
next
  case (snoc p ps)
  obtain t q where p: "p = (t, q)" by (cases p)
  have all: "receive_all (ps @ [p]) [] = handle_refresh t q (receive_all ps [])"
    by (simp add: receive_all_def p)
  have IH: "cache_ok val (pushed n ps) (map_of (receive_all ps []) n)"
    using snoc by simp
  show ?case
  proof (cases "rName q = n")
    case True
    with snoc.prems p have "rValue q = val (rVersion q)" by simp
    from cache_ok_step [OF IH finite_pushed True this, of t] show ?thesis
      unfolding all unfolding p pushed_snoc by (simp add: True)
  next
    case False
    with IH show ?thesis
      unfolding all unfolding p pushed_snoc by (simp add: handle_refresh_lookup)
  qed
qed

text \<open>C34: whatever the order in which the refresh messages of a key reach a reader, and however often each is repeated,
  the reader ends with the highest version that was pushed and the value published under it.\<close>

theorem reader_converges:
  assumes "p \<in> set ps" and "rName (snd p) = n"
    and "\<forall>p\<in>set ps. rName (snd p) = n \<longrightarrow> rValue (snd p) = val (rVersion (snd p))"
  shows "\<exists>e. map_of (receive_all ps []) n = Some e \<and> loaded e
           \<and> cversion e = Max (pushed n ps) \<and> cvalue e = val (Max (pushed n ps))"
proof -
  have "p \<in> set (filter (\<lambda>p. rName (snd p) = n) ps)" using assms(1,2) by simp
  then have "pushed n ps \<noteq> {}" unfolding pushed_def by (cases "filter (\<lambda>p. rName (snd p) = n) ps") simp_all
  with receive_all_ok [OF assms(3)] show ?thesis
    by (auto simp: cache_ok_def split: option.splits)
qed

definition push_req :: "string \<Rightarrow> int \<Rightarrow> 'v \<Rightarrow> 'v refreshReq" where
  "push_req n v x = \<lparr>rName = n, rVersion = v, rValue = Some x, rTTL = 0\<rparr>"

theorem reader_converges_witness:
  "\<exists>e. map_of (receive_all [(5, push_req ''k'' 2 (20::int)), (6, push_req ''j'' 9 0), (7, push_req ''k'' 3 30),
                (8, push_req ''k'' 1 10), (9, push_req ''k'' 3 30)] []) ''k'' = Some e
     \<and> loaded e \<and> cversion e = 3 \<and> cvalue e = Some 30"
  using reader_converges [of "(7, push_req ''k'' 3 (30::int))"
    "[(5, push_req ''k'' 2 (20::int)), (6, push_req ''j'' 9 0), (7, push_req ''k'' 3 30),
      (8, push_req ''k'' 1 10), (9, push_req ''k'' 3 30)]" "''k''" "\<lambda>v. Some (10 * v)"]
  by (simp add: push_req_def pushed_def)

subsection \<open>Shard numbers\<close>

text \<open>With a shard count that fits 32 bits, every key has a shard and its number is below the count.\<close>

theorem shardOf_in_range:
  assumes "0 < n" and "n < 2 ^ 32"
  shows "\<exists>s. shardOf n name = Some s \<and> 0 \<le> s \<and> s < n"
proof -
  have u: "uint (word_of_int n :: 32 word) = n"
    using assms by (simp add: uint_word_of_int)
  then have nz: "(word_of_int n :: 32 word) \<noteq> 0"
    using assms by (metis less_irrefl unsigned_0)
  have "uint (fnv32a name mod word_of_int n) = uint (fnv32a name) mod n"
    by (simp only: uint_mod u)
  with nz assms show ?thesis
    by (simp add: shardOf_def Let_def)
qed

theorem shardOf_in_range_witness: "\<exists>s. shardOf 3 ''world/7/seed'' = Some s \<and> 0 \<le> s \<and> s < 3"
  using shardOf_in_range [of 3 "''world/7/seed''"] by simp

text \<open>A count of \<open>2\<^sup>3\<^sup>2\<close> is truncated to zero by the conversion and the remainder panics.\<close>

lemma shardOf_truncates: "shardOf (2 ^ 32) name = None"
  by (simp add: shardOf_def Let_def word_of_int_2p_len)

subsection \<open>The store\<close>

text \<open>
  The representation invariant of a shard: the map has one entry per name, distinct names hold distinct entries, and an
  entry carries the name it is stored under.
\<close>

definition store_wf :: "('v, 'a) storeState \<Rightarrow> bool" where
  "store_wf s \<longleftrightarrow> distinct (map fst (entries s)) \<and>
     (\<forall>n p. map_of (entries s) n = Some p \<longrightarrow> p < nextEntry s \<and> ename (eheap s p) = n)"

lemma store_wf_inj:
  "store_wf s \<Longrightarrow> map_of (entries s) n = Some p \<Longrightarrow> map_of (entries s) m = Some p \<Longrightarrow> m = n"
  unfolding store_wf_def by metis

lemma store_entry_spec:
  assumes "store_wf s"
  shows "case store_entry name s of (p, s') \<Rightarrow>
           store_wf s' \<and> map_of (entries s') name = Some p
         \<and> (\<forall>m. m \<noteq> name \<longrightarrow> map_of (entries s') m = map_of (entries s) m)
         \<and> (\<forall>m q. map_of (entries s) m = Some q \<longrightarrow> eheap s' q = eheap s q)
         \<and> (map_of (entries s) name = None \<longrightarrow> eheap s' p = new_entry name)
         \<and> (\<forall>q. map_of (entries s) name = Some q \<longrightarrow> s' = s \<and> p = q)"
proof (cases "map_of (entries s) name")
  case (Some p)
  with assms show ?thesis by (simp add: store_entry_def)
next
  case None
  have wf: "p < nextEntry s \<and> ename (eheap s p) = m" if "map_of (entries s) m = Some p" for m p
    using assms that by (simp add: store_wf_def)
  then have fresh: "p \<noteq> nextEntry s" if "map_of (entries s) m = Some p" for m p
    using that by blast
  have d: "distinct (map fst (AList.update name (nextEntry s) (entries s)))"
    using assms by (simp add: store_wf_def distinct_update)
  have "store_wf (snd (store_entry name s))"
    unfolding store_wf_def using None d wf fresh
    by (simp add: store_entry_def Let_def AList.update_conv' new_entry_def less_SucI)
  then show ?thesis
    using None fresh by (auto simp: store_entry_def Let_def AList.update_conv')
qed

lemma set_entry_sel [simp]:
  "entries (set_entry p e s) = entries s" "nextEntry (set_entry p e s) = nextEntry s"
  "eheap (set_entry p e s) = (eheap s)(p := e)"
  by (simp_all add: set_entry_def)

lemma set_entry_wf: "store_wf s \<Longrightarrow> ename e = ename (eheap s p) \<Longrightarrow> store_wf (set_entry p e s)"
  by (auto simp: store_wf_def)

lemma set_entry_fetch_other:
  assumes "store_wf s" "map_of (entries s) n = Some p" "m \<noteq> n"
  shows "handle_fetch m (set_entry p e s) = handle_fetch m s"
  using store_wf_inj [OF assms(1,2), of m] assms(3)
  by (auto simp: handle_fetch_def split: option.splits)

text \<open>What a refresh leaves of an entry: everything but the time of the last push, the readers and the pending mark.\<close>

definition same_value :: "('v, 'a) entry \<Rightarrow> ('v, 'a) entry \<Rightarrow> bool" where
  "same_value e e' \<longleftrightarrow> ename e' = ename e \<and> evalue e' = evalue e \<and> version e' = version e
     \<and> hasValue e' = hasValue e \<and> map fst (subs e') = map fst (subs e)"

lemma deliver_subs_keys: "map fst (fst (deliver_subs fp fm mk req bs a w)) = map fst bs"
  by (induction bs arbitrary: a w) (auto simp: Let_def case_prod_beta)

lemma sendRefresh_same: "same_value e (fst (sendRefresh fp fm mk now e a w))"
  using deliver_subs_keys [of fp fm mk "\<lparr>rName = ename e, rVersion = version e, rValue = evalue e,
                    rTTL = (case einfo e of None \<Rightarrow> 0 | Some i \<Rightarrow> ttl i)\<rparr>" "subs e" a w]
  by (simp add: sendRefresh_def same_value_def Let_def case_prod_beta)

lemma scheduleRefresh_spec:
  "\<exists>e'. fst (scheduleRefresh fp fm mk now p cd s a w) = set_entry p e' s \<and> same_value (eheap s p) e'"
proof -
  let ?r = "fst (scheduleRefresh fp fm mk now p cd s a w)"
  have "?r = set_entry p (eheap s p) s \<or> ?r = set_entry p (fst (sendRefresh fp fm mk now (eheap s p) a w)) s
      \<or> ?r = set_entry p ((eheap s p)\<lparr>pending := True\<rparr>) s"
    by (simp add: scheduleRefresh_def Let_def case_prod_beta set_entry_def)
  moreover have "same_value (eheap s p) (eheap s p)" "same_value (eheap s p) ((eheap s p)\<lparr>pending := True\<rparr>)"
    by (simp_all add: same_value_def)
  ultimately show ?thesis
    using sendRefresh_same [of "eheap s p" fp fm mk now a w] by blast
qed

text \<open>Nothing but an unpublish takes a subscribed entry away.\<close>

definition keeps_subs :: "('v, 'a) storeState \<Rightarrow> ('v, 'a) storeState \<Rightarrow> bool" where
  "keeps_subs s s' \<longleftrightarrow> (\<forall>n p. map_of (entries s) n = Some p \<longrightarrow> subs (eheap s p) \<noteq> [] \<longrightarrow>
     map_of (entries s') n = Some p \<and> subs (eheap s' p) \<noteq> [])"

lemma keeps_subs_trans: "keeps_subs s s1 \<Longrightarrow> keeps_subs s1 s2 \<Longrightarrow> keeps_subs s s2"
  unfolding keeps_subs_def by blast

lemma keeps_subs_set_entry: "(subs (eheap s p) \<noteq> [] \<longrightarrow> subs e \<noteq> []) \<Longrightarrow> keeps_subs s (set_entry p e s)"
  by (simp add: keeps_subs_def)

lemma keeps_subs_store_entry:
  assumes "store_wf s"
  shows "keeps_subs s (snd (store_entry n s))"
proof -
  have "p < nextEntry s" if "map_of (entries s) m = Some p" for m p
    using assms that by (simp add: store_wf_def)
  then have "p \<noteq> nextEntry s" if "map_of (entries s) m = Some p" for m p
    using that by blast
  then show ?thesis
    by (auto simp: keeps_subs_def store_entry_def Let_def AList.update_conv' split: option.splits)
qed

lemma same_value_subs: "same_value e e' \<Longrightarrow> subs e \<noteq> [] \<longrightarrow> subs e' \<noteq> []"
  by (auto simp: same_value_def)

lemma handle_unpublish_wf: "store_wf s \<Longrightarrow> store_wf (handle_unpublish name s)"
  by (auto simp: store_wf_def handle_unpublish_def delete_conv' distinct_delete split: if_splits)

lemma handle_publish_spec:
  assumes wf: "store_wf s"
  shows "\<exists>p e' s1. fst (handle_publish fp fm mk opts now name v info spawning s a w) = set_entry p e' s1
       \<and> store_wf (set_entry p e' s1) \<and> keeps_subs s (set_entry p e' s1)
       \<and> map_of (entries s1) name = Some p
       \<and> (\<forall>m. m \<noteq> name \<longrightarrow> handle_fetch m (set_entry p e' s1) = handle_fetch m s)
       \<and> hasValue e' \<and> evalue e' = Some v
       \<and> version e' = wrap64 (case map_of (entries s) name of None \<Rightarrow> 1 | Some q \<Rightarrow> version (eheap s q) + 1)
       \<and> map fst (subs e') = (case map_of (entries s) name of None \<Rightarrow> [] | Some q \<Rightarrow> map fst (subs (eheap s q)))"
proof -
  obtain p s1 where se: "store_entry name s = (p, s1)" by (cases "store_entry name s")
  let ?e1 = "(eheap s1 p)\<lparr>einfo := info, evalue := Some v, version := wrap64 (version (eheap s1 p) + 1),
               hasValue := True, lastPub := Some now\<rparr>"
  let ?a1 = "if spawning then (let a0 = Open a in if Sweep opts > 0 then scheduleSweep opts a0 else a0) else a"
  obtain e' where e': "fst (scheduleRefresh fp fm mk now p (Cooldown opts) (set_entry p ?e1 s1) ?a1 w)
        = set_entry p e' (set_entry p ?e1 s1)" "same_value ?e1 e'"
    using scheduleRefresh_spec [of fp fm mk now p "Cooldown opts" "set_entry p ?e1 s1" ?a1 w] by auto
  have res: "fst (handle_publish fp fm mk opts now name v info spawning s a w) = set_entry p e' s1"
    using e'(1) by (simp add: handle_publish_def se set_entry_def Let_def split: if_splits)
  note spec = store_entry_spec [OF wf, of name, unfolded se prod.case]
  have wf1: "store_wf s1" and at: "map_of (entries s1) name = Some p" using spec by blast+
  have "ename e' = ename (eheap s1 p)" using e'(2) by (simp add: same_value_def)
  then have wf2: "store_wf (set_entry p e' s1)" by (rule set_entry_wf [OF wf1])
  have oth: "handle_fetch m (set_entry p e' s1) = handle_fetch m s" if m: "m \<noteq> name" for m
  proof -
    have "handle_fetch m s1 = handle_fetch m s"
      using spec m by (auto simp: handle_fetch_def split: option.splits)
    then show ?thesis using set_entry_fetch_other [OF wf1 at m] by simp
  qed
  have old: "eheap s1 p = (case map_of (entries s) name of None \<Rightarrow> new_entry name | Some q \<Rightarrow> eheap s q)"
    using spec by (auto split: option.splits)
  have "hasValue e' \<and> evalue e' = Some v
       \<and> version e' = wrap64 (case map_of (entries s) name of None \<Rightarrow> 1 | Some q \<Rightarrow> version (eheap s q) + 1)
       \<and> map fst (subs e') = (case map_of (entries s) name of None \<Rightarrow> [] | Some q \<Rightarrow> map fst (subs (eheap s q)))"
    using e'(2) old by (auto simp: same_value_def new_entry_def split: option.splits)
  moreover have "keeps_subs s (set_entry p e' s1)"
    using keeps_subs_trans [OF keeps_subs_store_entry [OF wf, of name] keeps_subs_set_entry [of "snd (store_entry name s)" p e']]
      same_value_subs [OF e'(2)] by (simp add: se)
  ultimately show ?thesis using res wf2 at oth by blast
qed

text \<open>Publishing a key and then fetching it returns the published value, with a version one above the one the key had
  (1 for a key that did not exist), whatever the push to the readers does; every other key reads as before.\<close>

theorem publish_then_fetch:
  assumes "store_wf s"
  shows "case handle_publish fp fm mk opts now name v info spawning s a w of (s', a', w') \<Rightarrow>
           store_wf s'
         \<and> handle_fetch name s' =
             Inr (wrap64 (case map_of (entries s) name of None \<Rightarrow> 1 | Some p \<Rightarrow> version (eheap s p) + 1), Some v)
         \<and> (\<forall>m. m \<noteq> name \<longrightarrow> handle_fetch m s' = handle_fetch m s)"
proof -
  obtain s' a' w' where r: "handle_publish fp fm mk opts now name v info spawning s a w = (s', a', w')"
    by (metis prod_cases3)
  from handle_publish_spec [OF assms, where fp = fp and fm = fm and mk = mk and opts = opts and now = now and name = name and v = v
      and info = info and spawning = spawning and a = a and w = w] show ?thesis
    by (auto simp: r handle_fetch_def)
qed

definition store0 :: "(int, nat) storeState" where
  "store0 = \<lparr>entries = [], eheap = (\<lambda>_. new_entry []), nextEntry = 0\<rparr>"

definition fp0 :: "(nat, int refreshReq, unit, unit) fpost" where
  "fp0 w f i q = (None, w)"

definition fm0 :: "(nat, int refreshReq, unit, unit) fmulticast" where
  "fm0 w f is q = (Inr [], w)"

definition opts0 :: Options where
  "opts0 = withDefaults \<lparr>Shards = 0, BufMails = 0, Cooldown = 0, Sweep = 0, IdleTTL = 0, FetchTimeout = 0\<rparr>"

lemma store0_wf: "store_wf store0"
  by (simp add: store_wf_def store0_def)

theorem publish_then_fetch_witness:
  "handle_fetch ''k'' (fst (handle_publish fp0 fm0 id opts0 100 ''k'' 7 None True store0
     (newActorControl ''store#0'') ())) = Inr (1, Some 7)"
  using publish_then_fetch [OF store0_wf, where fp = fp0 and fm = fm0 and mk = id
    and opts = opts0 and now = 100 and name = "''k''" and v = 7 and info = None and spawning = True
    and a = "newActorControl ''store#0''" and w = "()"]
  by (simp add: store0_def case_prod_beta wrap64_def)

text \<open>A key that is unpublished and published again starts over at version 1. A reader that still holds a version from
  before, which is at least 1, discards the push and goes on reading the old value.\<close>

theorem republish_unseen:
  assumes "store_wf s"
    and "map_of r name = Some e" and "loaded e" and "1 \<le> cversion e"
  shows "handle_fetch name (fst (handle_publish fp fm mk opts now name v info spawning (handle_unpublish name s) a w))
           = Inr (1, Some v)
       \<and> map_of (handle_refresh t \<lparr>rName = name, rVersion = 1, rValue = Some v, rTTL = tt\<rparr> r) name = Some e"
proof -
  note wf = handle_unpublish_wf [OF assms(1), of name]
  have gone: "map_of (entries (handle_unpublish name s)) name = None"
    by (simp add: handle_unpublish_def delete_conv')
  from handle_publish_spec [OF wf, where fp = fp and fm = fm and mk = mk and opts = opts and now = now and name = name and v = v
      and info = info and spawning = spawning and a = a and w = w] gone
  have "handle_fetch name (fst (handle_publish fp fm mk opts now name v info spawning (handle_unpublish name s) a w))
          = Inr (1, Some v)"
    by (auto simp: handle_fetch_def wrap64_def)
  moreover have "map_of (handle_refresh t \<lparr>rName = name, rVersion = 1, rValue = Some v, rTTL = tt\<rparr> r) name = Some e"
    using assms(2-4) by (simp add: handle_refresh_lookup reader_entry_def Let_def)
  ultimately show ?thesis by blast
qed

definition reader0 :: "int Reader" where
  "reader0 = [(''k'', \<lparr>cvalue = Some 5, cversion = 3, loaded = True, cat = 40, cttl = 0\<rparr>)]"

theorem republish_unseen_witness:
  "handle_fetch ''k'' (fst (handle_publish fp0 fm0 id opts0 100 ''k'' 7 None False
       (handle_unpublish ''k'' store0) (newActorControl ''store#0'') ())) = Inr (1, Some 7)
   \<and> map_of (handle_refresh 101 \<lparr>rName = ''k'', rVersion = 1, rValue = Some 7, rTTL = 0\<rparr> reader0) ''k'' = map_of reader0 ''k''"
  using republish_unseen [OF store0_wf, where r = reader0 and name = "''k''"
    and e = "\<lparr>cvalue = Some 5, cversion = 3, loaded = True, cat = 40, cttl = 0\<rparr>"
    and fp = fp0 and fm = fm0 and mk = id and opts = opts0 and now = 100 and v = 7
    and info = None and spawning = False and a = "newActorControl ''store#0''" and w = "()" and t = 101 and tt = 0]
  by (simp add: reader0_def)

text \<open>The expiry of a cached value: a refetch that finds the version unchanged leaves the time of the cache entry as it was,
  so the entry stays expired and every later read goes to the store again.\<close>

lemma expired_refetch_stays_expired:
  assumes "map_of r (kname k) = Some e" "loaded e" "cttl e > 0" "now - cat e > cttl e" "now \<le> now'" "ver \<le> cversion e"
  shows "cacheGet isV now' k (reader_set now (kname k) ver x tt r) = None"
  using assms by (simp add: cacheGet_def reader_set_def reader_entry_def Let_def AList.update_conv')

subsection \<open>What the sweep can remove\<close>

text \<open>
  The messages and timers a shard serves, each with the time it is served at. Between two of them nothing touches the shard.
\<close>

datatype ('v, 'a) store_event =
    EvPublish string 'v "'v defInfo option" bool
  | EvSubscribe string 'a "nat option" bool
  | EvUnpublish string
  | EvRefreshTimer nat
  | EvSweepTimer

fun store_step ::
  "('a, 'q, 'e, 'w) fpost \<Rightarrow> ('a, 'q, 'e, 'w) fmulticast \<Rightarrow> ('v refreshReq \<Rightarrow> 'q) \<Rightarrow> Options \<Rightarrow> int \<times> ('v, 'a) store_event
    \<Rightarrow> ('v, 'a) storeState \<times> ('a, 'q, store_cb) sctl \<times> 'w \<Rightarrow> ('v, 'a) storeState \<times> ('a, 'q, store_cb) sctl \<times> 'w" where
  "store_step fp fm mk opts (now, EvPublish n v i sp) (s, a, w) = handle_publish fp fm mk opts now n v i sp s a w"
| "store_step fp fm mk opts (now, EvSubscribe n rd b sp) (s, a, w) =
     (let (_, s', a') = handle_subscribe n rd b sp s a in (s', a', w))"
| "store_step fp fm mk opts (now, EvUnpublish n) (s, a, w) = (handle_unpublish n s, a, w)"
| "store_step fp fm mk opts (now, EvRefreshTimer p) (s, a, w) = refresh_fired fp fm mk now p s a w"
| "store_step fp fm mk opts (now, EvSweepTimer) (s, a, w) = (let (s', a') = sweep_fired opts now s a in (s', a', w))"

definition store_run ::
  "('a, 'q, 'e, 'w) fpost \<Rightarrow> ('a, 'q, 'e, 'w) fmulticast \<Rightarrow> ('v refreshReq \<Rightarrow> 'q) \<Rightarrow> Options \<Rightarrow> (int \<times> ('v, 'a) store_event) list
    \<Rightarrow> ('v, 'a) storeState \<times> ('a, 'q, store_cb) sctl \<times> 'w \<Rightarrow> ('v, 'a) storeState \<times> ('a, 'q, store_cb) sctl \<times> 'w" where
  "store_run fp fm mk opts evs c = fold (store_step fp fm mk opts) evs c"

text \<open>A key that has, or once had, a subscriber: its entry has a binding, possibly with no reader left.\<close>

definition ever_subscribed :: "string \<Rightarrow> ('v, 'a) storeState \<Rightarrow> bool" where
  "ever_subscribed n s \<longleftrightarrow> (\<exists>p. map_of (entries s) n = Some p \<and> subs (eheap s p) \<noteq> [])"

lemma handle_subscribe_spec:
  assumes wf: "store_wf s"
  shows "store_wf (fst (snd (handle_subscribe n rd b sp s a))) \<and> keeps_subs s (fst (snd (handle_subscribe n rd b sp s a)))"
proof -
  obtain p s1 where se: "store_entry n s = (p, s1)" by (cases "store_entry n s")
  let ?e1 = "case b of None \<Rightarrow> eheap s1 p
     | Some b \<Rightarrow> (eheap s1 p)\<lparr>subs := AList.update b (bind_add (map_of (subs (eheap s1 p)) b) rd) (subs (eheap s1 p))\<rparr>"
  have res: "fst (snd (handle_subscribe n rd b sp s a)) = set_entry p ?e1 s1"
    by (simp add: handle_subscribe_def se Let_def)
  have wf1: "store_wf s1" using store_entry_spec [OF wf, of n] by (simp add: se)
  have "subs (eheap s1 p) \<noteq> [] \<longrightarrow> subs ?e1 \<noteq> []"
    by (cases b; cases "subs (eheap s1 p)") auto
  from keeps_subs_trans [OF keeps_subs_store_entry [OF wf, of n] keeps_subs_set_entry [of "snd (store_entry n s)" p ?e1]] this
  have "keeps_subs s (set_entry p ?e1 s1)" by (simp add: se)
  moreover have "store_wf (set_entry p ?e1 s1)"
    by (rule set_entry_wf [OF wf1]) (simp split: option.splits)
  ultimately show ?thesis by (simp add: res)
qed

lemma refresh_fired_spec:
  assumes "store_wf s"
  shows "store_wf (fst (refresh_fired fp fm mk now p s a w)) \<and> keeps_subs s (fst (refresh_fired fp fm mk now p s a w))"
proof -
  let ?e = "fst (sendRefresh fp fm mk now ((eheap s p)\<lparr>pending := False\<rparr>) a w)"
  have sv: "same_value ((eheap s p)\<lparr>pending := False\<rparr>) ?e" by (rule sendRefresh_same)
  have "fst (refresh_fired fp fm mk now p s a w) = set_entry p ?e s"
    by (simp add: refresh_fired_def case_prod_beta)
  moreover have "store_wf (set_entry p ?e s)"
    by (rule set_entry_wf [OF assms]) (use sv in \<open>simp add: same_value_def\<close>)
  moreover have "keeps_subs s (set_entry p ?e s)"
    by (rule keeps_subs_set_entry) (use same_value_subs [OF sv] in simp)
  ultimately show ?thesis by simp
qed

lemma map_of_filter_Some:
  "distinct (map fst xs) \<Longrightarrow> map_of xs n = Some p \<Longrightarrow> P (n, p) \<Longrightarrow> map_of (filter P xs) n = Some p"
  by (simp add: distinct_map_filter)

lemma map_of_filter_SomeD:
  "distinct (map fst xs) \<Longrightarrow> map_of (filter P xs) n = Some p \<Longrightarrow> map_of xs n = Some p"
  by (simp add: distinct_map_filter)

lemma sweep_fired_spec:
  assumes wf: "store_wf s"
  shows "store_wf (fst (sweep_fired opts now s a)) \<and> keeps_subs s (fst (sweep_fired opts now s a))"
proof -
  let ?P = "\<lambda>(name, p). \<not> idle_entry opts now (eheap s p)"
  have d: "distinct (map fst (entries s))" using wf by (simp add: store_wf_def)
  have "store_wf (s\<lparr>entries := filter ?P (entries s)\<rparr>)"
    using wf by (auto simp: store_wf_def distinct_map_filter)
  moreover have "keeps_subs s (s\<lparr>entries := filter ?P (entries s)\<rparr>)"
    by (auto simp: keeps_subs_def idle_entry_def d intro: map_of_filter_Some [OF d])
  moreover have "keeps_subs s s" by (simp add: keeps_subs_def)
  ultimately show ?thesis using wf by (simp add: sweep_fired_def Let_def)
qed

lemma keeps_subs_ever: "keeps_subs s s' \<Longrightarrow> ever_subscribed n s \<Longrightarrow> ever_subscribed n s'"
  unfolding keeps_subs_def ever_subscribed_def by blast

lemma store_step_spec:
  assumes wf: "store_wf s" and ev: "e \<noteq> EvUnpublish n" and sub: "ever_subscribed n s"
  shows "store_wf (fst (store_step fp fm mk opts (now, e) (s, a, w)))
       \<and> ever_subscribed n (fst (store_step fp fm mk opts (now, e) (s, a, w)))"
proof (cases e)
  case (EvPublish m v i sp)
  from handle_publish_spec [OF wf, where fp = fp and fm = fm and mk = mk and opts = opts and now = now and name = m and v = v
      and info = i and spawning = sp and a = a and w = w]
  show ?thesis using keeps_subs_ever [OF _ sub] by (auto simp: EvPublish)
next
  case (EvSubscribe m rd b sp)
  from handle_subscribe_spec [OF wf, of m rd b sp a] keeps_subs_ever [OF _ sub] show ?thesis
    by (simp add: EvSubscribe case_prod_beta)
next
  case (EvUnpublish m)
  with ev sub handle_unpublish_wf [OF wf, of m] show ?thesis
    by (simp add: ever_subscribed_def handle_unpublish_def delete_conv')
next
  case (EvRefreshTimer p)
  from refresh_fired_spec [OF wf, of fp fm mk now p a w] keeps_subs_ever [OF _ sub] show ?thesis
    by (simp add: EvRefreshTimer)
next
  case EvSweepTimer
  from sweep_fired_spec [OF wf, of opts now a] keeps_subs_ever [OF _ sub] show ?thesis
    by (simp add: EvSweepTimer case_prod_beta)
qed

text \<open>Once a key has had a subscriber, no sequence of publications, subscriptions, refreshes and sweeps, at whatever
  times, removes it, even when every reader has gone: the pushes take the readers out of a binding and leave the
  empty binding in the entry, and the sweep looks at the number of bindings.\<close>

theorem subscribed_key_never_swept:
  assumes "store_wf s" and "ever_subscribed n s" and "\<forall>ev\<in>set evs. snd ev \<noteq> EvUnpublish n"
  shows "case store_run fp fm mk opts evs (s, a, w) of (s', a', w') \<Rightarrow> store_wf s' \<and> ever_subscribed n s'"
  using assms
proof (induction evs arbitrary: s a w)
  case Nil
  then show ?case by (simp add: store_run_def)
next
  case (Cons ev evs)
  obtain now e where ev: "ev = (now, e)" by (cases ev)
  obtain s1 a1 w1 where st: "store_step fp fm mk opts (now, e) (s, a, w) = (s1, a1, w1)"
    by (metis prod_cases3)
  have "store_wf s1 \<and> ever_subscribed n s1"
    using store_step_spec [OF Cons.prems(1) _ Cons.prems(2), of e fp fm mk opts now a w] Cons.prems(3) ev st by simp
  with Cons.IH [of s1 a1 w1] Cons.prems(3) show ?case
    by (simp add: store_run_def ev st)
qed

definition store1 :: "(int, nat) storeState" where
  "store1 = store0\<lparr>entries := [(''k'', 0)], eheap := (\<lambda>_. (new_entry ''k'')\<lparr>subs := [(0, [])]\<rparr>), nextEntry := 1\<rparr>"

theorem subscribed_key_never_swept_witness:
  "ever_subscribed ''k'' (fst (store_run fp0 fm0 id (opts0\<lparr>Sweep := 10, IdleTTL := 5\<rparr>) [(1000, EvSweepTimer), (2000, EvSweepTimer)]
     (store1, newActorControl ''store#0'', ())))"
proof -
  have "store_wf store1" "ever_subscribed ''k'' store1"
    by (auto simp: store_wf_def ever_subscribed_def store1_def new_entry_def split: if_splits)
  from subscribed_key_never_swept [OF this, where evs = "[(1000, EvSweepTimer), (2000, EvSweepTimer)]" and fp = fp0 and fm = fm0
      and mk = id and opts = "opts0\<lparr>Sweep := 10, IdleTTL := 5\<rparr>" and a = "newActorControl ''store#0''" and w = "()"]
  show ?thesis by (simp add: case_prod_beta)
qed

end
