(* ===== verification/Game.thy ===== *)
theory Game
  imports Grain_Lifecycle Shared "HOL-Library.Char_ord" "HOL-Library.List_Lexorder"
begin

section \<open>The example game: rules and player data\<close>

text \<open>
  \<open>cmd/engineering_example\<close> is the application the repository ships with the library: connections, players that are
  grains, rooms and a world whose configuration is a shared value. This theory holds \<open>game/combat.go\<close>, \<open>ids/ids.go\<close>,
  \<open>protocol/protocol.go\<close>, the contracts \<open>actors/*/api\<close>, and the player's data with its changes
  (\<open>actors/player/player_state.go\<close>); \<open>Game_Actors\<close> has the handlers.

  Levels, hit points and gold are unbounded integers: they grow by small steps. The configured rate of experience
  is any positive number, so its product is kept at 64 bits. Text that is not ASCII is written by its bytes.
\<close>

subsection \<open>\<open>game/combat.go\<close>\<close>

definition BaseHP :: int where "BaseHP = 100"
definition HPPerLevel :: int where "HPPerLevel = 20"
definition BaseAtk :: int where "BaseAtk = 40"
definition AtkPerLevel :: int where "AtkPerLevel = 5"
definition BaseDef :: int where "BaseDef = 0"
definition DefPerLevel :: int where "DefPerLevel = 1"

definition Damage_of :: "int \<Rightarrow> int \<Rightarrow> int" where
  "Damage_of atk def = (let d = atk - def in if d > 1 then d else 1)"

definition MaxHPOf :: "int \<Rightarrow> int" where
  "MaxHPOf level = BaseHP + HPPerLevel * (level - 1)"

definition AtkOf :: "int \<Rightarrow> int" where
  "AtkOf level = BaseAtk + AtkPerLevel * (level - 1)"

definition DefOf :: "int \<Rightarrow> int" where
  "DefOf level = BaseDef + DefPerLevel * (level - 1)"

definition ExpToLevel :: "int \<Rightarrow> int" where
  "ExpToLevel level = 30 * level"

definition HitReward :: "int \<times> int" where
  "HitReward = (5, 10)"

definition KillReward :: "int \<Rightarrow> int \<times> int" where
  "KillReward level = (20 * level, 40 * level)"

definition Reward :: "bool \<Rightarrow> int \<Rightarrow> int \<times> int" where
  "Reward slain targetLevel = (if slain then KillReward targetLevel else HitReward)"

lemmas [simp] = BaseHP_def HPPerLevel_def BaseAtk_def AtkPerLevel_def BaseDef_def DefPerLevel_def

lemmas game_defs = Damage_of_def MaxHPOf_def AtkOf_def DefOf_def ExpToLevel_def

subsection \<open>\<open>ids/ids.go\<close>\<close>

datatype ClientId = ClientId (Conn: string)
datatype PlayerId = PlayerId (OpenID: string)
datatype RoomId = RoomId (RoomSeq: int)
datatype WorldId = WorldId (WID: string)

text \<open>The identities of all groups as one type, with their \<open>ActorType\<close> and \<open>String\<close> methods.\<close>

datatype gid = GClient ClientId | GPlayer PlayerId | GRoom RoomId | GWorld WorldId

fun gid_type :: "gid \<Rightarrow> string" where
  "gid_type (GClient _) = ''Client''"
| "gid_type (GPlayer _) = ''Player''"
| "gid_type (GRoom _) = ''Room''"
| "gid_type (GWorld _) = ''World''"

fun gid_String :: "gid \<Rightarrow> string" where
  "gid_String (GClient i) = Conn i"
| "gid_String (GPlayer i) = OpenID i"
| "gid_String (GRoom i) = Itoa (RoomSeq i)"
| "gid_String (GWorld i) = WID i"

definition game_ids :: "gid id_ops" where
  "game_ids = \<lparr>ActorType = gid_type, IdString = gid_String\<rparr>"

definition TheWorld :: WorldId where
  "TheWorld = WorldId ''w0''"

subsection \<open>\<open>protocol/protocol.go\<close> and the contracts\<close>

datatype Msg =
    LoginOK (mPlayer: string) (mLevel: int) (mHP: int) (mMaxHP: int) (mAtk: int) (mGold: int) (mExp: int) (mRoom: int)
      (mExpRate: int)
  | StateUpdate (uLevel: int) (uHP: int) (uMaxHP: int) (uGold: int) (uExp: int) (uReason: string)
  | RoomEventMsg (eRoom: int) (eKind: string) (eText: string)

record Brief =
  bOpenID :: string
  bLevel :: int
  bHP :: int

record PlayerView =
  vPlayer :: string
  vLevel :: int
  vHP :: int
  vMaxHP :: int
  vAtk :: int
  vGold :: int
  vExp :: int
  vRoom :: int
  vExpRate :: int

text \<open>The requests of the four contracts, one constructor per request type.\<close>

datatype client_req = CLogin string | CJoin RoomId | CSay string | CAttack PlayerId | CStatus | CPush Msg | CDrain

datatype player_req =
    PLogin ClientId
  | PJoinRoom RoomId
  | PSay string
  | PAttack PlayerId
  | PStatus
  | PDamage PlayerId RoomId int
  | PCombatResult PlayerId int int bool
  | PRoomEvent RoomId string string

datatype room_req =
    RJoin PlayerId Brief
  | RLeave PlayerId
  | RChat PlayerId string
  | RBriefChanged PlayerId Brief
  | RReport PlayerId string
  | RStatus

datatype world_req = WInit | WSetConfig int

datatype greq = ToClient client_req | ToPlayer player_req | ToRoom room_req | ToWorld world_req

fun client_ReqType :: "client_req \<Rightarrow> string" where
  "client_ReqType (CLogin _) = ''Login''"
| "client_ReqType (CJoin _) = ''Join''"
| "client_ReqType (CSay _) = ''Say''"
| "client_ReqType (CAttack _) = ''Attack''"
| "client_ReqType CStatus = ''Status''"
| "client_ReqType (CPush _) = ''Push''"
| "client_ReqType CDrain = ''Drain''"

fun player_ReqType :: "player_req \<Rightarrow> string" where
  "player_ReqType (PLogin _) = ''Login''"
| "player_ReqType (PJoinRoom _) = ''JoinRoom''"
| "player_ReqType (PSay _) = ''Say''"
| "player_ReqType (PAttack _) = ''Attack''"
| "player_ReqType PStatus = ''Status''"
| "player_ReqType (PDamage _ _ _) = ''Damage''"
| "player_ReqType (PCombatResult _ _ _ _) = ''CombatResult''"
| "player_ReqType (PRoomEvent _ _ _) = ''RoomEvent''"

fun room_ReqType :: "room_req \<Rightarrow> string" where
  "room_ReqType (RJoin _ _) = ''Join''"
| "room_ReqType (RLeave _) = ''Leave''"
| "room_ReqType (RChat _ _) = ''Chat''"
| "room_ReqType (RBriefChanged _ _) = ''BriefChanged''"
| "room_ReqType (RReport _ _) = ''Report''"
| "room_ReqType RStatus = ''Status''"

fun world_ReqType :: "world_req \<Rightarrow> string" where
  "world_ReqType WInit = ''Init''"
| "world_ReqType (WSetConfig _) = ''SetConfig''"

fun greq_type :: "greq \<Rightarrow> string" where
  "greq_type (ToClient q) = client_ReqType q"
| "greq_type (ToPlayer q) = player_ReqType q"
| "greq_type (ToRoom q) = room_ReqType q"
| "greq_type (ToWorld q) = world_ReqType q"

record StatusReply =
  srRoom :: int
  srMembers :: "Brief list"

datatype grep = OkReply | ViewReply PlayerView | RoomReply StatusReply | DrainReply "Msg list"

record Config =
  ExpRate :: int

definition DefaultConfig :: Config where
  "DefaultConfig = \<lparr>ExpRate = 100\<rparr>"

text \<open>\<open>configKeyDef\<close>: the pattern with a time to live of one minute; \<open>ConfigKey\<close> is its instance without arguments.\<close>

definition configKeyDef :: "Config defInfo" where
  "configKeyDef =
     (case Define ''example/world/config'' [WithTTL (60 * 1000000000)] {} of Some (d, _) \<Rightarrow> d | None \<Rightarrow> undefined)"

definition ConfigKey :: "Config Key" where
  "ConfigKey = Def_Of (\<lambda>p _ :: unit list. p) configKeyDef []"

lemma ConfigKey_sel: "kname ConfigKey = ''example/world/config''" "kinfo ConfigKey = Some configKeyDef"
  by (simp_all add: ConfigKey_def Def_Of_def configKeyDef_def Define_def Let_def WithTTL_def)

subsection \<open>The player's data\<close>

record PlayerState =
  Level :: int
  HP :: int
  Gold :: int
  Exp :: int
  Client :: ClientId
  PRoom :: RoomId
  Vars :: "Config Reader"

definition zeroPlayer :: PlayerState where
  "zeroPlayer = \<lparr>Level = 0, HP = 0, Gold = 0, Exp = 0, Client = ClientId [], PRoom = RoomId 0, Vars = []\<rparr>"

definition newPlayer :: PlayerState where
  "newPlayer = zeroPlayer\<lparr>Level := 1, HP := MaxHPOf 1\<rparr>"

definition maxHP :: "PlayerState \<Rightarrow> int" where "maxHP s = MaxHPOf (Level s)"
definition atk :: "PlayerState \<Rightarrow> int" where "atk s = AtkOf (Level s)"
definition pdef :: "PlayerState \<Rightarrow> int" where "pdef s = DefOf (Level s)"

text \<open>The result of \<open>applyDamage\<close> is \<open>(taken, slain, ok)\<close>.\<close>

definition applyDamage :: "int \<Rightarrow> PlayerState \<Rightarrow> (int \<times> bool \<times> bool) \<times> PlayerState" where
  "applyDamage amount s =
     (if HP s \<le> 0 then ((0, False, False), s)
      else let tk = Damage_of amount (pdef s); s1 = s\<lparr>HP := HP s - tk\<rparr>
           in if HP s1 \<le> 0 then ((tk, True, True), s1\<lparr>HP := 0\<rparr>) else ((tk, False, True), s1))"

text \<open>
  The loop of \<open>applyReward\<close>. It ends from every state: a level below one is raised to one first, and from there each
  round uses experience up.
\<close>

function level_up :: "PlayerState \<Rightarrow> bool \<Rightarrow> PlayerState \<times> bool" where
  "level_up s leveled =
     (if Exp s \<ge> ExpToLevel (Level s)
      then (let s1 = s\<lparr>Exp := Exp s - ExpToLevel (Level s), Level := Level s + 1\<rparr>
            in level_up (s1\<lparr>HP := maxHP s1\<rparr>) True)
      else (s, leveled))"
  by pat_completeness auto

termination
  by (relation "measures [\<lambda>(s, _). nat (1 - Level s), \<lambda>(s, _). nat (Exp s)]") (auto simp: ExpToLevel_def)

declare level_up.simps [simp del]

definition applyReward :: "int \<Rightarrow> int \<Rightarrow> PlayerState \<Rightarrow> bool \<times> PlayerState" where
  "applyReward gold xp s =
     (let (s', leveled) = level_up (s\<lparr>Gold := Gold s + gold, Exp := Exp s + xp\<rparr>) False in (leveled, s'))"

definition brief :: "PlayerId \<Rightarrow> PlayerState \<Rightarrow> Brief" where
  "brief i s = \<lparr>bOpenID = OpenID i, bLevel = Level s, bHP = HP s\<rparr>"

definition view :: "PlayerId \<Rightarrow> int \<Rightarrow> PlayerState \<Rightarrow> PlayerView" where
  "view i rate s =
     \<lparr>vPlayer = OpenID i, vLevel = Level s, vHP = HP s, vMaxHP = maxHP s, vAtk = atk s, vGold = Gold s, vExp = Exp s,
      vRoom = RoomSeq (PRoom s), vExpRate = rate\<rparr>"

text \<open>The data a player has between two messages.\<close>

definition player_ok :: "PlayerState \<Rightarrow> bool" where
  "player_ok s \<longleftrightarrow>
     1 \<le> Level s \<and> 0 \<le> HP s \<and> HP s \<le> maxHP s \<and> 0 \<le> Gold s \<and> 0 \<le> Exp s \<and> Exp s < ExpToLevel (Level s)"

lemma player_ok_new: "player_ok newPlayer"
  by (simp add: player_ok_def newPlayer_def zeroPlayer_def maxHP_def game_defs)

subsection \<open>Damage\<close>

lemma Damage_of_pos: "1 \<le> Damage_of a d"
  by (simp add: Damage_of_def Let_def)

lemma Damage_of_nonneg [simp]: "0 \<le> Damage_of a d"
  using Damage_of_pos [of a d] by simp

lemma applyDamage_alive:
  assumes "0 < HP s"
  shows "applyDamage a s =
    ((Damage_of a (pdef s), HP s \<le> Damage_of a (pdef s), True), s\<lparr>HP := max 0 (HP s - Damage_of a (pdef s))\<rparr>)"
  using assms by (auto simp: applyDamage_def Let_def max_def)

lemma applyDamage_dead: "HP s \<le> 0 \<Longrightarrow> applyDamage a s = ((0, False, False), s)"
  by (simp add: applyDamage_def)

lemma applyDamage_ok: "player_ok s \<Longrightarrow> player_ok (snd (applyDamage a s))"
  using Damage_of_pos [of a "pdef s"]
  by (cases "0 < HP s") (auto simp: applyDamage_alive applyDamage_dead player_ok_def maxHP_def)

lemma applyDamage_frame:
  "Level (snd (applyDamage a s)) = Level s" "pdef (snd (applyDamage a s)) = pdef s"
  "Client (snd (applyDamage a s)) = Client s" "PRoom (snd (applyDamage a s)) = PRoom s" "Vars (snd (applyDamage a s)) = Vars s"
  by (cases "0 < HP s"; simp add: applyDamage_alive applyDamage_dead pdef_def)+

text \<open>The attacks that reach a player between two of its rewards, in the order of its mailbox.\<close>

fun attacks :: "int list \<Rightarrow> PlayerState \<Rightarrow> (int \<times> bool \<times> bool) list \<times> PlayerState" where
  "attacks [] s = ([], s)"
| "attacks (a # as) s = (let (r, s1) = applyDamage a s; (rs, s2) = attacks as s1 in (r # rs, s2))"

lemma attacks_dead: "HP s \<le> 0 \<Longrightarrow> attacks as s = (map (\<lambda>_. (0, False, False)) as, s)"
  by (induction as) (simp_all add: applyDamage_dead)

lemma attacks_HP:
  assumes "0 \<le> HP s"
  shows "HP (snd (attacks as s)) = max 0 (HP s - (\<Sum>a\<leftarrow>as. Damage_of a (pdef s)))"
  using assms
proof (induction as arbitrary: s)
  case (Cons a as)
  show ?case
  proof (cases "0 < HP s")
    case True
    have "0 \<le> (\<Sum>a\<leftarrow>as. Damage_of a (pdef s))"
      by (rule sum_list_nonneg) auto
    then show ?thesis
      using Cons.IH [of "snd (applyDamage a s)"] True applyDamage_frame(2) [of a s]
      by (auto simp: applyDamage_alive Let_def split_def max_def)
  next
    case False
    have "0 \<le> (\<Sum>a\<leftarrow>a # as. Damage_of a (pdef s))"
      by (rule sum_list_nonneg) auto
    then show ?thesis using False Cons.prems by (simp add: attacks_dead del: attacks.simps)
  qed
qed simp

text \<open>A list of attacks has one answer each; the first that uses up the hit points is the only one with \<open>slain\<close>.\<close>

lemma attacks_answers:
  assumes "0 \<le> HP s" "attacks as s = (rs, s')"
  shows "length rs = length as \<and> length (filter (\<lambda>(_, slain, _). slain) rs) = (if 0 < HP s \<and> HP s' = 0 then 1 else 0) \<and>
    (\<Sum>(tk, _, _)\<leftarrow>filter (\<lambda>(_, _, ok). ok) rs. tk) \<ge> HP s - HP s'"
  using assms
proof (induction as arbitrary: s rs)
  case (Cons a as)
  obtain rs1 where rs1: "attacks as (snd (applyDamage a s)) = (rs1, s')" "rs = fst (applyDamage a s) # rs1"
    using Cons.prems(2) by (auto simp: split_def Let_def prod_eq_iff)
  show ?case
  proof (cases "0 < HP s")
    case True
    then show ?thesis
      using Cons.IH [OF _ rs1(1)] rs1 attacks_dead [of "snd (applyDamage a s)" as] by (auto simp: applyDamage_alive)
  next
    case False
    then show ?thesis using Cons.IH [OF _ rs1(1)] rs1(2) Cons.prems(1) by (simp add: applyDamage_dead)
  qed
qed simp

subsection \<open>Experience\<close>

text \<open>All the experience a player ever received: what its level took and what is left.\<close>

definition total_exp :: "PlayerState \<Rightarrow> int" where
  "total_exp s = 15 * Level s * (Level s - 1) + Exp s"

text \<open>Two players of the same total experience, below the next level, have the same level.\<close>

lemma level_unique:
  assumes "15 * l * (l - 1) + e = 15 * m * (m - 1) + (f :: int)" "1 \<le> l" "1 \<le> m" "0 \<le> e" "e < 30 * l" "0 \<le> f" "f < 30 * m"
  shows "l = m \<and> e = f"
proof -
  have mono: "15 * a * (a - 1) + x < 15 * b * (b - 1) + y"
    if "a < b" "1 \<le> a" "x < 30 * a" "0 \<le> y" for a b x y :: int
  proof -
    have "(a + 1) * a \<le> b * (b - 1)" using that(1,2) by (intro mult_mono) auto
    then show ?thesis using that(3,4) by (simp add: algebra_simps)
  qed
  show ?thesis using mono [of l m e f] mono [of m l f e] assms by (cases l m rule: linorder_cases) auto
qed

lemma level_up_spec:
  assumes "1 \<le> Level s" "0 \<le> Exp s" "level_up s b = (s', b')"
  shows "Level s \<le> Level s' \<and> total_exp s' = total_exp s \<and> 0 \<le> Exp s' \<and> Exp s' < ExpToLevel (Level s') \<and>
    Gold s' = Gold s \<and> Client s' = Client s \<and> PRoom s' = PRoom s \<and> Vars s' = Vars s \<and>
    HP s' = (if Level s < Level s' then maxHP s' else HP s) \<and> b' = (b \<or> Level s < Level s')"
  using assms
proof (induction s b rule: level_up.induct)
  case (1 s b)
  let ?s1 = "s\<lparr>Exp := Exp s - ExpToLevel (Level s), Level := Level s + 1\<rparr>"
  show ?case
  proof (cases "ExpToLevel (Level s) \<le> Exp s")
    case True
    have "level_up (?s1\<lparr>HP := maxHP ?s1\<rparr>) True = (s', b')"
      using 1(4) True by (subst (asm) level_up.simps) (simp add: Let_def)
    then have "Level s + 1 \<le> Level s' \<and> total_exp s' = total_exp (?s1\<lparr>HP := maxHP ?s1\<rparr>) \<and> 0 \<le> Exp s' \<and>
        Exp s' < ExpToLevel (Level s') \<and> Gold s' = Gold s \<and> Client s' = Client s \<and> PRoom s' = PRoom s \<and> Vars s' = Vars s \<and>
        HP s' = (if Level s + 1 < Level s' then maxHP s' else maxHP ?s1) \<and> b'"
      using 1(1) [OF True refl] 1(2,3) True by simp
    moreover have "total_exp (?s1\<lparr>HP := maxHP ?s1\<rparr>) = total_exp s"
      by (simp add: total_exp_def ExpToLevel_def algebra_simps)
    ultimately show ?thesis by (auto simp: maxHP_def)
  next
    case False
    then have "s' = s" "b' = b" using 1(4) by (simp_all add: level_up.simps [of s b])
    then show ?thesis using False 1(3) by simp
  qed
qed

lemma applyReward_spec:
  assumes "player_ok s" "0 \<le> gold" "0 \<le> xp" "applyReward gold xp s = (leveled, s')"
  shows "player_ok s' \<and> Gold s' = Gold s + gold \<and> total_exp s' = total_exp s + xp \<and> Level s \<le> Level s' \<and>
    HP s' = (if leveled then maxHP s' else HP s) \<and> (leveled \<longleftrightarrow> Level s < Level s') \<and>
    Client s' = Client s \<and> PRoom s' = PRoom s \<and> Vars s' = Vars s"
proof -
  let ?s1 = "s\<lparr>Gold := Gold s + gold, Exp := Exp s + xp\<rparr>"
  have up: "level_up ?s1 False = (s', leveled)" using assms(4) by (simp add: applyReward_def split_def Let_def prod_eq_iff)
  have "maxHP s \<le> maxHP s'" if "Level s \<le> Level s'" using that by (simp add: maxHP_def MaxHPOf_def)
  moreover have "0 \<le> maxHP s'" if "1 \<le> Level s'" using that by (simp add: maxHP_def MaxHPOf_def)
  ultimately show ?thesis
    using level_up_spec [OF _ _ up] assms(1-3) by (auto simp: player_ok_def total_exp_def)
qed

text \<open>Two players that agree in everything but how they came to it.\<close>

lemma player_eqI:
  assumes "player_ok s" "player_ok t" "total_exp s = total_exp t" "HP s = HP t" "Gold s = Gold t" "Client s = Client t"
    "PRoom s = PRoom t" "Vars s = Vars t"
  shows "s = (t :: PlayerState)"
proof -
  have "Level s = Level t \<and> Exp s = Exp t"
    using level_unique [of "Level s" "Exp s" "Level t" "Exp t"] assms(1-3) by (auto simp: player_ok_def total_exp_def ExpToLevel_def)
  then show ?thesis using assms by (cases s; cases t) simp
qed

end
