(* ===== verification/Game_Actors.thy ===== *)
theory Game_Actors
  imports Game
begin

section \<open>The example game: its actors\<close>

text \<open>
  The handlers of \<open>cmd/engineering_example/actors\<close>: connections (\<open>client\<close>), players (\<open>player\<close>), rooms (\<open>room\<close>) and the
  world, with their registration. A handler works on its context and on the rest of the system, a world \<open>'w\<close>. The
  operations of the manager and of the shared store that handlers call are a record \<open>gnet\<close>; sending goes through the
  control block (\<open>APost\<close>, \<open>ACall\<close>, \<open>AMulticast\<close>) as in the code. Error values are constructors in place of their texts.
  Log lines are left out.
\<close>

subsection \<open>Messages and the network\<close>

datatype gerr =
    ErrJoinRoom int "(gid, gerr) goerr"
  | ErrNoRoom
  | ErrSay "(gid, gerr) goerr"
  | ErrAttackSelf
  | ErrDown
  | ErrAttack string "(gid, gerr) goerr"
  | ErrNotMember string int
  | ErrLogin string "(gid, gerr) goerr"
  | ErrNotLoggedIn

type_synonym gerror = "(gid, gerr) goerr"
type_synonym gmsg = "(greq, gerror) request"

definition ask :: "greq \<Rightarrow> gmsg" where
  "ask q = UserReq (greq_type q) q"

record 'w gnet =
  gpost :: "(gid, gmsg, gerr, 'w) fpost"
  gcall :: "(gid, gmsg, gerr, grep, 'w) fcall"
  gmulti :: "(gid, gmsg, gerr, 'w) fmulticast"
  gsleep :: "nat \<Rightarrow> 'w \<Rightarrow> 'w"
  gbind :: "string \<Rightarrow> nat option"
  gsub :: "PlayerId \<Rightarrow> string \<Rightarrow> nat \<Rightarrow> 'w \<Rightarrow> (gerror + int \<times> Config option) \<times> int \<times> 'w"
  gnow :: "'w \<Rightarrow> int"
  gshards :: int
  gpublish :: "int \<Rightarrow> string \<times> Config \<times> Config defInfo option \<Rightarrow> 'w \<Rightarrow> gerror option \<times> 'w"

type_synonym ('s, 'w, 'k) ctx = "(gid, gmsg, 's, 'w, 'k) ActorContext"
type_synonym ('s, 'w, 'k) reply = "(('s, 'w, 'k) ctx, 'w, grep, gerror) outcome"

text \<open>\<open>actor.APost(ctx.Control(), ...)\<close> and \<open>actor.ACall(ctx.Control(), ...)\<close>\<close>

definition ctx_APost :: "'w gnet \<Rightarrow> gid \<Rightarrow> greq \<Rightarrow> ('s, 'w, 'k) ctx \<Rightarrow> 'w \<Rightarrow> gerror option \<times> ('s, 'w, 'k) ctx \<times> 'w" where
  "ctx_APost net i q c w = (let (err, a, w') = APost (gpost net) i (ask q) (ctrl c) w in (err, c\<lparr>ctrl := a\<rparr>, w'))"

definition ctx_ACall ::
  "'w gnet \<Rightarrow> gid \<Rightarrow> greq \<Rightarrow> ('s, 'w, 'k) ctx \<Rightarrow> 'w \<Rightarrow> (grep option \<times> gerror option) \<times> ('s, 'w, 'k) ctx \<times> 'w" where
  "ctx_ACall net i q c w =
     (let (res, a, w') = ACall (gpost net) (gcall net) (gsleep net) i (ask q) (ctrl c) w in (res, c\<lparr>ctrl := a\<rparr>, w'))"

definition ctx_Open :: "('s, 'w, 'k) ctx \<Rightarrow> ('s, 'w, 'k) ctx" where
  "ctx_Open c = c\<lparr>ctrl := Open (ctrl c)\<rparr>"

abbreviation ok :: "('s, 'w, 'k) ctx \<Rightarrow> 'w \<Rightarrow> ('s, 'w, 'k) reply" where
  "ok c w \<equiv> HReturn c w (Some OkReply) None"

abbreviation failed :: "gerr \<Rightarrow> ('s, 'w, 'k) ctx \<Rightarrow> 'w \<Rightarrow> ('s, 'w, 'k) reply" where
  "failed e c w \<equiv> HReturn c w None (Some (UserErr e))"

subsection \<open>Players\<close>

type_synonym 'w pctx = "((PlayerState, PlayerState, 'w) GState, 'w, grain_cb) ctx"
type_synonym 'w preply = "((PlayerState, PlayerState, 'w) GState, 'w, grain_cb) reply"

abbreviation pdata :: "'w pctx \<Rightarrow> PlayerState" where
  "pdata c \<equiv> gData (state c)"

definition set_pdata :: "PlayerState \<Rightarrow> 'w pctx \<Rightarrow> 'w pctx" where
  "set_pdata s c = c\<lparr>state := (state c)\<lparr>gData := s\<rparr>\<rparr>"

text \<open>
  \<open>expRate\<close>. \<open>ConfigKey\<close> has a definition, so \<^const>\<open>WatchFrom\<close> does not panic (\<open>expRate_reads\<close> below); the last case is never taken.
\<close>

definition expRate :: "'w gnet \<Rightarrow> PlayerId \<Rightarrow> 'w pctx \<Rightarrow> 'w \<Rightarrow> int \<times> 'w pctx \<times> 'w" where
  "expRate net i c w =
     (case WatchFrom (gbind net) (\<lambda>_. True) (gsub net i) ''Player'' (gnow net w) ConfigKey (Vars (pdata c)) w of
        Ret (Inr cfg, r, w') \<Rightarrow> (ExpRate cfg, set_pdata ((pdata c)\<lparr>Vars := r\<rparr>) c, w')
      | Ret (Inl _, r, w') \<Rightarrow> (ExpRate DefaultConfig, set_pdata ((pdata c)\<lparr>Vars := r\<rparr>) c, w')
      | _ \<Rightarrow> (0, c, w))"

definition push :: "'w gnet \<Rightarrow> Msg \<Rightarrow> 'w pctx \<Rightarrow> 'w \<Rightarrow> 'w pctx \<times> 'w" where
  "push net m c w =
     (if Conn (Client (pdata c)) = [] then (c, w)
      else snd (ctx_APost net (GClient (Client (pdata c))) (ToClient (CPush m)) c w))"

definition pushLoginOK :: "'w gnet \<Rightarrow> PlayerId \<Rightarrow> 'w pctx \<Rightarrow> 'w \<Rightarrow> 'w pctx \<times> 'w" where
  "pushLoginOK net i c w =
     (let s = pdata c; (rate, c1, w1) = expRate net i c w
      in push net (LoginOK (OpenID i) (Level s) (HP s) (maxHP s) (atk s) (Gold s) (Exp s) (RoomSeq (PRoom s)) rate) c1 w1)"

definition pushState :: "'w gnet \<Rightarrow> string \<Rightarrow> 'w pctx \<Rightarrow> 'w \<Rightarrow> 'w pctx \<times> 'w" where
  "pushState net reason c w =
     (let s = pdata c in push net (StateUpdate (Level s) (HP s) (maxHP s) (Gold s) (Exp s) reason) c w)"

definition reportBrief :: "'w gnet \<Rightarrow> PlayerId \<Rightarrow> 'w pctx \<Rightarrow> 'w \<Rightarrow> 'w pctx \<times> 'w" where
  "reportBrief net i c w =
     (if RoomSeq (PRoom (pdata c)) = 0 then (c, w)
      else snd (ctx_APost net (GRoom (PRoom (pdata c))) (ToRoom (RBriefChanged i (brief i (pdata c)))) c w))"

definition report :: "'w gnet \<Rightarrow> PlayerId \<Rightarrow> string \<Rightarrow> 'w pctx \<Rightarrow> 'w \<Rightarrow> 'w pctx \<times> 'w" where
  "report net i text c w =
     (if RoomSeq (PRoom (pdata c)) = 0 then (c, w)
      else snd (ctx_APost net (GRoom (PRoom (pdata c))) (ToRoom (RReport i text)) c w))"

definition roomEventMsg :: "RoomId \<Rightarrow> string \<Rightarrow> string \<Rightarrow> Msg" where
  "roomEventMsg rid kind text = RoomEventMsg (RoomSeq rid) kind text"

definition player_Login :: "'w gnet \<Rightarrow> PlayerId \<Rightarrow> ClientId \<Rightarrow> 'w pctx \<Rightarrow> 'w \<Rightarrow> 'w preply" where
  "player_Login net i cl c w =
     (let (c1, w1) = pushLoginOK net i (set_pdata ((pdata c)\<lparr>Client := cl\<rparr>) c) w in ok c1 w1)"

definition player_JoinRoom :: "'w gnet \<Rightarrow> PlayerId \<Rightarrow> RoomId \<Rightarrow> 'w pctx \<Rightarrow> 'w \<Rightarrow> 'w preply" where
  "player_JoinRoom net i rid c w =
     (if PRoom (pdata c) = rid then ok c w
      else
        let prev = PRoom (pdata c);
            ((_, err), c1, w1) = ctx_ACall net (GRoom rid) (ToRoom (RJoin i (brief i (pdata c)))) c w
        in case err of
             Some e \<Rightarrow> failed (ErrJoinRoom (RoomSeq rid) e) c1 w1
           | None \<Rightarrow>
               (let c2 = set_pdata ((pdata c1)\<lparr>PRoom := rid\<rparr>) c1;
                    (c3, w3) = (if RoomSeq prev \<noteq> 0 then snd (ctx_APost net (GRoom prev) (ToRoom (RLeave i)) c2 w1) else (c2, w1));
                    (c4, w4) = pushState net ''join'' c3 w3
                in ok c4 w4))"

definition player_Say :: "'w gnet \<Rightarrow> PlayerId \<Rightarrow> string \<Rightarrow> 'w pctx \<Rightarrow> 'w \<Rightarrow> 'w preply" where
  "player_Say net i text c w =
     (if RoomSeq (PRoom (pdata c)) = 0 then failed ErrNoRoom c w
      else
        let ((_, err), c1, w1) = ctx_ACall net (GRoom (PRoom (pdata c))) (ToRoom (RChat i text)) c w
        in case err of Some e \<Rightarrow> failed (ErrSay e) c1 w1 | None \<Rightarrow> ok c1 w1)"

definition player_Attack :: "'w gnet \<Rightarrow> PlayerId \<Rightarrow> PlayerId \<Rightarrow> 'w pctx \<Rightarrow> 'w \<Rightarrow> 'w preply" where
  "player_Attack net i tgt c w =
     (if tgt = i then failed ErrAttackSelf c w
      else if HP (pdata c) \<le> 0 then failed ErrDown c w
      else
        let (err, c1, w1) = ctx_APost net (GPlayer tgt) (ToPlayer (PDamage i (PRoom (pdata c)) (atk (pdata c)))) c w
        in case err of Some e \<Rightarrow> failed (ErrAttack (OpenID tgt) e) c1 w1 | None \<Rightarrow> ok c1 w1)"

definition player_Status :: "'w gnet \<Rightarrow> PlayerId \<Rightarrow> 'w pctx \<Rightarrow> 'w \<Rightarrow> 'w preply" where
  "player_Status net i c w =
     (let (rate, c1, w1) = expRate net i c w in HReturn c1 w1 (Some (ViewReply (view i rate (pdata c1)))) None)"

definition player_Damage :: "'w gnet \<Rightarrow> PlayerId \<Rightarrow> PlayerId \<Rightarrow> int \<Rightarrow> 'w pctx \<Rightarrow> 'w \<Rightarrow> 'w preply" where
  "player_Damage net i attacker amount c w =
     (let ((tk, slain, counted), s) = applyDamage amount (pdata c); c0 = set_pdata s c
      in if \<not> counted then ok c0 w
         else
           let (c1, w1) = snd (ctx_APost net (GPlayer attacker) (ToPlayer (PCombatResult i (Level s) tk slain)) c0 w);
               (c2, w2) = pushState net ''damage'' c1 w1;
               (c3, w3) = reportBrief net i c2 w2
           in ok c3 w3)"

text \<open>The product of experience and rate wraps; Go's division truncates.\<close>

definition scaled_exp :: "int \<Rightarrow> int \<Rightarrow> int" where
  "scaled_exp xp rate = (let x = wrap64 (xp * rate) in sgn x * (\<bar>x\<bar> div 100))"

definition slew_text :: string where
  "slew_text = map char_of ([0xE5, 0x87, 0xBB, 0xE5, 0x80, 0x92, 0xE4, 0xBA, 0x86, 0x20] :: nat list)"

definition player_CombatResult ::
  "'w gnet \<Rightarrow> PlayerId \<Rightarrow> PlayerId \<Rightarrow> int \<Rightarrow> bool \<Rightarrow> 'w pctx \<Rightarrow> 'w \<Rightarrow> 'w preply" where
  "player_CombatResult net i tgt lv slain c w =
     (let (gold, xp) = Reward slain lv;
          (rate, c1, w1) = expRate net i c w;
          (_, s) = applyReward gold (scaled_exp xp rate) (pdata c1);
          (c2, w2) = pushState net ''combat'' (set_pdata s c1) w1;
          (c3, w3) = reportBrief net i c2 w2;
          (c4, w4) = (if slain then report net i (slew_text @ OpenID tgt) c3 w3 else (c3, w3))
      in ok c4 w4)"

definition player_RoomEvent :: "'w gnet \<Rightarrow> RoomId \<Rightarrow> string \<Rightarrow> string \<Rightarrow> 'w pctx \<Rightarrow> 'w \<Rightarrow> 'w preply" where
  "player_RoomEvent net rid kind text c w = (let (c1, w1) = push net (roomEventMsg rid kind text) c w in ok c1 w1)"

fun player_handle :: "'w gnet \<Rightarrow> PlayerId \<Rightarrow> player_req \<Rightarrow> 'w pctx \<Rightarrow> 'w \<Rightarrow> 'w preply" where
  "player_handle net i (PLogin cl) = player_Login net i cl"
| "player_handle net i (PJoinRoom rid) = player_JoinRoom net i rid"
| "player_handle net i (PSay text) = player_Say net i text"
| "player_handle net i (PAttack tgt) = player_Attack net i tgt"
| "player_handle net i PStatus = player_Status net i"
| "player_handle net i (PDamage attacker rid amount) = player_Damage net i attacker amount"
| "player_handle net i (PCombatResult tgt lv amount slain) = player_CombatResult net i tgt lv slain"
| "player_handle net i (PRoomEvent rid kind text) = player_RoomEvent net rid kind text"

text \<open>\<open>handleSpawn\<close>, the callback of \<open>SetupGrain\<close>.\<close>

definition player_Spawn :: "bool \<Rightarrow> 'w pctx \<Rightarrow> drverr option \<times> 'w pctx" where
  "player_Spawn created c = (None, if created then set_pdata newPlayer c else c)"

subsection \<open>Rooms\<close>

record RoomState =
  Members :: "(PlayerId \<times> Brief) list option"

type_synonym 'w rctx = "(RoomState, 'w, unit) ctx"
type_synonym 'w rreply = "(RoomState, 'w, unit) reply"

text \<open>The entries of the map; a nil map has none.\<close>

definition mems :: "RoomState \<Rightarrow> (PlayerId \<times> Brief) list" where
  "mems s = (case Members s of None \<Rightarrow> [] | Some m \<Rightarrow> m)"

definition ensure :: "RoomState \<Rightarrow> RoomState" where
  "ensure s = (if Members s = None then s\<lparr>Members := Some []\<rparr> else s)"

definition put_member :: "PlayerId \<Rightarrow> Brief \<Rightarrow> RoomState \<Rightarrow> RoomState" where
  "put_member p b s = s\<lparr>Members := map_option (AList.update p b) (Members s)\<rparr>"

definition del_member :: "PlayerId \<Rightarrow> RoomState \<Rightarrow> RoomState" where
  "del_member p s = s\<lparr>Members := map_option (AList.delete p) (Members s)\<rparr>"

definition members :: "RoomState \<Rightarrow> PlayerId list" where
  "members s = sort_key OpenID (map fst (mems s))"

definition briefs :: "RoomState \<Rightarrow> Brief list" where
  "briefs s =
     map (\<lambda>p. case map_of (mems s) p of Some b \<Rightarrow> b | None \<Rightarrow> \<lparr>bOpenID = [], bLevel = 0, bHP = 0\<rparr>) (members s)"

text \<open>The loop over the errors of a broadcast: every member with an error is removed.\<close>

fun drop_failed :: "(gid, gerr) IdErr list \<Rightarrow> RoomState \<Rightarrow> RoomState" where
  "drop_failed [] s = s"
| "drop_failed (e # es) s =
     drop_failed es (if ieErr e = None then s else case ieId e of GPlayer p \<Rightarrow> del_member p s | _ \<Rightarrow> s)"

definition broadcast_room :: "'w gnet \<Rightarrow> RoomId \<Rightarrow> string \<Rightarrow> string \<Rightarrow> 'w rctx \<Rightarrow> 'w \<Rightarrow> 'w rctx \<times> 'w" where
  "broadcast_room net i kind text c w =
     (let ms = members (state c) in
      if ms = [] then (c, w)
      else
        let (res, a, w1) =
              AMulticast (gpost net) (gmulti net) (map GPlayer ms) (ask (ToPlayer (PRoomEvent i kind text))) (ctrl c) w;
            errs = (case res of Inl _ \<Rightarrow> [] | Inr l \<Rightarrow> l)
        in (c\<lparr>ctrl := a, state := drop_failed errs (state c)\<rparr>, w1))"

definition enter_text :: string where
  "enter_text = map char_of ([0x20, 0xE8, 0xBF, 0x9B, 0xE5, 0x85, 0xA5, 0xE6, 0x88, 0xBF, 0xE9, 0x97, 0xB4, 0x20] :: nat list)"

definition leave_text :: string where
  "leave_text = map char_of ([0x20, 0xE7, 0xA6, 0xBB, 0xE5, 0xBC, 0x80, 0xE6, 0x88, 0xBF, 0xE9, 0x97, 0xB4, 0x20] :: nat list)"

definition room_Join :: "'w gnet \<Rightarrow> RoomId \<Rightarrow> PlayerId \<Rightarrow> Brief \<Rightarrow> bool \<Rightarrow> 'w rctx \<Rightarrow> 'w \<Rightarrow> 'w rreply" where
  "room_Join net i p b spawning c w =
     (let s = ensure (state c);
          existed = (map_of (mems s) p \<noteq> None);
          c1 = c\<lparr>state := put_member p b s\<rparr>;
          c2 = (if spawning then ctx_Open c1 else c1);
          (c3, w3) = (if existed then (c2, w) else broadcast_room net i ''join'' (OpenID p @ enter_text @ Itoa (RoomSeq i)) c2 w)
      in ok c3 w3)"

definition room_Leave :: "'w gnet \<Rightarrow> RoomId \<Rightarrow> PlayerId \<Rightarrow> 'w rctx \<Rightarrow> 'w \<Rightarrow> 'w rreply" where
  "room_Leave net i p c w =
     (if map_of (mems (state c)) p = None then ok c w
      else
        let (c1, w1) = broadcast_room net i ''leave'' (OpenID p @ leave_text @ Itoa (RoomSeq i))
              (c\<lparr>state := del_member p (state c)\<rparr>) w
        in ok c1 w1)"

definition room_BriefChanged :: "PlayerId \<Rightarrow> Brief \<Rightarrow> 'w rctx \<Rightarrow> 'w \<Rightarrow> 'w rreply" where
  "room_BriefChanged p b c w =
     (if map_of (mems (state c)) p = None then ok c w else ok (c\<lparr>state := put_member p b (state c)\<rparr>) w)"

definition room_Chat :: "'w gnet \<Rightarrow> RoomId \<Rightarrow> PlayerId \<Rightarrow> string \<Rightarrow> 'w rctx \<Rightarrow> 'w \<Rightarrow> 'w rreply" where
  "room_Chat net i p text c w =
     (if map_of (mems (state c)) p = None then failed (ErrNotMember (OpenID p) (RoomSeq i)) c w
      else let (c1, w1) = broadcast_room net i ''chat'' (OpenID p @ '': '' @ text) c w in ok c1 w1)"

definition room_Report :: "'w gnet \<Rightarrow> RoomId \<Rightarrow> PlayerId \<Rightarrow> string \<Rightarrow> 'w rctx \<Rightarrow> 'w \<Rightarrow> 'w rreply" where
  "room_Report net i p text c w =
     (let (c1, w1) = broadcast_room net i ''report'' (OpenID p @ '' '' @ text) c w in ok c1 w1)"

definition room_Status :: "RoomId \<Rightarrow> 'w rctx \<Rightarrow> 'w \<Rightarrow> 'w rreply" where
  "room_Status i c w =
     HReturn c w (Some (RoomReply \<lparr>srRoom = RoomSeq i, srMembers = briefs (state c)\<rparr>)) None"

fun room_handle :: "'w gnet \<Rightarrow> RoomId \<Rightarrow> room_req \<Rightarrow> bool \<Rightarrow> 'w rctx \<Rightarrow> 'w \<Rightarrow> 'w rreply" where
  "room_handle net i (RJoin p b) spawning = room_Join net i p b spawning"
| "room_handle net i (RLeave p) _ = room_Leave net i p"
| "room_handle net i (RChat p text) _ = room_Chat net i p text"
| "room_handle net i (RBriefChanged p b) _ = room_BriefChanged p b"
| "room_handle net i (RReport p text) _ = room_Report net i p text"
| "room_handle net i RStatus _ = room_Status i"

subsection \<open>Connections\<close>

record ClientState =
  Self_player :: PlayerId
  Inbox :: "Msg list"

type_synonym 'w cctx = "(ClientState, 'w, unit) ctx"
type_synonym 'w creply = "(ClientState, 'w, unit) reply"

definition client_Login :: "'w gnet \<Rightarrow> ClientId \<Rightarrow> string \<Rightarrow> bool \<Rightarrow> 'w cctx \<Rightarrow> 'w \<Rightarrow> 'w creply" where
  "client_Login net i openId spawning c w =
     (let c0 = (if spawning then ctx_Open c else c);
          p = PlayerId openId;
          ((_, err), c1, w1) = ctx_ACall net (GPlayer p) (ToPlayer (PLogin i)) c0 w
      in case err of
           Some e \<Rightarrow> failed (ErrLogin openId e) c1 w1
         | None \<Rightarrow> ok (c1\<lparr>state := (state c1)\<lparr>Self_player := p\<rparr>\<rparr>) w1)"

definition forward :: "'w gnet \<Rightarrow> player_req \<Rightarrow> 'w cctx \<Rightarrow> 'w \<Rightarrow> 'w creply" where
  "forward net q c w =
     (let p = Self_player (state c) in
      if OpenID p = [] then failed ErrNotLoggedIn c w
      else let ((rep, err), c1, w1) = ctx_ACall net (GPlayer p) (ToPlayer q) c w in HReturn c1 w1 rep err)"

definition client_Push :: "Msg \<Rightarrow> 'w cctx \<Rightarrow> 'w \<Rightarrow> 'w creply" where
  "client_Push m c w = ok (c\<lparr>state := (state c)\<lparr>Inbox := Inbox (state c) @ [m]\<rparr>\<rparr>) w"

definition client_Drain :: "'w cctx \<Rightarrow> 'w \<Rightarrow> 'w creply" where
  "client_Drain c w =
     HReturn (c\<lparr>state := (state c)\<lparr>Inbox := []\<rparr>\<rparr>) w (Some (DrainReply (Inbox (state c)))) None"

fun client_handle :: "'w gnet \<Rightarrow> ClientId \<Rightarrow> client_req \<Rightarrow> bool \<Rightarrow> 'w cctx \<Rightarrow> 'w \<Rightarrow> 'w creply" where
  "client_handle net i (CLogin openId) spawning = client_Login net i openId spawning"
| "client_handle net i (CJoin rid) _ = forward net (PJoinRoom rid)"
| "client_handle net i (CSay text) _ = forward net (PSay text)"
| "client_handle net i (CAttack tgt) _ = forward net (PAttack tgt)"
| "client_handle net i CStatus _ = forward net PStatus"
| "client_handle net i (CPush m) _ = client_Push m"
| "client_handle net i CDrain _ = client_Drain"

subsection \<open>The world\<close>

record WorldState =
  wConfig :: Config

type_synonym 'w wctx = "(WorldState, 'w, unit) ctx"
type_synonym 'w wreply = "(WorldState, 'w, unit) reply"

text \<open>\<open>publish\<close>: the call to the shard of \<open>ConfigKey\<close>; a shard number that cannot be computed is a panic.\<close>

definition publish :: "'w gnet \<Rightarrow> 'w wctx \<Rightarrow> 'w \<Rightarrow> 'w wreply" where
  "publish net c w =
     (case PublishWaitFrom (gshards net) (gpublish net) ConfigKey (wConfig (state c)) w of
        Ret (err, w1) \<Rightarrow> HReturn c w1 (Some OkReply) err
      | _ \<Rightarrow> HPanic c w (Some (RuntimeErr ''integer divide by zero'')))"

definition world_Init :: "'w gnet \<Rightarrow> bool \<Rightarrow> 'w wctx \<Rightarrow> 'w \<Rightarrow> 'w wreply" where
  "world_Init net spawning c w =
     publish net (if spawning then (ctx_Open c)\<lparr>state := (state c)\<lparr>wConfig := DefaultConfig\<rparr>\<rparr> else c) w"

definition world_SetConfig :: "'w gnet \<Rightarrow> int \<Rightarrow> 'w wctx \<Rightarrow> 'w \<Rightarrow> 'w wreply" where
  "world_SetConfig net rate c w =
     publish net
       (if rate > 0 then c\<lparr>state := (state c)\<lparr>wConfig := (wConfig (state c))\<lparr>ExpRate := rate\<rparr>\<rparr>\<rparr> else c) w"

fun world_handle :: "'w gnet \<Rightarrow> world_req \<Rightarrow> bool \<Rightarrow> 'w wctx \<Rightarrow> 'w \<Rightarrow> 'w wreply" where
  "world_handle net WInit spawning = world_Init net spawning"
| "world_handle net (WSetConfig rate) _ = world_SetConfig net rate"

subsection \<open>The player's invariant\<close>

text \<open>Every rate a player has cached, and every rate the store answers, is between zero and \<open>mx\<close>.\<close>

definition rates_ok :: "int \<Rightarrow> Config Reader \<Rightarrow> bool" where
  "rates_ok mx r \<longleftrightarrow> (\<forall>n e cfg. map_of r n = Some e \<longrightarrow> cvalue e = Some cfg \<longrightarrow> 0 \<le> ExpRate cfg \<and> ExpRate cfg \<le> mx)"

definition store_rates :: "int \<Rightarrow> 'w gnet \<Rightarrow> bool" where
  "store_rates mx net \<longleftrightarrow>
     (\<forall>i n b w v cfg t w'. gsub net i n b w = (Inr (v, Some cfg), t, w') \<longrightarrow> 0 \<le> ExpRate cfg \<and> ExpRate cfg \<le> mx)"

lemma rates_ok_set:
  assumes "rates_ok mx r" "0 \<le> ExpRate cfg" "ExpRate cfg \<le> mx"
  shows "rates_ok mx (reader_set now n v (Some cfg) tt r)"
  using assms by (auto simp: rates_ok_def reader_set_def reader_entry_def Let_def update_conv' split: option.splits if_splits)

lemma ctx_APost_state [simp]: "state (fst (snd (ctx_APost net i q c w))) = state c"
  by (simp add: ctx_APost_def split_def Let_def)

lemma ctx_ACall_state [simp]: "state (fst (snd (ctx_ACall net i q c w))) = state c"
  by (simp add: ctx_ACall_def split_def Let_def)

lemma push_state [simp]: "state (fst (push net m c w)) = state c"
  by (simp add: push_def)

lemma pushState_state [simp]: "state (fst (pushState net reason c w)) = state c"
  by (simp add: pushState_def Let_def)

lemma reportBrief_state [simp]: "state (fst (reportBrief net i c w)) = state c"
  by (simp add: reportBrief_def)

lemma report_state [simp]: "state (fst (report net i text c w)) = state c"
  by (simp add: report_def)

lemma set_pdata_sel [simp]: "pdata (set_pdata s c) = s"
  by (simp add: set_pdata_def)

text \<open>Reading the rate changes nothing of the player but its cache.\<close>

lemma expRate_reads:
  assumes "rates_ok mx (Vars (pdata c))" "store_rates mx net" "100 \<le> mx"
  obtains rate r w' where "expRate net i c w = (rate, set_pdata ((pdata c)\<lparr>Vars := r\<rparr>) c, w')"
    "0 \<le> rate" "rate \<le> mx" "rates_ok mx r"
proof -
  let ?s = "pdata c"
  let ?W = "WatchFrom (gbind net) (\<lambda>_. True) (gsub net i) ''Player'' (gnow net w) ConfigKey (Vars ?s) w"
  have "\<exists>res r w'. ?W = Ret (res, r, w') \<and> rates_ok mx r \<and> (\<forall>cfg. res = Inr cfg \<longrightarrow> 0 \<le> ExpRate cfg \<and> ExpRate cfg \<le> mx)"
    (is "\<exists>res r w'. ?P res r w'")
  proof (cases "gbind net ''Player''")
    case None
    then show ?thesis using assms(1) by (simp add: WatchFrom_def)
  next
    case (Some b)
    show ?thesis
    proof (cases "cacheGet (\<lambda>_. True) (gnow net w) ConfigKey (Vars ?s)")
      case (Some v)
      then show ?thesis
        using \<open>gbind net ''Player'' = Some b\<close> assms(1)
        by (auto simp: WatchFrom_def cacheGet_def rates_ok_def split: option.splits if_splits)
    next
      case None
      obtain ans t w' where g: "gsub net i (kname ConfigKey) b w = (ans, t, w')" by (metis prod_cases3)
      show ?thesis
      proof (cases "\<exists>v cfg. ans = Inr (v, Some cfg)")
        case True
        then obtain v cfg where a: "ans = Inr (v, Some cfg)" by blast
        then have "0 \<le> ExpRate cfg \<and> ExpRate cfg \<le> mx" using assms(2) g unfolding store_rates_def by blast
        then show ?thesis
          using None \<open>gbind net ''Player'' = Some b\<close> a g rates_ok_set [OF assms(1)]
          by (simp add: WatchFrom_def ConfigKey_sel)
      next
        case False
        then show ?thesis
          using None \<open>gbind net ''Player'' = Some b\<close> g assms(1)
          by (cases ans) (auto simp: WatchFrom_def split: option.splits)
      qed
    qed
  qed
  then obtain res r w' where W: "?W = Ret (res, r, w')" "rates_ok mx r"
    "\<forall>cfg. res = Inr cfg \<longrightarrow> 0 \<le> ExpRate cfg \<and> ExpRate cfg \<le> mx" by blast
  show ?thesis
  proof (cases res)
    case (Inl e)
    then show ?thesis using that [of 100 r w'] W assms(3) by (simp add: expRate_def DefaultConfig_def)
  next
    case (Inr cfg)
    then show ?thesis using that [of "ExpRate cfg" r w'] W by (simp add: expRate_def)
  qed
qed

lemma scaled_exp_range:
  assumes "0 \<le> xp" "0 \<le> rate" "rate \<le> mx" "xp * mx \<le> MaxInt"
  shows "scaled_exp xp rate = xp * rate div 100" "0 \<le> scaled_exp xp rate"
proof -
  have "xp * rate \<le> xp * mx" using assms by (intro mult_left_mono) auto
  moreover have "0 \<le> xp * rate" using assms by simp
  ultimately have w: "wrap64 (xp * rate) = xp * rate" using assms(4) by (intro wrap64_id) (simp_all add: MinInt_def)
  moreover have "0 \<le> xp * rate" using assms by simp
  ultimately show "scaled_exp xp rate = xp * rate div 100" by (simp add: scaled_exp_def Let_def abs_of_nonneg sgn_if)
  then show "0 \<le> scaled_exp xp rate" using \<open>0 \<le> xp * rate\<close> by (simp add: pos_imp_zdiv_nonneg_iff)
qed

text \<open>The messages a player can get from players that are in order: the level of a slain target is bounded.\<close>

fun msg_ok :: "int \<Rightarrow> player_req \<Rightarrow> bool" where
  "msg_ok mx (PCombatResult tgt lv amount slain) = (1 \<le> lv \<and> 40 * lv * mx \<le> MaxInt)"
| "msg_ok mx _ = True"

definition player_inv :: "int \<Rightarrow> PlayerState \<Rightarrow> bool" where
  "player_inv mx s \<longleftrightarrow> player_ok s \<and> rates_ok mx (Vars s)"

lemma player_ok_frame [simp]:
  "player_ok (s\<lparr>Client := cl\<rparr>) = player_ok s" "player_ok (s\<lparr>PRoom := rm\<rparr>) = player_ok s" "player_ok (s\<lparr>Vars := r\<rparr>) = player_ok s"
  by (simp_all add: player_ok_def maxHP_def)


text \<open>What every handler of a player guarantees.\<close>

definition handled :: "int \<Rightarrow> 'w pctx \<Rightarrow> 'w preply \<Rightarrow> bool" where
  "handled mx c res \<longleftrightarrow>
     (\<exists>c' w' rep err. res = HReturn c' w' rep err \<and> player_inv mx (pdata c') \<and> lease (state c') = lease (state c) \<and>
        Level (pdata c) \<le> Level (pdata c') \<and> Gold (pdata c) \<le> Gold (pdata c') \<and> total_exp (pdata c) \<le> total_exp (pdata c') \<and>
        (err \<noteq> None \<longrightarrow> state c' = state c))"

lemma handledI:
  assumes "player_inv mx (pdata c')" "lease (state c') = lease (state c)" "Level (pdata c) \<le> Level (pdata c')"
    "Gold (pdata c) \<le> Gold (pdata c')" "total_exp (pdata c) \<le> total_exp (pdata c')" "err \<noteq> None \<Longrightarrow> state c' = state c"
  shows "handled mx c (HReturn c' w' rep err)"
  using assms by (auto simp: handled_def)

lemma handled_same:
  assumes "player_inv mx (pdata c)" "state c' = state c"
  shows "handled mx c (HReturn c' w' rep err)"
  using assms by (intro handledI) simp_all

lemma set_pdata_lease [simp]: "lease (state (set_pdata s c)) = lease (state c)"
  by (simp add: set_pdata_def)

lemma handled_cache:
  assumes "player_inv mx (pdata c)" "rates_ok mx r" "state c' = state (set_pdata ((pdata c)\<lparr>Vars := r, Client := cl, PRoom := rm\<rparr>) c)"
  shows "handled mx c (HReturn c' w' rep None)"
  using assms by (intro handledI) (simp_all add: player_inv_def total_exp_def)

lemma player_Login_handled:
  assumes "player_inv mx (pdata c)" "store_rates mx net" "100 \<le> mx"
  shows "handled mx c (player_Login net i cl c w)"
proof -
  let ?c = "set_pdata ((pdata c)\<lparr>Client := cl\<rparr>) c"
  have "rates_ok mx (Vars (pdata ?c))" using assms(1) by (simp add: player_inv_def)
  then obtain rate r w' where "expRate net i ?c w = (rate, set_pdata ((pdata ?c)\<lparr>Vars := r\<rparr>) ?c, w')" "rates_ok mx r"
    using expRate_reads [OF _ assms(2,3)] by metis
  then show ?thesis
    using handled_cache [OF assms(1), where r = r and cl = cl and rm = "PRoom (pdata c)"]
    by (simp add: player_Login_def pushLoginOK_def split_def Let_def set_pdata_def)
qed

lemma player_Status_handled:
  assumes "player_inv mx (pdata c)" "store_rates mx net" "100 \<le> mx"
  shows "handled mx c (player_Status net i c w)"
proof -
  obtain rate r w' where "expRate net i c w = (rate, set_pdata ((pdata c)\<lparr>Vars := r\<rparr>) c, w')" "rates_ok mx r"
    using expRate_reads [OF _ assms(2,3)] assms(1) unfolding player_inv_def by metis
  then show ?thesis
    using handled_cache [OF assms(1), where r = r and cl = "Client (pdata c)" and rm = "PRoom (pdata c)"]
    by (simp add: player_Status_def Let_def set_pdata_def)
qed

lemma player_JoinRoom_handled:
  assumes "player_inv mx (pdata c)"
  shows "handled mx c (player_JoinRoom net i rid c w)"
proof (cases "PRoom (pdata c) = rid")
  case True
  then show ?thesis using handled_same [OF assms, of c] by (simp add: player_JoinRoom_def)
next
  case False
  obtain rep err c1 w1 where call: "ctx_ACall net (GRoom rid) (ToRoom (RJoin i (brief i (pdata c)))) c w = ((rep, err), c1, w1)"
    by (metis prod.exhaust)
  then have s: "state c1 = state c" using ctx_ACall_state [of net "GRoom rid" "ToRoom (RJoin i (brief i (pdata c)))" c w] by simp
  show ?thesis
  proof (cases err)
    case (Some e)
    then show ?thesis using False call s handled_same [OF assms, of c1] by (simp add: player_JoinRoom_def)
  next
    case None
    have "rates_ok mx (Vars (pdata c))" using assms by (simp add: player_inv_def)
    then show ?thesis
      using handled_cache [OF assms, where r = "Vars (pdata c)" and cl = "Client (pdata c)" and rm = rid] None False call s
      by (simp add: player_JoinRoom_def split_def Let_def set_pdata_def)
  qed
qed

lemma player_Say_handled: "player_inv mx (pdata c) \<Longrightarrow> handled mx c (player_Say net i text c w)"
  using ctx_ACall_state [of net _ _ c w]
  by (auto simp: player_Say_def split_def Let_def split: option.splits intro!: handled_same)

lemma player_Attack_handled: "player_inv mx (pdata c) \<Longrightarrow> handled mx c (player_Attack net i tgt c w)"
  by (auto simp: player_Attack_def split_def Let_def split: option.splits intro!: handled_same)

lemma player_RoomEvent_handled: "player_inv mx (pdata c) \<Longrightarrow> handled mx c (player_RoomEvent net rid kind text c w)"
  by (auto simp: player_RoomEvent_def split_def Let_def intro!: handled_same)

lemma player_Damage_handled:
  assumes "player_inv mx (pdata c)"
  shows "handled mx c (player_Damage net i attacker amount c w)"
proof -
  obtain tk slain cnt s where d: "applyDamage amount (pdata c) = ((tk, slain, cnt), s)" by (metis prod.exhaust)
  have "player_inv mx s"
    using assms applyDamage_ok [of "pdata c" amount] applyDamage_frame [of amount "pdata c"] d by (simp add: player_inv_def)
  moreover have "Level s = Level (pdata c)" "Gold s = Gold (pdata c)" "total_exp s = total_exp (pdata c)"
    using applyDamage_alive [of "pdata c" amount] applyDamage_dead [of "pdata c" amount] d
    by (cases "0 < HP (pdata c)"; auto simp: total_exp_def)+
  ultimately show ?thesis by (auto simp: player_Damage_def d split_def Let_def intro!: handledI)
qed

lemma player_CombatResult_handled:
  assumes "player_inv mx (pdata c)" "store_rates mx net" "100 \<le> mx" "1 \<le> lv" "40 * lv * mx \<le> MaxInt"
  shows "handled mx c (player_CombatResult net i tgt lv slain c w)"
proof -
  obtain rate r w' where e: "expRate net i c w = (rate, set_pdata ((pdata c)\<lparr>Vars := r\<rparr>) c, w')" "0 \<le> rate" "rate \<le> mx"
      "rates_ok mx r"
    using expRate_reads [OF _ assms(2,3)] assms(1) unfolding player_inv_def by metis
  obtain gold xp where rw: "Reward slain lv = (gold, xp)" by fastforce
  have "1 * (40 * mx) \<le> lv * (40 * mx)" using assms(3,4) by (intro mult_right_mono) simp_all
  then have "40 * mx \<le> MaxInt" using assms(5) by (simp add: mult.assoc mult.left_commute)
  then have "0 \<le> gold" "0 \<le> xp" "xp * mx \<le> MaxInt"
    using rw assms(3-5) by (auto simp: Reward_def KillReward_def HitReward_def split: if_splits)
  then have "0 \<le> scaled_exp xp rate" using scaled_exp_range(2) e(2,3) by blast
  moreover obtain b s where a: "applyReward gold (scaled_exp xp rate) ((pdata c)\<lparr>Vars := r\<rparr>) = (b, s)" by fastforce
  moreover have "player_ok ((pdata c)\<lparr>Vars := r\<rparr>)" using assms(1) by (simp add: player_inv_def)
  ultimately have "player_inv mx s" "Level (pdata c) \<le> Level s" "Gold (pdata c) \<le> Gold s" "total_exp (pdata c) \<le> total_exp s"
    using applyReward_spec [OF _ \<open>0 \<le> gold\<close> _ a] e(4) \<open>0 \<le> gold\<close> by (auto simp: player_inv_def total_exp_def)
  then show ?thesis by (auto simp: player_CombatResult_def e rw a split_def Let_def intro!: handledI)
qed

lemma player_handle_handled:
  assumes "player_inv mx (pdata c)" "store_rates mx net" "100 \<le> mx" "msg_ok mx q"
  shows "handled mx c (player_handle net i q c w)"
  using assms
  by (cases q)
    (auto intro: player_Login_handled player_Status_handled player_JoinRoom_handled player_Say_handled player_Attack_handled
      player_RoomEvent_handled player_Damage_handled player_CombatResult_handled)

end
