(* ===== verification/Game_Play.thy ===== *)
theory Game_Play
  imports Game_Actors
begin

section \<open>The example game: what its actors guarantee\<close>

text \<open>
  Registration of the actors (\<open>RegisterHandlers\<close> of each package, \<open>setup/setup.go\<close>), the JSON form of a player, and the
  properties of the game: the player's invariant, rewards, the fate of a player across restarts, who can be created
  by what message, and what a room does to a member whose mailbox is full.
\<close>

subsection \<open>Registration\<close>

text \<open>Handlers and spawn hooks are named after the Go functions.\<close>

definition world_RegisterHandlers :: "(string, string) RegistryBuilder \<Rightarrow> (string, string) RegistryBuilder" where
  "world_RegisterHandlers b =
     RegisterQuery ''SetConfig'' ''handleSetConfig'' (RegisterSpawn ''Init'' ''handleInit'' b)"

definition room_RegisterHandlers :: "(string, string) RegistryBuilder \<Rightarrow> (string, string) RegistryBuilder" where
  "room_RegisterHandlers b =
     fold (\<lambda>f. f)
       [RegisterServe ''Join'' ''handleJoin'', RegisterQuery ''Leave'' ''handleLeave'', RegisterQuery ''Chat'' ''handleChat'',
        RegisterQuery ''BriefChanged'' ''handleBriefChanged'', RegisterQuery ''Report'' ''handleReport'',
        RegisterQuery ''Status'' ''handleStatus''] b"

definition player_RegisterHandlers :: "(string, string) RegistryBuilder \<Rightarrow> (string, string) RegistryBuilder" where
  "player_RegisterHandlers b =
     fold (\<lambda>f. f)
       [RegisterQuery ''__shared_refresh__'' ''refresh'', SetOnSpawn (Some ''SetupGrain''),
        RegisterServe ''Login'' ''handleLogin'', RegisterQuery ''JoinRoom'' ''handleJoinRoom'', RegisterQuery ''Say'' ''handleSay'',
        RegisterQuery ''Attack'' ''handleAttack'', RegisterQuery ''Status'' ''handleStatus'',
        RegisterQuery ''Damage'' ''handleDamage'', RegisterQuery ''CombatResult'' ''handleCombatResult'',
        RegisterQuery ''RoomEvent'' ''handleRoomEvent''] b"

definition client_RegisterHandlers :: "(string, string) RegistryBuilder \<Rightarrow> (string, string) RegistryBuilder" where
  "client_RegisterHandlers b =
     fold (\<lambda>f. f)
       [RegisterServe ''Login'' ''handleLogin'', RegisterQuery ''Join'' ''handleJoin'', RegisterQuery ''Say'' ''handleSay'',
        RegisterQuery ''Attack'' ''handleAttack'', RegisterQuery ''Status'' ''handleStatus'', RegisterQuery ''Push'' ''handlePush'',
        RegisterQuery ''Drain'' ''handleDrain''] b"

type_synonym ('k, 'v) gmanager = "(gid, string, greq, gerr, 'k, grep, string, 'v) Manager"

text \<open>
  The registrations of \<open>New\<close>, in its order; the group of the shared store, whose identities are of another type, is left
  to the operations of \<^typ>\<open>'w gnet\<close>. \<^const>\<open>None\<close> is a panic.
\<close>

definition setup_register :: "('k, 'v) gmanager option" where
  "setup_register =
     Option.bind (Serve game_ids (GWorld (WorldId [])) 64 world_RegisterHandlers NewManager) (\<lambda>m1.
     Option.bind (Serve game_ids (GRoom (RoomId 0)) 128 room_RegisterHandlers m1) (\<lambda>m2.
     Option.bind (Serve game_ids (GPlayer (PlayerId [])) 128 player_RegisterHandlers m2)
       (Serve game_ids (GClient (ClientId [])) 256 client_RegisterHandlers)))"

text \<open>\<open>Close\<close> returns the goroutines it waits for; \<open>New\<close> calls the world and closes everything when that fails.\<close>

definition setup_Close :: "('k, 'v) gmanager \<Rightarrow> (nat list list \<times> ('k, 'v) gmanager) option" where
  "setup_Close m = Option.bind (CloseManager m) JoinManager"

definition setup_New ::
  "(gid, string, greq, gerr, 'k, string) groupEv \<Rightarrow> (nat \<Rightarrow> ('k, 'v) gmanager \<Rightarrow> string option \<times> ('k, 'v) gmanager)
    \<Rightarrow> ((gerror + unit) \<times> ('k, 'v) gmanager) go" where
  "setup_New ev await =
     (case setup_register of
        None \<Rightarrow> GoPanic
      | Some m \<Rightarrow>
          (case Call game_ids ev await (GWorld TheWorld) (ask (ToWorld WInit)) m of
             Ret ((_, None), m1) \<Rightarrow> Ret (Inr (), m1)
           | Ret ((_, Some e), m1) \<Rightarrow> (case setup_Close m1 of None \<Rightarrow> GoPanic | Some (_, m2) \<Rightarrow> Ret (Inl e, m2))
           | GoPanic \<Rightarrow> GoPanic
           | GoBlocks \<Rightarrow> GoBlocks))"

text \<open>A failed start leaves a manager that is stopped and joined.\<close>

lemma CloseManager_stopping: "CloseManager m = Some m' \<Longrightarrow> mstopping m'"
  by (auto simp: CloseManager_def split: if_splits)

lemma JoinManager_stops:
  assumes "JoinManager m = Some (gs, m')"
  shows "mstopping m' \<and> mjoined m'"
proof -
  obtain m1 where m1: "CloseManager m = Some m1" using assms by (cases "CloseManager m") (simp_all add: JoinManager_def)
  then show ?thesis
    using assms CloseManager_stopping [OF m1] by (cases "mjoined m1") (auto simp: JoinManager_def)
qed

lemma setup_New_error_closes:
  assumes "setup_New ev await = Ret (Inl e, m)"
  shows "mstopping m \<and> mjoined m"
proof -
  obtain m1 gs where "setup_Close m1 = Some (gs, m)"
    using assms by (auto simp: setup_New_def split: option.splits go.splits)
  then obtain m2 where "JoinManager m2 = Some (gs, m)" by (cases "CloseManager m1") (simp_all add: setup_Close_def)
  then show ?thesis by (rule JoinManager_stops)
qed

text \<open>The default values \<open>New\<close> puts into its configuration, and the persistence manager it makes.\<close>

record SetupConfig =
  DataDir :: string
  NodeID :: string
  PersistEvery :: int

definition setup_defaults :: "SetupConfig \<Rightarrow> SetupConfig" where
  "setup_defaults cfg =
     (let cfg1 = (if DataDir cfg = [] then cfg\<lparr>DataDir := ''./data''\<rparr> else cfg)
      in if NodeID cfg1 = [] then cfg1\<lparr>NodeID := ''example-node''\<rparr> else cfg1)"

text \<open>
  A player as JSON: the persistent fields; those tagged \<open>json:"-"\<close> are neither written nor read. A decoding error is
  reported without the fields that had been read before it, which no caller looks at.
\<close>

definition player_fields :: "string list" where
  "player_fields = [''level'', ''hp'', ''gold'', ''exp'']"

definition set_player_field :: "string \<Rightarrow> json \<Rightarrow> PlayerState \<Rightarrow> PlayerState option" where
  "set_player_field f j s =
     (if f = ''level'' then map_option (\<lambda>x. s\<lparr>Level := x\<rparr>) (dec_i64 j (Level s))
      else if f = ''hp'' then map_option (\<lambda>x. s\<lparr>HP := x\<rparr>) (dec_i64 j (HP s))
      else if f = ''gold'' then map_option (\<lambda>x. s\<lparr>Gold := x\<rparr>) (dec_i64 j (Gold s))
      else if f = ''exp'' then map_option (\<lambda>x. s\<lparr>Exp := x\<rparr>) (dec_i64 j (Exp s))
      else Some s)"

definition player_codec :: "PlayerState snapcodec" where
  "player_codec =
     \<lparr>snapMarshal = (\<lambda>s. Inr (JObj [(''level'', JNum (Level s)), (''hp'', JNum (HP s)), (''gold'', JNum (Gold s)), (''exp'', JNum (Exp s))])),
      snapUnmarshal = (\<lambda>j s. case Unmarshal player_fields set_player_field j s of Inl e \<Rightarrow> (Some e, s) | Inr s' \<Rightarrow> (None, s'))\<rparr>"

definition setup_pm :: "SetupConfig \<Rightarrow> os \<Rightarrow> (PlayerState, fs) PersistenceManager" where
  "setup_pm cfg sys =
     NewPersistenceManager [WithDriver (JsonDriver (DataDir (setup_defaults cfg)) sys player_codec),
       WithNodeId (NodeID (setup_defaults cfg)), WithAutoPersistInterval (PersistEvery cfg)]"

definition in_int64 :: "int \<Rightarrow> bool" where
  "in_int64 x \<longleftrightarrow> MinInt \<le> x \<and> x \<le> MaxInt"

lemma player_codec_roundtrip:
  assumes "in_int64 (Level s)" "in_int64 (HP s)" "in_int64 (Gold s)" "in_int64 (Exp s)"
  shows "\<exists>j. snapMarshal player_codec s = Inr j \<and>
    snapUnmarshal player_codec j d = (None, d\<lparr>Level := Level s, HP := HP s, Gold := Gold s, Exp := Exp s\<rparr>)"
  using assms
  by (simp add: player_codec_def Unmarshal_def set_player_field_def player_fields_def in_int64_def MinInt_def MaxInt_def)

subsection \<open>Members of a room\<close>

lemma mems_del_member: "map_of (mems (del_member p s)) r = (if r = p then None else map_of (mems s) r)"
  by (simp add: mems_def del_member_def map_of_delete_conv split: option.splits)

lemma drop_failed_lookup:
  "map_of (mems (drop_failed es s)) p =
     (if \<exists>e\<in>set es. ieId e = GPlayer p \<and> ieErr e \<noteq> None then None else map_of (mems s) p)"
  by (induction es s rule: drop_failed.induct) (auto simp: mems_del_member split: gid.splits)

text \<open>The member list: every member once, in the order of the names.\<close>

lemma members_spec: "distinct (map fst (mems s)) \<Longrightarrow> set (members s) = fst ` set (mems s) \<and> distinct (members s) \<and> sorted (map OpenID (members s))"
  by (simp add: members_def)

lemma members_iff: "p \<in> set (members s) \<longleftrightarrow> map_of (mems s) p \<noteq> None"
  by (simp add: members_def map_of_eq_None_iff)

text \<open>A control block with nothing postponed sends a multicast as it is.\<close>

lemma AMulticast_fresh:
  assumes "postpone a = []" "postponeSet a = {}" "\<And>f. fm w f ids q = (Inr l, w')"
  shows "\<exists>a'. AMulticast fp fm ids q a w =
      (Inr (snd (splitIdErr l) @ map (\<lambda>i. \<lparr>ieId = i, ieErr = Some (ActorBusyError i)\<rparr>) (fst (splitIdErr l))), a', w') \<and>
    postpone a' = map (\<lambda>i. \<lparr>pid = i, preq = q\<rparr>) (fst (splitIdErr l))"
proof -
  obtain f a2 where nf: "next_from a = (f, a2)" by fastforce
  then have "postpone a2 = []" using next_from_sel(5) [of a] assms(1) by simp
  then show ?thesis
    using assms nf
    by (simp add: AMulticast_def poseponePost_def splitPostpone_def hasPostpone_def split_def Let_def fold_appendPostpone)
qed

lemma broadcast_room_busy:
  assumes "postpone (ctrl c) = []" "postponeSet (ctrl c) = {}" "map_of (mems (state c)) p \<noteq> None"
    and "\<And>f. gmulti net w f (map GPlayer (members (state c))) (ask (ToPlayer (PRoomEvent i kind text))) = (Inr l, w')"
    and "\<lparr>ieId = GPlayer p, ieErr = Some (ActorBusyError (GPlayer p))\<rparr> \<in> set l"
  shows "\<exists>c'. broadcast_room net i kind text c w = (c', w') \<and> map_of (mems (state c')) p = None \<and>
    \<lparr>pid = GPlayer p, preq = ask (ToPlayer (PRoomEvent i kind text))\<rparr> \<in> set (postpone (ctrl c'))"
proof -
  let ?q = "ask (ToPlayer (PRoomEvent i kind text))"
  have "members (state c) \<noteq> []" using assms(3) members_iff [of p "state c"] by auto
  moreover obtain a' where "AMulticast (gpost net) (gmulti net) (map GPlayer (members (state c))) ?q (ctrl c) w =
      (Inr (snd (splitIdErr l) @ map (\<lambda>i. \<lparr>ieId = i, ieErr = Some (ActorBusyError i)\<rparr>) (fst (splitIdErr l))), a', w')"
      "postpone a' = map (\<lambda>i. \<lparr>pid = i, preq = ?q\<rparr>) (fst (splitIdErr l))"
    using AMulticast_fresh [OF assms(1,2), where fm = "gmulti net" and w = w and ids = "map GPlayer (members (state c))" and q = ?q]
      assms(4) by blast
  moreover have "GPlayer p \<in> set (fst (splitIdErr l))"
    using assms(5) by (force simp: splitIdErr_def)
  moreover from this have "\<exists>e\<in>set (snd (splitIdErr l) @ map (\<lambda>i. \<lparr>ieId = i, ieErr = Some (ActorBusyError i)\<rparr>) (fst (splitIdErr l))).
      ieId e = GPlayer p \<and> ieErr e \<noteq> None"
    by force
  ultimately show ?thesis by (simp add: broadcast_room_def drop_failed_lookup)
qed

subsection \<open>Creation\<close>

text \<open>Which messages may create an actor of each group.\<close>

lemmas registry_defs = world_RegisterHandlers_def room_RegisterHandlers_def player_RegisterHandlers_def client_RegisterHandlers_def
  RegisterQuery_def RegisterServe_def RegisterSpawn_def SetOnSpawn_def register_def NewRegistryBuilder_def

lemma player_registry:
  "\<exists>h. handlers (player_RegisterHandlers NewRegistryBuilder) (player_ReqType q) = Some h \<and>
     (allow_spawn h \<longleftrightarrow> (\<exists>cl. q = PLogin cl)) \<and> allow_query h"
  by (cases q) (simp_all add: registry_defs)

lemma room_registry:
  "\<exists>h. handlers (room_RegisterHandlers NewRegistryBuilder) (room_ReqType q) = Some h \<and>
     (allow_spawn h \<longleftrightarrow> (\<exists>p b. q = RJoin p b)) \<and> allow_query h"
  by (cases q) (simp_all add: registry_defs)

lemma setup_registered:
  "\<exists>m. setup_register = Some m \<and> \<not> mstopping m \<and>
     map_option registry (map_of (groups m) ''Player'') = Some (handlers (player_RegisterHandlers NewRegistryBuilder)) \<and>
     map_option registry (map_of (groups m) ''Room'') = Some (handlers (room_RegisterHandlers NewRegistryBuilder)) \<and>
     map_option registry (map_of (groups m) ''Client'') = Some (handlers (client_RegisterHandlers NewRegistryBuilder)) \<and>
     map_option registry (map_of (groups m) ''World'') = Some (handlers (world_RegisterHandlers NewRegistryBuilder))"
  by (simp add: setup_register_def Serve_def ServeWith_def NewManager_def actorTypeOf_def game_ids_def newGroup_def)

lemma update_same: "map_of xs k = Some v \<Longrightarrow> AList.update k v xs = xs"
  by (induction xs) auto

text \<open>A message that is not a login does not create a player: it is refused, and the manager stays as it is.\<close>

lemma missing_player_refused:
  assumes "\<not> mstopping m" "map_of (groups m) ''Player'' = Some g" "\<not> stopping g" "map_of (actors g) (GPlayer p) = None"
    and "registry g = handlers (player_RegisterHandlers NewRegistryBuilder)" "\<forall>cl. q \<noteq> PLogin cl"
  shows "FPost game_ids (\<lambda>g. g) f (GPlayer p) (ask (ToPlayer q)) m = Ret (Some (ActorNotFoundError (GPlayer p)), m)"
proof -
  obtain h where h: "registry g (player_ReqType q) = Some h" "\<not> allow_spawn h" using player_registry [of q] assms(5,6) by auto
  then have "findHandler game_ids (GPlayer p) (ask (ToPlayer q)) m = Inr (g, h)"
    using assms(1,2) by (simp add: findHandler_def findGroup_def group_findHandler_def game_ids_def ask_def)
  then show ?thesis
    using h(2) assms(2-4)
    by (simp add: FPost_def handlerPost_def deliver_def resolveActor_def isStopping_def holdActor_def set_group_def update_same game_ids_def)
qed

subsection \<open>Activation\<close>

lemma setup_pm_sel:
  "driver (setup_pm cfg sys) = Some (JsonDriver (DataDir (setup_defaults cfg)) sys player_codec)"
  "nodeId (setup_pm cfg sys) = NodeID (setup_defaults cfg)"
  by (simp_all add: setup_pm_def NewPersistenceManager_def WithDriver_def WithNodeId_def WithAutoPersistInterval_def)

lemma player_loaded:
  fixes c0 :: "fs pctx"
  assumes "json_Load (DataDir (setup_defaults cfg)) no_faults player_codec ''Player'' i (NodeID (setup_defaults cfg)) zeroPlayer fs =
      Ret ((Some l, None, s), fs)" "gpm (state c0) = None" "pdata c0 = zeroPlayer"
  shows "\<exists>c'. grain_OnSpawn ''Player'' i (Some (setup_pm cfg no_faults)) ShotSelf (Some player_Spawn) c0 fs = Ret (None, c', fs) \<and>
    pdata c' = s"
  using assms
  by (simp add: grain_OnSpawn_def Activate_def activate_def setup_pm_sel JsonDriver_def ShotSelf_def player_Spawn_def Let_def)

lemma player_created:
  fixes c0 :: "fs pctx"
  assumes "fs (filePath (DataDir (setup_defaults cfg)) ''Player'' i) = None" "gpm (state c0) = None" "pdata c0 = zeroPlayer"
  shows "\<exists>c'. grain_OnSpawn ''Player'' i (Some (setup_pm cfg no_faults)) ShotSelf (Some player_Spawn) c0 fs = Ret (None, c', fs) \<and>
    pdata c' = newPlayer"
  using assms
  by (simp add: grain_OnSpawn_def Activate_def activate_def setup_pm_sel JsonDriver_def ShotSelf_def player_Spawn_def Let_def
      json_Load_def set_pdata_def)

subsection \<open>Properties\<close>


definition demo_net :: "unit gnet" where
  "demo_net =
     \<lparr>gpost = (\<lambda>w _ _ _. (None, w)), gcall = (\<lambda>w _ _ _. ((Some OkReply, None), w)),
      gmulti = (\<lambda>w _ ids _. (Inr (map (\<lambda>i. \<lparr>ieId = i, ieErr = if i = GPlayer (PlayerId ''b'') then Some (ActorBusyError i) else None\<rparr>) ids), w)),
      gsleep = (\<lambda>_ w. w), gbind = (\<lambda>_. Some 0), gsub = (\<lambda>_ _ _ w. (Inr (1, Some DefaultConfig), 0, w)), gnow = (\<lambda>_. 0),
      gshards = 1, gpublish = (\<lambda>_ _ w. (None, w))\<rparr>"

definition demo_player :: "'w pctx" where
  "demo_player =
     \<lparr>ctrl = newActorControl ''Player:a'',
      state = \<lparr>gData = newPlayer\<lparr>Client := ClientId ''c'', PRoom := RoomId 7\<rparr>, lease = None, gpm = None, snap = None\<rparr>\<rparr>"


text \<open>Rewards add up. For a player in order, two rewards one after the other lead to exactly the state that one reward of
  their sums leads to, whatever levels they pass; so the order in which combat results arrive does not matter. The
  loop over the levels ends.\<close>

theorem rewards_add_up:
  assumes "player_ok s" "0 \<le> g1" "0 \<le> x1" "0 \<le> g2" "0 \<le> x2"
  shows "snd (applyReward g2 x2 (snd (applyReward g1 x1 s))) = snd (applyReward (g1 + g2) (x1 + x2) s)"
proof -
  obtain b1 s1 where a1: "applyReward g1 x1 s = (b1, s1)" by fastforce
  note r1 = applyReward_spec [OF assms(1-3) a1]
  obtain b2 s2 where a2: "applyReward g2 x2 s1 = (b2, s2)" by fastforce
  note r2 = applyReward_spec [OF _ assms(4,5) a2]
  obtain b3 s3 where a3: "applyReward (g1 + g2) (x1 + x2) s = (b3, s3)" by fastforce
  note r3 = applyReward_spec [OF assms(1) _ _ a3]
  have tot: "total_exp s2 = total_exp s3" using r1 r2 r3 assms by simp
  have "Level s2 = Level s3"
    using level_unique [of "Level s2" "Exp s2" "Level s3" "Exp s3"] tot r1 r2 r3 assms
    by (auto simp: player_ok_def total_exp_def ExpToLevel_def)
  then have "HP s2 = HP s3" using r1 r2 r3 assms by (auto simp: maxHP_def)
  then have "s2 = s3" using r1 r2 r3 assms tot by (intro player_eqI) simp_all
  then show ?thesis by (simp add: a1 a2 a3)
qed

theorem rewards_add_up_witness:
  "snd (applyReward 5 10 (snd (applyReward 60 120 newPlayer))) = snd (applyReward (60 + 5) (120 + 10) newPlayer)"
  by (rule rewards_add_up) (simp_all add: player_ok_new)

text \<open>A player survives a restart. When a player that holds a lease quits, its level, hit points, gold and experience are
  written to its file, and the next activation, under any node, brings exactly them back, in order, with neither
  connection nor room nor cached configuration, and does not treat the player as new. A player without a file is
  created with level one and full hit points.\<close>

theorem player_survives_restart:
  fixes st :: "(PlayerState, PlayerState, fs) GState" and c0 :: "fs pctx"
  assumes "gpm st = Some (setup_pm cfg no_faults)" "snap st = Some ShotSelf" "lease st = Some l" "player_ok (gData st)"
    and "in_int64 (Level (gData st))" "in_int64 (HP (gData st))" "in_int64 (Gold (gData st))" "in_int64 (Exp (gData st))"
    and "in_int64 (liGeneration l)" "gpm (state c0) = None" "pdata c0 = zeroPlayer"
    and "DataDir (setup_defaults cfg2) = DataDir (setup_defaults cfg)"
  shows "\<exists>fs' c'. grain_quit ''Player'' i (cn, st, fs) = (False, (cn, st, fs')) \<and>
      grain_OnSpawn ''Player'' i (Some (setup_pm cfg2 no_faults)) ShotSelf (Some player_Spawn) c0 fs' = Ret (None, c', fs') \<and>
      pdata c' = zeroPlayer\<lparr>Level := Level (gData st), HP := HP (gData st), Gold := Gold (gData st), Exp := Exp (gData st)\<rparr> \<and>
      player_ok (pdata c') \<and>
      (fs (filePath (DataDir (setup_defaults cfg)) ''Player'' i) = None \<longrightarrow>
        (\<exists>c''. grain_OnSpawn ''Player'' i (Some (setup_pm cfg2 no_faults)) ShotSelf (Some player_Spawn) c0 fs = Ret (None, c'', fs) \<and>
          pdata c'' = newPlayer))"
proof -
  let ?s = "gData st" and ?dir = "DataDir (setup_defaults cfg)"
  let ?s' = "zeroPlayer\<lparr>Level := Level ?s, HP := HP ?s, Gold := Gold ?s, Exp := Exp ?s\<rparr>"
  obtain j where j: "snapMarshal player_codec ?s = Inr j" "snapUnmarshal player_codec j zeroPlayer = (None, ?s')"
    using player_codec_roundtrip [OF assms(5-8), of zeroPlayer] by blast
  let ?fs = "fs(filePath ?dir ''Player'' i \<mapsto> Some (encode_doc (liGeneration l) j))"
  have "grain_quit ''Player'' i (cn, st, fs) = (False, (cn, st, ?fs))"
    using assms(1-3) j(1) by (simp add: grain_quit_def persist_def release_def setup_pm_sel JsonDriver_def json_Save_def
        json_Release_def ShotSelf_def)
  moreover have "json_Load ?dir no_faults player_codec ''Player'' i (NodeID (setup_defaults cfg2)) zeroPlayer ?fs =
      Ret ((Some \<lparr>liKey = i, liOwner = NodeID (setup_defaults cfg2), liGeneration = wrap64 (liGeneration l + 1)\<rparr>, None, ?s'), ?fs)"
    using j(2) assms(9) by (simp add: json_Load_def in_int64_def)
  from player_loaded [OF this [folded assms(12)] assms(10,11)]
  have "\<exists>c'. grain_OnSpawn ''Player'' i (Some (setup_pm cfg2 no_faults)) ShotSelf (Some player_Spawn) c0 ?fs = Ret (None, c', ?fs) \<and>
      pdata c' = ?s'" by (simp only: assms(12))
  moreover have "player_ok ?s'" using assms(4) by (simp add: player_ok_def maxHP_def)
  moreover have "\<exists>c''. grain_OnSpawn ''Player'' i (Some (setup_pm cfg2 no_faults)) ShotSelf (Some player_Spawn) c0 fs = Ret (None, c'', fs) \<and>
      pdata c'' = newPlayer" if "fs (filePath ?dir ''Player'' i) = None"
    using player_created [of fs cfg2 i c0] that assms(10-12) by simp
  ultimately show ?thesis by (intro exI [of _ ?fs]) auto
qed

definition demo_cfg :: SetupConfig where
  "demo_cfg = \<lparr>DataDir = [], NodeID = [], PersistEvery = 0\<rparr>"

definition demo_pgrain :: "(PlayerState, PlayerState, fs) GState" where
  "demo_pgrain =
     \<lparr>gData = newPlayer\<lparr>Gold := 65, Client := ClientId ''c''\<rparr>, lease = Some \<lparr>liKey = ''a'', liOwner = ''example-node'', liGeneration = 3\<rparr>,
      gpm = Some (setup_pm demo_cfg no_faults), snap = Some ShotSelf\<rparr>"

definition demo_zero :: "'w pctx" where
  "demo_zero = \<lparr>ctrl = newActorControl ''Player:a'', state = \<lparr>gData = zeroPlayer, lease = None, gpm = None, snap = None\<rparr>\<rparr>"

theorem player_survives_restart_witness:
  "\<exists>fs' c'. grain_quit ''Player'' ''a'' (True, demo_pgrain, Map.empty) = (False, (True, demo_pgrain, fs')) \<and>
    grain_OnSpawn ''Player'' ''a'' (Some (setup_pm demo_cfg no_faults)) ShotSelf (Some player_Spawn) demo_zero fs' = Ret (None, c', fs') \<and>
    Level (pdata c') = 1 \<and> HP (pdata c') = 100 \<and> Gold (pdata c') = 65"
proof -
  have d: "gData demo_pgrain = newPlayer\<lparr>Gold := 65, Client := ClientId ''c''\<rparr>" "gpm demo_pgrain = Some (setup_pm demo_cfg no_faults)"
    "snap demo_pgrain = Some ShotSelf" "lease demo_pgrain = Some \<lparr>liKey = ''a'', liOwner = ''example-node'', liGeneration = 3\<rparr>"
    by (simp_all add: demo_pgrain_def)
  have p: "player_ok (gData demo_pgrain)" using player_ok_new by (simp add: d player_ok_def maxHP_def)
  have z: "gpm (state (demo_zero :: fs pctx)) = None" "pdata (demo_zero :: fs pctx) = zeroPlayer" by (simp_all add: demo_zero_def)
  have v: "Level (gData demo_pgrain) = 1" "HP (gData demo_pgrain) = 100" "Gold (gData demo_pgrain) = 65" "Exp (gData demo_pgrain) = 0"
    by (simp_all add: d newPlayer_def zeroPlayer_def MaxHPOf_def)
  show ?thesis
    using player_survives_restart [OF d(2-4) p _ _ _ _ _ z refl, of "''a''" True Map.empty] v
    by (auto simp: in_int64_def MinInt_def MaxInt_def)
qed

text \<open>A busy member is put out of its room and cannot come back. When a member \<open>a\<close> speaks and the mailbox of member \<open>p\<close> is
  full, the library queues the event for \<open>p\<close> and reports it as busy; the room takes that for a departure and removes
  \<open>p\<close>, although the event will reach it. From then on the room refuses what \<open>p\<close> says, and a request of \<open>p\<close> to join that
  room succeeds at once without asking the room, because \<open>p\<close> still believes to be inside.\<close>

theorem busy_member_locked_out:
  assumes "postpone (ctrl c) = []" "postponeSet (ctrl c) = {}"
    and "map_of (mems (state c)) a \<noteq> None" "map_of (mems (state c)) p \<noteq> None"
    and "\<forall>f. gmulti net w f (map GPlayer (members (state c))) (ask (ToPlayer (PRoomEvent i ''chat'' (OpenID a @ '': '' @ words)))) = (Inr l, w')"
    and "\<lparr>ieId = GPlayer p, ieErr = Some (ActorBusyError (GPlayer p))\<rparr> \<in> set l"
    and "PRoom (pdata pc) = i"
  shows "\<exists>c'. room_handle net i (RChat a words) False c w = HReturn c' w' (Some OkReply) None \<and>
    \<lparr>pid = GPlayer p, preq = ask (ToPlayer (PRoomEvent i ''chat'' (OpenID a @ '': '' @ words)))\<rparr> \<in> set (postpone (ctrl c')) \<and>
    room_handle net i (RChat p said) False c' w2 = HReturn c' w2 None (Some (UserErr (ErrNotMember (OpenID p) (RoomSeq i)))) \<and>
    player_handle net' p (PJoinRoom i) pc w3 = HReturn pc w3 (Some OkReply) None"
proof -
  obtain c' where c': "broadcast_room net i ''chat'' (OpenID a @ '': '' @ words) c w = (c', w')" "map_of (mems (state c')) p = None"
      "\<lparr>pid = GPlayer p, preq = ask (ToPlayer (PRoomEvent i ''chat'' (OpenID a @ '': '' @ words)))\<rparr> \<in> set (postpone (ctrl c'))"
    using broadcast_room_busy [OF assms(1,2,4) _ assms(6), of net w i "''chat''" "OpenID a @ '': '' @ words" w'] assms(5) by auto
  show ?thesis
  proof (intro exI [of _ c'] conjI)
    show "room_handle net i (RChat a words) False c w = HReturn c' w' (Some OkReply) None"
      using c'(1) assms(3) by (simp add: room_Chat_def)
    show "room_handle net i (RChat p said) False c' w2 = HReturn c' w2 None (Some (UserErr (ErrNotMember (OpenID p) (RoomSeq i))))"
      using c'(2) by (simp add: room_Chat_def)
    show "player_handle net' p (PJoinRoom i) pc w3 = HReturn pc w3 (Some OkReply) None"
      using assms(7) by (simp add: player_JoinRoom_def)
  qed (rule c'(3))
qed

definition demo_room :: "'w rctx" where
  "demo_room =
     \<lparr>ctrl = newActorControl ''Room:7'',
      state = \<lparr>Members = Some [(PlayerId ''b'', \<lparr>bOpenID = ''b'', bLevel = 1, bHP = 100\<rparr>), (PlayerId ''a'', \<lparr>bOpenID = ''a'', bLevel = 1, bHP = 100\<rparr>)]\<rparr>\<rparr>"

theorem busy_member_locked_out_witness:
  "\<exists>c'. room_handle demo_net (RoomId 7) (RChat (PlayerId ''a'') ''hi'') False demo_room () = HReturn c' () (Some OkReply) None \<and>
    room_handle demo_net (RoomId 7) (RChat (PlayerId ''b'') ''hello'') False c' () =
      HReturn c' () None (Some (UserErr (ErrNotMember ''b'' 7)))"
proof -
  have s: "members (state demo_room) = [PlayerId ''a'', PlayerId ''b'']"
    by (simp add: demo_room_def members_def mems_def sort_key_def)
  have m: "gmulti demo_net () f (map GPlayer (members (state demo_room))) q =
      (Inr [\<lparr>ieId = GPlayer (PlayerId ''a''), ieErr = None\<rparr>,
            \<lparr>ieId = GPlayer (PlayerId ''b''), ieErr = Some (ActorBusyError (GPlayer (PlayerId ''b'')))\<rparr>], ())" for f q
    by (simp add: s demo_net_def)
  have c: "postpone (ctrl demo_room) = []" "postponeSet (ctrl demo_room) = {}" "map_of (mems (state demo_room)) (PlayerId ''a'') \<noteq> None"
    "map_of (mems (state demo_room)) (PlayerId ''b'') \<noteq> None"
    by (simp_all add: demo_room_def newActorControl_def mems_def)
  show ?thesis
    using busy_member_locked_out [OF c, where net = demo_net and w = "()" and w' = "()" and i = "RoomId 7" and words = "''hi''"
        and said = "''hello''" and ?w2.0 = "()" and pc = demo_player and ?w3.0 = "()" and net' = demo_net] m
    by (fastforce simp: demo_player_def newPlayer_def)
qed

text \<open>One kill per life: of any number of attacks on a player that is up, between two of its rewards, exactly one is answered
  as the kill if they use up its hit points and none otherwise; attacks on a player that is down change nothing.\<close>

lemma one_kill_per_life:
  assumes "player_ok s" "0 < HP s" "attacks as s = (rs, s')"
  shows "HP s' = max 0 (HP s - (\<Sum>a\<leftarrow>as. Damage_of a (pdef s))) \<and>
    length (filter (\<lambda>(_, slain, _). slain) rs) = (if HP s \<le> (\<Sum>a\<leftarrow>as. Damage_of a (pdef s)) then 1 else 0)"
proof -
  have "HP s' = max 0 (HP s - (\<Sum>a\<leftarrow>as. Damage_of a (pdef s)))" using attacks_HP [of s as] assms by simp
  then show ?thesis using attacks_answers [OF _ assms(3)] assms(2) by (simp add: max_def)
qed

text \<open>An attack on a player whose mailbox is full is reported as failed, although it is queued and will hit.\<close>

lemma busy_attack_reported_failed:
  assumes "tgt \<noteq> i" "0 < HP (pdata c)" "postpone (ctrl c) = []" "postponeSet (ctrl c) = {}"
    and "\<And>f. gpost net w f (GPlayer tgt) (ask (ToPlayer (PDamage i (PRoom (pdata c)) (atk (pdata c))))) =
      (Some (ActorBusyError (GPlayer tgt)), w')"
  shows "\<exists>c'. player_handle net i (PAttack tgt) c w = failed (ErrAttack (OpenID tgt) (ActorBusyError (GPlayer tgt))) c' w' \<and>
    postpone (ctrl c') = [\<lparr>pid = GPlayer tgt, preq = ask (ToPlayer (PDamage i (PRoom (pdata c)) (atk (pdata c))))\<rparr>]"
proof -
  obtain f a2 where nf: "next_from (ctrl c) = (f, a2)" by fastforce
  then have "postpone a2 = []" using next_from_sel(5) [of "ctrl c"] assms(3) by simp
  then show ?thesis
    using assms nf by (simp add: player_Attack_def ctx_APost_def APost_def poseponePost_def hasPostpone_def appendPostpone_queue)
qed

text \<open>Room number zero stands for no room: a player without a room that asks to join it is told that it has joined, and
  no room hears of it.\<close>

lemma room_zero_not_joined: "PRoom (pdata c) = RoomId 0 \<Longrightarrow> player_handle net i (PJoinRoom (RoomId 0)) c w = ok c w"
  by (simp add: player_JoinRoom_def)

text \<open>The world accepts a rate at which the reward of a hit is negative.\<close>

lemma rate_overflow: "scaled_exp 10 (2 ^ 60) < 0"
  by code_simp

subsection \<open>The configuration on its way from the world to a player\<close>

text \<open>The network's operations on the shared store are those of a shard, whose state is part of the world.\<close>

definition store_backed :: "('w \<Rightarrow> (Config, gid) storeState) \<Rightarrow> 'w gnet \<Rightarrow> bool" where
  "store_backed proj net \<longleftrightarrow>
     (\<forall>sh nm v info w. \<exists>(fp :: (gid, Config refreshReq, gerr, unit) fpost) fm mk opts now sp a w'.
        gpublish net sh (nm, v, info) w = (None, w') \<and>
        proj w' = fst (handle_publish fp fm mk opts now nm v info sp (proj w) a ())) \<and>
     (\<forall>i nm b w. \<exists>sp (a :: (gid, Config refreshReq, store_cb) sctl) now w'. \<forall>x.
        fst (handle_subscribe nm (GPlayer i) (Some b) sp (proj w) a) = Inr x \<longrightarrow>
          gsub net i nm b w = (Inr x, now, w') \<and> proj w' = fst (snd (handle_subscribe nm (GPlayer i) (Some b) sp (proj w) a)))"

lemma subscribe_published:
  assumes "map_of (entries s) nm = Some p" "hasValue (eheap s p)"
  shows "fst (handle_subscribe nm rd (Some b) sp s a) = Inr (version (eheap s p), evalue (eheap s p))"
  using assms by (simp add: handle_subscribe_def store_entry_def Let_def)

text \<open>After the world has set a rate, the next player that has no valid copy reads that rate.\<close>

lemma config_reaches_player:
  assumes "store_backed proj net" "store_wf (proj w)" "shardOf (gshards net) (kname ConfigKey) = Some sh" "0 < rate"
    and "gbind net ''Player'' = Some b" "\<And>now. cacheGet (\<lambda>_. True) now ConfigKey (Vars (pdata c)) = None"
  shows "\<exists>wc' w'. world_handle net (WSetConfig rate) False wc w = HReturn wc' w' (Some OkReply) None \<and>
    ExpRate (wConfig (state wc')) = rate \<and> fst (expRate net i c w') = rate"
proof -
  let ?wc = "wc\<lparr>state := (state wc)\<lparr>wConfig := (wConfig (state wc))\<lparr>ExpRate := rate\<rparr>\<rparr>\<rparr>"
  let ?cfg = "(wConfig (state wc))\<lparr>ExpRate := rate\<rparr>"
  have pm: "publishMessage ConfigKey ?cfg = Ret (kname ConfigKey, ?cfg, Some configKeyDef)"
    by (simp add: publishMessage_def ConfigKey_sel configKeyDef_def Define_def Let_def WithTTL_def)
  obtain fp :: "(gid, Config refreshReq, gerr, unit) fpost" and fm mk opts now sp a w'
    where pub: "gpublish net sh (kname ConfigKey, ?cfg, Some configKeyDef) w = (None, w')"
      "proj w' = fst (handle_publish fp fm mk opts now (kname ConfigKey) ?cfg (Some configKeyDef) sp (proj w) a ())"
    using assms(1) [unfolded store_backed_def, THEN conjunct1, rule_format, of sh "kname ConfigKey" ?cfg "Some configKeyDef" w] by blast
  obtain p e' s1 where e': "proj w' = set_entry p e' s1" "map_of (entries s1) (kname ConfigKey) = Some p" "hasValue e'" "evalue e' = Some ?cfg"
    using handle_publish_spec [OF assms(2), of fp fm mk opts now "kname ConfigKey" ?cfg "Some configKeyDef" sp a "()"] pub(2) by auto
  have sub: "fst (handle_subscribe (kname ConfigKey) (GPlayer i) (Some b) sp' (proj w') a') = Inr (version e', Some ?cfg)" for sp' a'
    using subscribe_published [of "proj w'" "kname ConfigKey" p "GPlayer i" b sp' a'] e' by (simp add: set_entry_def)
  obtain t w'' where "gsub net i (kname ConfigKey) b w' = (Inr (version e', Some ?cfg), t, w'')"
    using assms(1) [unfolded store_backed_def, THEN conjunct2, THEN spec [where x = i], THEN spec [where x = "kname ConfigKey"],
        THEN spec [where x = b], THEN spec [where x = w']] sub by blast
  then have "fst (expRate net i c w') = rate"
    using assms(5,6) by (simp add: expRate_def WatchFrom_def ConfigKey_sel)
  moreover have "world_handle net (WSetConfig rate) False wc w = HReturn ?wc w' (Some OkReply) None"
    using assms(3,4) pub(1) pm by (simp add: world_SetConfig_def publish_def PublishWaitFrom_def to_shard_def)
  ultimately show ?thesis by (intro exI [of _ ?wc] exI [of _ w']) simp
qed

end
