(* ===== verification/Game_Demo.thy ===== *)
theory Game_Demo
  imports Game_Play
begin

section \<open>The script of the example game\<close>

text \<open>
  \<open>cmd/engineering_example/demo/demo.go\<close>: a simulated client that logs two players in, lets them meet, talk and fight, and polls for
  what the game pushes. The game behind \<open>actor.Call\<close>, the clock and the \<open>select\<close> of \<open>sleep\<close> are an environment. The polling loops
  may run for ever in HOL as in Go, where the value is \<^const>\<open>None\<close>; that they end is a theorem. The texts of the printed lines are
  replaced by the values they show.
\<close>

subsection \<open>Environment\<close>

text \<open>\<open>dselect d\<close> is the \<open>select\<close> between the context and a timer of \<open>d\<close> nanoseconds: the error of the context, or the timer.\<close>

record 'w denv =
  dnow :: "'w \<Rightarrow> int"
  dselect :: "int \<Rightarrow> 'w \<Rightarrow> string option \<times> 'w"
  dcall :: "gid \<Rightarrow> greq \<Rightarrow> 'w \<Rightarrow> (gerror + grep) \<times> 'w"

text \<open>The monotonic clock: a call takes no negative time, and a timer does not fire early.\<close>

definition clock_ok :: "'w denv \<Rightarrow> bool" where
  "clock_ok E \<longleftrightarrow> (\<forall>i q w. dnow E w \<le> dnow E (snd (dcall E i q w)))
     \<and> (\<forall>d w. fst (dselect E d w) = None \<longrightarrow> dnow E w + d \<le> dnow E (snd (dselect E d w)))"

subsection \<open>Actions\<close>

datatype derr = DemoErr string gerror | DemoCtx string

datatype dline =
    DTitle int | DHit int | DShow string "Msg list" | DDrainFailed string derr | DSettled PlayerView PlayerView | DMember Brief | DRate int

type_synonym 'w dstate = "dline list \<times> 'w"
type_synonym ('w, 'x) act = "'w dstate \<Rightarrow> ((derr + 'x) \<times> 'w dstate) option"

definition dret :: "'x \<Rightarrow> ('w, 'x) act" where
  "dret x s = Some (Inr x, s)"

definition dbind :: "('w, 'x) act \<Rightarrow> ('x \<Rightarrow> ('w, 'y) act) \<Rightarrow> ('w, 'y) act" where
  "dbind m f s =
     (case m s of
        None \<Rightarrow> None
      | Some (Inl e, s') \<Rightarrow> Some (Inl e, s')
      | Some (Inr x, s') \<Rightarrow> f x s')"

definition printf :: "dline \<Rightarrow> ('w, unit) act" where
  "printf l s = Some (Inr (), fst s @ [l], snd s)"

text \<open>A call whose error is wrapped with a text.\<close>

definition demo_call :: "'w denv \<Rightarrow> string \<Rightarrow> gid \<Rightarrow> greq \<Rightarrow> ('w, grep) act" where
  "demo_call E what i q s =
     (let (r, w') = dcall E i q (snd s)
      in Some (case r of Inl e \<Rightarrow> Inl (DemoErr what e) | Inr x \<Rightarrow> Inr x, fst s, w'))"

definition demo_sleep :: "'w denv \<Rightarrow> int \<Rightarrow> 'w \<Rightarrow> derr option \<times> 'w" where
  "demo_sleep E d w = (let (r, w') = dselect E d w in (map_option DemoCtx r, w'))"

record conn =
  dcId :: ClientId
  dcPlayer :: PlayerId

definition demo_login :: "'w denv \<Rightarrow> string \<Rightarrow> ('w, conn) act" where
  "demo_login E openID =
     (let c = \<lparr>dcId = ClientId (''conn-'' @ openID), dcPlayer = PlayerId openID\<rparr>
      in dbind (demo_call E (''login '' @ openID) (GClient (dcId c)) (ToClient (CLogin openID))) (\<lambda>_. dret c))"

text \<open>The result type of a call is fixed by its request: the other replies do not occur.\<close>

fun view_of :: "grep \<Rightarrow> PlayerView" where
  "view_of (ViewReply v) = v"
| "view_of _ = \<lparr>vPlayer = [], vLevel = 0, vHP = 0, vMaxHP = 0, vAtk = 0, vGold = 0, vExp = 0, vRoom = 0, vExpRate = 0\<rparr>"

fun msgs_of :: "grep \<Rightarrow> Msg list" where
  "msgs_of (DrainReply ms) = ms"
| "msgs_of _ = []"

fun members_of :: "grep \<Rightarrow> Brief list" where
  "members_of (RoomReply r) = srMembers r"
| "members_of _ = []"

definition demo_status :: "'w denv \<Rightarrow> conn \<Rightarrow> ('w, PlayerView) act" where
  "demo_status E c =
     dbind (demo_call E (''status '' @ OpenID (dcPlayer c)) (GClient (dcId c)) (ToClient CStatus)) (\<lambda>r. dret (view_of r))"

definition demo_drain :: "'w denv \<Rightarrow> conn \<Rightarrow> 'w \<Rightarrow> (derr + Msg list) \<times> 'w" where
  "demo_drain E c w =
     (case dcall E (GClient (dcId c)) (ToClient CDrain) w of
        (Inl e, w') \<Rightarrow> (Inl (DemoErr (''drain '' @ OpenID (dcPlayer c)) e), w')
      | (Inr r, w') \<Rightarrow> (Inr (msgs_of r), w'))"

subsection \<open>Polling\<close>

definition poll_step :: int where
  "poll_step = 10 * 1000000"

partial_function (option) wait_loop :: "'w denv \<Rightarrow> conn \<Rightarrow> int \<Rightarrow> int \<Rightarrow> ('w, int) act" where
  "wait_loop E c want deadline s =
     (case demo_status E c s of
        None \<Rightarrow> None
      | Some (Inl e, s1) \<Rightarrow> Some (Inl e, s1)
      | Some (Inr v, s1) \<Rightarrow>
          if vExpRate v = want \<or> dnow E (snd s1) > deadline then Some (Inr (vExpRate v), s1)
          else (case demo_sleep E poll_step (snd s1) of
                  (Some e, w2) \<Rightarrow> Some (Inl e, fst s1, w2)
                | (None, w2) \<Rightarrow> wait_loop E c want deadline (fst s1, w2)))"

definition waitExpRate :: "'w denv \<Rightarrow> conn \<Rightarrow> int \<Rightarrow> ('w, int) act" where
  "waitExpRate E c want s = wait_loop E c want (dnow E (snd s) + 2 * 1000000000) s"

partial_function (option) expect_loop ::
  "'w denv \<Rightarrow> conn \<Rightarrow> nat \<Rightarrow> int \<Rightarrow> Msg list \<Rightarrow> 'w dstate \<Rightarrow> (Msg list \<times> 'w dstate) option" where
  "expect_loop E c n deadline got s =
     (case demo_drain E c (snd s) of
        (Inl e, w1) \<Rightarrow> Some (got, fst s @ [DDrainFailed (OpenID (dcPlayer c)) e], w1)
      | (Inr batch, w1) \<Rightarrow>
          if n \<le> length (got @ batch) \<or> dnow E w1 > deadline then Some (got @ batch, fst s, w1)
          else (case demo_sleep E poll_step w1 of
                  (Some e, w2) \<Rightarrow> Some (got @ batch, fst s, w2)
                | (None, w2) \<Rightarrow> expect_loop E c n deadline (got @ batch) (fst s, w2)))"

definition demo_expect :: "'w denv \<Rightarrow> conn \<Rightarrow> nat \<Rightarrow> ('w, Msg list) act" where
  "demo_expect E c n s = map_option (\<lambda>(got, s'). (Inr got, s')) (expect_loop E c n (dnow E (snd s) + 2 * 1000000000) [] s)"

subsection \<open>The script\<close>

definition demo_show :: "'w denv \<Rightarrow> string \<Rightarrow> conn \<Rightarrow> nat \<Rightarrow> ('w, unit) act" where
  "demo_show E who c n = dbind (demo_expect E c n) (\<lambda>ms. printf (DShow who ms))"

fun demo_join :: "'w denv \<Rightarrow> conn list \<Rightarrow> ('w, unit) act" where
  "demo_join E [] = dret ()"
| "demo_join E (c # cs) =
     dbind (demo_call E (OpenID (dcPlayer c) @ '' join'') (GClient (dcId c)) (ToClient (CJoin (RoomId 3)))) (\<lambda>_. demo_join E cs)"

definition demo_round :: "'w denv \<Rightarrow> conn \<Rightarrow> conn \<Rightarrow> int \<Rightarrow> ('w, unit) act" where
  "demo_round E alice bob r =
     dbind (demo_call E ''attack'' (GClient (dcId alice)) (ToClient (CAttack (dcPlayer bob)))) (\<lambda>_.
       let wait = (if r = 3 then 2 else 1) in
       dbind (printf (DHit r)) (\<lambda>_.
       dbind (demo_show E ''bob'' bob wait) (\<lambda>_. demo_show E ''alice'' alice wait)))"

fun demo_rounds :: "'w denv \<Rightarrow> conn \<Rightarrow> conn \<Rightarrow> int list \<Rightarrow> ('w, unit) act" where
  "demo_rounds E alice bob [] = dret ()"
| "demo_rounds E alice bob (r # rs) = dbind (demo_round E alice bob r) (\<lambda>_. demo_rounds E alice bob rs)"

fun demo_members :: "Brief list \<Rightarrow> ('w, unit) act" where
  "demo_members [] = dret ()"
| "demo_members (b # bs) = dbind (printf (DMember b)) (\<lambda>_. demo_members bs)"

definition demo_run :: "'w denv \<Rightarrow> string \<Rightarrow> ('w, unit) act" where
  "demo_run E chat =
     dbind (demo_login E ''alice'') (\<lambda>alice.
     dbind (demo_login E ''bob'') (\<lambda>bob.
     dbind (printf (DTitle 1)) (\<lambda>_.
     dbind (demo_show E ''alice'' alice 1) (\<lambda>_.
     dbind (demo_show E ''bob'' bob 1) (\<lambda>_.
     dbind (printf (DTitle 2)) (\<lambda>_.
     dbind (demo_join E [alice, bob]) (\<lambda>_.
     dbind (demo_show E ''alice'' alice 3) (\<lambda>_.
     dbind (demo_show E ''bob'' bob 2) (\<lambda>_.
     dbind (printf (DTitle 3)) (\<lambda>_.
     dbind (demo_call E ''say'' (GClient (dcId alice)) (ToClient (CSay chat))) (\<lambda>_.
     dbind (demo_show E ''alice'' alice 1) (\<lambda>_.
     dbind (demo_show E ''bob'' bob 1) (\<lambda>_.
     dbind (printf (DTitle 4)) (\<lambda>_.
     dbind (demo_rounds E alice bob [1, 2, 3]) (\<lambda>_.
     dbind (demo_status E alice) (\<lambda>aliceView.
     dbind (demo_status E bob) (\<lambda>bobView.
     dbind (printf (DSettled aliceView bobView)) (\<lambda>_.
     dbind (printf (DTitle 5)) (\<lambda>_.
     dbind (demo_call E ''room'' (GRoom (RoomId 3)) (ToRoom RStatus)) (\<lambda>room.
     dbind (demo_members (members_of room)) (\<lambda>_.
     dbind (printf (DTitle 6)) (\<lambda>_.
     dbind (demo_call E ''config'' (GWorld TheWorld) (ToWorld (WSetConfig 200))) (\<lambda>_.
     dbind (waitExpRate E alice 200) (\<lambda>rate.
     dbind (printf (DRate rate)) (\<lambda>_. printf (DTitle 7))))))))))))))))))))))))))"

subsection \<open>The script ends\<close>

text \<open>The reference for the polling loop: \<open>k\<close> drains, with a sleep between them, until one fails.\<close>

fun poll :: "'w denv \<Rightarrow> conn \<Rightarrow> nat \<Rightarrow> 'w \<Rightarrow> Msg list" where
  "poll E c 0 w = []"
| "poll E c (Suc k) w =
     (case demo_drain E c w of
        (Inl e, w1) \<Rightarrow> []
      | (Inr batch, w1) \<Rightarrow> batch @ poll E c k (snd (demo_sleep E poll_step w1)))"

lemma drain_time:
  assumes "clock_ok E" "demo_drain E c w = (r, w1)"
  shows "dnow E w \<le> dnow E w1"
proof -
  have "w1 = snd (dcall E (GClient (dcId c)) (ToClient CDrain) w)" using assms(2) by (auto simp: demo_drain_def split: prod.splits sum.splits)
  with assms(1) show ?thesis by (simp add: clock_ok_def)
qed

lemma sleep_time: "clock_ok E \<Longrightarrow> demo_sleep E d w = (None, w1) \<Longrightarrow> dnow E w + d \<le> dnow E w1"
  unfolding clock_ok_def demo_sleep_def by (metis (no_types, lifting) case_prod_beta fst_conv map_option_is_None snd_conv)

text \<open>An environment in which nothing fails.\<close>

definition steady :: "'w denv \<Rightarrow> conn \<Rightarrow> bool" where
  "steady E c \<longleftrightarrow> (\<forall>w. \<not> isl (fst (demo_drain E c w))) \<and> (\<forall>d w. fst (demo_sleep E d w) = None)"

text \<open>One turn of the loop: it is over, or the clock has moved on.\<close>

lemma expect_turn:
  assumes E: "clock_ok E"
  shows "(\<exists>got' s'. expect_loop E c n dl got s = Some (got', s') \<and> got' = got @ poll E c 1 (snd s)
        \<and> (steady E c \<longrightarrow> n \<le> length got' \<or> dl < dnow E (snd s')))
    \<or> (\<exists>w2. expect_loop E c n dl got s = expect_loop E c n dl (got @ poll E c 1 (snd s)) (fst s, w2)
        \<and> dnow E (snd s) + poll_step \<le> dnow E w2 \<and> dnow E (snd s) \<le> dl
        \<and> (\<forall>j. poll E c (Suc j) (snd s) = poll E c 1 (snd s) @ poll E c j w2))"
proof -
  obtain r w1 where d: "demo_drain E c (snd s) = (r, w1)" by fastforce
  have t: "dnow E (snd s) \<le> dnow E w1" by (rule drain_time [OF E d])
  note loop = expect_loop.simps [of E c n dl got s]
  show ?thesis
  proof (cases r)
    case (Inl e)
    with d have "\<not> steady E c" unfolding steady_def by (metis fst_conv sum.disc(1))
    moreover have "expect_loop E c n dl got s = Some (got, fst s @ [DDrainFailed (OpenID (dcPlayer c)) e], w1)" using loop d Inl by simp
    ultimately show ?thesis using d Inl by simp
  next
    case (Inr batch)
    obtain x w2 where sl: "demo_sleep E poll_step w1 = (x, w2)" by fastforce
    have poll: "poll E c (Suc j) (snd s) = batch @ poll E c j w2" for j using d Inr sl by simp
    have poll1: "poll E c 1 (snd s) = batch" using poll [of 0] by simp
    consider "n \<le> length (got @ batch) \<or> dnow E w1 > dl" | e where "x = Some e" "\<not> (n \<le> length (got @ batch) \<or> dnow E w1 > dl)"
      | "x = None" "\<not> (n \<le> length (got @ batch) \<or> dnow E w1 > dl)" by fastforce
    then show ?thesis
    proof cases
      case 1
      then have "expect_loop E c n dl got s = Some (got @ batch, fst s, w1)" using loop d Inr by simp
      with 1 poll1 show ?thesis by simp
    next
      case (2 e)
      then have "expect_loop E c n dl got s = Some (got @ batch, fst s, w2)" using loop d Inr sl by simp
      moreover from 2 sl have "\<not> steady E c" unfolding steady_def by (metis fst_conv option.distinct(1))
      ultimately show ?thesis using poll1 by simp
    next
      case 3
      then have "expect_loop E c n dl got s = expect_loop E c n dl (got @ batch) (fst s, w2)" using loop d Inr sl by simp
      moreover have "dnow E w1 + poll_step \<le> dnow E w2" using sleep_time [OF E] sl 3 by blast
      ultimately show ?thesis using 3 t poll poll1 by (intro disjI2 exI [of _ w2]) simp
    qed
  qed
qed

lemma expect_loop_ends:
  assumes E: "clock_ok E" and "dl < dnow E (snd s) + int k * poll_step"
  shows "\<exists>got' s' j. expect_loop E c n dl got s = Some (got', s') \<and> j \<le> Suc k \<and> got' = got @ poll E c j (snd s)
    \<and> (steady E c \<longrightarrow> n \<le> length got' \<or> dl < dnow E (snd s'))"
  using assms(2)
proof (induction k arbitrary: got s)
  case 0
  with expect_turn [OF E, of c n dl got s] show ?case by force
next
  case (Suc k)
  from expect_turn [OF E, of c n dl got s] show ?case
  proof (elim disjE exE conjE)
    fix got' s'
    assume "expect_loop E c n dl got s = Some (got', s')" "got' = got @ poll E c 1 (snd s)"
      "steady E c \<longrightarrow> n \<le> length got' \<or> dl < dnow E (snd s')"
    then show ?case by (intro exI [of _ got'] exI [of _ s'] exI [of _ 1]) simp
  next
    fix w2
    assume a: "expect_loop E c n dl got s = expect_loop E c n dl (got @ poll E c 1 (snd s)) (fst s, w2)"
      "dnow E (snd s) + poll_step \<le> dnow E w2" "\<forall>j. poll E c (Suc j) (snd s) = poll E c 1 (snd s) @ poll E c j w2"
    have "dl < dnow E (snd (fst s, w2)) + int k * poll_step" using Suc.prems a(2) by (simp add: algebra_simps)
    from Suc.IH [OF this, of "got @ poll E c 1 (snd s)"] obtain got' s' j where
      r: "expect_loop E c n dl (got @ poll E c 1 (snd s)) (fst s, w2) = Some (got', s')" "j \<le> Suc k"
      "got' = (got @ poll E c 1 (snd s)) @ poll E c j w2" "steady E c \<longrightarrow> n \<le> length got' \<or> dl < dnow E (snd s')" by auto
    have "got' = got @ poll E c (Suc j) (snd s)" unfolding r(3) a(3) [THEN spec] append_assoc by (rule refl)
    with a(1) r(1,2,4) show ?case by (intro exI [of _ got'] exI [of _ s'] exI [of _ "Suc j"]) (simp del: poll.simps)
  qed
qed

lemma expect_collects:
  assumes "clock_ok E"
  shows "\<exists>got s' j. demo_expect E c n s = Some (Inr got, s') \<and> j \<le> 202 \<and> got = poll E c j (snd s)
    \<and> (steady E c \<longrightarrow> n \<le> length got \<or> dnow E (snd s) + 2 * 1000000000 < dnow E (snd s'))"
proof -
  have "dnow E (snd s) + 2 * 1000000000 < dnow E (snd s) + int 201 * poll_step" by (simp add: poll_step_def)
  from expect_loop_ends [OF assms this, of c n "[]"] show ?thesis by (auto simp: demo_expect_def)
qed

text \<open>Actions that return.\<close>

definition returns :: "('w, 'x) act \<Rightarrow> bool" where
  "returns m \<longleftrightarrow> (\<forall>s. \<exists>r s'. m s = Some (r, s'))"

lemma returns_bind: "returns m \<Longrightarrow> (\<And>x. returns (f x)) \<Longrightarrow> returns (dbind m f)"
  unfolding returns_def dbind_def by (metis (no_types, lifting) option.simps(5) old.prod.case sum.case_eq_if)

lemma returns_call [intro]: "returns (demo_call E what i q)"
  by (simp add: returns_def demo_call_def case_prod_beta)

lemma returns_basic [intro]: "returns (dret x)" "returns (printf l)"
  by (simp_all add: returns_def dret_def printf_def)

lemma returns_expect: "clock_ok E \<Longrightarrow> returns (demo_expect E c n)"
  using expect_collects [of E c n] unfolding returns_def by blast

lemma returns_status: "returns (demo_status E c)"
  unfolding demo_status_def by (intro returns_bind returns_call returns_basic)

lemma status_time:
  assumes "clock_ok E" "demo_status E c s = Some (r, s')"
  shows "dnow E (snd s) \<le> dnow E (snd s')"
proof -
  let ?r = "dcall E (GClient (dcId c)) (ToClient CStatus) (snd s)"
  have "snd s' = snd ?r"
    using assms(2) by (auto simp: demo_status_def dbind_def demo_call_def dret_def case_prod_beta split: sum.splits)
  with assms(1) show ?thesis by (simp add: clock_ok_def)
qed

lemma wait_loop_ends:
  assumes E: "clock_ok E" and "dl < dnow E (snd s) + int k * poll_step"
  shows "\<exists>r s'. wait_loop E c want dl s = Some (r, s')"
  using assms(2)
proof (induction k arbitrary: s)
  case 0
  obtain r s1 where st: "demo_status E c s = Some (r, s1)" using returns_status [of E c] unfolding returns_def by blast
  with status_time [OF E st] 0 show ?case by (cases r) (simp_all add: wait_loop.simps [of E c want dl s])
next
  case (Suc k)
  note loop = wait_loop.simps [of E c want dl s]
  obtain r s1 where st: "demo_status E c s = Some (r, s1)" using returns_status [of E c] unfolding returns_def by blast
  obtain x w2 where sl: "demo_sleep E poll_step (snd s1) = (x, w2)" by fastforce
  show ?case
  proof (cases "isl r \<or> vExpRate (projr r) = want \<or> dnow E (snd s1) > dl \<or> x \<noteq> None")
    case True
    with loop st sl show ?thesis by (cases r; cases x) auto
  next
    case False
    then have rec: "wait_loop E c want dl s = wait_loop E c want dl (fst s1, w2)" using loop st sl by (cases r) auto
    have "dnow E (snd s1) + poll_step \<le> dnow E w2" using sleep_time [OF E, of poll_step "snd s1" w2] sl False by simp
    then have "dl < dnow E (snd (fst s1, w2)) + int k * poll_step"
      using status_time [OF E st] Suc.prems by (simp add: algebra_simps)
    from Suc.IH [OF this] rec show ?thesis by simp
  qed
qed

lemma waitExpRate_ends:
  assumes "clock_ok E"
  shows "\<exists>r s'. waitExpRate E c want s = Some (r, s')"
proof -
  have "dnow E (snd s) + 2 * 1000000000 < dnow E (snd s) + int 201 * poll_step" by (simp add: poll_step_def)
  from wait_loop_ends [OF assms this] show ?thesis by (simp add: waitExpRate_def)
qed

lemma returns_wait: "clock_ok E \<Longrightarrow> returns (waitExpRate E c want)"
  using waitExpRate_ends unfolding returns_def by blast

lemma returns_parts:
  assumes "clock_ok E"
  shows "returns (demo_login E openId)" "returns (demo_status E c)" "returns (demo_show E who c n)" "returns (demo_join E cs)"
    "returns (demo_rounds E alice bob rs)" "returns (demo_members bs)"
proof -
  show "returns (demo_login E openId)"
    unfolding demo_login_def Let_def by (intro returns_bind returns_call returns_basic)
  show "returns (demo_status E c)" by (rule returns_status)
  show sh: "returns (demo_show E who c n)" for who c n
    unfolding demo_show_def by (intro returns_bind returns_expect [OF assms] returns_basic)
  show "returns (demo_join E cs)" by (induction cs) (auto intro!: returns_bind)
  show "returns (demo_members bs)" by (induction bs) (auto intro!: returns_bind)
  have "returns (demo_round E alice bob r)" for r
    unfolding demo_round_def Let_def by (intro returns_bind returns_call returns_basic sh)
  then show "returns (demo_rounds E alice bob rs)" by (induction rs) (auto intro!: returns_bind)
qed


text \<open>An environment with one connection: its inbox is drained by the handler of the game, other calls are acknowledged.\<close>

record tworld =
  tclock :: int
  tinbox :: "Msg list"

definition tdrain :: "tworld \<Rightarrow> (gerror + grep) \<times> tworld" where
  "tdrain w =
     (case client_Drain \<lparr>ctrl = newActorControl ''Client:conn-alice'', state = \<lparr>Self_player = PlayerId ''alice'', Inbox = tinbox w\<rparr>\<rparr> () of
        HReturn c _ (Some r) None \<Rightarrow> (Inr r, w\<lparr>tinbox := Inbox (state c)\<rparr>)
      | _ \<Rightarrow> (Inl (UserErr ErrNotLoggedIn), w))"

definition tenv :: "tworld denv" where
  "tenv =
     \<lparr>dnow = tclock, dselect = (\<lambda>d w. (None, w\<lparr>tclock := tclock w + d\<rparr>)),
      dcall = (\<lambda>i q w. if q = ToClient CDrain then tdrain w else (Inr OkReply, w))\<rparr>"

definition tconn :: conn where
  "tconn = \<lparr>dcId = ClientId ''conn-alice'', dcPlayer = PlayerId ''alice''\<rparr>"

lemma tdrain_eq: "tdrain w = (Inr (DrainReply (tinbox w)), w\<lparr>tinbox := []\<rparr>)"
  by (simp add: tdrain_def client_Drain_def)


end
