(* ===== verification/Shared_Delivery.thy ===== *)
theory Shared_Delivery
  imports Shared
begin

section \<open>Delivery of shared values\<close>

text \<open>
  Two views of a shard of \<open>shared/store.go\<close> as a whole. First, the entries of a shard implement a map from names to
  versioned values: every message and timer is an operation of that map or leaves it alone. Second, no publication is lost:
  in every order of messages and timers each registered reader has been handed the current value of its key, in the
  reply to its subscription or in a push, or the refresh timer of the key is armed and will push it. The timers are served as
  \<open>actor/timer.go\<close> serves them.
\<close>

subsection \<open>Timers of a control block that stay armed\<close>

text \<open>A timer is live when the table still maps its identifier to its timer object: serving it will call its function.\<close>

definition timer_live :: "('a, 'q, 'x, 'k) ActorControl \<Rightarrow> 'k timerStub \<Rightarrow> bool" where
  "timer_live a st \<longleftrightarrow> st \<in> set (runtimeTimers a) \<and> map_option timer (map_of (timers a) (stubId st)) = Some (stubT st)"

text \<open>
  While the counter has not wrapped, the identifier of a timer is the number of timers created up to it. The flush timer of
  the postpone queue is the only timer the control block stops itself.
\<close>

definition timers_ok :: "('a, 'q, 'x, 'k) ActorControl \<Rightarrow> bool" where
  "timers_ok a \<longleftrightarrow> timerId a = int (nextTimer a)
     \<and> (\<forall>i it. map_of (timers a) i = Some it \<longrightarrow> i = int (timer it) + 1 \<and> timer it < nextTimer a)
     \<and> (\<forall>st\<in>set (runtimeTimers a). stubId st = int (stubT st) + 1 \<and> stubT st < nextTimer a)
     \<and> (\<forall>st\<in>set (runtimeTimers a). postponeTimer a \<noteq> 0 \<longrightarrow> stubId st = postponeTimer a \<longrightarrow> stubFn st = PostponeFlush)
     \<and> postponeTimer a \<le> int (nextTimer a) \<and> distinct (map stubT (runtimeTimers a))"

text \<open>What an operation keeps of the timers, as long as fewer than \<open>2\<^sup>6\<^sup>3 - 2\<close> timers have been created.\<close>

definition keeps_timers :: "('a, 'q, 'x, 'k) ActorControl \<Rightarrow> ('a, 'q, 'x, 'k) ActorControl \<Rightarrow> bool" where
  "keeps_timers a a' \<longleftrightarrow> nextTimer a \<le> nextTimer a' \<and>
     (int (nextTimer a') + 1 < MaxInt \<longrightarrow> timers_ok a \<longrightarrow>
        timers_ok a' \<and> (\<forall>st k. timer_live a st \<longrightarrow> stubFn st = UserFn k \<longrightarrow> timer_live a' st))"

lemma keeps_timers_refl [simp]: "keeps_timers a a"
  by (simp add: keeps_timers_def)

lemma keeps_timers_trans: "keeps_timers a b \<Longrightarrow> keeps_timers b c \<Longrightarrow> keeps_timers a c"
  unfolding keeps_timers_def by auto

lemma keeps_timers_frame:
  assumes "timers a' = timers a" "timerId a' = timerId a" "runtimeTimers a' = runtimeTimers a"
    "nextTimer a' = nextTimer a" "postponeTimer a' = postponeTimer a"
  shows "keeps_timers a a'"
proof -
  have "timers_ok a' = timers_ok a" "\<And>st. timer_live a' st = timer_live a st"
    by (simp_all add: timers_ok_def timer_live_def assms)
  then show ?thesis by (simp add: keeps_timers_def assms)
qed

lemma timers_ok_id:
  assumes "timers_ok a"
  shows "0 \<le> timerId a" "\<forall>i. map_of (timers a) i \<noteq> None \<longrightarrow> 1 \<le> i \<and> i \<le> timerId a"
proof -
  show "0 \<le> timerId a" using assms by (simp add: timers_ok_def)
  show "\<forall>i. map_of (timers a) i \<noteq> None \<longrightarrow> 1 \<le> i \<and> i \<le> timerId a"
  proof (intro allI impI)
    fix i
    assume "map_of (timers a) i \<noteq> None"
    then obtain it where "map_of (timers a) i = Some it" by blast
    with assms have "i = int (timer it) + 1" "timer it < nextTimer a" "timerId a = int (nextTimer a)"
      by (auto simp: timers_ok_def)
    then show "1 \<le> i \<and> i \<le> timerId a" by simp
  qed
qed

lemma Timer_runtime [simp]:
  "runtimeTimers (snd (Timer n d cb a)) =
     runtimeTimers a @ [\<lparr>stubFn = cb, stubId = fst (Timer n d cb a), stubT = nextTimer a, stubDelay = d\<rparr>]"
  "nextTimer (snd (Timer n d cb a)) = Suc (nextTimer a)"
  by (simp_all add: Timer_eq Let_def)

lemma Timer_ok:
  assumes ok: "timers_ok a" and small: "int (nextTimer a) + 2 < MaxInt"
  shows "timers_ok (snd (Timer n d cb a))"
    and "timer_live a st \<Longrightarrow> timer_live (snd (Timer n d cb a)) st"
    and "timer_live (snd (Timer n d cb a)) \<lparr>stubFn = cb, stubId = fst (Timer n d cb a), stubT = nextTimer a, stubDelay = d\<rparr>"
proof -
  have idn: "timerId a = int (nextTimer a)" using ok by (simp add: timers_ok_def)
  have bound: "timerId a + 1 < MaxInt" using small idn by simp
  note T = Timer_inv_eq [OF timers_ok_id [OF ok] bound, where n = n and d = d and fn = cb]
  show "timers_ok (snd (Timer n d cb a))"
    using ok unfolding timers_ok_def by (auto simp: T idn intro: less_SucI)
  show "timer_live (snd (Timer n d cb a)) st" if "timer_live a st"
  proof -
    from that ok have "stubId st = int (stubT st) + 1" "stubT st < nextTimer a"
      by (auto simp: timer_live_def timers_ok_def)
    with that show ?thesis by (auto simp: timer_live_def T idn)
  qed
  show "timer_live (snd (Timer n d cb a)) \<lparr>stubFn = cb, stubId = fst (Timer n d cb a), stubT = nextTimer a, stubDelay = d\<rparr>"
    by (simp add: timer_live_def T idn)
qed

lemma keeps_timers_Timer: "keeps_timers a (snd (Timer n d cb a))"
  unfolding keeps_timers_def using Timer_ok(1) [of a n d cb] Timer_ok(2) [of a _ n d cb] by simp

lemma keeps_timers_stopPostponeFlush: "keeps_timers a (stopPostponeFlush a)"
proof -
  have "timers_ok (stopPostponeFlush a)" if ok: "timers_ok a"
    using ok by (auto simp: timers_ok_def stopPostponeFlush_def StopTimer_def time_Stop_def alist_lookup distinct_map_filter split: option.splits if_splits)
  moreover have "timer_live (stopPostponeFlush a) st" if ok: "timers_ok a" and lv: "timer_live a st" and uf: "stubFn st = UserFn k" for st k
  proof -
    have ne: "postponeTimer a \<noteq> 0 \<longrightarrow> stubId st \<noteq> postponeTimer a"
      using ok lv uf by (auto simp: timers_ok_def timer_live_def)
    have "stubT st \<noteq> timer it" if "map_of (timers a) (postponeTimer a) = Some it" "postponeTimer a \<noteq> 0" for it
      using that ne ok lv by (auto simp: timers_ok_def timer_live_def)
    with ne lv show ?thesis
      by (auto simp: timer_live_def stopPostponeFlush_def StopTimer_def time_Stop_def alist_lookup split: option.splits)
  qed
  moreover have "nextTimer (stopPostponeFlush a) = nextTimer a"
    by (simp add: stopPostponeFlush_def StopTimer_def split: option.splits)
  ultimately show ?thesis unfolding keeps_timers_def by auto
qed

lemma keeps_timers_armPostponeFlush: "keeps_timers a (armPostponeFlush a)"
proof (cases "postponeTimer a \<noteq> 0 \<or> postpone a = []")
  case True
  then show ?thesis by (auto simp: armPostponeFlush_def)
next
  case False
  let ?T = "Timer ''PostponeFlush'' postponeFlushInterval PostponeFlush a"
  have eq: "armPostponeFlush a = (snd ?T)\<lparr>postponeTimer := fst ?T\<rparr>"
    using False by (simp add: armPostponeFlush_def case_prod_beta)
  have "timers_ok (armPostponeFlush a)" if ok: "timers_ok a" and small: "int (nextTimer a) + 2 < MaxInt"
  proof -
    have idn: "timerId a = int (nextTimer a)" using ok by (simp add: timers_ok_def)
    have fstT: "fst ?T = int (nextTimer a) + 1"
      using Timer_inv_eq(1) [OF timers_ok_id [OF ok]] small idn by simp
    have old: "\<forall>st\<in>set (runtimeTimers a). stubId st \<noteq> int (nextTimer a) + 1"
      using ok by (auto simp: timers_ok_def)
    from Timer_ok(1) [OF ok small, of "''PostponeFlush''" postponeFlushInterval PostponeFlush] old fstT
    show ?thesis unfolding eq timers_ok_def by auto
  qed
  moreover have "timer_live (armPostponeFlush a) st" if "timers_ok a" "int (nextTimer a) + 2 < MaxInt" "timer_live a st" for st
    using Timer_ok(2) [OF that(1,2,3), of "''PostponeFlush''" postponeFlushInterval PostponeFlush] by (simp add: eq timer_live_def)
  ultimately show ?thesis unfolding keeps_timers_def by (simp add: eq)
qed

lemma keeps_timers_appendPostpone: "keeps_timers a (appendPostpone i q a)"
  unfolding appendPostpone_def
  by (rule keeps_timers_trans [OF keeps_timers_frame keeps_timers_armPostponeFlush]) simp_all

lemma keeps_timers_fold_append: "keeps_timers a (fold (\<lambda>i. appendPostpone i q) is a)"
  by (induction "is" arbitrary: a) (auto intro: keeps_timers_trans keeps_timers_appendPostpone)

lemma keeps_timers_poseponePost: "keeps_timers a (fst (poseponePost fp a w))"
proof (cases rule: poseponePost_cases [of a fp w])
  case idle
  then show ?thesis by simp
next
  case (flushed kept c w1)
  let ?a2 = "a\<lparr>seqCounter := c, postpone := kept, postponeSet := pid ` set kept\<rparr>"
  have "keeps_timers a ?a2" by (rule keeps_timers_frame) simp_all
  moreover from keeps_timers_trans [OF this keeps_timers_stopPostponeFlush]
  have "keeps_timers a (stopPostponeFlush ?a2)" .
  moreover have "fst (poseponePost fp a w) = (if kept = [] then stopPostponeFlush ?a2 else ?a2)"
    using flushed(4) by (simp only: Let_def fst_conv)
  ultimately show ?thesis by (simp only: split: if_split) simp
qed

lemma keeps_timers_next_from: "keeps_timers a (snd (next_from a))"
  by (rule keeps_timers_frame) simp_all

lemmas keeps_timers_intros =
  keeps_timers_poseponePost keeps_timers_next_from keeps_timers_fold_append keeps_timers_Timer

lemma keeps_timers_AMulticast: "keeps_timers a (fst (snd (AMulticast fp fm ids q a w)))"
proof -
  obtain a1 w1 where p: "poseponePost fp a w = (a1, w1)" by fastforce
  obtain f a2 where nf: "next_from a1 = (f, a2)" by fastforce
  have a2: "keeps_timers a a2"
    using keeps_timers_trans [OF keeps_timers_poseponePost [of a fp w] keeps_timers_next_from]
    by (simp add: p nf)
  obtain p0 np where sp: "splitPostpone a1 ids = (p0, np)" by fastforce
  obtain res w2 where f2: "fm w1 f np q = (res, w2)" by fastforce
  show ?thesis
    using a2 keeps_timers_trans [OF keeps_timers_trans [OF a2 keeps_timers_fold_append] keeps_timers_fold_append]
    by (cases res) (simp_all add: AMulticast_def p nf sp f2 case_prod_beta)
qed

lemma keeps_timers_deliver_subs: "keeps_timers a (fst (snd (deliver_subs fp fm mk req bs a w)))"
proof (induction bs arbitrary: a w)
  case Nil
  then show ?case by simp
next
  case (Cons x bs)
  obtain b rs where x: "x = (b, rs)" by (cases x)
  have "keeps_timers a (fst (snd (bind_deliver fp fm mk rs req a w)))"
    using keeps_timers_AMulticast [of a fp fm rs "mk req" w]
    by (auto simp: bind_deliver_def split: prod.splits sum.splits)
  with keeps_timers_trans [OF _ Cons.IH] show ?case by (simp add: x Let_def case_prod_beta)
qed

lemma keeps_timers_sendRefresh: "keeps_timers a (fst (snd (sendRefresh fp fm mk now e a w)))"
  by (simp add: sendRefresh_def Let_def case_prod_beta keeps_timers_deliver_subs)

text \<open>None of these operations opens or closes the activation.\<close>

lemma Timer_active [simp]: "active (snd (Timer n d cb a)) = active a"
  by (simp add: Timer_eq Let_def)

lemma appendPostpone_active [simp]: "active (appendPostpone i q a) = active a"
  by (simp add: appendPostpone_def armPostponeFlush_def case_prod_beta)

lemma fold_append_active [simp]: "active (fold (\<lambda>i. appendPostpone i q) is a) = active a"
  by (induction "is" arbitrary: a) simp_all

lemma poseponePost_active [simp]: "active (fst (poseponePost fp a w)) = active a"
  by (cases rule: poseponePost_cases [of a fp w]) (simp_all add: Let_def)

lemma AMulticast_active [simp]: "active (fst (snd (AMulticast fp fm ids q a w))) = active a"
proof -
  obtain a1 w1 where p: "poseponePost fp a w = (a1, w1)" by fastforce
  have a1: "active a1 = active a" using poseponePost_active [of fp a w] by (simp add: p)
  obtain f a2 where nf: "next_from a1 = (f, a2)" by fastforce
  have a2: "active a2 = active a" using next_from_sel(1) [of a1] a1 by (simp add: nf)
  obtain p0 np where sp: "splitPostpone a1 ids = (p0, np)" by fastforce
  obtain res w2 where f2: "fm w1 f np q = (res, w2)" by fastforce
  show ?thesis using a2 by (cases res) (simp_all add: AMulticast_def p nf sp f2 case_prod_beta)
qed

lemma deliver_subs_active [simp]: "active (fst (snd (deliver_subs fp fm mk req bs a w))) = active a"
proof (induction bs arbitrary: a w)
  case Nil
  then show ?case by simp
next
  case (Cons x bs)
  obtain b rs where x: "x = (b, rs)" by (cases x)
  obtain r a1 w1 where m: "AMulticast fp fm rs (mk req) a w = (r, a1, w1)" by (metis prod_cases3)
  have "active (fst (snd (bind_deliver fp fm mk rs req a w))) = active a"
    using AMulticast_active [of fp fm rs "mk req" a w] by (cases r) (simp_all add: bind_deliver_def m)
  with Cons.IH show ?case by (simp add: x Let_def case_prod_beta)
qed

lemma scheduleRefresh_active [simp]: "active (fst (snd (scheduleRefresh fp fm mk now p cd s a w))) = active a"
  by (simp add: scheduleRefresh_def sendRefresh_def Let_def case_prod_beta)

lemma handle_publish_active:
  "active (fst (snd (handle_publish fp fm mk opts now n v info sp s a w))) = (sp \<or> active a)"
  by (simp add: handle_publish_def Let_def case_prod_beta scheduleSweep_def Open_def)

subsection \<open>What a reader has been handed\<close>

text \<open>
  The transport with a record of its attempts. A request has been handed to a reader when it was put to the manager's send
  for it, or waits in the postpone queue of the shard's control block.
\<close>

definition log_fp :: "('a, 'q, 'e, 'w) fpost \<Rightarrow> ('a, 'q, 'e, 'w \<times> ('a \<times> 'q) list) fpost" where
  "log_fp fp wl f i q = (let (r, w') = fp (fst wl) f i q in (r, (w', snd wl @ [(i, q)])))"

definition log_fm :: "('a, 'q, 'e, 'w) fmulticast \<Rightarrow> ('a, 'q, 'e, 'w \<times> ('a \<times> 'q) list) fmulticast" where
  "log_fm fm wl f is q = (let (r, w') = fm (fst wl) f is q in (r, (w', snd wl @ map (\<lambda>i. (i, q)) is)))"

definition handed :: "('a, 'q, 'x, 'k) ActorControl \<Rightarrow> 'w \<times> ('a \<times> 'q) list \<Rightarrow> 'a \<Rightarrow> 'q \<Rightarrow> bool" where
  "handed a wl i q \<longleftrightarrow> (i, q) \<in> set (snd wl) \<or> \<lparr>pid = i, preq = q\<rparr> \<in> set (postpone a)"

definition keeps_handed ::
  "('a, 'q, 'x, 'k) ActorControl \<Rightarrow> 'w \<times> ('a \<times> 'q) list \<Rightarrow> ('a, 'q, 'x, 'k) ActorControl \<Rightarrow> 'w \<times> ('a \<times> 'q) list \<Rightarrow> bool" where
  "keeps_handed a w a' w' \<longleftrightarrow> (\<forall>i q. handed a w i q \<longrightarrow> handed a' w' i q)"

lemma keeps_handed_trans: "keeps_handed a w b u \<Longrightarrow> keeps_handed b u c v \<Longrightarrow> keeps_handed a w c v"
  by (simp add: keeps_handed_def)

lemma keeps_handed_refl [simp]: "keeps_handed a w a w"
  by (simp add: keeps_handed_def)

lemma keeps_handedI:
  "set (snd w) \<subseteq> set (snd w') \<Longrightarrow> set (postpone a) \<subseteq> set (postpone a') \<Longrightarrow> keeps_handed a w a' w'"
  by (auto simp: keeps_handed_def handed_def)

text \<open>A retry puts every item of the queue to the transport.\<close>

lemma retry_items_log:
  assumes "retry_items (log_fp fp) xs a wl = (kept, a', wl')"
  shows "set (snd wl') = set (snd wl) \<union> (\<lambda>x. (pid x, preq x)) ` set xs"
  using assms
proof (induction xs arbitrary: a wl kept a' wl')
  case Nil
  then show ?case by simp
next
  case (Cons x xs)
  obtain f a1 where nf: "next_from a = (f, a1)" by fastforce
  obtain err w1 where f1: "fp (fst wl) f (pid x) (preq x) = (err, w1)" by fastforce
  obtain k2 a2 w2 where r: "retry_items (log_fp fp) xs a1 (w1, snd wl @ [(pid x, preq x)]) = (k2, a2, w2)"
    by (metis prod_cases3)
  have lf: "log_fp fp wl f (pid x) (preq x) = (err, (w1, snd wl @ [(pid x, preq x)]))"
    by (simp add: log_fp_def f1)
  from Cons.prems have "wl' = w2" by (simp add: nf lf r)
  with Cons.IH [OF r] show ?case by auto
qed

lemma poseponePost_handed:
  assumes "poseponePost (log_fp fp) a wl = (a1, wl1)"
  shows "keeps_handed a wl a1 wl1"
proof (cases rule: poseponePost_cases [of a "log_fp fp" wl])
  case idle
  with assms show ?thesis by simp
next
  case (flushed kept c w1)
  have w1: "wl1 = w1" using assms flushed(4) by simp
  from retry_items_log [OF flushed(3)] w1
  have "set (snd wl1) = set (snd wl) \<union> (\<lambda>x. (pid x, preq x)) ` set (postpone a)" by simp
  then show ?thesis by (force simp: keeps_handed_def handed_def)
qed

text \<open>A multicast that finds the group hands its request to every target: at once, or through the queue.\<close>

lemma AMulticast_handed:
  assumes ok: "\<And>w f is q. \<not> isl (fst (fm w f is q))"
    and res: "AMulticast (log_fp fp) (log_fm fm) ids q a wl = (r, a', wl')"
  shows "keeps_handed a wl a' wl'" and "i \<in> set ids \<Longrightarrow> handed a' wl' i q"
proof -
  obtain a1 wl1 where p: "poseponePost (log_fp fp) a wl = (a1, wl1)"
    by (cases "poseponePost (log_fp fp) a wl")
  let ?p = "filter (hasPostpone a1) ids" and ?np = "filter (\<lambda>i. \<not> hasPostpone a1 i) ids"
  obtain f a2 where nf: "next_from a1 = (f, a2)" by fastforce
  then have a2: "postpone a2 = postpone a1" using next_from_sel(5) [of a1] by simp
  obtain r2 w2 where f2: "fm (fst wl1) f ?np q = (r2, w2)" by fastforce
  with ok [of "fst wl1" f ?np q] obtain l0 where l0: "r2 = Inr l0" by (cases r2) auto
  obtain b nb where sp: "splitIdErr l0 = (b, nb)" by fastforce
  have a': "a' = fold (\<lambda>i. appendPostpone i q) ?p (fold (\<lambda>i. appendPostpone i q) b a2)"
    and wl': "wl' = (w2, snd wl1 @ map (\<lambda>i. (i, q)) ?np)"
    using res by (simp_all add: AMulticast_def p nf splitPostpone_def log_fm_def f2 l0 sp)
  have pp: "postpone a' = postpone a1 @ map (\<lambda>i. \<lparr>pid = i, preq = q\<rparr>) (b @ ?p)"
    by (simp add: a' fold_appendPostpone a2)
  have "keeps_handed a1 wl1 a' wl'"
    by (rule keeps_handedI) (auto simp: pp wl')
  with poseponePost_handed [OF p] show "keeps_handed a wl a' wl'" by (rule keeps_handed_trans)
  show "handed a' wl' i q" if "i \<in> set ids"
    using that by (auto simp: handed_def wl' pp)
qed

lemma fold_bind_remove: "set (fold (\<lambda>i rs. bind_remove rs i) gone rs) \<subseteq> set rs"
  by (induction gone arbitrary: rs) (force simp: bind_remove_def)+

lemma deliver_subs_handed:
  assumes ok: "\<And>w f is q. \<not> isl (fst (fm w f is q))"
    and res: "deliver_subs (log_fp fp) (log_fm fm) mk req bs a wl = (bs', a', wl')"
  shows "keeps_handed a wl a' wl' \<and>
    (\<forall>b rs i. (b, rs) \<in> set bs \<union> set bs' \<longrightarrow> i \<in> set rs \<longrightarrow> handed a' wl' i (mk req))"
  using res
proof (induction bs arbitrary: a wl bs' a' wl')
  case Nil
  then show ?case by simp
next
  case (Cons x bs)
  obtain b rs where x: "x = (b, rs)" by (cases x)
  obtain gone a1 wl1 where d: "bind_deliver (log_fp fp) (log_fm fm) mk rs req a wl = (gone, a1, wl1)"
    by (metis prod_cases3)
  obtain bs2 a2 wl2 where r: "deliver_subs (log_fp fp) (log_fm fm) mk req bs a1 wl1 = (bs2, a2, wl2)"
    by (metis prod_cases3)
  have eqs: "bs' = (b, fold (\<lambda>i rs. bind_remove rs i) gone rs) # bs2" "a' = a2" "wl' = wl2"
    using Cons.prems by (simp_all add: x d r)
  note IH = Cons.IH [OF r]
  have one: "keeps_handed a wl a1 wl1 \<and> (\<forall>i\<in>set rs. handed a1 wl1 i (mk req))"
  proof (cases "rs = []")
    case True
    with d show ?thesis by (simp add: bind_deliver_def)
  next
    case False
    obtain r3 a3 wl3 where m: "AMulticast (log_fp fp) (log_fm fm) rs (mk req) a wl = (r3, a3, wl3)"
      by (metis prod_cases3)
    have "a1 = a3" "wl1 = wl3" using d False by (auto simp: bind_deliver_def m split: sum.splits)
    then show ?thesis using AMulticast_handed [OF ok m] by simp
  qed
  then have kept: "keeps_handed a wl a2 wl2" using IH keeps_handed_trans by blast
  have "handed a2 wl2 i (mk req)" if "i \<in> set rs" for i
    using one IH that by (simp add: keeps_handed_def)
  with IH kept fold_bind_remove [of gone rs] show ?case unfolding eqs x by auto
qed

subsection \<open>One shard\<close>

text \<open>
  Serving a timer of a shard: \<open>timerInvoke.Invoke\<close> with the three callbacks a shard has, the flush of the postpone queue, the
  refresh of an entry and the sweep.
\<close>

definition store_timer ::
  "('a, 'q, 'e, 'w) fpost \<Rightarrow> ('a, 'q, 'e, 'w) fmulticast \<Rightarrow> ('v refreshReq \<Rightarrow> 'q) \<Rightarrow> Options \<Rightarrow> int \<Rightarrow> store_cb timerStub
    \<Rightarrow> ('v, 'a) storeState \<Rightarrow> ('a, 'q, store_cb) sctl \<Rightarrow> 'w \<Rightarrow> ('v, 'a) storeState \<times> ('a, 'q, store_cb) sctl \<times> 'w" where
  "store_timer fp fm mk opts now st s a w =
     (case map_of (timers a) (stubId st) of
        None \<Rightarrow> (s, a, w)
      | Some it \<Rightarrow>
          if timer it \<noteq> stubT st then (s, a, w)
          else
            (let r = selfName a @ ''.timer.'' @ TimerId_String (stubId st);
                 a1 = invokeLogger \<lparr>Origin = r, ReqSeq = r\<rparr> (a\<lparr>timers := AList.delete (stubId st) (timers a)\<rparr>)
             in case stubFn st of
                  PostponeFlush \<Rightarrow> (let (a2, w') = postponeFlushFired fp a1 w in (s, a2, w'))
                | UserFn (RefreshCb p) \<Rightarrow> refresh_fired fp fm mk now p s a1 w
                | UserFn SweepCb \<Rightarrow> (let (s', a2) = sweep_fired opts now s a1 in (s', a2, w))))"

text \<open>
  A shard serves one message or timer after the other. The last component records the replies to subscriptions. A fetch
  changes nothing.
\<close>

type_synonym ('v, 'a, 'q, 'w) shard =
  "('v, 'a) storeState \<times> ('a, 'q, store_cb) sctl \<times> ('w \<times> ('a \<times> 'q) list) \<times> ('a \<times> string \<times> int \<times> 'v option) list"

inductive shard_step ::
  "('a, 'q, 'e, 'w) fpost \<Rightarrow> ('a, 'q, 'e, 'w) fmulticast \<Rightarrow> ('v refreshReq \<Rightarrow> 'q) \<Rightarrow> Options
    \<Rightarrow> ('v, 'a, 'q, 'w) shard \<Rightarrow> ('v, 'a, 'q, 'w) shard \<Rightarrow> bool"
  for fp fm mk opts where
  publish: "handle_publish (log_fp fp) (log_fm fm) mk opts now n v info sp s a wl = (s', a', wl')
    \<Longrightarrow> shard_step fp fm mk opts (s, a, wl, rp) (s', a', wl', rp)"
| subscribe: "handle_subscribe n i b sp s a = (Inr (v, x), s', a')
    \<Longrightarrow> shard_step fp fm mk opts (s, a, wl, rp) (s', a', wl, rp @ [(i, n, v, x)])"
| refused: "handle_subscribe n i b sp s a = (Inl err, s', a')
    \<Longrightarrow> shard_step fp fm mk opts (s, a, wl, rp) (s', a', wl, rp)"
| unpublish: "shard_step fp fm mk opts (s, a, wl, rp) (handle_unpublish n s, a, wl, rp)"
| timer: "st \<in> set (runtimeTimers a) \<Longrightarrow> store_timer (log_fp fp) (log_fm fm) mk opts now st s a wl = (s', a', wl')
    \<Longrightarrow> shard_step fp fm mk opts (s, a, wl, rp) (s', a', wl', rp)"

text \<open>The state \<open>Serve\<close> gives a new shard; the contents of the heap do not matter yet.\<close>

definition store_init :: "(nat \<Rightarrow> ('v, 'a) entry) \<Rightarrow> ('v, 'a) storeState" where
  "store_init h = \<lparr>entries = [], eheap = h, nextEntry = 0\<rparr>"

definition refresh_of :: "('v, 'a) entry \<Rightarrow> 'v refreshReq" where
  "refresh_of e = \<lparr>rName = ename e, rVersion = version e, rValue = evalue e,
     rTTL = (case einfo e of None \<Rightarrow> 0 | Some i \<Rightarrow> ttl i)\<rparr>"

text \<open>Every registered reader of a key has its current value, or the key's refresh is pending.\<close>

definition entry_ok ::
  "('v refreshReq \<Rightarrow> 'q) \<Rightarrow> ('a, 'q, store_cb) sctl \<Rightarrow> 'w \<times> ('a \<times> 'q) list \<Rightarrow> ('a \<times> string \<times> int \<times> 'v option) list
    \<Rightarrow> string \<Rightarrow> ('v, 'a) entry \<Rightarrow> bool" where
  "entry_ok mk a wl rp n e \<longleftrightarrow> (\<forall>b rs i. (b, rs) \<in> set (subs e) \<longrightarrow> i \<in> set rs \<longrightarrow> hasValue e \<longrightarrow>
     pending e \<or> handed a wl i (mk (refresh_of e)) \<or> (i, n, version e, evalue e) \<in> set rp)"

definition armed :: "('a, 'q, store_cb) sctl \<Rightarrow> nat \<Rightarrow> bool" where
  "armed a p \<longleftrightarrow> (\<exists>st. timer_live a st \<and> stubFn st = UserFn (RefreshCb p))"

lemma keeps_timers_armed:
  "keeps_timers a a' \<Longrightarrow> int (nextTimer a') + 1 < MaxInt \<Longrightarrow> timers_ok a \<Longrightarrow> armed a p \<Longrightarrow> armed a' p"
  unfolding keeps_timers_def armed_def by blast

lemma entry_ok_mono:
  "entry_ok mk a wl rp n e \<Longrightarrow> keeps_handed a wl a' wl' \<Longrightarrow> set rp \<subseteq> set rp' \<Longrightarrow> entry_ok mk a' wl' rp' n e"
  unfolding entry_ok_def keeps_handed_def by blast

lemma sendRefresh_ok:
  assumes ok: "\<And>w f is q. \<not> isl (fst (fm w f is q))"
    and res: "sendRefresh (log_fp fp) (log_fm fm) mk now e a wl = (e', a', wl')"
  shows "keeps_handed a wl a' wl'" "entry_ok mk a' wl' rp n e'" "pending e' = pending e" "same_value e e'"
    "(b, rs) \<in> set (subs e) \<Longrightarrow> i \<in> set rs \<Longrightarrow> handed a' wl' i (mk (refresh_of e))"
proof -
  obtain sb a1 wl1 where d: "deliver_subs (log_fp fp) (log_fm fm) mk (refresh_of e) (subs e) a wl = (sb, a1, wl1)"
    by (metis prod_cases3)
  have eqs: "(e', a', wl') = (if subs e = [] then (e, a, wl) else (e\<lparr>lastSent := Some now, subs := sb\<rparr>, a1, wl1))"
    using res d by (simp add: sendRefresh_def Let_def case_prod_beta flip: refresh_of_def split: if_splits)
  have h: "keeps_handed a wl a1 wl1"
    "\<And>b rs i. (b, rs) \<in> set (subs e) \<union> set sb \<Longrightarrow> i \<in> set rs \<Longrightarrow> handed a1 wl1 i (mk (refresh_of e))"
    using deliver_subs_handed [OF ok d] by blast+
  have req: "refresh_of (e\<lparr>lastSent := t, subs := sb\<rparr>) = refresh_of e" for t by (simp add: refresh_of_def)
  from eqs h show "keeps_handed a wl a' wl'" "entry_ok mk a' wl' rp n e'" "pending e' = pending e"
    by (auto simp: entry_ok_def req split: if_splits)
  from eqs h(2) show "(b, rs) \<in> set (subs e) \<Longrightarrow> i \<in> set rs \<Longrightarrow> handed a' wl' i (mk (refresh_of e))"
    by (auto split: if_splits)
  show "same_value e e'" using sendRefresh_same [of e "log_fp fp" "log_fm fm" mk now a wl] res by simp
qed

lemma scheduleRefresh_ok:
  assumes ok: "\<And>w f is q. \<not> isl (fst (fm w f is q))"
    and res: "scheduleRefresh (log_fp fp) (log_fm fm) mk now p cd s a wl = (s', a', wl')"
  shows "\<exists>e'. s' = set_entry p e' s \<and> same_value (eheap s p) e' \<and> entry_ok mk a' wl' rp n e'
    \<and> keeps_handed a wl a' wl' \<and> keeps_timers a a'
    \<and> (int (nextTimer a') + 1 < MaxInt \<longrightarrow> timers_ok a \<longrightarrow> pending e' \<longrightarrow> armed a' p \<or> pending (eheap s p))"
proof -
  let ?e = "eheap s p"
  define c where "c = (case einfo ?e of Some i \<Rightarrow> if cooldown i > 0 then cooldown i else cd | None \<Rightarrow> cd)"
  note res' = res [unfolded scheduleRefresh_def Let_def, folded c_def]
  let ?now = "c \<le> 0 \<or> (case lastSent ?e of None \<Rightarrow> True | Some t \<Rightarrow> now - t \<ge> c)"
  consider (pend) "pending ?e" | (push) "\<not> pending ?e" "?now" | (arm) "\<not> pending ?e" "\<not> ?now" by blast
  then show ?thesis
  proof cases
    case pend
    then have "s' = set_entry p ?e s" "a' = a" "wl' = wl"
      using res' by (simp_all add: set_entry_def)
    with pend show ?thesis by (auto simp: entry_ok_def same_value_def)
  next
    case push
    obtain e' a2 wl2 where sr: "sendRefresh (log_fp fp) (log_fm fm) mk now ?e a wl = (e', a2, wl2)"
      by (metis prod_cases3)
    have "s' = set_entry p e' s" "a' = a2" "wl' = wl2"
      using res' push sr by simp_all
    with sendRefresh_ok(1,3,4) [OF ok sr] sendRefresh_ok(2) [OF ok sr, where rp = rp and n = n] push(1)
      keeps_timers_sendRefresh [of a "log_fp fp" "log_fm fm" mk now ?e wl] sr
    show ?thesis by auto
  next
    case arm
    let ?T = "Timer (''shared_refresh:'' @ ename ?e) (the (lastSent ?e) + c - now) (UserFn (RefreshCb p)) a"
    have eqs: "s' = set_entry p (?e\<lparr>pending := True\<rparr>) s" "a' = snd ?T" "wl' = wl"
      using res' arm by simp_all
    have "armed a' p" if "int (nextTimer a') + 1 < MaxInt" "timers_ok a"
      using Timer_ok(3) [OF that(2), of "''shared_refresh:'' @ ename ?e" "the (lastSent ?e) + c - now" "UserFn (RefreshCb p)"] that(1)
      by (auto simp: armed_def eqs(2))
    moreover have "keeps_handed a wl a' wl'"
      by (rule keeps_handedI) (simp_all add: eqs Timer_eq Let_def)
    moreover have "same_value ?e (?e\<lparr>pending := True\<rparr>)" "entry_ok mk a' wl' rp n (?e\<lparr>pending := True\<rparr>)"
      by (simp_all add: same_value_def entry_ok_def)
    ultimately show ?thesis using eqs keeps_timers_Timer by blast
  qed
qed

text \<open>
  The invariant of a shard: the representation, and for every key, the readers are served or the refresh is pending, and a
  pending refresh has its timer armed.
\<close>

fun shard_inv :: "('v refreshReq \<Rightarrow> 'q) \<Rightarrow> ('v, 'a, 'q, 'w) shard \<Rightarrow> bool" where
  "shard_inv mk (s, a, wl, rp) \<longleftrightarrow> store_wf s
     \<and> (\<forall>n p. map_of (entries s) n = Some p \<longrightarrow> entry_ok mk a wl rp n (eheap s p))
     \<and> (int (nextTimer a) + 1 < MaxInt \<longrightarrow> timers_ok a \<and>
         (\<forall>n p. map_of (entries s) n = Some p \<longrightarrow> pending (eheap s p) \<longrightarrow> armed a p))"

text \<open>An operation that works on the entry of one name, and what it leaves of the others.\<close>

lemma shard_inv_update:
  assumes inv: "shard_inv mk (s, a, wl, rp)"
    and se: "store_entry n s = (p, s1)"
    and e: "ename e = ename (eheap s1 p)" "entry_ok mk a' wl' rp' n e"
    and keep: "keeps_handed a wl a' wl'" "keeps_timers a a'" "set rp \<subseteq> set rp'"
    and pend: "int (nextTimer a') + 1 < MaxInt \<Longrightarrow> timers_ok a \<Longrightarrow> pending e \<Longrightarrow> armed a' p \<or> pending (eheap s1 p)"
  shows "shard_inv mk (set_entry p e s1, a', wl', rp')"
proof -
  from inv have wf: "store_wf s" by simp
  note spec = store_entry_spec [OF wf, of n, unfolded se prod.case]
  have wf1: "store_wf s1" and at: "map_of (entries s1) n = Some p" using spec by blast+
  have other: "map_of (entries s) m = Some q \<and> eheap s1 q = eheap s q \<and> q \<noteq> p"
    if "map_of (entries s1) m = Some q" "m \<noteq> n" for m q
    using spec that store_wf_inj [OF wf1 at, of m] by metis
  have this_pend: "pending (eheap s1 p) \<Longrightarrow> map_of (entries s) n = Some p \<and> pending (eheap s p)"
    using spec by (cases "map_of (entries s) n") (auto simp: new_entry_def)
  have "entry_ok mk a' wl' rp' m (((eheap s1)(p := e)) q)" if "map_of (entries s1) m = Some q" for m q
  proof (cases "m = n")
    case True
    with that at e(2) show ?thesis by simp
  next
    case False
    with inv other [OF that] have "entry_ok mk a wl rp m (eheap s1 q)" by simp
    with entry_ok_mono [OF _ keep(1,3)] other [OF that False] show ?thesis by simp
  qed
  moreover have "timers_ok a' \<and> (\<forall>m q. map_of (entries s1) m = Some q \<longrightarrow> pending (((eheap s1)(p := e)) q) \<longrightarrow> armed a' q)"
    if small: "int (nextTimer a') + 1 < MaxInt"
  proof -
    have small0: "int (nextTimer a) + 1 < MaxInt" using small keep(2) by (simp add: keeps_timers_def)
    with inv have tok: "timers_ok a" and
      old: "\<And>m q. map_of (entries s) m = Some q \<Longrightarrow> pending (eheap s q) \<Longrightarrow> armed a q" by simp_all
    have "armed a' q" if q: "map_of (entries s1) m = Some q" "pending (((eheap s1)(p := e)) q)" for m q
    proof (cases "m = n")
      case True
      with q at have pq: "p = q" "pending e" by simp_all
      from pend [OF small tok pq(2)] show ?thesis
        using this_pend old keeps_timers_armed [OF keep(2) small tok] pq(1) by blast
    next
      case False
      with other [OF q(1)] q old have "armed a q" by (metis fun_upd_other)
      then show ?thesis by (rule keeps_timers_armed [OF keep(2) small tok])
    qed
    moreover have "timers_ok a'" using keep(2) small tok by (simp add: keeps_timers_def)
    ultimately show ?thesis by blast
  qed
  moreover have "store_wf (set_entry p e s1)" by (rule set_entry_wf [OF wf1 e(1)])
  ultimately show ?thesis by simp
qed

lemma keeps_timers_Open: "keeps_timers a (Open a)"
  by (rule keeps_timers_frame) (simp_all add: Open_def)

lemma shard_inv_publish:
  assumes ok: "\<And>w f is q. \<not> isl (fst (fm w f is q))"
    and inv: "shard_inv mk (s, a, wl, rp)"
    and res: "handle_publish (log_fp fp) (log_fm fm) mk opts now n v info sp s a wl = (s', a', wl')"
  shows "shard_inv mk (s', a', wl', rp)"
proof -
  obtain p s1 where se: "store_entry n s = (p, s1)" by (cases "store_entry n s")
  define a1 where "a1 = (if sp then (let a0 = Open a in if Sweep opts > 0 then scheduleSweep opts a0 else a0) else a)"
  define e1 where "e1 = (eheap s1 p)\<lparr>einfo := info, evalue := Some v, version := wrap64 (version (eheap s1 p) + 1),
               hasValue := True, lastPub := Some now\<rparr>"
  have a1: "keeps_timers a a1" "keeps_handed a wl a1 wl"
  proof -
    have "keeps_timers a (scheduleSweep opts (Open a))"
      unfolding scheduleSweep_def by (rule keeps_timers_trans [OF keeps_timers_Open keeps_timers_Timer])
    then show "keeps_timers a a1" by (simp add: a1_def Let_def keeps_timers_Open)
    show "keeps_handed a wl a1 wl"
      by (rule keeps_handedI) (simp_all add: a1_def Let_def Open_def scheduleSweep_def Timer_eq)
  qed
  have "scheduleRefresh (log_fp fp) (log_fm fm) mk now p (Cooldown opts) (set_entry p e1 s1) a1 wl = (s', a', wl')"
    using res unfolding handle_publish_def Let_def se prod.case by (simp only: a1_def e1_def Let_def)
  from scheduleRefresh_ok [OF ok this, of rp n] obtain e' where
    e': "s' = set_entry p e' (set_entry p e1 s1)" "same_value e1 e'" "entry_ok mk a' wl' rp n e'"
      "keeps_handed a1 wl a' wl'" "keeps_timers a1 a'"
      "int (nextTimer a') + 1 < MaxInt \<Longrightarrow> timers_ok a1 \<Longrightarrow> pending e' \<Longrightarrow> armed a' p \<or> pending e1"
    by auto
  have nm: "ename e' = ename (eheap s1 p)" using e'(2) by (simp add: same_value_def e1_def)
  have kh: "keeps_handed a wl a' wl'" using a1(2) e'(4) by (rule keeps_handed_trans)
  have kt: "keeps_timers a a'" using a1(1) e'(5) by (rule keeps_timers_trans)
  have pend: "armed a' p \<or> pending (eheap s1 p)"
    if "int (nextTimer a') + 1 < MaxInt" "timers_ok a" "pending e'"
  proof -
    have "timers_ok a1" using a1(1) e'(5) that by (auto simp: keeps_timers_def)
    from e'(6) [OF that(1) this that(3)] show ?thesis by (simp add: e1_def)
  qed
  from shard_inv_update [OF inv se nm e'(3) kh kt subset_refl pend]
  have "shard_inv mk (set_entry p e' s1, a', wl', rp)" .
  then show ?thesis by (simp add: e'(1) set_entry_def)
qed

lemma update_memD: "(k', v') \<in> set (AList.update k v xs) \<Longrightarrow> (k', v') = (k, v) \<or> (k', v') \<in> set xs"
  by (induction xs) (auto split: if_splits)

lemma bind_add_memD: "j \<in> set (bind_add m i) \<Longrightarrow> j = i \<or> (\<exists>rs. m = Some rs \<and> j \<in> set rs)"
  by (auto simp: bind_add_def Let_def split: option.splits if_splits)

lemma shard_inv_subscribe:
  assumes inv: "shard_inv mk (s, a, wl, rp)"
    and res: "handle_subscribe n i b sp s a = (r, s', a')"
    and rp: "set rp \<subseteq> set rp'" "\<And>v x. r = Inr (v, x) \<Longrightarrow> (i, n, v, x) \<in> set rp'"
  shows "shard_inv mk (s', a', wl, rp')"
proof -
  obtain p s1 where se: "store_entry n s = (p, s1)" by (cases "store_entry n s")
  let ?e = "eheap s1 p"
  define e1 where "e1 = (case b of None \<Rightarrow> ?e
     | Some b \<Rightarrow> ?e\<lparr>subs := AList.update b (bind_add (map_of (subs ?e) b) i) (subs ?e)\<rparr>)"
  have eqs: "s' = set_entry p e1 s1" "a' = (if sp then Open a else a)"
    and r: "r = (if \<not> hasValue e1 then Inl (NotPublishedError n) else Inr (version e1, evalue e1))"
    using res [unfolded handle_subscribe_def se Let_def prod.case, folded e1_def] by auto
  have sel: "ename e1 = ename ?e" "hasValue e1 = hasValue ?e" "version e1 = version ?e" "evalue e1 = evalue ?e"
    "pending e1 = pending ?e" "refresh_of e1 = refresh_of ?e"
    by (simp_all add: e1_def refresh_of_def split: option.splits)
  have wf: "store_wf s" using inv by simp
  have kt: "keeps_timers a a'" by (simp add: eqs(2) keeps_timers_Open)
  have kh: "keeps_handed a wl a' wl" by (rule keeps_handedI) (simp_all add: eqs(2) Open_def)
  have old: "entry_ok mk a wl rp n ?e"
    using store_entry_spec [OF wf, of n, unfolded se prod.case] inv
    by (cases "map_of (entries s) n") (auto simp: entry_ok_def new_entry_def)
  have mem: "j = i \<or> (\<exists>c rs0. (c, rs0) \<in> set (subs ?e) \<and> j \<in> set rs0)"
    if "(c, rs) \<in> set (subs e1)" "j \<in> set rs" for c rs j
    using that bind_add_memD [of j] map_of_SomeD [of "subs ?e"]
    by (fastforce simp: e1_def split: option.splits dest: update_memD)
  have "entry_ok mk a' wl rp' n e1"
    unfolding entry_ok_def
  proof (intro allI impI)
    fix c rs j
    assume h: "(c, rs) \<in> set (subs e1)" "j \<in> set rs" "hasValue e1"
    from mem [OF h(1,2)] show "pending e1 \<or> handed a' wl j (mk (refresh_of e1)) \<or> (j, n, version e1, evalue e1) \<in> set rp'"
    proof
      assume "j = i"
      with rp(2) [of "version e1" "evalue e1"] r h(3) show ?thesis by simp
    next
      assume "\<exists>c rs0. (c, rs0) \<in> set (subs ?e) \<and> j \<in> set rs0"
      with entry_ok_mono [OF old kh rp(1)] h(3) show ?thesis unfolding entry_ok_def sel by blast
    qed
  qed
  from shard_inv_update [OF inv se sel(1) this kh kt rp(1)] show ?thesis by (simp add: eqs(1) sel)
qed

lemma shard_inv_fewer:
  assumes "shard_inv mk (s, a, wl, rp)" and "store_wf (s\<lparr>entries := xs\<rparr>)"
    and "\<And>n p. map_of xs n = Some p \<Longrightarrow> map_of (entries s) n = Some p"
  shows "shard_inv mk (s\<lparr>entries := xs\<rparr>, a, wl, rp)"
  using assms(1,2) by (auto dest: assms(3))

lemma shard_inv_unpublish: "shard_inv mk (s, a, wl, rp) \<Longrightarrow> shard_inv mk (handle_unpublish n s, a, wl, rp)"
  using handle_unpublish_wf [of s n] unfolding handle_unpublish_def
  by (intro shard_inv_fewer) (auto simp: delete_conv' split: if_splits)

text \<open>Serving a live timer takes it out of the table; the others stay armed.\<close>

lemma served_timer:
  assumes ok: "timers_ok a" and lv: "timer_live a st"
    and a1_def: "a1 = invokeLogger f (a\<lparr>timers := AList.delete (stubId st) (timers a)\<rparr>)"
  shows "timers_ok a1" and "timer_live a st' \<Longrightarrow> st' \<noteq> st \<Longrightarrow> timer_live a1 st'"
proof -
  show "timers_ok a1" using ok by (auto simp: timers_ok_def a1_def invokeLogger_def alist_lookup split: if_splits)
  show "timer_live a1 st'" if "timer_live a st'" "st' \<noteq> st"
  proof -
    from ok have "inj_on stubT (set (runtimeTimers a))" by (simp add: timers_ok_def distinct_map)
    with that lv have "stubT st' \<noteq> stubT st" by (auto simp: timer_live_def dest: inj_onD)
    then have "stubId st' \<noteq> stubId st" using ok that lv by (auto simp: timer_live_def timers_ok_def)
    with that(1) show ?thesis by (simp add: timer_live_def a1_def invokeLogger_def alist_lookup)
  qed
qed

lemma keeps_timers_flushFired: "keeps_timers a (fst (postponeFlushFired fp a w))"
proof -
  have "keeps_timers a (a\<lparr>postponeTimer := 0\<rparr>)"
    unfolding keeps_timers_def by (auto simp: timers_ok_def timer_live_def)
  from keeps_timers_trans [OF keeps_timers_trans [OF this keeps_timers_poseponePost [of _ fp w]] keeps_timers_armPostponeFlush]
  show ?thesis by (simp add: postponeFlushFired_def case_prod_beta)
qed

lemma postponeFlushFired_handed:
  assumes "postponeFlushFired (log_fp fp) a wl = (a', wl')"
  shows "keeps_handed a wl a' wl'"
proof -
  obtain a1 wl1 where p: "poseponePost (log_fp fp) (a\<lparr>postponeTimer := 0\<rparr>) wl = (a1, wl1)"
    by (cases "poseponePost (log_fp fp) (a\<lparr>postponeTimer := 0\<rparr>) wl")
  have "keeps_handed a wl (a\<lparr>postponeTimer := 0\<rparr>) wl" by (rule keeps_handedI) simp_all
  moreover have "keeps_handed a1 wl1 a' wl'"
    using assms p by (intro keeps_handedI) (auto simp: postponeFlushFired_def)
  ultimately show ?thesis using keeps_handed_trans poseponePost_handed [OF p] by blast
qed

lemma shard_inv_served:
  assumes inv: "shard_inv mk (s, a, wl, rp)" and lv: "timer_live a st"
    and a1: "a1 = invokeLogger f (a\<lparr>timers := AList.delete (stubId st) (timers a)\<rparr>)"
    and wf': "store_wf s'" and kt: "keeps_timers a1 a'"
    and ok': "\<And>n p. map_of (entries s') n = Some p \<Longrightarrow> entry_ok mk a' wl' rp n (eheap s' p)"
    and pend: "\<And>n p. map_of (entries s') n = Some p \<Longrightarrow> pending (eheap s' p) \<Longrightarrow>
      map_of (entries s) n = Some p \<and> pending (eheap s p) \<and> stubFn st \<noteq> UserFn (RefreshCb p)"
  shows "shard_inv mk (s', a', wl', rp)"
proof -
  have "timers_ok a' \<and> (\<forall>n p. map_of (entries s') n = Some p \<longrightarrow> pending (eheap s' p) \<longrightarrow> armed a' p)"
    if small: "int (nextTimer a') + 1 < MaxInt"
  proof -
    have "int (nextTimer a) + 1 < MaxInt" using small kt by (simp add: keeps_timers_def a1 invokeLogger_def)
    with inv have tok: "timers_ok a" and
      old: "\<And>m q. map_of (entries s) m = Some q \<Longrightarrow> pending (eheap s q) \<Longrightarrow> armed a q" by simp_all
    note srv = served_timer [OF tok lv a1]
    have "armed a' p" if np: "map_of (entries s') n = Some p" "pending (eheap s' p)" for n p
    proof -
      from pend [OF np] old have "armed a p" "stubFn st \<noteq> UserFn (RefreshCb p)" by blast+
      then have "armed a1 p" unfolding armed_def using srv(2) by metis
      then show ?thesis by (rule keeps_timers_armed [OF kt small srv(1)])
    qed
    moreover have "timers_ok a'" using kt small srv(1) by (simp add: keeps_timers_def)
    ultimately show ?thesis by blast
  qed
  with wf' ok' show ?thesis by simp
qed

lemma shard_inv_timer:
  assumes ok: "\<And>w f is q. \<not> isl (fst (fm w f is q))"
    and inv: "shard_inv mk (s, a, wl, rp)" and st: "st \<in> set (runtimeTimers a)"
    and res: "store_timer (log_fp fp) (log_fm fm) mk opts now st s a wl = (s', a', wl')"
  shows "shard_inv mk (s', a', wl', rp)"
proof (cases "timer_live a st")
  case False
  with st have "(s', a', wl') = (s, a, wl)"
    using res by (auto simp: store_timer_def timer_live_def split: option.splits if_splits)
  with inv show ?thesis by simp
next
  case lv: True
  define r where "r = selfName a @ ''.timer.'' @ TimerId_String (stubId st)"
  define a1 where "a1 = invokeLogger \<lparr>Origin = r, ReqSeq = r\<rparr> (a\<lparr>timers := AList.delete (stubId st) (timers a)\<rparr>)"
  have res': "(s', a', wl') = (case stubFn st of
      PostponeFlush \<Rightarrow> (case postponeFlushFired (log_fp fp) a1 wl of (a2, w') \<Rightarrow> (s, a2, w'))
    | UserFn (RefreshCb p) \<Rightarrow> refresh_fired (log_fp fp) (log_fm fm) mk now p s a1 wl
    | UserFn SweepCb \<Rightarrow> (case sweep_fired opts now s a1 of (s', a2) \<Rightarrow> (s', a2, wl)))"
  proof -
    obtain it where "map_of (timers a) (stubId st) = Some it" "timer it = stubT st"
      using lv by (auto simp: timer_live_def)
    with res [unfolded store_timer_def Let_def, folded r_def, folded a1_def] show ?thesis by simp
  qed
  have kh1: "keeps_handed a wl a1 wl" by (rule keeps_handedI) (simp_all add: a1_def invokeLogger_def)
  have wf: "store_wf s" using inv by simp
  have keep: "entry_ok mk a' wl' rp n (eheap s p)" if "keeps_handed a1 wl a' wl'" "map_of (entries s) n = Some p" for n p
    by (rule entry_ok_mono [OF _ keeps_handed_trans [OF kh1 that(1)] subset_refl]) (use inv that(2) in simp)
  note served = shard_inv_served [OF inv lv a1_def]
  show ?thesis
  proof (cases "stubFn st")
    case PostponeFlush
    then have eqs: "s' = s" "postponeFlushFired (log_fp fp) a1 wl = (a', wl')"
      using res' by (simp_all add: case_prod_beta)
    show ?thesis
      using served [of s a' wl'] keep [OF postponeFlushFired_handed [OF eqs(2)]] wf
        keeps_timers_flushFired [of a1 "log_fp fp" wl] by (simp add: eqs PostponeFlush)
  next
    case (UserFn k)
    show ?thesis
    proof (cases k)
      case (RefreshCb p)
      obtain e' a2 wl2 where sr: "sendRefresh (log_fp fp) (log_fm fm) mk now ((eheap s p)\<lparr>pending := False\<rparr>) a1 wl = (e', a2, wl2)"
        by (metis prod_cases3)
      have eqs: "s' = set_entry p e' s" "a' = a2" "wl' = wl2"
        using res' sr by (simp_all add: UserFn RefreshCb refresh_fired_def)
      note S = sendRefresh_ok(1,3,4) [OF ok sr]
      have wf': "store_wf s'" unfolding eqs(1) by (rule set_entry_wf [OF wf]) (use S(3) in \<open>simp add: same_value_def\<close>)
      have kt: "keeps_timers a1 a'"
        using keeps_timers_sendRefresh [of a1 "log_fp fp" "log_fm fm" mk now "(eheap s p)\<lparr>pending := False\<rparr>" wl] sr
        by (simp add: eqs(2))
      show ?thesis
      proof (rule served [OF wf' kt])
        fix n q assume "map_of (entries s') n = Some q"
        then show "entry_ok mk a' wl' rp n (eheap s' q)"
          using sendRefresh_ok(2) [OF ok sr, of rp n] keep [of n q] S(1) by (auto simp: eqs)
      next
        fix n q assume "map_of (entries s') n = Some q" "pending (eheap s' q)"
        then show "map_of (entries s) n = Some q \<and> pending (eheap s q) \<and> stubFn st \<noteq> UserFn (RefreshCb q)"
          using S(2) by (auto simp: eqs UserFn RefreshCb split: if_splits)
      qed
    next
      case SweepCb
      have eqs: "s' = fst (sweep_fired opts now s a1)" "a' = scheduleSweep opts a1" "wl' = wl"
        using res' by (simp_all add: UserFn SweepCb sweep_fired_def Let_def)
      have wf': "store_wf s'" unfolding eqs(1) using sweep_fired_spec [OF wf, of opts now a1] by simp
      have sub: "map_of (entries s) n = Some q" if "map_of (entries s') n = Some q" for n q
      proof -
        have "distinct (map fst (entries s))" using wf by (simp add: store_wf_def)
        from map_of_filter_SomeD [OF this] show ?thesis
          using that by (simp add: eqs(1) sweep_fired_def Let_def split: if_splits)
      qed
      have heap: "eheap s' = eheap s" by (simp add: eqs(1) sweep_fired_def Let_def)
      have kt: "keeps_timers a1 a'" by (simp add: eqs(2) scheduleSweep_def keeps_timers_Timer)
      have kh: "keeps_handed a1 wl a' wl'" by (rule keeps_handedI) (simp_all add: eqs(2,3) scheduleSweep_def Timer_eq Let_def)
      show ?thesis
        by (rule served [OF wf' kt]) (use keep [OF kh] sub in \<open>auto simp: heap UserFn SweepCb\<close>)
    qed
  qed
qed

lemma shard_inv_step:
  assumes "shard_step fp fm mk opts c c'" and grp: "\<And>w f is q. \<not> isl (fst (fm w f is q))" and inv: "shard_inv mk c"
  shows "shard_inv mk c'"
  using assms(1)
proof cases
  case (publish now n v info sp s a wl s' a' wl' rp)
  from shard_inv_publish [OF grp _ publish(3)] inv publish(1,2) show ?thesis by blast
next
  case (subscribe n i b sp s a v x s' a' wl rp)
  from shard_inv_subscribe [OF _ subscribe(3), of mk wl rp "rp @ [(i, n, v, x)]"] inv subscribe(1,2)
  show ?thesis by (auto simp del: shard_inv.simps)
next
  case (refused n i b sp s a err s' a' wl rp)
  from shard_inv_subscribe [OF _ refused(3), of mk wl rp rp] inv refused(1,2)
  show ?thesis by (simp del: shard_inv.simps)
next
  case (unpublish s a wl rp n)
  from shard_inv_unpublish [of mk s a wl rp n] inv unpublish show ?thesis by (simp del: shard_inv.simps)
next
  case (timer st a now s wl s' a' wl' rp)
  from shard_inv_timer [OF grp _ timer(3,4)] inv timer(1,2) show ?thesis by blast
qed

lemma shard_inv_init: "shard_inv mk (store_init h, newActorControl nm, (w0, []), [])"
  by (simp add: store_init_def store_wf_def newActorControl_def timers_ok_def)

lemma shard_inv_reach:
  assumes "(shard_step fp fm mk opts)\<^sup>*\<^sup>* (store_init h, newActorControl nm, (w0, []), []) c"
    and "\<And>w f is q. \<not> isl (fst (fm w f is q))"
  shows "shard_inv mk c"
  using assms(1)
proof (induction rule: rtranclp_induct)
  case base
  show ?case by (rule shard_inv_init)
next
  case (step c c')
  from shard_inv_step [OF step(2) assms(2) step(3)] show ?case .
qed

text \<open>What serving the armed timer of an entry does.\<close>

lemma refresh_timer_pushes:
  assumes ok: "\<And>w f is q. \<not> isl (fst (fm w f is q))"
    and lv: "timer_live a st" "stubFn st = UserFn (RefreshCb p)"
    and res: "store_timer (log_fp fp) (log_fm fm) mk opts now st s a wl = (s', a', wl')"
    and reg: "(b, rs) \<in> set (subs (eheap s p))" "i \<in> set rs"
  shows "handed a' wl' i (mk (refresh_of (eheap s p))) \<and> \<not> pending (eheap s' p)"
proof -
  obtain it where it: "map_of (timers a) (stubId st) = Some it" "timer it = stubT st"
    using lv(1) by (auto simp: timer_live_def)
  have "\<exists>a1. store_timer (log_fp fp) (log_fm fm) mk opts now st s a wl = refresh_fired (log_fp fp) (log_fm fm) mk now p s a1 wl"
    by (auto simp: store_timer_def it lv(2) Let_def)
  with res obtain a1 where "(s', a', wl') = refresh_fired (log_fp fp) (log_fm fm) mk now p s a1 wl" by auto
  moreover obtain e' a2 wl2 where sr: "sendRefresh (log_fp fp) (log_fm fm) mk now ((eheap s p)\<lparr>pending := False\<rparr>) a1 wl = (e', a2, wl2)"
    by (metis prod_cases3)
  ultimately have eqs: "s' = set_entry p e' s" "a' = a2" "wl' = wl2" by (simp_all add: refresh_fired_def)
  have "refresh_of ((eheap s p)\<lparr>pending := False\<rparr>) = refresh_of (eheap s p)" by (simp add: refresh_of_def)
  with sendRefresh_ok(3) [OF ok sr] sendRefresh_ok(5) [OF ok sr, of b rs i] reg show ?thesis by (simp add: eqs)
qed


text \<open>A key published once, read by reader 5, and published twice more within its cooldown.\<close>

definition demo_opts :: Options where
  "demo_opts = opts0\<lparr>Cooldown := 100\<rparr>"

definition demo_publish :: "int \<Rightarrow> int \<Rightarrow> (int, nat, int refreshReq, unit) shard \<Rightarrow> (int, nat, int refreshReq, unit) shard" where
  "demo_publish now v c = (case c of (s, a, wl, rp) \<Rightarrow>
     (case handle_publish (log_fp fp0) (log_fm fm0) id demo_opts now ''k'' v None False s a wl of (s', a', wl') \<Rightarrow> (s', a', wl', rp)))"

definition demo_subscribe :: "(int, nat, int refreshReq, unit) shard \<Rightarrow> (int, nat, int refreshReq, unit) shard" where
  "demo_subscribe c = (case c of (s, a, wl, rp) \<Rightarrow>
     (case handle_subscribe ''k'' 5 (Some 0) False s a of
        (Inr (v, x), s', a') \<Rightarrow> (s', a', wl, rp @ [(5, ''k'', v, x)]) | (Inl _, s', a') \<Rightarrow> (s', a', wl, rp)))"

definition demo_shard :: "(int, nat, int refreshReq, unit) shard" where
  "demo_shard = demo_publish 20 9 (demo_publish 10 8 (demo_subscribe (demo_publish 0 7
     (store_init (\<lambda>_. new_entry []), newActorControl ''store#0'', ((), []), []))))"

lemma demo_publish_step: "shard_step fp0 fm0 id demo_opts c (demo_publish now v c)"
  by (auto simp: demo_publish_def split: prod.splits intro: publish)

lemma demo_subscribe_step: "shard_step fp0 fm0 id demo_opts c (demo_subscribe c)"
  by (auto simp: demo_subscribe_def split: prod.splits sum.splits intro: subscribe refused)

lemma demo_shard_reach:
  "(shard_step fp0 fm0 id demo_opts)\<^sup>*\<^sup>* (store_init (\<lambda>_. new_entry []), newActorControl ''store#0'', ((), []), []) demo_shard"
  unfolding demo_shard_def by (meson demo_publish_step demo_subscribe_step rtranclp.rtrancl_into_rtrancl rtranclp.rtrancl_refl)

lemma demo_shard_values:
  "case demo_shard of (s, a, wl, rp) \<Rightarrow> nextTimer a = 1 \<and> map_of (entries s) ''k'' = Some 0 \<and> hasValue (eheap s 0)
     \<and> subs (eheap s 0) = [(0, [5])] \<and> version (eheap s 0) = 3 \<and> evalue (eheap s 0) = Some 9 \<and> pending (eheap s 0)"
  by code_simp


subsection \<open>A shard implements a map of versioned values\<close>

text \<open>The abstract shard: a name has a version and a value, or is not published.\<close>

type_synonym 'v vmap = "string \<rightharpoonup> int \<times> 'v option"

definition vm_publish :: "string \<Rightarrow> 'v \<Rightarrow> 'v vmap \<Rightarrow> 'v vmap" where
  "vm_publish n v m = m(n \<mapsto> (wrap64 ((case m n of None \<Rightarrow> 0 | Some (k, _) \<Rightarrow> k) + 1), Some v))"

definition vm_unpublish :: "string \<Rightarrow> 'v vmap \<Rightarrow> 'v vmap" where
  "vm_unpublish n m = m(n := None)"

definition vm_lookup :: "string \<Rightarrow> 'v vmap \<Rightarrow> sharederr + int \<times> 'v option" where
  "vm_lookup n m = (case m n of None \<Rightarrow> Inl (NotPublishedError n) | Some x \<Rightarrow> Inr x)"

definition store_abs :: "('v, 'a) storeState \<Rightarrow> 'v vmap" where
  "store_abs s n = (case map_of (entries s) n of
     None \<Rightarrow> None
   | Some p \<Rightarrow> if hasValue (eheap s p) then Some (version (eheap s p), evalue (eheap s p)) else None)"

text \<open>An entry that was subscribed to and never published has version 0.\<close>

definition store_ok :: "('v, 'a) storeState \<Rightarrow> bool" where
  "store_ok s \<longleftrightarrow> store_wf s \<and>
     (\<forall>n p. map_of (entries s) n = Some p \<longrightarrow> \<not> hasValue (eheap s p) \<longrightarrow> version (eheap s p) = 0)"

lemma store_abs_update:
  assumes ok: "store_ok s" and se: "store_entry n s = (p, s1)"
    and e: "ename e = ename (eheap s1 p)" "\<not> hasValue e \<longrightarrow> version e = 0"
  shows "store_ok (set_entry p e s1)"
    and "store_abs (set_entry p e s1) = (store_abs s)(n := (if hasValue e then Some (version e, evalue e) else None))"
proof -
  have wf: "store_wf s" using ok by (simp add: store_ok_def)
  note spec = store_entry_spec [OF wf, of n, unfolded se prod.case]
  have wf1: "store_wf s1" and at: "map_of (entries s1) n = Some p" using spec by blast+
  have other: "map_of (entries s1) m = map_of (entries s) m" if "m \<noteq> n" for m using spec that by blast
  have heap: "((eheap s1)(p := e)) q = eheap s q" if "map_of (entries s) m = Some q" "m \<noteq> n" for m q
    using spec that store_wf_inj [OF wf1 at, of m] other [OF that(2)] by (metis fun_upd_other)
  have v0: "version (((eheap s1)(p := e)) q) = 0"
    if "map_of (entries s1) m = Some q" "\<not> hasValue (((eheap s1)(p := e)) q)" for m q
  proof (cases "m = n")
    case True
    with that at e(2) show ?thesis by simp
  next
    case False
    with that other heap ok show ?thesis unfolding store_ok_def by metis
  qed
  with set_entry_wf [OF wf1 e(1)] show "store_ok (set_entry p e s1)" unfolding store_ok_def by simp
  have "store_abs (set_entry p e s1) m = ((store_abs s)(n := (if hasValue e then Some (version e, evalue e) else None))) m" for m
  proof (cases "m = n")
    case True
    with at show ?thesis by (simp add: store_abs_def)
  next
    case False
    with other [OF False] heap [OF _ False] show ?thesis by (auto simp: store_abs_def split: option.splits)
  qed
  then show "store_abs (set_entry p e s1) = (store_abs s)(n := (if hasValue e then Some (version e, evalue e) else None))"
    by (rule ext)
qed

text \<open>The entry an operation works on, as the abstract map sees it.\<close>

lemma store_entry_abs:
  assumes ok: "store_ok s" and se: "store_entry n s = (p, s1)"
  shows "store_abs s n = (if hasValue (eheap s1 p) then Some (version (eheap s1 p), evalue (eheap s1 p)) else None)"
    and "\<not> hasValue (eheap s1 p) \<Longrightarrow> version (eheap s1 p) = 0"
proof -
  have wf: "store_wf s" using ok by (simp add: store_ok_def)
  note spec = store_entry_spec [OF wf, of n, unfolded se prod.case]
  show "store_abs s n = (if hasValue (eheap s1 p) then Some (version (eheap s1 p), evalue (eheap s1 p)) else None)"
    using spec by (cases "map_of (entries s) n") (auto simp: store_abs_def new_entry_def)
  show "version (eheap s1 p) = 0" if "\<not> hasValue (eheap s1 p)"
    using spec that ok by (cases "map_of (entries s) n") (auto simp: store_ok_def new_entry_def)
qed

lemma publish_refines:
  assumes ok: "store_ok s"
  shows "store_ok (fst (handle_publish fp fm mk opts now n v info sp s a w))
    \<and> store_abs (fst (handle_publish fp fm mk opts now n v info sp s a w)) = vm_publish n v (store_abs s)"
proof -
  obtain p s1 where se: "store_entry n s = (p, s1)" by (cases "store_entry n s")
  define e1 where "e1 = (eheap s1 p)\<lparr>einfo := info, evalue := Some v, version := wrap64 (version (eheap s1 p) + 1),
               hasValue := True, lastPub := Some now\<rparr>"
  define a1 where "a1 = (if sp then (let a0 = Open a in if Sweep opts > 0 then scheduleSweep opts a0 else a0) else a)"
  have "handle_publish fp fm mk opts now n v info sp s a w
      = scheduleRefresh fp fm mk now p (Cooldown opts) (set_entry p e1 s1) a1 w"
    unfolding handle_publish_def Let_def se prod.case by (simp only: a1_def e1_def Let_def)
  with scheduleRefresh_spec [of fp fm mk now p "Cooldown opts" "set_entry p e1 s1" a1 w]
  obtain e' where e': "fst (handle_publish fp fm mk opts now n v info sp s a w) = set_entry p e' s1" "same_value e1 e'"
    by (auto simp: set_entry_def)
  have sel: "ename e' = ename (eheap s1 p)" "hasValue e'" "evalue e' = Some v" "version e' = wrap64 (version (eheap s1 p) + 1)"
    using e'(2) by (simp_all add: same_value_def e1_def)
  note up = store_abs_update [OF ok se sel(1)]
  have "(case store_abs s n of None \<Rightarrow> 0 | Some (k, _) \<Rightarrow> k) = version (eheap s1 p)"
    using store_entry_abs [OF ok se] by simp
  with up sel show ?thesis by (simp add: e'(1) vm_publish_def)
qed

lemma subscribe_refines:
  assumes ok: "store_ok s"
  shows "case handle_subscribe n i b sp s a of (r, s', a') \<Rightarrow>
    store_ok s' \<and> store_abs s' = store_abs s \<and> r = vm_lookup n (store_abs s)"
proof -
  obtain p s1 where se: "store_entry n s = (p, s1)" by (cases "store_entry n s")
  define e1 where "e1 = (case b of None \<Rightarrow> eheap s1 p
     | Some b \<Rightarrow> (eheap s1 p)\<lparr>subs := AList.update b (bind_add (map_of (subs (eheap s1 p)) b) i) (subs (eheap s1 p))\<rparr>)"
  have sel: "ename e1 = ename (eheap s1 p)" "hasValue e1 = hasValue (eheap s1 p)" "version e1 = version (eheap s1 p)"
    "evalue e1 = evalue (eheap s1 p)"
    by (simp_all add: e1_def split: option.splits)
  note ab = store_entry_abs [OF ok se]
  note up = store_abs_update [OF ok se sel(1)]
  have "store_ok (set_entry p e1 s1)" "store_abs (set_entry p e1 s1) = store_abs s"
    using up ab by (simp_all add: sel fun_upd_idem)
  moreover have "(if \<not> hasValue e1 then Inl (NotPublishedError n) else Inr (version e1, evalue e1)) = vm_lookup n (store_abs s)"
    using ab(1) by (simp add: vm_lookup_def sel)
  ultimately show ?thesis
    unfolding handle_subscribe_def Let_def se prod.case by (fold e1_def) simp
qed

lemma fetch_refines: "handle_fetch n s = vm_lookup n (store_abs s)"
  by (simp add: handle_fetch_def vm_lookup_def store_abs_def split: option.splits)

lemma unpublish_refines:
  "store_ok s \<Longrightarrow> store_ok (handle_unpublish n s) \<and> store_abs (handle_unpublish n s) = vm_unpublish n (store_abs s)"
  using handle_unpublish_wf [of s n]
  by (auto simp: store_ok_def handle_unpublish_def vm_unpublish_def store_abs_def delete_conv' fun_eq_iff
      split: if_splits option.split)

text \<open>The names whose entries the sweep takes away.\<close>

definition swept :: "Options \<Rightarrow> int \<Rightarrow> store_cb timerStub \<Rightarrow> ('v, 'a) storeState \<Rightarrow> string set" where
  "swept opts now st s =
     (if stubFn st = UserFn SweepCb \<and> IdleTTL opts > 0
      then {n. \<exists>p. map_of (entries s) n = Some p \<and> idle_entry opts now (eheap s p)} else {})"

lemma map_of_filter_values:
  "distinct (map fst xs) \<Longrightarrow> map_of (filter (\<lambda>(n, p). P p) xs) n =
     (case map_of xs n of None \<Rightarrow> None | Some p \<Rightarrow> if P p then Some p else None)"
  by (induction xs) (auto split: option.split simp: map_of_eq_None_iff image_iff)

lemma restrict_map_UNIV: "m |` UNIV = m"
  by (simp add: restrict_map_def)

lemma sweep_refines:
  assumes ok: "store_ok s"
  shows "store_ok (fst (sweep_fired opts now s a))"
    "store_abs (fst (sweep_fired opts now s a)) =
       store_abs s |` (- (if IdleTTL opts > 0 then {n. \<exists>p. map_of (entries s) n = Some p \<and> idle_entry opts now (eheap s p)} else {}))"
proof -
  have wf: "store_wf s" using ok by (simp add: store_ok_def)
  have d: "distinct (map fst (entries s))" using wf by (simp add: store_wf_def)
  have look: "map_of (filter (\<lambda>(name, p). \<not> idle_entry opts now (eheap s p)) (entries s)) n = (case map_of (entries s) n of None \<Rightarrow> None
      | Some p \<Rightarrow> if idle_entry opts now (eheap s p) then None else Some p)" for n
    by (simp add: map_of_filter_values [OF d] split: option.split)
  show "store_ok (fst (sweep_fired opts now s a))"
    using sweep_fired_spec [OF wf, of opts now a] ok
    by (auto simp: store_ok_def sweep_fired_def Let_def look split: option.splits if_splits)
  show "store_abs (fst (sweep_fired opts now s a)) =
       store_abs s |` (- (if IdleTTL opts > 0 then {n. \<exists>p. map_of (entries s) n = Some p \<and> idle_entry opts now (eheap s p)} else {}))"
    by (auto simp: store_abs_def sweep_fired_def Let_def look restrict_map_def fun_eq_iff split: option.splits)
qed

lemma refresh_refines:
  assumes ok: "store_ok s"
  shows "store_ok (fst (refresh_fired fp fm mk now p s a w)) \<and> store_abs (fst (refresh_fired fp fm mk now p s a w)) = store_abs s"
proof -
  let ?e = "fst (sendRefresh fp fm mk now ((eheap s p)\<lparr>pending := False\<rparr>) a w)"
  have sv: "same_value ((eheap s p)\<lparr>pending := False\<rparr>) ?e" by (rule sendRefresh_same)
  have eq: "fst (refresh_fired fp fm mk now p s a w) = set_entry p ?e s"
    by (simp add: refresh_fired_def case_prod_beta)
  have "store_wf (fst (refresh_fired fp fm mk now p s a w))"
    using refresh_fired_spec [of s fp fm mk now p a w] ok by (simp add: store_ok_def)
  then have "store_ok (set_entry p ?e s)" using ok sv unfolding eq by (auto simp: store_ok_def same_value_def)
  moreover have "store_abs (set_entry p ?e s) = store_abs s"
    using sv by (auto simp: store_abs_def same_value_def fun_eq_iff split: option.splits)
  ultimately show ?thesis by (simp add: eq)
qed

lemma timer_refines:
  assumes ok: "store_ok s" and lv: "timer_live a st"
  shows "store_ok (fst (store_timer fp fm mk opts now st s a w))
    \<and> store_abs (fst (store_timer fp fm mk opts now st s a w)) = store_abs s |` (- swept opts now st s)"
proof -
  obtain it where it: "map_of (timers a) (stubId st) = Some it" "timer it = stubT st"
    using lv by (auto simp: timer_live_def)
  show ?thesis
  proof (cases "stubFn st")
    case PostponeFlush
    then show ?thesis using ok by (simp add: store_timer_def it Let_def swept_def case_prod_beta restrict_map_UNIV)
  next
    case (UserFn k)
    show ?thesis
    proof (cases k)
      case (RefreshCb p)
      with UserFn refresh_refines [OF ok] show ?thesis by (simp add: store_timer_def it Let_def swept_def restrict_map_UNIV)
    next
      case SweepCb
      have a1: "fst (store_timer fp fm mk opts now st s a w) = fst (sweep_fired opts now s a)"
        by (simp add: store_timer_def it Let_def UserFn SweepCb sweep_fired_def)
      have "swept opts now st s =
          (if IdleTTL opts > 0 then {n. \<exists>p. map_of (entries s) n = Some p \<and> idle_entry opts now (eheap s p)} else {})"
        by (simp add: swept_def UserFn SweepCb)
      with sweep_refines [OF ok, of opts now a] show ?thesis by (simp only: a1 simp_thms)
    qed
  qed
qed

text \<open>C32: a shard implements a map from names to versioned values. A publication puts the value under the next version; a
  subscription and a fetch look the name up and a name that is not there is the error; a removal takes the name out;
  refreshes and retries leave the map alone, and a sweep takes out exactly the names without bindings whose last
  publication is too long ago. Every operation keeps the representation in order.\<close>

theorem shard_refines_versioned_map:
  assumes "store_ok s" and "timer_live a st"
  shows "store_abs (fst (handle_publish fp fm mk opts now n v info sp s a w)) = vm_publish n v (store_abs s)
    \<and> (case handle_subscribe n i b sp s a of (r, s', a') \<Rightarrow>
         store_ok s' \<and> store_abs s' = store_abs s \<and> r = vm_lookup n (store_abs s))
    \<and> handle_fetch n s = vm_lookup n (store_abs s)
    \<and> store_abs (handle_unpublish n s) = vm_unpublish n (store_abs s)
    \<and> store_abs (fst (store_timer fp fm mk opts now st s a w)) = store_abs s |` (- swept opts now st s)
    \<and> store_ok (fst (handle_publish fp fm mk opts now n v info sp s a w)) \<and> store_ok (handle_unpublish n s)
    \<and> store_ok (fst (store_timer fp fm mk opts now st s a w))"
  by (intro conjI publish_refines [OF assms(1), THEN conjunct1] publish_refines [OF assms(1), THEN conjunct2]
      subscribe_refines [OF assms(1)] fetch_refines unpublish_refines [OF assms(1), THEN conjunct1]
      unpublish_refines [OF assms(1), THEN conjunct2] timer_refines [OF assms, THEN conjunct1]
      timer_refines [OF assms, THEN conjunct2])

definition demo_ctl :: "(nat, int refreshReq, store_cb) sctl" where
  "demo_ctl = scheduleSweep demo_opts (newActorControl ''store#0'')"

theorem shard_refines_versioned_map_witness:
  "store_abs (fst (handle_publish fp0 fm0 id demo_opts 0 ''k'' 7 None False store0 demo_ctl ())) = [''k'' \<mapsto> (1, Some 7)]
   \<and> fst (handle_subscribe ''k'' 5 (Some 0) False store0 demo_ctl) = Inl (NotPublishedError ''k'')"
proof -
  have "store_ok store0" by (simp add: store_ok_def store_wf_def store0_def)
  moreover have "timer_live demo_ctl (last (runtimeTimers demo_ctl))" by code_simp
  ultimately have *: "store_abs (fst (handle_publish fp0 fm0 id demo_opts 0 ''k'' 7 None False store0 demo_ctl ()))
        = vm_publish ''k'' 7 (store_abs store0)"
      "fst (handle_subscribe ''k'' 5 (Some 0) False store0 demo_ctl) = vm_lookup ''k'' (store_abs store0)"
    using shard_refines_versioned_map [of store0 demo_ctl "last (runtimeTimers demo_ctl)", where n = "''k''" and i = 5
      and b = "Some 0" and sp = False and fp = fp0 and fm = fm0 and mk = id and opts = demo_opts and now = 0 and v = 7
      and info = None and w = "()"]
    by (simp_all add: case_prod_beta)
  have "store_abs store0 = (\<lambda>_. None)" by (simp add: store_abs_def store0_def fun_eq_iff)
  with * show ?thesis by (simp add: vm_publish_def vm_lookup_def wrap64_def)
qed

end
