(* ===== verification/Actor_Context.thy ===== *)
theory Actor_Context
  imports Actor_Manager
begin

section \<open>The handler's view of its actor\<close>

text \<open>
  The methods of \<open>actor/actor_context.go\<close> that a handler calls on its activation, the adapter \<open>CIS\<close> of
  \<open>actor/registry_builder.go\<close>, and the rule a user of the library reasons with: an activation that stays open serves a batch
  as if its handlers were called one after the other on its state, each caller receiving the result of its own request. The
  programs under \<open>cmd/\<close> are verified with it.
\<close>

subsection \<open>Methods of the context\<close>

definition ctx_SetState :: "'s \<Rightarrow> ('a, 'q, 's, 'w, 'k) ActorContext \<Rightarrow> ('a, 'q, 's, 'w, 'k) ActorContext" where
  "ctx_SetState s c = c\<lparr>state := s\<rparr>"

definition ctx_Quit :: "('a, 'q, 's, 'w, 'k) ActorContext \<Rightarrow> ('a, 'q, 's, 'w, 'k) ActorContext" where
  "ctx_Quit c = c\<lparr>ctrl := Quit (ctrl c)\<rparr>"

definition ctx_Open :: "('a, 'q, 's, 'w, 'k) ActorContext \<Rightarrow> ('a, 'q, 's, 'w, 'k) ActorContext" where
  "ctx_Open c = c\<lparr>ctrl := Open (ctrl c)\<rparr>"

definition ctx_Timer ::
  "string \<Rightarrow> int \<Rightarrow> 'k \<Rightarrow> ('a, 'q, 's, 'w, 'k) ActorContext \<Rightarrow> int \<times> ('a, 'q, 's, 'w, 'k) ActorContext" where
  "ctx_Timer name d cb c = (let (i, ct) = Timer name d (UserFn cb) (ctrl c) in (i, c\<lparr>ctrl := ct\<rparr>))"

definition ctx_StopTimer ::
  "int \<Rightarrow> ('a, 'q, 's, 'w, 'k) ActorContext \<Rightarrow> bool \<times> ('a, 'q, 's, 'w, 'k) ActorContext" where
  "ctx_StopTimer i c = (let (ok, ct) = StopTimer i (ctrl c) in (ok, c\<lparr>ctrl := ct\<rparr>))"

definition ControlState ::
  "('a, 'f, 'q, 'e, 's, 'w, 'k, 'r) env \<Rightarrow> ('a, ('q, ('a, 'e) goerr) request, 's, 'w, 'k) ActorContext
    \<Rightarrow> ('a, ('q, ('a, 'e) goerr) request, ('s, 'w) hookst, 'k) ActorControl \<times> 'a \<times> 's" where
  "ControlState env c = (ctrl c, self env, state c)"

text \<open>
  \<open>CIS\<close> turns a function on control block, identity and state into a handler. The function works on pointers to the two parts of
  the context: it returns them as they are afterwards.
\<close>

definition CIS ::
  "('a, 'f, 'q, 'e, 's, 'w, 'k, 'r) env
    \<Rightarrow> (('a, ('q, ('a, 'e) goerr) request, ('s, 'w) hookst, 'k) ActorControl \<Rightarrow> 'a \<Rightarrow> 's \<Rightarrow> 'w \<Rightarrow> ('q, ('a, 'e) goerr) request \<Rightarrow> bool
         \<Rightarrow> (('a, ('q, ('a, 'e) goerr) request, ('s, 'w) hookst, 'k) ActorControl \<times> 's, 'w, 'r, ('a, 'e) goerr) outcome)
    \<Rightarrow> 'w \<Rightarrow> ('a, ('q, ('a, 'e) goerr) request, 's, 'w, 'k) ActorContext \<Rightarrow> ('q, ('a, 'e) goerr) request \<Rightarrow> bool
    \<Rightarrow> (('a, ('q, ('a, 'e) goerr) request, 's, 'w, 'k) ActorContext, 'w, 'r, ('a, 'e) goerr) outcome" where
  "CIS env cis w c q spawning =
     (let (ct, i, s) = ControlState env c in
      case cis ct i s w q spawning of
        HReturn (ct', s') w' rep err \<Rightarrow> HReturn (c\<lparr>ctrl := ct', state := s'\<rparr>) w' rep err
      | HPanic (ct', s') w' e \<Rightarrow> HPanic (c\<lparr>ctrl := ct', state := s'\<rparr>) w' e)"

text \<open>\<open>ContextTimer.Stop\<close>; \<open>clear\<close> is a closure over the world, \<open>timer\<close> a timer of the \<open>time\<close> package.\<close>

record 'w ContextTimer =
  ct_timer :: "nat option"
  ct_clear :: "('w \<Rightarrow> bool \<times> 'w) option"

definition ContextTimer_Stop ::
  "'w ContextTimer \<Rightarrow> 'w \<Rightarrow> 'k timerStub list \<Rightarrow> 'w ContextTimer \<times> 'w \<times> 'k timerStub list" where
  "ContextTimer_Stop ct w rts =
     (let (ct1, w1) = (case ct_clear ct of None \<Rightarrow> (ct, w) | Some c \<Rightarrow> (ct\<lparr>ct_clear := None\<rparr>, snd (c w)))
      in case ct_timer ct1 of
           None \<Rightarrow> (ct1, w1, rts)
         | Some t \<Rightarrow> (ct1\<lparr>ct_timer := None\<rparr>, w1, time_Stop t rts))"

text \<open>Stopping twice is stopping once: the clean-up function runs at most once.\<close>

lemma ContextTimer_Stop_idem:
  "ContextTimer_Stop ct w rts = (ct', w', rts') \<Longrightarrow> ContextTimer_Stop ct' w'' rs = (ct', w'', rs)"
  by (auto simp: ContextTimer_Stop_def Let_def split: option.splits)

lemmas ctx_defs = ctx_SetState_def ctx_Quit_def ctx_Open_def ctx_Timer_def ctx_StopTimer_def

lemma ctx_sel [simp]:
  "active (ctrl (ctx_SetState s c)) = active (ctrl c)" "state (ctx_SetState s c) = s"
  "active (ctrl (ctx_Open c))" "state (ctx_Open c) = state c"
  "\<not> active (ctrl (ctx_Quit c))" "state (ctx_Quit c) = state c"
  by (simp_all add: ctx_defs Open_def Quit_def)

lemma ctx_Timer_sel [simp]:
  "active (ctrl (snd (ctx_Timer n d k c))) = active (ctrl c)" "state (snd (ctx_Timer n d k c)) = state c"
  by (simp_all add: ctx_Timer_def case_prod_beta Timer_eq Let_def)

subsection \<open>An open activation serves its requests in order\<close>

text \<open>A request in the mailbox: where it comes from, its handler, itself, and the channel of a caller.\<close>

type_synonym ('f, 'q, 'err) mail = "From \<times> 'f handlerEntry \<times> ('q, 'err) request \<times> nat option"

fun mail_entry :: "('f, 'q, 'err) mail \<Rightarrow> ('f, 'q, 'err, 'k) invokable" where
  "mail_entry (f, h, q, ch) = Invoke f h q ch False"

text \<open>
  The reference: the handlers called one after the other. The result has the last context and world and what each caller is
  answered; there is none when a handler panics or closes the activation.
\<close>

fun serve_seq ::
  "('a, 'f, 'q, 'e, 's, 'w, 'k, 'r) env \<Rightarrow> ('f, 'q, ('a, 'e) goerr) mail list
    \<Rightarrow> ('a, ('q, ('a, 'e) goerr) request, 's, 'w, 'k) ActorContext \<Rightarrow> 'w
    \<Rightarrow> (('a, ('q, ('a, 'e) goerr) request, 's, 'w, 'k) ActorContext \<times> 'w \<times> (nat \<times> ('r, ('a, 'e) goerr) result) list) option" where
  "serve_seq env [] c w = Some (c, w, [])"
| "serve_seq env ((f, h, q, ch) # ms) c w =
     (case run_fn env (fn h) w (c\<lparr>ctrl := invokeLogger f (ctrl c)\<rparr>) q False of
        HPanic _ _ _ \<Rightarrow> None
      | HReturn c' w' rep err \<Rightarrow>
          if \<not> active (ctrl c') then None
          else (case serve_seq env ms c' w' of
                  None \<Rightarrow> None
                | Some (c2, w2, rs) \<Rightarrow>
                    Some (c2, w2, (case ch of None \<Rightarrow> rs | Some n \<Rightarrow> (n, \<lparr>Rep = rep, Err = err\<rparr>) # rs))))"

definition mail_chs :: "('f, 'q, 'err) mail list \<Rightarrow> nat list" where
  "mail_chs ms = List.map_filter (\<lambda>(f, h, q, ch). ch) ms"

lemma mail_chs_simps [simp]:
  "mail_chs [] = []" "mail_chs ((f, h, q, ch) # ms) = (case ch of None \<Rightarrow> mail_chs ms | Some c \<Rightarrow> c # mail_chs ms)"
  by (simp_all add: mail_chs_def List.map_filter_def split: option.splits)

definition put_results :: "(nat \<times> ('r, 'err) result) list \<Rightarrow> (nat \<Rightarrow> ('r, 'err) result chan) \<Rightarrow> nat \<Rightarrow> ('r, 'err) result chan" where
  "put_results rs cs n = (case map_of rs n of None \<Rightarrow> cs n | Some r \<Rightarrow> (cs n)\<lparr>items := items (cs n) @ [r]\<rparr>)"

lemma serve_seq_chs: "serve_seq env ms c w = Some (c', w', rs) \<Longrightarrow> map fst rs = mail_chs ms"
  by (induction ms arbitrary: c w c' w' rs rule: list.induct)
    (auto split: outcome.splits if_splits option.splits)

text \<open>One entry of an open activation, as \<open>invokeBatch\<close> serves it.\<close>

lemma msg_step_open:
  assumes "allow_query h" "active (ctrl c)" "active (ctrl c')" "unanswered m (set_option ch)"
    and "run_fn env (fn h) (world m) (c\<lparr>ctrl := invokeLogger f (ctrl c)\<rparr>) q False = HReturn c' w' rep err"
  shows "msg_step env (Invoke f h q ch False) m (Some c) p =
    SNext (m\<lparr>world := w', chans := put_results (case ch of None \<Rightarrow> [] | Some n \<Rightarrow> [(n, \<lparr>Rep = rep, Err = err\<rparr>)]) (chans m)\<rparr>)
      (Some c') True"
  using assms
  by (auto simp: msg_step_def Let_def invoke_Invoke_def put_opt_def put_result_def chan_send_def unanswered_def settle_def
      put_results_def fun_eq_iff split: option.splits intro!: arg_cong [where f = "\<lambda>cs. m\<lparr>chans := cs, world := w'\<rparr>"])

lemma put_results_Cons:
  "c \<notin> set (map fst rs) \<Longrightarrow> put_results rs (put_results [(c, r)] cs) = put_results ((c, r) # rs) cs"
  by (rule ext) (auto simp: put_results_def map_of_eq_None_iff split: option.splits)

lemma put_results_Nil [simp]: "put_results [] cs = cs"
  by (simp add: put_results_def fun_eq_iff)

lemma invokeBatch_serves:
  assumes "serve_seq env ms c (world m) = Some (c', w', rs)"
    and "active (ctrl c)" "\<forall>x\<in>set ms. allow_query (fst (snd x))"
    and "distinct (mail_chs ms)" "unanswered m (set (mail_chs ms))"
  shows "invokeBatch env (map mail_entry ms) m (Some c) p = BDone (m\<lparr>world := w', chans := put_results rs (chans m)\<rparr>) (Some c')"
  using assms
proof (induction ms arbitrary: c m rs p)
  case Nil
  then show ?case by simp
next
  case (Cons x ms)
  obtain f h q ch where x: "x = (f, h, q, ch)" by (cases x) auto
  obtain c1 w1 rep err where run: "run_fn env (fn h) (world m) (c\<lparr>ctrl := invokeLogger f (ctrl c)\<rparr>) q False = HReturn c1 w1 rep err"
    using Cons.prems(1) by (auto simp: x split: outcome.splits)
  let ?r1 = "case ch of None \<Rightarrow> [] | Some n \<Rightarrow> [(n, \<lparr>Rep = rep, Err = err\<rparr>)]"
  let ?m1 = "m\<lparr>world := w1, chans := put_results ?r1 (chans m)\<rparr>"
  have act: "active (ctrl c1)" using Cons.prems(1) run by (auto simp: x split: if_splits)
  obtain rs2 where rs2: "serve_seq env ms c1 w1 = Some (c', w', rs2)" "rs = ?r1 @ rs2"
    using Cons.prems(1) run act by (auto simp: x split: option.splits)
  have un: "unanswered m (set_option ch)" using Cons.prems(5) by (auto simp: x unanswered_def split: option.splits)
  have q: "allow_query h" using Cons.prems(3) by (simp add: x)
  have chs: "map fst rs2 = mail_chs ms" by (rule serve_seq_chs [OF rs2(1)])
  have un1: "unanswered ?m1 (set (mail_chs ms))"
    using Cons.prems(4,5) by (auto simp: x unanswered_def put_results_def split: option.splits)
  have "invokeBatch env (map mail_entry ms) ?m1 (Some c1) True =
      BDone (?m1\<lparr>world := w', chans := put_results rs2 (chans ?m1)\<rparr>) (Some c')"
    using Cons.IH [of c1 ?m1 rs2 True] rs2(1) act Cons.prems(3,4) un1 by (auto simp: x split: option.splits)
  moreover have "put_results rs2 (put_results ?r1 (chans m)) = put_results rs (chans m)"
    using Cons.prems(4) chs put_results_Cons [of _ rs2] by (auto simp: rs2(2) x split: option.splits)
  ultimately show ?case
    using msg_step_open [OF q Cons.prems(2) act un run, of p] by (simp add: x)
qed

text \<open>A handler that only looks at the request and the state, and does not close the activation.\<close>

definition pure_handler ::
  "('a, 'f, 'q, 'e, 's, 'w, 'k, 'r) env \<Rightarrow> 'f \<Rightarrow> ('q, ('a, 'e) goerr) request \<Rightarrow> ('s \<Rightarrow> 's \<times> 'r option \<times> ('a, 'e) goerr option) \<Rightarrow> bool" where
  "pure_handler env f q g \<longleftrightarrow> (\<forall>w c. run_fn env f w c q False =
     HReturn (c\<lparr>state := fst (g (state c))\<rparr>) w (fst (snd (g (state c)))) (snd (snd (g (state c)))))"

text \<open>With pure handlers the batch is a run of the state machine they define.\<close>

fun replay :: "('q \<Rightarrow> 's \<Rightarrow> 's \<times> 'r option \<times> 'err option) \<Rightarrow> ('q \<times> nat option) list \<Rightarrow> 's \<Rightarrow> 's \<times> (nat \<times> ('r, 'err) result) list" where
  "replay g [] s = (s, [])"
| "replay g ((q, ch) # qs) s =
     (let (s1, rep, err) = g q s; (s2, rs) = replay g qs s1
      in (s2, (case ch of None \<Rightarrow> rs | Some n \<Rightarrow> (n, \<lparr>Rep = rep, Err = err\<rparr>) # rs)))"

definition mail_reqs :: "('f, 'q, 'err) mail list \<Rightarrow> (('q, 'err) request \<times> nat option) list" where
  "mail_reqs ms = map (\<lambda>(f, h, q, ch). (q, ch)) ms"

lemma serve_seq_pure:
  assumes "\<forall>(f, h, q, ch)\<in>set ms. pure_handler env (fn h) q (g q)" "active (ctrl c)"
  shows "\<exists>c'. serve_seq env ms c w = Some (c', w, snd (replay g (mail_reqs ms) (state c)))
    \<and> active (ctrl c') \<and> state c' = fst (replay g (mail_reqs ms) (state c))"
  using assms
proof (induction ms arbitrary: c)
  case Nil
  then show ?case by (simp add: mail_reqs_def)
next
  case (Cons x ms)
  obtain f h q ch where x: "x = (f, h, q, ch)" by (cases x) auto
  obtain s1 rep err where g: "g q (state c) = (s1, rep, err)" by (metis prod_cases3)
  let ?c1 = "c\<lparr>ctrl := invokeLogger f (ctrl c), state := s1\<rparr>"
  have act: "active (ctrl ?c1)" using Cons.prems(2) by (simp add: invokeLogger_def)
  have run: "run_fn env (fn h) w (c\<lparr>ctrl := invokeLogger f (ctrl c)\<rparr>) q False = HReturn ?c1 w rep err"
    using Cons.prems(1) by (simp add: x pure_handler_def g)
  from Cons.IH [OF _ act] Cons.prems(1) obtain c' where
    "serve_seq env ms ?c1 w = Some (c', w, snd (replay g (mail_reqs ms) s1))" "active (ctrl c')"
    "state c' = fst (replay g (mail_reqs ms) s1)" by auto
  with run act show ?case by (auto simp: x mail_reqs_def g case_prod_beta split: option.splits)
qed

text \<open>The rule for the programs: the goroutine, the state machine and the callers' channels agree.\<close>

lemma batch_is_replay:
  assumes "\<forall>(f, h, q, ch)\<in>set ms. allow_query h \<and> pure_handler env (fn h) q (g q)" "active (ctrl c)"
    and "distinct (mail_chs ms)" "unanswered m (set (mail_chs ms))"
  shows "\<exists>c'. invokeBatch env (map mail_entry ms) m (Some c) p =
      BDone (m\<lparr>chans := put_results (snd (replay g (mail_reqs ms) (state c))) (chans m)\<rparr>) (Some c')
    \<and> active (ctrl c') \<and> state c' = fst (replay g (mail_reqs ms) (state c))"
proof -
  have pure: "\<forall>(f, h, q, ch)\<in>set ms. pure_handler env (fn h) q (g q)" using assms(1) by auto
  obtain c' where c': "serve_seq env ms c (world m) = Some (c', world m, snd (replay g (mail_reqs ms) (state c)))"
      "active (ctrl c')" "state c' = fst (replay g (mail_reqs ms) (state c))"
    using serve_seq_pure [OF pure assms(2), of "world m"] by blast
  have "\<forall>x\<in>set ms. allow_query (fst (snd x))" using assms(1) by fastforce
  from invokeBatch_serves [OF c'(1) assms(2) this assms(3,4), of p] c'(2,3) show ?thesis by auto
qed

text \<open>The entry that creates an activation and leaves it open.\<close>

lemma msg_step_spawn:
  assumes "allow_spawn h" "unanswered m (set_option ch)" "active (ctrl c2)"
    and "spawn_hook env (newActorContext env) (world m) = HReturn c1 w1 r0 None"
    and "run_fn env (fn h) w1 (c1\<lparr>ctrl := invokeLogger f (ctrl c1)\<rparr>) q True = HReturn c2 w2 rep err"
  shows "msg_step env (Invoke f h q ch False) m None p =
    SNext (m\<lparr>world := w2, gidle := gidle m - 1,
             chans := put_results (case ch of None \<Rightarrow> [] | Some n \<Rightarrow> [(n, \<lparr>Rep = rep, Err = err\<rparr>)]) (chans m)\<rparr>)
      (Some c2) False"
proof (cases ch)
  case None
  with assms show ?thesis
    by (auto simp: msg_step_def Let_def invoke_Invoke_def put_opt_def settle_def)
next
  case (Some n)
  have "put_results [(n, r)] (chans m) = (chans m)(n := (chans m n)\<lparr>items := items (chans m n) @ [r]\<rparr>)" for r
    by (auto simp: put_results_def fun_eq_iff)
  with Some assms show ?thesis
    by (auto simp: msg_step_def Let_def invoke_Invoke_def put_opt_def put_result_def chan_send_def unanswered_def settle_def)
qed

end
