(* ===== verification/Shared_Serve.thy ===== *)
theory Shared_Serve
  imports Shared_Delivery Actor_Context
begin

section \<open>Serving the shared store\<close>

text \<open>
  How the store of \<open>shared/store.go\<close> and the readers of \<open>shared/reader.go\<close> are put into a manager: the process-wide number of
  shards and fetch timeout, the message types of a shard and their registration, the table of bindings. A shard that
  serves any list of messages stays in the transition system of \<open>Shared_Delivery\<close>.
\<close>

subsection \<open>Messages of a shard\<close>

datatype ('v, 'a) storeReq =
    PublishReq string 'v "'v defInfo option"
  | SubscribeReq string 'a "nat option"
  | FetchReq string
  | UnpublishReq string

fun storeReqType :: "('v, 'a) storeReq \<Rightarrow> string" where
  "storeReqType (PublishReq _ _ _) = ''__shared_publish__''"
| "storeReqType (SubscribeReq _ _ _) = ''__shared_subscribe__''"
| "storeReqType (FetchReq _) = ''__shared_fetch__''"
| "storeReqType (UnpublishReq _) = ''__shared_unpublish__''"

datatype 'v storeRep = StoreOk | SubscribeRep int "'v option" | FetchRep int "'v option"

text \<open>The registrations; a handler is named by its request.\<close>

definition registerStoreHandlers :: "(string, 'o) RegistryBuilder \<Rightarrow> (string, 'o) RegistryBuilder" where
  "registerStoreHandlers b =
     RegisterServe ''__shared_unpublish__'' ''unpublish''
       (RegisterQuery ''__shared_fetch__'' ''fetch''
         (RegisterServe ''__shared_subscribe__'' ''subscribe''
           (RegisterServe ''__shared_publish__'' ''publish'' b)))"

text \<open>The closure registered for a request, with its reply.\<close>

fun store_handle ::
  "('a, 'q, 'e, 'w) fpost \<Rightarrow> ('a, 'q, 'e, 'w) fmulticast \<Rightarrow> ('v refreshReq \<Rightarrow> 'q) \<Rightarrow> Options \<Rightarrow> int \<Rightarrow> ('v, 'a) storeReq \<Rightarrow> bool
    \<Rightarrow> ('v, 'a) storeState \<Rightarrow> ('a, 'q, store_cb) sctl \<Rightarrow> 'w
    \<Rightarrow> (sharederr + 'v storeRep) \<times> ('v, 'a) storeState \<times> ('a, 'q, store_cb) sctl \<times> 'w" where
  "store_handle fp fm mk opts now (PublishReq n v info) sp s a w =
     (let (s', a', w') = handle_publish fp fm mk opts now n v info sp s a w in (Inr StoreOk, s', a', w'))"
| "store_handle fp fm mk opts now (SubscribeReq n i b) sp s a w =
     (let (r, s', a') = handle_subscribe n i b sp s a
      in (case r of Inl e \<Rightarrow> Inl e | Inr (v, x) \<Rightarrow> Inr (SubscribeRep v x), s', a', w))"
| "store_handle fp fm mk opts now (FetchReq n) sp s a w =
     (case handle_fetch n s of Inl e \<Rightarrow> Inl e | Inr (v, x) \<Rightarrow> Inr (FetchRep v x), s, a, w)"
| "store_handle fp fm mk opts now (UnpublishReq n) sp s a w = (Inr StoreOk, handle_unpublish n s, a, w)"

text \<open>Every message is a step of the shard, or leaves it as it was.\<close>

lemma store_handle_step:
  assumes "store_handle (log_fp fp) (log_fm fm) mk opts now q sp s a wl = (r, s', a', wl')"
  shows "\<exists>rp'. (shard_step fp fm mk opts)\<^sup>*\<^sup>* (s, a, wl, rp) (s', a', wl', rp')
    \<and> (\<forall>n i b v x. q = SubscribeReq n i b \<longrightarrow> r = Inr (SubscribeRep v x) \<longrightarrow> (i, n, v, x) \<in> set rp')"
proof (cases q)
  case (PublishReq n v info)
  then have "shard_step fp fm mk opts (s, a, wl, rp) (s', a', wl', rp)"
    using assms by (auto split: prod.splits intro: publish)
  with PublishReq show ?thesis by blast
next
  case (SubscribeReq n i b)
  obtain res t c where h: "handle_subscribe n i b sp s a = (res, t, c)" by (metis prod_cases3)
  show ?thesis
  proof (cases res)
    case (Inl e)
    with h assms SubscribeReq have "shard_step fp fm mk opts (s, a, wl, rp) (s', a', wl', rp)" by (auto intro: refused)
    with h assms SubscribeReq Inl show ?thesis by (intro exI [of _ rp]) auto
  next
    case (Inr y)
    obtain v x where y: "y = (v, x)" by (cases y)
    with h assms SubscribeReq Inr have "shard_step fp fm mk opts (s, a, wl, rp) (s', a', wl', rp @ [(i, n, v, x)])"
      by (auto intro: subscribe)
    with h assms SubscribeReq Inr y show ?thesis by (intro exI [of _ "rp @ [(i, n, v, x)]"]) auto
  qed
next
  case (FetchReq n)
  with assms show ?thesis by (intro exI [of _ rp]) auto
next
  case (UnpublishReq n)
  then have "shard_step fp fm mk opts (s, a, wl, rp) (s', a', wl', rp)" using assms by (auto intro: unpublish)
  with UnpublishReq show ?thesis by blast
qed

subsection \<open>The process-wide configuration\<close>

definition fetchTimeout :: "int \<times> Options \<Rightarrow> int" where
  "fetchTimeout cfg = FetchTimeout (snd cfg)"

text \<open>\<open>Serve\<close>: \<^const>\<open>None\<close> is its panic, for another number of shards or a group that is registered already.\<close>

definition store_build :: "(string, string) RegistryBuilder \<Rightarrow> (string, string) RegistryBuilder" where
  "store_build b = registerStoreHandlers (SetOnSpawn (Some ''make entries'') b)"

definition shared_Serve ::
  "'a id_ops \<Rightarrow> 'a \<Rightarrow> Options \<Rightarrow> int \<times> Options \<Rightarrow> ('a, string, 'q, 'e, 'k, 'r, string, 'v) Manager
    \<Rightarrow> ((int \<times> Options) \<times> ('a, string, 'q, 'e, 'k, 'r, string, 'v) Manager) option" where
  "shared_Serve io id0 opts cfg m =
     (case fix_shards opts cfg of
        None \<Rightarrow> None
      | Some cfg' \<Rightarrow>
          (case Serve io id0 (nat (BufMails (withDefaults opts))) store_build m of
             None \<Rightarrow> None
           | Some m' \<Rightarrow> Some (cfg', m')))"

text \<open>Once a store is served, every key keeps its shard and the fetch timeout is positive, whatever stores are served later.\<close>

lemma shared_Serve_config:
  assumes "shared_Serve io id0 opts cfg m = Some (cfg', m')"
    and "fst cfg = 0 \<or> 0 < fst cfg \<and> 0 < fetchTimeout cfg"
  shows "0 < fst cfg' \<and> 0 < fetchTimeout cfg' \<and> (fst cfg \<noteq> 0 \<longrightarrow> cfg' = cfg \<and> shardOf (fst cfg') n = shardOf (fst cfg) n)"
  using assms
  by (auto simp: shared_Serve_def fix_shards_def fetchTimeout_def withDefaults_def Let_def split: option.splits if_splits)

text \<open>A served store answers its four requests; only the fetch cannot spawn a shard.\<close>

lemma shared_Serve_handles:
  assumes "shared_Serve io id0 opts cfg m = Some (cfg', m')" "\<not> mstopping m" "ActorType io i = actorTypeOf io id0"
  shows "\<exists>g h. findHandler io i (UserReq (storeReqType q) x) m' = Inr (g, h) \<and> allow_query h
    \<and> allow_spawn h = (\<forall>n. q \<noteq> FetchReq n)"
  using assms
  by (cases q) (auto simp: shared_Serve_def Serve_def ServeWith_def findHandler_def findGroup_def store_build_def
      registerStoreHandlers_def RegisterServe_def RegisterQuery_def register_def SetOnSpawn_def newGroup_def group_findHandler_def Let_def update_conv
      split: option.splits if_splits)

subsection \<open>Bindings\<close>

record bindtab =
  bindings :: "(string \<times> nat) list"
  nextBinding :: nat

definition lookupBinding :: "bindtab \<Rightarrow> string \<Rightarrow> nat option" where
  "lookupBinding bt t = map_of (bindings bt) t"

definition newBinding :: "bindtab \<Rightarrow> nat \<times> bindtab" where
  "newBinding bt = (nextBinding bt, bt\<lparr>nextBinding := Suc (nextBinding bt)\<rparr>)"

definition ServeReader :: "string \<Rightarrow> (string, 'o) RegistryBuilder \<Rightarrow> bindtab \<Rightarrow> (string, 'o) RegistryBuilder \<times> bindtab" where
  "ServeReader rt b bt =
     (let (n, bt1) = newBinding bt
      in (RegisterQuery ''__shared_refresh__'' ''refresh'' b, bt1\<lparr>bindings := AList.update rt n (bindings bt1)\<rparr>))"

text \<open>After \<open>ServeReader\<close> the group can watch and takes pushes; other groups keep their bindings, and no two groups share one.\<close>

definition bindtab_ok :: "bindtab \<Rightarrow> bool" where
  "bindtab_ok bt \<longleftrightarrow> distinct (map fst (bindings bt)) \<and> distinct (map snd (bindings bt)) \<and> (\<forall>n\<in>snd ` set (bindings bt). n < nextBinding bt)"

lemma update_snd_fresh:
  "distinct (map snd al) \<Longrightarrow> n \<notin> snd ` set al \<Longrightarrow> distinct (map snd (AList.update k n al)) \<and> snd ` set (AList.update k n al) \<subseteq> insert n (snd ` set al)"
  by (induction al) auto

lemma ServeReader_ok:
  assumes "bindtab_ok bt" "ServeReader rt b bt = (b', bt')"
  shows "bindtab_ok bt' \<and> lookupBinding bt' rt = Some (nextBinding bt)
    \<and> (\<forall>t. t \<noteq> rt \<longrightarrow> lookupBinding bt' t = lookupBinding bt t)
    \<and> (\<exists>h. handlers b' ''__shared_refresh__'' = Some h \<and> allow_query h \<and> \<not> allow_spawn h)"
proof -
  have eq: "bindings bt' = AList.update rt (nextBinding bt) (bindings bt)" "nextBinding bt' = Suc (nextBinding bt)"
    "b' = RegisterQuery ''__shared_refresh__'' ''refresh'' b"
    using assms(2) by (auto simp: ServeReader_def newBinding_def)
  have "nextBinding bt \<notin> snd ` set (bindings bt)" using assms(1) by (auto simp: bindtab_ok_def)
  with update_snd_fresh [of "bindings bt" "nextBinding bt" rt] assms(1) have "bindtab_ok bt'"
    by (fastforce simp: bindtab_ok_def eq distinct_update)
  then show ?thesis by (simp add: lookupBinding_def eq update_conv RegisterQuery_def register_def)
qed

end
