(* ===== verification/Shared_Example.thy ===== *)
theory Shared_Example
  imports Shared_Serve
begin

section \<open>The example of shared values\<close>

text \<open>
  \<open>cmd/shared_example/main.go\<close>: a world publishes its seed and its weather, a region watches them. The store of the example is the
  sharded store of \<open>shared/\<close>: below it is one object, whose shards serve each message when it is sent, with the
  pushes to the regions kept in a list. The abstraction of the shards to one map of versioned values is proved for any
  number of shards. Log lines and the printing of the main function are left out.
\<close>

subsection \<open>A sharded store\<close>

record ('v, 'a) sharded =
  shs :: "int \<Rightarrow> ('v, 'a) storeState \<times> ('a, 'v refreshReq, store_cb) sctl"
  inbox :: "('a \<times> 'v refreshReq) list"

text \<open>The regions accept every push.\<close>

definition ib_post :: "('a, 'v refreshReq, 'e, ('a \<times> 'v refreshReq) list) fpost" where
  "ib_post w f i q = (None, w @ [(i, q)])"

definition ib_multi :: "('a, 'v refreshReq, 'e, ('a \<times> 'v refreshReq) list) fmulticast" where
  "ib_multi w f is q = (Inr (map (\<lambda>i. \<lparr>ieId = i, ieErr = None\<rparr>) is), w @ map (\<lambda>i. (i, q)) is)"

text \<open>A message to a shard; a shard that is not open yet is spawned by it.\<close>

definition sh_publish ::
  "Options \<Rightarrow> int \<Rightarrow> int \<Rightarrow> string \<times> 'v \<times> 'v defInfo option \<Rightarrow> ('v, 'a) sharded \<Rightarrow> 'err option \<times> ('v, 'a) sharded" where
  "sh_publish opts now sh m w =
     (case m of (name, v, info) \<Rightarrow>
        (let (s, a) = shs w sh;
             (s', a', ib) = handle_publish (ib_post :: ('a, 'v refreshReq, unit, _) fpost) ib_multi id opts now name v info (\<not> active a) s a (inbox w)
         in (None, w\<lparr>shs := (shs w)(sh := (s', a')), inbox := ib\<rparr>)))"

definition sh_subscribe ::
  "'a \<Rightarrow> int \<Rightarrow> string \<Rightarrow> nat \<Rightarrow> ('v, 'a) sharded \<Rightarrow> (('b, sharederr) goerr + int \<times> 'v option) \<times> ('v, 'a) sharded" where
  "sh_subscribe me sh name b w =
     (let (s, a) = shs w sh;
          (r, s', a') = handle_subscribe name me (Some b) (\<not> active a) s a
      in (case r of Inl e \<Rightarrow> Inl (UserErr e) | Inr x \<Rightarrow> Inr x, w\<lparr>shs := (shs w)(sh := (s', a'))\<rparr>))"

text \<open>A fetch does not spawn a shard.\<close>

definition sh_fetch :: "(int \<Rightarrow> 'b) \<Rightarrow> int \<Rightarrow> string \<Rightarrow> ('v, 'a) sharded \<Rightarrow> (('b, sharederr) goerr + int \<times> 'v option) \<times> ('v, 'a) sharded" where
  "sh_fetch sid sh name w =
     (let (s, a) = shs w sh in
      if \<not> active a then (Inl (ActorNotFoundError (sid sh)), w)
      else (case handle_fetch name s of Inl e \<Rightarrow> Inl (UserErr e) | Inr x \<Rightarrow> Inr x, w))"

text \<open>The shards as one map.\<close>

definition shard_no :: "int \<Rightarrow> string \<Rightarrow> int" where
  "shard_no n name = the (shardOf n name)"

definition dir :: "int \<Rightarrow> ('v, 'a) sharded \<Rightarrow> 'v vmap" where
  "dir n w name = store_abs (fst (shs w (shard_no n name))) name"

definition dir_ok :: "('v, 'a) sharded \<Rightarrow> bool" where
  "dir_ok w \<longleftrightarrow> (\<forall>sh. store_ok (fst (shs w sh)))"

lemma dir_update:
  assumes "store_abs s' = (store_abs (fst (shs w (shard_no n name))))(name := x)"
  shows "dir n (w\<lparr>shs := (shs w)(shard_no n name := (s', a')), inbox := ib\<rparr>) = (dir n w)(name := x)"
  by (rule ext) (simp add: dir_def assms)

lemma publish_dir:
  assumes ok: "dir_ok w" and n: "0 < n" "n < 2 ^ 32"
  shows "\<exists>w'. PublishFrom n (sh_publish opts now) k v w = (case publishMessage k v of
       Ret m \<Rightarrow> Ret (None, w') | GoPanic \<Rightarrow> GoPanic | GoBlocks \<Rightarrow> GoBlocks)
    \<and> (\<forall>m. publishMessage k v = Ret m \<longrightarrow> dir_ok w' \<and> dir n w' = vm_publish (kname k) (fst (snd m)) (dir n w)
         \<and> active (snd (shs w' (shard_no n (kname k)))))"
proof -
  obtain sh where sh: "shardOf n (kname k) = Some sh" using shardOf_in_range [OF n] by blast
  show ?thesis
  proof (cases "publishMessage k v")
    case (Ret m)
    obtain nm x info where m: "m = (nm, x, info)" by (metis prod_cases3)
    have nm: "nm = kname k" using Ret by (auto simp: m publishMessage_def split: option.splits go.splits)
    have shn: "shard_no n (kname k) = sh" by (simp add: shard_no_def sh)
    obtain s a where sa: "shs w sh = (s, a)" by fastforce
    obtain s' a' ib where h: "handle_publish (ib_post :: (_, _, unit, _) fpost) ib_multi id opts now nm x info (\<not> active a) s a (inbox w) = (s', a', ib)"
      by (metis prod_cases3)
    let ?w' = "w\<lparr>shs := (shs w)(sh := (s', a')), inbox := ib\<rparr>"
    have oks: "store_ok s" using ok [unfolded dir_ok_def, THEN spec, of sh] by (simp add: sa)
    from publish_refines [OF oks, where fp = "ib_post :: (_, _, unit, _) fpost" and fm = ib_multi and mk = id and opts = opts and now = now
        and n = nm and v = x and info = info and sp = "\<not> active a" and a = a and w = "inbox w"]
    have s': "store_ok s'" "store_abs s' = vm_publish nm x (store_abs s)" by (simp_all add: h)
    have "dir_ok ?w'" using ok s'(1) by (simp add: dir_ok_def)
    moreover have "dir n ?w' = vm_publish (kname k) x (dir n w)"
    proof -
      have at: "dir n w (kname k) = store_abs s (kname k)" by (simp add: dir_def shn sa)
      have "store_abs s' = (store_abs (fst (shs w (shard_no n (kname k)))))(kname k := vm_publish (kname k) x (store_abs s) (kname k))"
        using s'(2) by (simp add: shn sa nm vm_publish_def)
      from dir_update [OF this, where a' = a' and ib = ib] show ?thesis by (simp add: shn vm_publish_def at)
    qed
    moreover have "PublishFrom n (sh_publish opts now) k v w = Ret (None, ?w')"
      by (simp add: PublishFrom_def to_shard_def sh Ret sh_publish_def m sa h)
    moreover have "active a'"
      using handle_publish_active [of "ib_post :: (_, _, unit, _) fpost" ib_multi id opts now nm x info "\<not> active a" s a "inbox w"]
      by (simp add: h)
    ultimately show ?thesis using Ret by (auto simp: m shn)
  qed (simp_all add: PublishFrom_def to_shard_def sh)
qed

lemma subscribe_dir:
  assumes ok: "dir_ok w"
  shows "\<exists>w'. sh_subscribe me (shard_no n name) name b w =
      (case vm_lookup name (dir n w) of Inl e \<Rightarrow> Inl (UserErr e) | Inr x \<Rightarrow> Inr x, w') \<and> dir_ok w' \<and> dir n w' = dir n w"
proof -
  obtain s a where sa: "shs w (shard_no n name) = (s, a)" by fastforce
  obtain r s' a' where h: "handle_subscribe name me (Some b) (\<not> active a) s a = (r, s', a')" by (metis prod_cases3)
  have oks: "store_ok s" using ok [unfolded dir_ok_def, THEN spec, of "shard_no n name"] by (simp add: sa)
  from subscribe_refines [OF oks, of name me "Some b" "\<not> active a" a]
  have s': "store_ok s'" "store_abs s' = store_abs s" "r = vm_lookup name (store_abs s)" by (simp_all add: h)
  let ?w' = "w\<lparr>shs := (shs w)(shard_no n name := (s', a'))\<rparr>"
  have "dir_ok ?w'" using ok s'(1) by (simp add: dir_ok_def)
  moreover have "dir n ?w' = dir n w" by (rule ext) (simp add: dir_def s'(2) sa)
  moreover have "vm_lookup name (store_abs s) = vm_lookup name (dir n w)" by (simp add: vm_lookup_def dir_def sa)
  ultimately show ?thesis by (auto simp: sh_subscribe_def sa h s'(3))
qed

lemma fetch_dir:
  assumes "active (snd (shs w (shard_no n name)))"
  shows "sh_fetch sid (shard_no n name) name w = (case vm_lookup name (dir n w) of Inl e \<Rightarrow> Inl (UserErr e) | Inr x \<Rightarrow> Inr x, w)"
  using assms by (simp add: sh_fetch_def case_prod_beta fetch_refines vm_lookup_def dir_def)

subsection \<open>Keys and types of the example\<close>

datatype dval = DInt int | DStr string

fun isDInt :: "dval \<Rightarrow> bool" where
  "isDInt (DInt _) = True"
| "isDInt (DStr _) = False"

fun isDStr :: "dval \<Rightarrow> bool" where
  "isDStr (DStr _) = True"
| "isDStr (DInt _) = False"

text \<open>\<open>fmt.Sprintf\<close> on patterns with \<open>%s\<close>.\<close>

fun sprintf_s :: "string \<Rightarrow> string list \<Rightarrow> string" where
  "sprintf_s [] as = []"
| "sprintf_s [c] as = [c]"
| "sprintf_s (c # d # r) [] = c # sprintf_s (d # r) []"
| "sprintf_s (c # d # r) (a # as) =
     (if c = CHR ''%'' \<and> d = CHR ''s'' then a @ sprintf_s r as else c # sprintf_s (d # r) (a # as))"

text \<open>The two keys, defined one after the other.\<close>

definition demo_defs :: "((dval defInfo \<times> dval defInfo) \<times> string set) option" where
  "demo_defs =
     Option.bind (Define ''demo/world/%s/seed'' [Immutable] {}) (\<lambda>(seed, s1).
     Option.bind (Define ''demo/world/%s/weather'' [WithCooldown (100 * 1000000), WithTTL (30 * 1000000000)] s1) (\<lambda>(weather, s2).
     Some ((seed, weather), s2)))"

definition DemoWorldSeed :: "dval defInfo" where
  "DemoWorldSeed = fst (fst (the demo_defs))"

definition DemoWorldWeather :: "dval defInfo" where
  "DemoWorldWeather = snd (fst (the demo_defs))"

definition seed_key :: "string \<Rightarrow> dval Key" where
  "seed_key name = Def_Of sprintf_s DemoWorldSeed [name]"

definition weather_key :: "string \<Rightarrow> dval Key" where
  "weather_key name = Def_Of sprintf_s DemoWorldWeather [name]"

datatype shId = DemoWorld string | DemoRegion string | StoreShard int

definition sh_ops :: "shId id_ops" where
  "sh_ops =
     \<lparr>ActorType = (\<lambda>i. case i of DemoWorld _ \<Rightarrow> ''DemoWorld'' | DemoRegion _ \<Rightarrow> ''DemoRegion'' | StoreShard _ \<Rightarrow> ''__shared_store__''),
      IdString = (\<lambda>i. case i of DemoWorld n \<Rightarrow> ''DemoWorld('' @ n @ '')'' | DemoRegion n \<Rightarrow> ''DemoRegion('' @ n @ '')''
                            | StoreShard k \<Rightarrow> ''store#'' @ Itoa k)\<rparr>"

record shWorldState =
  wsSeed :: int
  wsWeather :: string

record shRegionState =
  Vars :: "dval Reader"
  rsWorld :: string
  rsSeed :: int
  rsWeather :: string
  PushSeen :: int

datatype shReq = InitWorld int | SetWeather string | EnterRegion string | ShowState | RefreshReq "dval refreshReq"

fun shReqType :: "shReq \<Rightarrow> string" where
  "shReqType (InitWorld _) = ''InitWorld''"
| "shReqType (SetWeather _) = ''SetWeather''"
| "shReqType (EnterRegion _) = ''EnterRegion''"
| "shReqType ShowState = ''ShowState''"
| "shReqType (RefreshReq _) = ''__shared_refresh__''"

datatype shRep = ShOk | StateReply int string

type_synonym sherr = "(shId, sharederr) goerr"
type_synonym shstore = "(dval, shId) sharded"
type_synonym 's shctx = "(shId, (shReq, sherr) request, 's, shstore, unit) ActorContext"
type_synonym 's shoutcome = "('s shctx, shstore, shRep, sherr) outcome"

definition zero_opts :: Options where
  "zero_opts = \<lparr>Shards = 0, BufMails = 0, Cooldown = 0, Sweep = 0, IdleTTL = 0, FetchTimeout = 0\<rparr>"

definition sh_given :: Options where
  "sh_given = zero_opts\<lparr>Shards := 4, Cooldown := 100 * 1000000\<rparr>"

definition sh_opts :: Options where
  "sh_opts = withDefaults sh_given"

subsection \<open>Set-up\<close>

text \<open>A handler is named by its request. The main function serves the store and the two groups on one manager.\<close>

definition setupWorld_build :: "(string, string) RegistryBuilder \<Rightarrow> (string, string) RegistryBuilder" where
  "setupWorld_build b = RegisterServe ''SetWeather'' ''SetWeather'' (RegisterSpawn ''InitWorld'' ''InitWorld'' b)"

definition setupRegion_build :: "bindtab \<Rightarrow> (string, string) RegistryBuilder \<Rightarrow> (string, string) RegistryBuilder \<times> bindtab" where
  "setupRegion_build bt b =
     (let (b1, bt1) = ServeReader ''DemoRegion'' b bt
      in (RegisterQuery ''ShowState'' ''ShowState'' (RegisterSpawn ''EnterRegion'' ''EnterRegion'' b1), bt1))"

type_synonym shmgr = "(shId, string, shReq, sharederr, unit, shRep, string, unit) Manager"

definition no_bindings :: bindtab where
  "no_bindings = \<lparr>bindings = [], nextBinding = 0\<rparr>"

definition demo_binds :: bindtab where
  "demo_binds = snd (setupRegion_build no_bindings (NewRegistryBuilder :: (string, string) RegistryBuilder))"

definition sh_setup :: "((int \<times> Options) \<times> shmgr) option" where
  "sh_setup =
     Option.bind (shared_Serve sh_ops (StoreShard 0) sh_given (0, zero_opts) NewManager) (\<lambda>(cfg, m).
     Option.bind (Serve sh_ops (DemoWorld []) 100 setupWorld_build m) (\<lambda>m1.
     map_option (Pair cfg) (Serve sh_ops (DemoRegion []) 100 (fst \<circ> setupRegion_build no_bindings) m1)))"

subsection \<open>The world\<close>

definition world_InitWorld :: "int \<Rightarrow> string \<Rightarrow> int \<Rightarrow> shstore \<Rightarrow> shWorldState shctx \<Rightarrow> shWorldState shoutcome" where
  "world_InitWorld now me seed w c =
     (let c1 = ctx_SetState \<lparr>wsSeed = seed, wsWeather = ''sunny''\<rparr> (ctx_Open c) in
      case PublishFrom (Shards sh_opts) (sh_publish sh_opts now) (seed_key me) (DInt (wsSeed (state c1))) w of
        Ret (Some e, w1) \<Rightarrow> HReturn c1 w1 (Some ShOk) (Some e)
      | Ret (None, w1) \<Rightarrow>
          (case PublishFrom (Shards sh_opts) (sh_publish sh_opts now) (weather_key me) (DStr (wsWeather (state c1))) w1 of
             Ret (err, w2) \<Rightarrow> HReturn c1 w2 (Some ShOk) err
           | _ \<Rightarrow> HPanic c1 w1 None)
      | _ \<Rightarrow> HPanic c1 w None)"

definition world_SetWeather :: "int \<Rightarrow> string \<Rightarrow> string \<Rightarrow> shstore \<Rightarrow> shWorldState shctx \<Rightarrow> shWorldState shoutcome" where
  "world_SetWeather now me x w c =
     (let c1 = ctx_SetState ((state c)\<lparr>wsWeather := x\<rparr>) c in
      case PublishWaitFrom (Shards sh_opts) (sh_publish sh_opts now) (weather_key me) (DStr x) w of
        Ret (err, w1) \<Rightarrow> HReturn c1 w1 (Some ShOk) err
      | _ \<Rightarrow> HPanic c1 w None)"

subsection \<open>The region\<close>

text \<open>\<open>Watch\<close>: the subscription goes to the shard of the key, with the binding of the region's group.\<close>

definition sh_Watch ::
  "(dval \<Rightarrow> bool) \<Rightarrow> int \<Rightarrow> string \<Rightarrow> dval Key \<Rightarrow> dval Reader \<Rightarrow> shstore \<Rightarrow> ((sherr + dval) \<times> dval Reader \<times> shstore) go" where
  "sh_Watch isV now me k r w =
     (case WatchFrom (lookupBinding demo_binds) isV
        (\<lambda>name b w. case sh_subscribe (DemoRegion me) (shard_no (Shards sh_opts) name) name b w of (res, w') \<Rightarrow> (res, now, w'))
        ''DemoRegion'' now k r w of
        Ret (Inl (Inl se), r', w') \<Rightarrow> Ret (Inl (UserErr se), r', w')
      | Ret (Inl (Inr e), r', w') \<Rightarrow> Ret (Inl e, r', w')
      | Ret (Inr v, r', w') \<Rightarrow> Ret (Inr v, r', w')
      | GoPanic \<Rightarrow> GoPanic
      | GoBlocks \<Rightarrow> GoBlocks)"

fun dint :: "dval \<Rightarrow> int" where
  "dint (DInt x) = x"
| "dint (DStr _) = 0"

fun dstr :: "dval \<Rightarrow> string" where
  "dstr (DStr x) = x"
| "dstr (DInt _) = []"

definition set_vars :: "dval Reader \<Rightarrow> shRegionState shctx \<Rightarrow> shRegionState shctx" where
  "set_vars r c = ctx_SetState ((state c)\<lparr>Vars := r\<rparr>) c"

text \<open>The two reads that \<open>EnterRegion\<close> and \<open>ShowState\<close> share, of the world \<open>wn\<close>; \<open>fin\<close> is what follows them.\<close>

definition region_reads ::
  "int \<Rightarrow> string \<Rightarrow> string \<Rightarrow> shRep option \<Rightarrow> (int \<Rightarrow> string \<Rightarrow> shRegionState shctx \<Rightarrow> shstore \<Rightarrow> shRegionState shoutcome) \<Rightarrow> shstore
    \<Rightarrow> shRegionState shctx \<Rightarrow> shRegionState shoutcome" where
  "region_reads now me wn errRep fin w c =
     (case sh_Watch isDInt now me (seed_key wn) (Vars (state c)) w of
        Ret (Inl e, r1, w1) \<Rightarrow> HReturn (set_vars r1 c) w1 errRep (Some e)
      | Ret (Inr seed, r1, w1) \<Rightarrow>
          (case sh_Watch isDStr now me (weather_key wn) r1 w1 of
             Ret (Inl e, r2, w2) \<Rightarrow> HReturn (set_vars r2 c) w2 errRep (Some e)
           | Ret (Inr weather, r2, w2) \<Rightarrow>
               fin (dint seed) (dstr weather)
                 (ctx_SetState ((state c)\<lparr>Vars := r2, rsSeed := dint seed, rsWeather := dstr weather\<rparr>) c) w2
           | _ \<Rightarrow> HPanic (set_vars r1 c) w1 None)
      | _ \<Rightarrow> HPanic c w None)"

definition region_Enter :: "int \<Rightarrow> string \<Rightarrow> string \<Rightarrow> shstore \<Rightarrow> shRegionState shctx \<Rightarrow> shRegionState shoutcome" where
  "region_Enter now me wn w c =
     (let c1 = ctx_Open c; c2 = ctx_SetState ((state c1)\<lparr>rsWorld := wn\<rparr>) c1
      in region_reads now me wn (Some ShOk) (\<lambda>seed weather c w. HReturn c w (Some ShOk) None) w c2)"

definition region_ShowState :: "int \<Rightarrow> string \<Rightarrow> shstore \<Rightarrow> shRegionState shctx \<Rightarrow> shRegionState shoutcome" where
  "region_ShowState now me w c =
     region_reads now me (rsWorld (state c)) None (\<lambda>seed weather c w. HReturn c w (Some (StateReply seed weather)) None) w c"

text \<open>The refresh handler that \<open>ServeReader\<close> registers for the regions.\<close>

definition region_Refresh :: "int \<Rightarrow> dval refreshReq \<Rightarrow> shstore \<Rightarrow> shRegionState shctx \<Rightarrow> shRegionState shoutcome" where
  "region_Refresh now req w c = HReturn (set_vars (handle_refresh now req (Vars (state c))) c) w (Some ShOk) None"

subsection \<open>What the region reads\<close>

lemma keys:
  "kname (seed_key n) = ''demo/world/'' @ n @ ''/seed''" "kname (weather_key n) = ''demo/world/'' @ n @ ''/weather''"
  "kinfo (seed_key n) = Some DemoWorldSeed" "kinfo (weather_key n) = Some DemoWorldWeather"
  "clone DemoWorldSeed = None" "clone DemoWorldWeather = None"
  "kname (seed_key n) \<noteq> kname (weather_key m)"
proof -
  have d: "pattern DemoWorldSeed = ''demo/world/%s/seed''" "pattern DemoWorldWeather = ''demo/world/%s/weather''"
    "clone DemoWorldSeed = None" "clone DemoWorldWeather = None"
    by (simp_all add: DemoWorldSeed_def DemoWorldWeather_def demo_defs_def Define_def Let_def Immutable_def WithCooldown_def WithTTL_def)
  have e: "sprintf_s ''/seed'' [] = ''/seed''" "sprintf_s ''/weather'' [] = ''/weather''" by simp_all
  show s: "kname (seed_key n) = ''demo/world/'' @ n @ ''/seed''" by (simp add: seed_key_def Def_Of_def d)
  show w: "kname (weather_key n) = ''demo/world/'' @ n @ ''/weather''" for n by (simp add: weather_key_def Def_Of_def d)
  show "kinfo (seed_key n) = Some DemoWorldSeed" "kinfo (weather_key n) = Some DemoWorldWeather"
    by (simp_all add: seed_key_def weather_key_def Def_Of_def)
  show "clone DemoWorldSeed = None" "clone DemoWorldWeather = None" by (rule d)+
  have "last (kname (seed_key n)) = CHR ''d''" "last (kname (weather_key m)) = CHR ''r''" by (simp_all add: s w)
  then show "kname (seed_key n) \<noteq> kname (weather_key m)" by auto
qed

lemma shards4: "Shards sh_opts = 4"
  by (simp add: sh_opts_def sh_given_def zero_opts_def withDefaults_def Let_def)

lemma region_binding: "lookupBinding demo_binds ''DemoRegion'' = Some 0"
  by (simp add: lookupBinding_def demo_binds_def setupRegion_build_def ServeReader_def newBinding_def no_bindings_def)

text \<open>The set-up goes through, with four shards.\<close>

lemma sh_setup_serves: "\<exists>cfg m. sh_setup = Some (cfg, m) \<and> fst cfg = 4 \<and> fetchTimeout cfg = 2 * 1000000000"
  by (simp add: sh_setup_def shared_Serve_def fix_shards_def sh_given_def zero_opts_def withDefaults_def Let_def Serve_def ServeWith_def
      NewManager_def sh_ops_def fetchTimeout_def actorTypeOf_def)

lemma publish_world:
  assumes "dir_ok w" "kinfo k = Some i" "clone i = None"
  shows "\<exists>w'. PublishFrom 4 (sh_publish sh_opts now) k v w = Ret (None, w') \<and> dir_ok w'
    \<and> dir 4 w' = vm_publish (kname k) v (dir 4 w) \<and> active (snd (shs w' (shard_no 4 (kname k))))"
  using publish_dir [OF assms(1), of 4 sh_opts now k v] assms(2,3) by (auto simp: publishMessage_def)

text \<open>A first watch of a key that is there returns its value and caches it.\<close>

lemma watch_dir:
  assumes "dir_ok w" "dir 4 w (kname k) = Some (ver, Some v)" "isV v" "kinfo k = Some i" "map_of r (kname k) = None"
  shows "\<exists>w'. sh_Watch isV now me k r w = Ret (Inr v, reader_set now (kname k) ver (Some v) (ttl i) r, w') \<and> dir_ok w' \<and> dir 4 w' = dir 4 w"
proof -
  obtain w' where w': "sh_subscribe (DemoRegion me) (shard_no 4 (kname k)) (kname k) 0 w =
      (Inr (ver, Some v) :: (shId, sharederr) goerr + _, w')" "dir_ok w'" "dir 4 w' = dir 4 w"
    using subscribe_dir [OF assms(1), of "DemoRegion me" 4 "kname k" 0] assms(2) by (auto simp: vm_lookup_def)
  have "cacheGet isV now k r = None" using assms(5) by (simp add: cacheGet_def)
  with w' assms(3,4) show ?thesis by (simp add: sh_Watch_def WatchFrom_def shards4 region_binding)
qed

text \<open>C33: the sharded store carries the world's values to a region. When a world is initialised on a store in order and a region
  then enters it, the region obtains the world's seed and weather, whatever shards hold the two keys and whatever else is
  published. After the world has changed its weather a fetch returns the new weather, and the seed is as before.\<close>

theorem region_reads_world:
  assumes "dir_ok w" "Vars (state cr) = []"
  shows "\<exists>cw w1 cr' w2 w3. world_InitWorld t1 wn seed w c = HReturn cw w1 (Some ShOk) None \<and> active (ctrl cw)
    \<and> region_Enter t2 me wn w1 cr = HReturn cr' w2 (Some ShOk) None
    \<and> active (ctrl cr') \<and> rsSeed (state cr') = seed \<and> rsWeather (state cr') = ''sunny''
    \<and> world_SetWeather t3 wn x w2 cw = HReturn (ctx_SetState \<lparr>wsSeed = seed, wsWeather = x\<rparr> cw) w3 (Some ShOk) None
    \<and> FetchFrom isDStr (\<lambda>n. sh_fetch StoreShard (shard_no 4 n) n) (weather_key wn) w3 = (Inr (DStr x), w3)
    \<and> map_option snd (dir 4 w3 (kname (seed_key wn))) = Some (Some (DInt seed))"
proof -
  let ?ks = "seed_key wn" and ?kw = "weather_key wn"
  note K = keys(3) [of wn] keys(5) keys(4) [of wn] keys(6)
  obtain v1 where v1: "PublishFrom 4 (sh_publish sh_opts t1) ?ks (DInt seed) w = Ret (None :: sherr option, v1)" "dir_ok v1"
      "dir 4 v1 = vm_publish (kname ?ks) (DInt seed) (dir 4 w)"
    using publish_world [OF assms(1) K(1,2)] by blast
  obtain w1 where w1: "PublishFrom 4 (sh_publish sh_opts t1) ?kw (DStr ''sunny'') v1 = Ret (None :: sherr option, w1)" "dir_ok w1"
      "dir 4 w1 = vm_publish (kname ?kw) (DStr ''sunny'') (dir 4 v1)"
    using publish_world [OF v1(2) K(3,4)] by blast
  let ?cw = "ctx_SetState \<lparr>wsSeed = seed, wsWeather = ''sunny''\<rparr> (ctx_Open c)"
  have init: "world_InitWorld t1 wn seed w c = HReturn ?cw w1 (Some ShOk) None"
    by (simp add: world_InitWorld_def Let_def shards4 v1(1) w1(1))
  obtain ve1 ve2 where at1: "dir 4 w1 (kname ?ks) = Some (ve1, Some (DInt seed))" "dir 4 w1 (kname ?kw) = Some (ve2, Some (DStr ''sunny''))"
    using keys(7) [of wn wn] by (auto simp: w1(3) v1(3) vm_publish_def)
  let ?c2 = "ctx_SetState ((state (ctx_Open cr))\<lparr>rsWorld := wn\<rparr>) (ctx_Open cr)"
  have vars: "Vars (state ?c2) = []" using assms(2) by simp
  obtain u1 where u1: "sh_Watch isDInt t2 me ?ks (Vars (state ?c2)) w1 =
      Ret (Inr (DInt seed), reader_set t2 (kname ?ks) ve1 (Some (DInt seed)) (ttl DemoWorldSeed) [], u1)" "dir_ok u1" "dir 4 u1 = dir 4 w1"
    using watch_dir [OF w1(2) at1(1) _ K(1), of isDInt "[]" t2 me] vars by auto
  define r1 where "r1 = reader_set t2 (kname ?ks) ve1 (Some (DInt seed)) (ttl DemoWorldSeed) []"
  have r1: "map_of r1 (kname ?kw) = None"
    using keys(7) [of wn wn] by (simp add: r1_def reader_set_def reader_entry_def Let_def)
  have at2: "dir 4 u1 (kname ?kw) = Some (ve2, Some (DStr ''sunny''))" using at1(2) u1(3) by simp
  obtain w2 r2 where w2: "sh_Watch isDStr t2 me ?kw r1 u1 = Ret (Inr (DStr ''sunny''), r2, w2)" "dir_ok w2" "dir 4 w2 = dir 4 w1"
    using watch_dir [OF u1(2) at2 _ K(3) r1, of isDStr t2 me] u1(3) by auto
  let ?cr = "ctx_SetState ((state ?c2)\<lparr>Vars := r2, rsSeed := seed, rsWeather := ''sunny''\<rparr>) ?c2"
  have enter: "region_Enter t2 me wn w1 cr = HReturn ?cr w2 (Some ShOk) None"
    using u1(1) w2(1) vars by (simp add: region_Enter_def region_reads_def Let_def flip: r1_def)
  obtain w3 where w3: "PublishFrom 4 (sh_publish sh_opts t3) ?kw (DStr x) w2 = Ret (None :: sherr option, w3)"
      "dir 4 w3 = vm_publish (kname ?kw) (DStr x) (dir 4 w2)" "active (snd (shs w3 (shard_no 4 (kname ?kw))))"
    using publish_world [OF w2(2) K(3,4)] by blast
  have pw: "PublishWaitFrom 4 (sh_publish sh_opts t3) ?kw (DStr x) w2 = Ret (None :: sherr option, w3)"
    using w3(1) by (simp add: PublishWaitFrom_def PublishFrom_def)
  have set: "world_SetWeather t3 wn x w2 ?cw = HReturn (ctx_SetState \<lparr>wsSeed = seed, wsWeather = x\<rparr> ?cw) w3 (Some ShOk) None"
    using pw by (simp add: world_SetWeather_def Let_def shards4)
  have "sh_fetch StoreShard (shard_no 4 (kname ?kw)) (kname ?kw) w3 = (Inr (wrap64 (ve2 + 1), Some (DStr x)), w3)"
    using fetch_dir [OF w3(3), of StoreShard] at1(2) w2(3) w3(2) by (simp add: vm_lookup_def vm_publish_def)
  then have fetch: "FetchFrom isDStr (\<lambda>n. sh_fetch StoreShard (shard_no 4 n) n) ?kw w3 = (Inr (DStr x), w3)"
    by (simp add: FetchFrom_def)
  have "map_option snd (dir 4 w3 (kname ?ks)) = Some (Some (DInt seed))"
    using at1(1) w2(3) w3(2) keys(7) [of wn wn] by (simp add: vm_publish_def)
  with init enter set fetch show ?thesis by (intro exI [of _ ?cw] exI [of _ w1] exI [of _ ?cr] exI [of _ w2] exI [of _ w3]) simp
qed

text \<open>A store whose shards have not been spawned.\<close>

definition fresh_store :: shstore where
  "fresh_store = \<lparr>shs = (\<lambda>k. (store_init (\<lambda>_. new_entry []), newActorControl (''store#'' @ Itoa k))), inbox = []\<rparr>"

definition fresh_ctx :: "'s \<Rightarrow> 's shctx" where
  "fresh_ctx s = \<lparr>ctrl = newActorControl ''demo'', state = s\<rparr>"

definition fresh_region :: shRegionState where
  "fresh_region = \<lparr>Vars = [], rsWorld = [], rsSeed = 0, rsWeather = [], PushSeen = 0\<rparr>"

lemma fresh_store_ok: "dir_ok fresh_store"
  by (simp add: dir_ok_def fresh_store_def store_ok_def store_init_def store_wf_def)

theorem region_reads_world_witness:
  "\<exists>cw w1 cr' w2 w3. world_InitWorld 0 ''earth'' 42 fresh_store (fresh_ctx \<lparr>wsSeed = 0, wsWeather = []\<rparr>) = HReturn cw w1 (Some ShOk) None
    \<and> region_Enter 5 ''north'' ''earth'' w1 (fresh_ctx fresh_region) = HReturn cr' w2 (Some ShOk) None
    \<and> rsSeed (state cr') = 42 \<and> rsWeather (state cr') = ''sunny''
    \<and> world_SetWeather 7 ''earth'' ''rain'' w2 cw = HReturn (ctx_SetState \<lparr>wsSeed = 42, wsWeather = ''rain''\<rparr> cw) w3 (Some ShOk) None
    \<and> FetchFrom isDStr (\<lambda>n. sh_fetch StoreShard (shard_no 4 n) n) (weather_key ''earth'') w3 = (Inr (DStr ''rain''), w3)"
proof -
  have "Vars (state (fresh_ctx fresh_region)) = []" by (simp add: fresh_ctx_def fresh_region_def)
  from region_reads_world [OF fresh_store_ok this, of 0 "''earth''" 42 "fresh_ctx \<lparr>wsSeed = 0, wsWeather = []\<rparr>" 5 "''north''" 7 "''rain''"]
  show ?thesis by blast
qed

text \<open>A region that enters a world nobody has published receives the error of the store; it has been opened already, so it stays.\<close>

lemma region_enters_unknown_world:
  assumes "dir_ok w" "Vars (state cr) = []" "dir 4 w (kname (seed_key wn)) = None"
  shows "\<exists>cr' w'. region_Enter t me wn w cr = HReturn cr' w' (Some ShOk) (Some (UserErr (NotPublishedError (kname (seed_key wn))))) \<and> active (ctrl cr')
    \<and> dir 4 w' = dir 4 w"
proof -
  let ?ks = "seed_key wn"
  obtain w' where w': "sh_subscribe (DemoRegion me) (shard_no 4 (kname ?ks)) (kname ?ks) 0 w =
      (Inl (UserErr (NotPublishedError (kname ?ks))) :: (shId, sharederr) goerr + _, w')" "dir 4 w' = dir 4 w"
    using subscribe_dir [OF assms(1), of "DemoRegion me" 4 "kname ?ks" 0] assms(3) by (auto simp: vm_lookup_def)
  have "sh_Watch isDInt t me ?ks [] w = Ret (Inl (UserErr (NotPublishedError (kname ?ks))), [], w')"
    using w'(1) by (simp add: sh_Watch_def WatchFrom_def cacheGet_def shards4 translateStoreError_def region_binding)
  with w'(2) assms(2) show ?thesis by (simp add: region_Enter_def region_reads_def Let_def set_vars_def)
qed

text \<open>A push that arrives at a region is what the region shows: no call goes to the store.\<close>

lemma push_is_shown:
  assumes "cacheGet isDInt t2 (seed_key (rsWorld (state c))) (Vars (state c)) = Some (DInt seed)"
    and "map_of (Vars (state c)) (kname (weather_key (rsWorld (state c)))) = Some e" "loaded e" "cversion e < v"
    and "t2 - t1 \<le> tt"
  shows "\<exists>c1 c2. region_Refresh t1 \<lparr>rName = kname (weather_key (rsWorld (state c))), rVersion = v, rValue = Some (DStr x), rTTL = tt\<rparr> w c
        = HReturn c1 w (Some ShOk) None
    \<and> region_ShowState t2 me w c1 = HReturn c2 w (Some (StateReply seed x)) None \<and> rsWeather (state c2) = x"
proof -
  let ?wn = "rsWorld (state c)"
  let ?ks = "seed_key ?wn" and ?kw = "weather_key ?wn"
  define r where "r = reader_set t1 (kname ?kw) v (Some (DStr x)) tt (Vars (state c))"
  have r: "r = AList.update (kname ?kw) \<lparr>cvalue = Some (DStr x), cversion = v, loaded = True, cat = t1, cttl = tt\<rparr> (Vars (state c))"
    using assms(2-4) by (simp add: r_def reader_set_def reader_entry_def)
  have seed: "cacheGet isDInt t2 ?ks r = Some (DInt seed)"
    using assms(1) keys(7) [of ?wn ?wn] by (simp add: r cacheGet_def update_conv)
  have weather: "cacheGet isDStr t2 ?kw r = Some (DStr x)" using assms(5) by (simp add: r cacheGet_def update_conv)
  let ?c1 = "set_vars r c"
  have "region_Refresh t1 \<lparr>rName = kname ?kw, rVersion = v, rValue = Some (DStr x), rTTL = tt\<rparr> w c = HReturn ?c1 w (Some ShOk) None"
    by (simp add: region_Refresh_def handle_refresh_def r_def)
  moreover have w1: "sh_Watch isDInt t2 me ?ks r w = Ret (Inr (DInt seed), r, w)" "sh_Watch isDStr t2 me ?kw r w = Ret (Inr (DStr x), r, w)"
    using seed weather by (simp_all add: sh_Watch_def WatchFrom_def region_binding)
  then have "\<exists>c2. region_ShowState t2 me w ?c1 = HReturn c2 w (Some (StateReply seed x)) None \<and> rsWeather (state c2) = x"
    by (simp add: region_ShowState_def region_reads_def set_vars_def)
  ultimately show ?thesis by blast
qed

end
