(* ===== verification/Actor_Example.thy ===== *)
theory Actor_Example
  imports Actor_Context
begin

section \<open>The example of local actors\<close>

text \<open>
  \<open>cmd/actor_example/main.go\<close>: the players of the example with their eight handlers, the allocator of sequence numbers the
  manager carries, and the registration. The world of a player is the manager it runs under. Hit points and
  numbers are Go's 64-bit integers. Log lines and the printing of the main function are left out; what other
  goroutines do while a handler waits for a reply is the argument \<open>await\<close>.
\<close>

subsection \<open>Types\<close>

record exPlayerId =
  exServerId :: int
  exOpenId :: string

definition exPlayer_ops :: "exPlayerId id_ops" where
  "exPlayer_ops =
     \<lparr>ActorType = (\<lambda>_. ''Player''),
      IdString = (\<lambda>i. ''Player('' @ Itoa (exServerId i) @ '','' @ exOpenId i @ '')'')\<rparr>"

record exPlayerState =
  exHP :: int
  exLevel :: int
  exSeq :: int

datatype exReq =
    ExLogin int int
  | ExAttack int
  | ExHeal int
  | ExFollow exPlayerId
  | ExPing exPlayerId
  | ExQueryHP
  | ExLogout
  | ExClose

fun exReqType :: "exReq \<Rightarrow> string" where
  "exReqType (ExLogin _ _) = ''Login''"
| "exReqType (ExAttack _) = ''Attack''"
| "exReqType (ExHeal _) = ''Heal''"
| "exReqType (ExFollow _) = ''Follow''"
| "exReqType (ExPing _) = ''Ping''"
| "exReqType ExQueryHP = ''QueryHP''"
| "exReqType ExLogout = ''Logout''"
| "exReqType ExClose = ''Close''"

datatype exRep = ExOk | ExAttackReply int bool | ExHealReply int | ExHPReply int

datatype ex_cb = Regen

type_synonym exerr = "(exPlayerId, string) goerr"
type_synonym exmgr = "(exPlayerId, string, exReq, string, ex_cb, exRep, string, int) Manager"
type_synonym exctx = "(exPlayerId, (exReq, exerr) request, exPlayerState, exmgr, ex_cb) ActorContext"
type_synonym exoutcome = "(exctx, exmgr, exRep, exerr) outcome"

definition ex_ask :: "exReq \<Rightarrow> (exReq, exerr) request" where
  "ex_ask q = UserReq (exReqType q) q"

subsection \<open>The allocator\<close>

text \<open>The key of \<open>PlayerSeqValue\<close>; the value of the pointer is the number it holds.\<close>

definition PlayerSeqValue :: nat where
  "PlayerSeqValue = DefineValue []"

definition PlayerSeq_Next :: "int \<Rightarrow> exmgr \<Rightarrow> int \<times> exmgr" where
  "PlayerSeq_Next n m = (let n' = wrap64 (n + 1) in (n', m\<lparr>ctxValues := AList.update PlayerSeqValue n' (ctxValues m)\<rparr>))"

subsection \<open>Handlers\<close>

definition ex_Login :: "int \<Rightarrow> int \<Rightarrow> exmgr \<Rightarrow> exctx \<Rightarrow> exoutcome" where
  "ex_Login hp lv w c =
     (case Get PlayerSeqValue w of
        None \<Rightarrow> HReturn c w (Some ExOk) (Some (UserErr ''PlayerSeqValue not mounted''))
      | Some n \<Rightarrow>
          (let c1 = ctx_Open c;
               (sq, w1) = PlayerSeq_Next n w;
               c2 = ctx_SetState \<lparr>exHP = hp, exLevel = lv, exSeq = sq\<rparr> c1;
               (_, c3) = ctx_Timer ''regen'' (300 * 1000000) Regen c2
           in HReturn c3 w1 (Some ExOk) None))"

definition regen_fired :: "exctx \<Rightarrow> exctx" where
  "regen_fired c = ctx_SetState ((state c)\<lparr>exHP := wrap64 (exHP (state c) + 1)\<rparr>) c"

definition ex_Attack :: "int \<Rightarrow> exmgr \<Rightarrow> exctx \<Rightarrow> exoutcome" where
  "ex_Attack d w c =
     (let c1 = ctx_SetState ((state c)\<lparr>exHP := wrap64 (exHP (state c) - d)\<rparr>) c;
          alive = (exHP (state c1) > 0)
      in HReturn c1 w (Some (ExAttackReply (exHP (state c1)) alive)) None)"

definition ex_Heal :: "int \<Rightarrow> bool \<Rightarrow> exmgr \<Rightarrow> exctx \<Rightarrow> exoutcome" where
  "ex_Heal n spawning w c =
     (let c1 = (if spawning then ctx_Open c else c);
          c2 = ctx_SetState ((state c1)\<lparr>exHP := wrap64 (exHP (state c1) + n)\<rparr>) c1
      in HReturn c2 w (Some (ExHealReply (exHP (state c2)))) None)"

text \<open>
  \<open>Follow\<close>: the reference to the target is released on every way out of the handler. \<^const>\<open>GoBlocks\<close> is the wait for a reply
  that never comes.
\<close>

definition ex_release :: "ActorRef \<Rightarrow> exmgr \<Rightarrow> exmgr option" where
  "ex_release ref w =
     (case map_of (groups w) ''Player'' of
        None \<Rightarrow> None
      | Some g \<Rightarrow> map_option (\<lambda>(_, g'). w\<lparr>groups := AList.update ''Player'' g' (groups w)\<rparr>) (Release ref g))"

definition released :: "ActorRef \<Rightarrow> exRep option \<Rightarrow> exerr option \<Rightarrow> exmgr \<Rightarrow> exctx \<Rightarrow> exoutcome" where
  "released ref rep err w c =
     (case ex_release ref w of None \<Rightarrow> HPanic c w (Some (RuntimeErr ''close of closed channel'')) | Some w' \<Rightarrow> HReturn c w' rep err)"

definition ex_Follow ::
  "(nat \<Rightarrow> exmgr \<Rightarrow> string option \<times> exmgr) \<Rightarrow> exPlayerId \<Rightarrow> exPlayerId \<Rightarrow> exmgr \<Rightarrow> exctx \<Rightarrow> exoutcome go" where
  "ex_Follow await me tgt w c =
     (case map_of (groups w) ''Player'' of
        None \<Rightarrow> GoPanic
      | Some g \<Rightarrow>
          (case Ref tgt g of
             (None, g') \<Rightarrow>
               Ret (HReturn c (w\<lparr>groups := AList.update ''Player'' g' (groups w)\<rparr>) None
                      (Some (UserErr (''player not found: '' @ IdString exPlayer_ops tgt))))
           | (Some ref, g') \<Rightarrow>
               (case RefPost exPlayer_ops ''Player'' ref (ex_ask (ExPing me)) (w\<lparr>groups := AList.update ''Player'' g' (groups w)\<rparr>) of
                  GoPanic \<Rightarrow> GoPanic
                | GoBlocks \<Rightarrow> GoBlocks
                | Ret (Some e, w1) \<Rightarrow> Ret (released ref None (Some e) w1 c)
                | Ret (None, w1) \<Rightarrow>
                    (case RefCall exPlayer_ops await ''Player'' ref (ex_ask ExQueryHP) w1 of
                       GoPanic \<Rightarrow> GoPanic
                     | GoBlocks \<Rightarrow> GoBlocks
                     | Ret ((_, Some e), w2) \<Rightarrow> Ret (released ref None (Some e) w2 c)
                     | Ret ((_, None), w2) \<Rightarrow> Ret (released ref (Some ExOk) None w2 c)))))"

definition ex_QueryHP :: "exmgr \<Rightarrow> exctx \<Rightarrow> exoutcome" where
  "ex_QueryHP w c = HReturn c w (Some (ExHPReply (exHP (state c)))) None"

definition ex_Ping :: "exmgr \<Rightarrow> exctx \<Rightarrow> exoutcome" where
  "ex_Ping w c = HReturn c w (Some ExOk) None"

text \<open>\<open>Logout\<close> carries its handler itself.\<close>

definition Logout_Handle :: "exmgr \<Rightarrow> exctx \<Rightarrow> exoutcome" where
  "Logout_Handle w c = HReturn (ctx_Quit c) w (Some ExOk) None"

definition ex_Close :: "exmgr \<Rightarrow> exctx \<Rightarrow> exoutcome" where
  "ex_Close w c = HReturn (ctx_Quit c) w (Some ExOk) None"

subsection \<open>Registration\<close>

definition setupPlayer_build :: "(string, string) RegistryBuilder \<Rightarrow> (string, string) RegistryBuilder" where
  "setupPlayer_build b =
     fold (\<lambda>r. r)
       [SetOnSpawn (Some ''OnSpawn''), RegisterSpawn ''Login'' ''Login'', RegisterQuery ''Attack'' ''Attack'',
        RegisterServe ''Heal'' ''Heal'', RegisterQuery ''Follow'' ''Follow'', RegisterQuery ''QueryHP'' ''QueryHP'',
        RegisterQuery ''Ping'' ''Ping'', RegisterServeHandler ''Logout'' ''Logout'', RegisterQuery ''Close'' ''Close''] b"

definition setupPlayer :: "exmgr \<Rightarrow> exmgr option" where
  "setupPlayer m = Serve exPlayer_ops \<lparr>exServerId = 0, exOpenId = []\<rparr> 100 setupPlayer_build m"

text \<open>The first lines of the main function: the value is mounted before the group is served.\<close>

definition ex_setup :: "exmgr option" where
  "ex_setup = Option.bind (WithValue PlayerSeqValue 0 NewManager) setupPlayer"

text \<open>The handler functions by the names they are registered under; \<open>follow\<close> is the outcome of \<open>Follow\<close> where it returns. No
  handler is registered for panics, so the last case is never reached.\<close>

fun ex_run_fn ::
  "(exPlayerId \<Rightarrow> exmgr \<Rightarrow> exctx \<Rightarrow> exoutcome) \<Rightarrow> string \<Rightarrow> exmgr \<Rightarrow> exctx \<Rightarrow> (exReq, exerr) request \<Rightarrow> bool \<Rightarrow> exoutcome" where
  "ex_run_fn follow f w c (UserReq _ (ExLogin hp lv)) sp = ex_Login hp lv w c"
| "ex_run_fn follow f w c (UserReq _ (ExAttack d)) sp = ex_Attack d w c"
| "ex_run_fn follow f w c (UserReq _ (ExHeal n)) sp = ex_Heal n sp w c"
| "ex_run_fn follow f w c (UserReq _ (ExFollow t)) sp = follow t w c"
| "ex_run_fn follow f w c (UserReq _ (ExPing _)) sp = ex_Ping w c"
| "ex_run_fn follow f w c (UserReq _ ExQueryHP) sp = ex_QueryHP w c"
| "ex_run_fn follow f w c (UserReq _ ExLogout) sp = Logout_Handle w c"
| "ex_run_fn follow f w c (UserReq _ ExClose) sp = ex_Close w c"
| "ex_run_fn follow f w c (PanicReq e) sp = HPanic c w e"

definition ex_env ::
  "(exPlayerId \<Rightarrow> exmgr \<Rightarrow> exctx \<Rightarrow> exoutcome) \<Rightarrow> exPlayerId \<Rightarrow> (exPlayerId, string, exReq, string, exPlayerState, exmgr, ex_cb, exRep) env" where
  "ex_env follow i =
     \<lparr>ops = exPlayer_ops, self = i, zeroState = \<lparr>exHP = 0, exLevel = 0, exSeq = 0\<rparr>, run_fn = ex_run_fn follow,
      run_cb = (\<lambda>_ w c. (regen_fired c, w)), onSpawn = Some (\<lambda>w c. HReturn c w None None), panicHandler = None,
      fpostOp = fpost_op exPlayer_ops\<rparr>"

subsection \<open>A session\<close>

text \<open>The players as a state machine on their state, for the requests that keep an open player open.\<close>

fun ex_pure :: "(exReq, exerr) request \<Rightarrow> exPlayerState \<Rightarrow> exPlayerState \<times> exRep option \<times> exerr option" where
  "ex_pure (UserReq _ (ExAttack d)) s =
     (let h = wrap64 (exHP s - d) in (s\<lparr>exHP := h\<rparr>, Some (ExAttackReply h (h > 0)), None))"
| "ex_pure (UserReq _ (ExHeal n)) s = (let h = wrap64 (exHP s + n) in (s\<lparr>exHP := h\<rparr>, Some (ExHealReply h), None))"
| "ex_pure (UserReq _ ExQueryHP) s = (s, Some (ExHPReply (exHP s)), None)"
| "ex_pure _ s = (s, Some ExOk, None)"

fun ex_plain :: "exReq \<Rightarrow> bool" where
  "ex_plain (ExAttack _) = True"
| "ex_plain (ExHeal _) = True"
| "ex_plain (ExPing _) = True"
| "ex_plain ExQueryHP = True"
| "ex_plain _ = False"

fun hp_change :: "exReq \<Rightarrow> int" where
  "hp_change (ExAttack d) = - d"
| "hp_change (ExHeal n) = n"
| "hp_change _ = 0"

text \<open>A request as the group's table of handlers makes a mailbox entry of it.\<close>

definition ex_mail :: "From \<times> exReq \<times> nat option \<Rightarrow> (string, exReq, exerr) mail" where
  "ex_mail x = (case x of (f, q, ch) \<Rightarrow>
     (f, the (handlers (setupPlayer_build NewRegistryBuilder) (exReqType q)), ex_ask q, ch))"

lemmas ex_build = setupPlayer_build_def NewRegistryBuilder_def SetOnSpawn_def RegisterSpawn_def RegisterQuery_def RegisterServe_def
  RegisterServeHandler_def register_def

lemma ex_plain_mail:
  "ex_plain q \<Longrightarrow> case ex_mail (f, q, ch) of (f', h, r, ch') \<Rightarrow> allow_query h \<and> pure_handler (ex_env fol i) (fn h) r (ex_pure r)"
  by (cases q) (simp_all add: ex_mail_def ex_ask_def ex_build pure_handler_def ex_env_def ex_Attack_def ex_Heal_def ex_QueryHP_def
      ex_Ping_def ctx_SetState_def Let_def)

lemma ex_replay_hp:
  assumes "\<forall>x\<in>set ms. ex_plain (fst (snd x))" "MinInt \<le> exHP s" "exHP s \<le> MaxInt"
  shows "exHP (fst (replay ex_pure (mail_reqs (map ex_mail ms)) s)) = wrap64 (exHP s + sum_list (map (\<lambda>x. hp_change (fst (snd x))) ms))
    \<and> exLevel (fst (replay ex_pure (mail_reqs (map ex_mail ms)) s)) = exLevel s
    \<and> exSeq (fst (replay ex_pure (mail_reqs (map ex_mail ms)) s)) = exSeq s"
  using assms
proof (induction ms arbitrary: s)
  case Nil
  then show ?case by (simp add: mail_reqs_def wrap64_id)
next
  case (Cons x ms)
  obtain f q ch where x: "x = (f, q, ch)" by (cases x) auto
  define s1 where "s1 = fst (ex_pure (ex_ask q) s)"
  have s1: "exHP s1 = wrap64 (exHP s + hp_change q)" "exLevel s1 = exLevel s" "exSeq s1 = exSeq s"
    using Cons.prems by (cases q; simp add: s1_def ex_ask_def x Let_def wrap64_id)+
  have "MinInt \<le> exHP s1" "exHP s1 \<le> MaxInt" using wrap64_range by (simp_all add: s1)
  with Cons.IH [of s1] Cons.prems(1) have
    IH: "exHP (fst (replay ex_pure (mail_reqs (map ex_mail ms)) s1)) = wrap64 (exHP s1 + sum_list (map (\<lambda>x. hp_change (fst (snd x))) ms))"
      "exLevel (fst (replay ex_pure (mail_reqs (map ex_mail ms)) s1)) = exLevel s1"
      "exSeq (fst (replay ex_pure (mail_reqs (map ex_mail ms)) s1)) = exSeq s1" by simp_all
  have step: "fst (replay ex_pure (mail_reqs (map ex_mail (x # ms))) s) = fst (replay ex_pure (mail_reqs (map ex_mail ms)) s1)"
    by (simp add: x ex_mail_def mail_reqs_def s1_def case_prod_beta)
  have "wrap64 (wrap64 (exHP s + hp_change q) + r) = wrap64 (exHP s + (hp_change q + r))" for r
    by (simp add: wrap64_def) (simp add: algebra_simps mod_simps)
  then show ?case unfolding step IH s1 by (simp add: x)
qed

text \<open>The activation that a login opens.\<close>

lemma ex_login_step:
  assumes "Get PlayerSeqValue (world m) = Some n" "unanswered m (set_option ch)"
  shows "\<exists>c. msg_step (ex_env fol i) (mail_entry (ex_mail (f, ExLogin hp lv, ch))) m None p =
      SNext (m\<lparr>world := snd (PlayerSeq_Next n (world m)), gidle := gidle m - 1,
               chans := put_results (case ch of None \<Rightarrow> [] | Some k \<Rightarrow> [(k, \<lparr>Rep = Some ExOk, Err = None\<rparr>)]) (chans m)\<rparr>)
        (Some c) False
    \<and> active (ctrl c) \<and> state c = \<lparr>exHP = hp, exLevel = lv, exSeq = wrap64 (n + 1)\<rparr>
    \<and> map stubFn (runtimeTimers (ctrl c)) = [UserFn Regen]"
proof -
  let ?env = "ex_env fol i"
  let ?h = "the (handlers (setupPlayer_build NewRegistryBuilder) ''Login'')"
  let ?c1 = "(newActorContext ?env)\<lparr>ctrl := invokeLogger (MakeFrom exPlayer_ops i ''OnSpawn'') (ctrl (newActorContext ?env))\<rparr>"
  define c where "c = snd (ctx_Timer ''regen'' (300 * 1000000) Regen
    (ctx_SetState \<lparr>exHP = hp, exLevel = lv, exSeq = wrap64 (n + 1)\<rparr> (ctx_Open (?c1\<lparr>ctrl := invokeLogger f (ctrl ?c1)\<rparr>))))"
  have h: "allow_spawn ?h" by (simp add: ex_build)
  have act: "active (ctrl c)" "state c = \<lparr>exHP = hp, exLevel = lv, exSeq = wrap64 (n + 1)\<rparr>" by (simp_all add: c_def)
  have sp: "spawn_hook ?env (newActorContext ?env) (world m) = HReturn ?c1 (world m) None None"
    by (simp add: spawn_hook_def ex_env_def)
  have run: "run_fn ?env (fn ?h) (world m) (?c1\<lparr>ctrl := invokeLogger f (ctrl ?c1)\<rparr>) (ex_ask (ExLogin hp lv)) True
      = HReturn c (snd (PlayerSeq_Next n (world m))) (Some ExOk) None"
    using assms(1) by (simp add: ex_env_def ex_ask_def ex_Login_def c_def PlayerSeq_Next_def Let_def case_prod_beta)
  have tm: "map stubFn (runtimeTimers (ctrl c)) = [UserFn Regen]"
    by (simp add: c_def ctx_Timer_def ctx_defs Timer_eq Let_def case_prod_beta Open_def invokeLogger_def newActorContext_def newActorControl_def)
  from msg_step_spawn [OF h assms(2) act(1) sp run, of p] act tm show ?thesis
    by (auto simp: ex_mail_def)
qed

text \<open>C36: a session of the example. A login to a player that does not run creates it with the next number of the allocator and
  arms its timer; the attacks, heals, queries and pings behind it in the mailbox are served in their order. Each caller
  receives the one reply its own request has after all earlier ones, and the hit points are in the end the initial ones
  changed by every request, modulo the 64 bits of an \<open>int\<close>. Nothing panics and the player stays open.\<close>

theorem player_session:
  assumes "Get PlayerSeqValue (world m) = Some n" "MinInt \<le> hp" "hp \<le> MaxInt"
    and "\<forall>x\<in>set ms. ex_plain (fst (snd x))"
    and "distinct (mail_chs (map ex_mail ((f, ExLogin hp lv, Some k) # ms)))"
    and "unanswered m (set (mail_chs (map ex_mail ((f, ExLogin hp lv, Some k) # ms))))"
  shows "\<exists>c rs. invokeBatch (ex_env fol i) (map (mail_entry \<circ> ex_mail) ((f, ExLogin hp lv, Some k) # ms)) m None p =
      BDone (m\<lparr>world := snd (PlayerSeq_Next n (world m)), gidle := gidle m - 1,
               chans := put_results ((k, \<lparr>Rep = Some ExOk, Err = None\<rparr>) # rs) (chans m)\<rparr>) (Some c)
    \<and> rs = snd (replay ex_pure (mail_reqs (map ex_mail ms)) \<lparr>exHP = hp, exLevel = lv, exSeq = wrap64 (n + 1)\<rparr>)
    \<and> map fst rs = mail_chs (map ex_mail ms)
    \<and> active (ctrl c)
    \<and> state c = \<lparr>exHP = wrap64 (hp + sum_list (map (\<lambda>x. hp_change (fst (snd x))) ms)), exLevel = lv, exSeq = wrap64 (n + 1)\<rparr>"
proof -
  let ?env = "ex_env fol i" and ?s = "\<lparr>exHP = hp, exLevel = lv, exSeq = wrap64 (n + 1)\<rparr>"
  let ?rs = "snd (replay ex_pure (mail_reqs (map ex_mail ms)) ?s)"
  have chs: "mail_chs (map ex_mail ((f, ExLogin hp lv, Some k) # ms)) = k # mail_chs (map ex_mail ms)"
    by (simp add: ex_mail_def)
  have un: "unanswered m (set_option (Some k))" using assms(6) [unfolded chs] by (simp add: unanswered_def)
  obtain c where c: "msg_step ?env (mail_entry (ex_mail (f, ExLogin hp lv, Some k))) m None p =
      SNext (m\<lparr>world := snd (PlayerSeq_Next n (world m)), gidle := gidle m - 1,
               chans := put_results [(k, \<lparr>Rep = Some ExOk, Err = None\<rparr>)] (chans m)\<rparr>) (Some c) False"
    "active (ctrl c)" "state c = ?s"
    using ex_login_step [OF assms(1) un, of fol i f hp lv p] by auto
  let ?m1 = "m\<lparr>world := snd (PlayerSeq_Next n (world m)), gidle := gidle m - 1,
               chans := put_results [(k, \<lparr>Rep = Some ExOk, Err = None\<rparr>)] (chans m)\<rparr>"
  have d: "distinct (mail_chs (map ex_mail ms))" "k \<notin> set (mail_chs (map ex_mail ms))" using assms(5) [unfolded chs] by simp_all
  have un1: "unanswered ?m1 (set (mail_chs (map ex_mail ms)))"
    using assms(6) [unfolded chs] d(2) by (auto simp: unanswered_def put_results_def)
  have pure: "\<forall>(f, h, q, ch)\<in>set (map ex_mail ms). allow_query h \<and> pure_handler ?env (fn h) q (ex_pure q)"
  proof
    fix y
    assume "y \<in> set (map ex_mail ms)"
    then obtain f q ch where "y = ex_mail (f, q, ch)" "(f, q, ch) \<in> set ms" by auto
    with assms(4) ex_plain_mail [where q = q and f = f and ch = ch and fol = fol and i = i] show "case y of (f, h, q, ch) \<Rightarrow> allow_query h \<and> pure_handler ?env (fn h) q (ex_pure q)"
      by force
  qed
  from batch_is_replay [OF pure c(2) d(1) un1, of False] obtain c' where
    c': "invokeBatch ?env (map mail_entry (map ex_mail ms)) ?m1 (Some c) False =
        BDone (?m1\<lparr>chans := put_results ?rs (chans ?m1)\<rparr>) (Some c')" "active (ctrl c')"
      "state c' = fst (replay ex_pure (mail_reqs (map ex_mail ms)) ?s)" using c(3) by auto
  have keys: "map fst ?rs = mail_chs (map ex_mail ms)"
    using serve_seq_pure [of "map ex_mail ms" ?env ex_pure c "world m"] pure c(2,3) serve_seq_chs by fastforce
  have st: "state c' = \<lparr>exHP = wrap64 (hp + sum_list (map (\<lambda>x. hp_change (fst (snd x))) ms)), exLevel = lv, exSeq = wrap64 (n + 1)\<rparr>"
    using ex_replay_hp [OF assms(4), of ?s] assms(2,3) c'(3) by (cases "state c'") simp
  have "put_results ?rs (put_results [(k, \<lparr>Rep = Some ExOk, Err = None\<rparr>)] (chans m)) =
      put_results ((k, \<lparr>Rep = Some ExOk, Err = None\<rparr>) # ?rs) (chans m)"
    using put_results_Cons [of k ?rs] d(2) keys by simp
  with c(1) c' st keys show ?thesis by (intro exI [of _ c'] exI [of _ ?rs]) simp
qed

definition demo_exmach :: "(exRep, exerr, exmgr) mach" where
  "demo_exmach = \<lparr>chans = (\<lambda>_. make_chan 1), closedReps = [], gidle = 1, world = NewManager\<lparr>ctxValues := [(PlayerSeqValue, 0)]\<rparr>\<rparr>"

definition demo_session :: "(From \<times> exReq \<times> nat option) list" where
  "demo_session = [(OriginFrom ''mgr.2'', ExAttack 30, Some 2), (OriginFrom ''mgr.3'', ExHeal 5, None), (OriginFrom ''mgr.4'', ExQueryHP, Some 3)]"

definition demo_follow :: "exPlayerId \<Rightarrow> exmgr \<Rightarrow> exctx \<Rightarrow> exoutcome" where
  "demo_follow t w c = HReturn c w (Some ExOk) None"

theorem player_session_witness:
  "\<exists>m c. invokeBatch (ex_env demo_follow \<lparr>exServerId = 1, exOpenId = ''alice''\<rparr>)
      (map (mail_entry \<circ> ex_mail) ((OriginFrom ''mgr.1'', ExLogin 100 1, Some 1) # demo_session)) demo_exmach None False = BDone m (Some c)
    \<and> exHP (state c) = 75 \<and> exSeq (state c) = 1
    \<and> items (chans m 2) = [\<lparr>Rep = Some (ExAttackReply 70 True), Err = None\<rparr>]
    \<and> items (chans m 3) = [\<lparr>Rep = Some (ExHPReply 75), Err = None\<rparr>]"
proof -
  have a: "Get PlayerSeqValue (world demo_exmach) = Some 0" by (simp add: demo_exmach_def Get_def)
  have b: "\<forall>x\<in>set demo_session. ex_plain (fst (snd x))" by (simp add: demo_session_def)
  have chs: "mail_chs (map ex_mail ((OriginFrom ''mgr.1'', ExLogin 100 1, Some 1) # demo_session)) = [1, 2, 3]"
    by (simp add: demo_session_def ex_mail_def)
  have c: "distinct (mail_chs (map ex_mail ((OriginFrom ''mgr.1'', ExLogin 100 1, Some 1) # demo_session)))"
    "unanswered demo_exmach (set (mail_chs (map ex_mail ((OriginFrom ''mgr.1'', ExLogin 100 1, Some 1) # demo_session))))"
    unfolding chs by (simp_all add: unanswered_def demo_exmach_def)
  have rs: "snd (replay ex_pure (mail_reqs (map ex_mail demo_session)) \<lparr>exHP = 100, exLevel = 1, exSeq = 1\<rparr>) =
      [(2, \<lparr>Rep = Some (ExAttackReply 70 True), Err = None\<rparr>), (3, \<lparr>Rep = Some (ExHPReply 75), Err = None\<rparr>)]"
    by code_simp
  have hp: "wrap64 (100 + sum_list (map (\<lambda>x. hp_change (fst (snd x))) demo_session)) = 75" "wrap64 1 = 1" by code_simp+
  from player_session [OF a _ _ b c, of demo_follow "\<lparr>exServerId = 1, exOpenId = ''alice''\<rparr>" False] show ?thesis
    by (auto simp: rs hp MinInt_def MaxInt_def put_results_def demo_exmach_def simp del: invokeBatch.simps list.map)
qed

subsection \<open>What the example gets wrong\<close>

text \<open>The comment in the main function says that a player regains hit points every 300 ms. The timer of the login fires once: after
  its callback the table of timers is empty and nothing has been scheduled.\<close>

lemma regen_fires_once:
  assumes "timers (ctrl c) = []" "runtimeTimers (ctrl c) = []" "Get PlayerSeqValue w = Some n"
  shows "\<exists>c1 w1 stub. ex_Login hp lv w c = HReturn c1 w1 (Some ExOk) None \<and> runtimeTimers (ctrl c1) = [stub]
    \<and> (\<forall>m. exHP (state (fst (timer_Invoke (ex_env fol i) stub c1 m))) = wrap64 (hp + 1)
         \<and> timers (ctrl (fst (timer_Invoke (ex_env fol i) stub c1 m))) = []
         \<and> runtimeTimers (ctrl (fst (timer_Invoke (ex_env fol i) stub c1 m))) = [stub])"
proof -
  let ?c = "ctx_SetState \<lparr>exHP = hp, exLevel = lv, exSeq = wrap64 (n + 1)\<rparr> (ctx_Open c)"
  define c1 where "c1 = snd (ctx_Timer ''regen'' (300 * 1000000) Regen ?c)"
  obtain j it stub where t: "timers (ctrl c1) = [(j, it)]" "runtimeTimers (ctrl c1) = [stub]" "stubId stub = j" "stubT stub = timer it"
      "stubFn stub = UserFn Regen"
    using assms(1,2) by (auto simp: c1_def ctx_Timer_def ctx_defs Timer_eq Let_def Open_def case_prod_beta)
  have st: "state c1 = \<lparr>exHP = hp, exLevel = lv, exSeq = wrap64 (n + 1)\<rparr>" by (simp add: c1_def)
  have "ex_Login hp lv w c = HReturn c1 (snd (PlayerSeq_Next n w)) (Some ExOk) None"
    using assms(3) by (simp add: c1_def ex_Login_def PlayerSeq_Next_def Let_def case_prod_beta)
  moreover have "timer_Invoke (ex_env fol i) stub c1 m = (regen_fired (c1\<lparr>ctrl := invokeLogger
      (MakeFrom exPlayer_ops i (''timer.'' @ TimerId_String j)) ((ctrl c1)\<lparr>timers := []\<rparr>)\<rparr>), m)" for m
    by (simp add: timer_Invoke_def t ex_env_def Let_def)
  ultimately show ?thesis using t(2) st
    by (intro exI [of _ c1] exI [of _ "snd (PlayerSeq_Next n w)"] exI [of _ stub])
      (simp add: regen_fired_def ctx_SetState_def invokeLogger_def)
qed

text \<open>
  \<open>Next\<close> is not synchronised, and every player runs it on its own goroutine. A call loads the number, stores the sum and loads it
  again for its result; the steps of two calls may interleave.
\<close>

datatype next_pc = NStart | NLoaded int | NStored | NReturned int

inductive next_step :: "int \<Rightarrow> next_pc \<Rightarrow> int \<Rightarrow> next_pc \<Rightarrow> bool" where
  load: "next_step n NStart n (NLoaded n)"
| store: "next_step n (NLoaded v) (wrap64 (v + 1)) NStored"
| ret: "next_step n NStored n (NReturned n)"

inductive two_calls :: "int \<times> next_pc \<times> next_pc \<Rightarrow> int \<times> next_pc \<times> next_pc \<Rightarrow> bool" where
  first: "next_step n p n' p' \<Longrightarrow> two_calls (n, p, q) (n', p', q)"
| second: "next_step n q n' q' \<Longrightarrow> two_calls (n, p, q) (n', p, q')"

inductive_simps next_step_simps: "next_step n NStart n' p" "next_step n (NLoaded v) n' p" "next_step n NStored n' p"

text \<open>Run one after the other, two calls return different numbers; interleaved, two players can be given the same number.\<close>

lemma sequence_number_race:
  "two_calls\<^sup>*\<^sup>* (n, NStart, NStart) (wrap64 (n + 1), NReturned (wrap64 (n + 1)), NReturned (wrap64 (n + 1)))"
proof -
  let ?k = "wrap64 (n + 1)"
  have "two_calls (n, NStart, NStart) (n, NLoaded n, NStart)" "two_calls (n, NLoaded n, NStart) (n, NLoaded n, NLoaded n)"
    "two_calls (n, NLoaded n, NLoaded n) (?k, NStored, NLoaded n)" "two_calls (?k, NStored, NLoaded n) (?k, NStored, NStored)"
    "two_calls (?k, NStored, NStored) (?k, NReturned ?k, NStored)" "two_calls (?k, NReturned ?k, NStored) (?k, NReturned ?k, NReturned ?k)"
    by (rule first second, simp add: next_step_simps)+
  then show ?thesis by (meson rtranclp.rtrancl_into_rtrancl rtranclp.rtrancl_refl)
qed

end
