(* ===== verification/Grain_Example.thy ===== *)
theory Grain_Example
  imports Grain_Lifecycle Actor_Context
begin

section \<open>The example of persistent actors\<close>

text \<open>
  \<open>cmd/grain_example/main.go\<close>: players whose data lives in a JSON file. The handlers are functions on the grain's activation,
  the hooks are those \<open>SetupGrain\<close> installs, and both run in the goroutine of \<open>Actor_Runtime\<close>: the session below goes
  through the mailbox, the quit hook, the file driver and the next activation. The world of an actor is the file system.
  Log lines and the printing of the main function are left out.
\<close>

subsection \<open>Types\<close>

record grainPlayerId =
  gServerId :: int
  gOpenId :: string

definition gPlayer_ops :: "grainPlayerId id_ops" where
  "gPlayer_ops =
     \<lparr>ActorType = (\<lambda>_. ''GrainPlayer''),
      IdString = (\<lambda>i. ''GrainPlayer('' @ Itoa (gServerId i) @ '','' @ gOpenId i @ '')'')\<rparr>"

record PlayerData =
  pdHP :: int
  pdLevel :: int

datatype gReq = GLogin int int | GAttack int | GSaveAndQuit | GForceSave

fun gReqType :: "gReq \<Rightarrow> string" where
  "gReqType (GLogin _ _) = ''Login''"
| "gReqType (GAttack _) = ''Attack''"
| "gReqType GSaveAndQuit = ''SaveAndQuit''"
| "gReqType GForceSave = ''ForceSave''"

datatype gRep = GOk | GAttackReply int bool | GSaveReply int

type_synonym gxerr = "(grainPlayerId, drverr) goerr"
type_synonym gxctx = "(grainPlayerId, (gReq, gxerr) request, PlayerData, PlayerData, fs) gctx"
type_synonym gxoutcome = "(gxctx, fs, gRep, gxerr) outcome"

definition gx_ask :: "gReq \<Rightarrow> (gReq, gxerr) request" where
  "gx_ask q = UserReq (gReqType q) q"

definition set_data :: "PlayerData \<Rightarrow> gxctx \<Rightarrow> gxctx" where
  "set_data d c = c\<lparr>state := (state c)\<lparr>gData := d\<rparr>\<rparr>"

subsection \<open>Handlers\<close>

text \<open>The callback \<open>onActivate\<close>.\<close>

definition gx_onActivate :: "bool \<Rightarrow> gxctx \<Rightarrow> drverr option \<times> gxctx" where
  "gx_onActivate created c = (None, if created then set_data ((gData (state c))\<lparr>pdHP := 100, pdLevel := 1\<rparr>) c else c)"

definition gx_Login :: "int \<Rightarrow> int \<Rightarrow> fs \<Rightarrow> gxctx \<Rightarrow> gxoutcome" where
  "gx_Login hp lv w c =
     (let c1 = (if pdHP (gData (state c)) = 0 then set_data ((gData (state c))\<lparr>pdHP := hp, pdLevel := lv\<rparr>) c else c)
      in HReturn c1 w (Some GOk) None)"

definition gx_Attack :: "int \<Rightarrow> fs \<Rightarrow> gxctx \<Rightarrow> gxoutcome" where
  "gx_Attack d w c =
     (let c1 = set_data ((gData (state c))\<lparr>pdHP := wrap64 (pdHP (gData (state c)) - d)\<rparr>) c;
          h = pdHP (gData (state c1))
      in HReturn c1 w (Some (GAttackReply h (h > 0))) None)"

definition gx_SaveAndQuit :: "fs \<Rightarrow> gxctx \<Rightarrow> gxoutcome" where
  "gx_SaveAndQuit w c = HReturn (ctx_Quit c) w (Some GOk) None"

text \<open>\<open>ForceSave\<close> ignores the error of \<open>Persist\<close>. The file driver never blocks.\<close>

definition gx_ForceSave :: "grainPlayerId \<Rightarrow> fs \<Rightarrow> gxctx \<Rightarrow> gxoutcome" where
  "gx_ForceSave i w c =
     (case Persist ''GrainPlayer'' (IdString gPlayer_ops i) c w of
        Ret (_, w') \<Rightarrow> HReturn c w' (Some (GSaveReply (pdHP (gData (state c))))) None
      | _ \<Rightarrow> HPanic c w None)"

fun gx_run_fn ::
  "grainPlayerId \<Rightarrow> string \<Rightarrow> fs \<Rightarrow> gxctx \<Rightarrow> (gReq, gxerr) request \<Rightarrow> bool \<Rightarrow> gxoutcome" where
  "gx_run_fn i f w c (UserReq _ (GLogin hp lv)) sp = gx_Login hp lv w c"
| "gx_run_fn i f w c (UserReq _ (GAttack d)) sp = gx_Attack d w c"
| "gx_run_fn i f w c (UserReq _ GSaveAndQuit) sp = gx_SaveAndQuit w c"
| "gx_run_fn i f w c (UserReq _ GForceSave) sp = gx_ForceSave i w c"
| "gx_run_fn i f w c (PanicReq e) sp = HPanic c w e"

subsection \<open>Registration\<close>

definition gx_build :: "(string, string) RegistryBuilder \<Rightarrow> (string, string) RegistryBuilder" where
  "gx_build b =
     fold (\<lambda>r. r)
       [SetOnSpawn (Some ''SetupGrain''), RegisterSpawn ''Login'' ''Login'', RegisterQuery ''Attack'' ''Attack'',
        RegisterQuery ''SaveAndQuit'' ''SaveAndQuit'', RegisterQuery ''ForceSave'' ''ForceSave''] b"

definition setupGrainPlayer ::
  "(grainPlayerId, string, gReq, drverr, grain_cb, gRep, string, 'v) Manager
    \<Rightarrow> (grainPlayerId, string, gReq, drverr, grain_cb, gRep, string, 'v) Manager option" where
  "setupGrainPlayer m = Serve gPlayer_ops \<lparr>gServerId = 0, gOpenId = []\<rparr> 100 gx_build m"

text \<open>The data as JSON.\<close>

definition set_pd_field :: "string \<Rightarrow> json \<Rightarrow> PlayerData \<Rightarrow> PlayerData option" where
  "set_pd_field f j s =
     (if f = ''hp'' then map_option (\<lambda>x. s\<lparr>pdHP := x\<rparr>) (dec_i64 j (pdHP s))
      else if f = ''level'' then map_option (\<lambda>x. s\<lparr>pdLevel := x\<rparr>) (dec_i64 j (pdLevel s))
      else Some s)"

definition pd_codec :: "PlayerData snapcodec" where
  "pd_codec =
     \<lparr>snapMarshal = (\<lambda>s. Inr (JObj [(''hp'', JNum (pdHP s)), (''level'', JNum (pdLevel s))])),
      snapUnmarshal = (\<lambda>j s. case Unmarshal [''hp'', ''level''] set_pd_field j s of Inl e \<Rightarrow> (Some e, s) | Inr s' \<Rightarrow> (None, s'))\<rparr>"

text \<open>The persistence manager of the main function.\<close>

definition gx_pm :: "os \<Rightarrow> (PlayerData, fs) PersistenceManager" where
  "gx_pm sys =
     NewPersistenceManager [WithDriver (JsonDriver ''./grain_data'' sys pd_codec), WithNodeId ''node-1'',
       WithAutoPersistInterval (5 * 1000000000)]"

text \<open>The environment of a player's goroutine. An error of the spawn hook is one of the driver; the file driver never blocks. A player
  posts nothing, so its sender is never called.\<close>

definition gx_spawn :: "os \<Rightarrow> grainPlayerId \<Rightarrow> fs \<Rightarrow> gxctx \<Rightarrow> gxoutcome" where
  "gx_spawn sys i w c =
     (case grain_OnSpawn ''GrainPlayer'' (IdString gPlayer_ops i) (Some (gx_pm sys)) ShotSelf (Some gx_onActivate) c w of
        Ret (err, c', w') \<Rightarrow> HReturn c' w' None (map_option UserErr err)
      | _ \<Rightarrow> HPanic c w None)"

definition gx_env ::
  "os \<Rightarrow> grainPlayerId \<Rightarrow> (grainPlayerId, string, gReq, drverr, (PlayerData, PlayerData, fs) GState, fs, grain_cb, gRep) env" where
  "gx_env sys i =
     \<lparr>ops = gPlayer_ops, self = i, zeroState = \<lparr>gData = \<lparr>pdHP = 0, pdLevel = 0\<rparr>, lease = None, gpm = None, snap = None\<rparr>,
      run_fn = gx_run_fn i, run_cb = (\<lambda>_. auto_persist ''GrainPlayer'' (IdString gPlayer_ops i)),
      onSpawn = Some (gx_spawn sys i), panicHandler = None, fpostOp = (\<lambda>w f j q. (Some (GroupNotFoundError j), w))\<rparr>"

definition gx_mail :: "From \<times> gReq \<times> nat option \<Rightarrow> (string, gReq, gxerr, grain_cb) invokable" where
  "gx_mail x = (case x of (f, q, ch) \<Rightarrow>
     Invoke f (the (handlers (gx_build NewRegistryBuilder) (gReqType q))) (gx_ask q) ch False)"

subsection \<open>A restart in the middle of a session\<close>

lemmas gx_builds = gx_build_def NewRegistryBuilder_def SetOnSpawn_def RegisterSpawn_def RegisterQuery_def register_def

lemma gx_pm_sel:
  "driver (gx_pm sys) = Some (JsonDriver ''./grain_data'' sys pd_codec)" "nodeId (gx_pm sys) = ''node-1''"
  "persistInterval (gx_pm sys) = 5 * 1000000000"
  by (simp_all add: gx_pm_def NewPersistenceManager_def WithDriver_def WithNodeId_def WithAutoPersistInterval_def)

lemma pd_codec_roundtrip:
  assumes "MinInt \<le> pdHP s" "pdHP s \<le> MaxInt" "MinInt \<le> pdLevel s" "pdLevel s \<le> MaxInt"
  shows "\<exists>j. snapMarshal pd_codec s = Inr j \<and> snapUnmarshal pd_codec j d = (None, d\<lparr>pdHP := pdHP s, pdLevel := pdLevel s\<rparr>)"
  using assms by (simp add: pd_codec_def Unmarshal_def set_pd_field_def MinInt_def MaxInt_def)

text \<open>An open player with its lease and the hooks of \<open>SetupGrain\<close>.\<close>

definition gx_active :: "grainPlayerId \<Rightarrow> int \<Rightarrow> gxctx \<Rightarrow> bool" where
  "gx_active i gen c \<longleftrightarrow> active (ctrl c) \<and> postpone (ctrl c) = [] \<and> MinInt \<le> gen \<and> gen \<le> MaxInt
     \<and> OnQuit (ctrl c) = Some (grain_quit ''GrainPlayer'' (IdString gPlayer_ops i))
     \<and> gpm (state c) = Some (gx_pm no_faults) \<and> snap (state c) = Some ShotSelf
     \<and> (\<exists>l. lease (state c) = Some l \<and> liGeneration l = gen)"

definition gx_path :: "grainPlayerId \<Rightarrow> string" where
  "gx_path i = filePath ''./grain_data'' ''GrainPlayer'' (IdString gPlayer_ops i)"

text \<open>Spawning on what the file holds.\<close>

lemma gx_spawn_loads:
  assumes "w (gx_path i) = Some (Some (encode_doc gen j))" "MinInt \<le> gen" "gen \<le> MaxInt"
    and "snapUnmarshal pd_codec j \<lparr>pdHP = 0, pdLevel = 0\<rparr> = (None, d)"
    and "state c = zeroState (gx_env no_faults i)" "postpone (ctrl c) = []" "OnQuit (ctrl c) = None"
  shows "\<exists>c'. gx_spawn no_faults i w c = HReturn c' w None None \<and> gx_active i (wrap64 (gen + 1)) c' \<and> gData (state c') = d"
proof -
  have "json_Load ''./grain_data'' no_faults pd_codec ''GrainPlayer'' (IdString gPlayer_ops i) ''node-1'' \<lparr>pdHP = 0, pdLevel = 0\<rparr> w =
      Ret ((Some \<lparr>liKey = IdString gPlayer_ops i, liOwner = ''node-1'', liGeneration = wrap64 (gen + 1)\<rparr>, None, d), w)"
    using assms(1-4) by (simp add: json_Load_def gx_path_def)
  then show ?thesis
    using assms(5-7) wrap64_range [of "gen + 1"]
    by (simp add: gx_spawn_def grain_OnSpawn_def Activate_def activate_def gx_pm_sel JsonDriver_def ShotSelf_def gx_onActivate_def Let_def
        gx_env_def gx_active_def PushOnQuit_def Timer_eq Open_def)
qed

lemma clear_world: "postpone a = [] \<Longrightarrow> snd (clear fp a w) = w"
  by (simp add: clear_def flushPostpone_def Let_def)

text \<open>Quitting writes the data and leaves no activation.\<close>

lemma gx_quit_step:
  assumes act: "gx_active i gen c" and j: "snapMarshal pd_codec (gData (state c)) = Inr j" and un: "unanswered m {k}"
  shows "msg_step (gx_env no_faults i) (gx_mail (f, GSaveAndQuit, Some k)) m (Some c) p =
    SNext (m\<lparr>world := (world m)(gx_path i \<mapsto> Some (encode_doc gen j)), gidle := gidle m + 1,
             chans := put_results [(k, \<lparr>Rep = Some GOk, Err = None\<rparr>)] (chans m)\<rparr>) None True"
proof -
  let ?env = "gx_env no_faults i"
  let ?c2 = "ctx_Quit (c\<lparr>ctrl := invokeLogger f (ctrl c)\<rparr>)"
  have quit: "grain_quit ''GrainPlayer'' (IdString gPlayer_ops i) (cn, state c, w) =
      (False, (cn, state c, w(gx_path i \<mapsto> Some (encode_doc gen j))))" for cn w
    using act j by (auto simp: gx_active_def grain_quit_def persist_def release_def gx_pm_sel JsonDriver_def json_Save_def
        json_Release_def ShotSelf_def gx_path_def)
  have c2: "postpone (ctrl ?c2) = []" "OnQuit (ctrl ?c2) = Some (grain_quit ''GrainPlayer'' (IdString gPlayer_ops i))" "state ?c2 = state c"
    using act by (simp_all add: gx_active_def ctx_Quit_def Quit_def invokeLogger_def)
  have clr: "ctx_clear ?env ?c2 w = w(gx_path i \<mapsto> Some (encode_doc gen j))" for w
    using clear_world [OF c2(1), of "fpostOp ?env" w] clear_spec(5) [of "fpostOp ?env" "ctrl ?c2" w] quit
    by (simp add: ctx_clear_def c2 case_prod_beta)
  have run: "run_fn ?env (fn h) w (c\<lparr>ctrl := invokeLogger f (ctrl c)\<rparr>) (gx_ask GSaveAndQuit) False = HReturn ?c2 w (Some GOk) None" for h w
    by (simp add: gx_env_def gx_ask_def gx_SaveAndQuit_def)
  have h: "allow_query (the (handlers (gx_build NewRegistryBuilder) ''SaveAndQuit''))" by (simp add: gx_builds)
  have pr: "put_results [(k, r)] (chans m) = (chans m)(k := (chans m k)\<lparr>items := items (chans m k) @ [r]\<rparr>)" for r
    by (auto simp: put_results_def fun_eq_iff)
  have "active (ctrl c)" using act by (simp add: gx_active_def)
  then show ?thesis
    using un h by (simp add: msg_step_def gx_mail_def Let_def invoke_Invoke_def run put_opt_def put_result_def chan_send_def
        unanswered_def settle_def clr pr)
qed

text \<open>Logging in on a file creates the activation with its data.\<close>

lemma gx_login_step:
  assumes "world m (gx_path i) = Some (Some (encode_doc gen j))" "MinInt \<le> gen" "gen \<le> MaxInt"
    and "snapUnmarshal pd_codec j \<lparr>pdHP = 0, pdLevel = 0\<rparr> = (None, d)" and un: "unanswered m {k}"
  shows "\<exists>c. msg_step (gx_env no_faults i) (gx_mail (f, GLogin hp lv, Some k)) m None p =
      SNext (m\<lparr>gidle := gidle m - 1, chans := put_results [(k, \<lparr>Rep = Some GOk, Err = None\<rparr>)] (chans m)\<rparr>) (Some c) False
    \<and> gx_active i (wrap64 (gen + 1)) c
    \<and> gData (state c) = (if pdHP d = 0 then \<lparr>pdHP = hp, pdLevel = lv\<rparr> else d)"
proof -
  let ?env = "gx_env no_faults i"
  let ?h = "the (handlers (gx_build NewRegistryBuilder) ''Login'')"
  let ?c0 = "(newActorContext ?env)\<lparr>ctrl := invokeLogger (MakeFrom gPlayer_ops i ''OnSpawn'') (ctrl (newActorContext ?env))\<rparr>"
  obtain c1 where c1: "gx_spawn no_faults i (world m) ?c0 = HReturn c1 (world m) None None"
      "gx_active i (wrap64 (gen + 1)) c1" "gData (state c1) = d"
    using gx_spawn_loads [where w = "world m" and c = ?c0, OF assms(1-4)]
    by (auto simp: newActorContext_def newActorControl_def invokeLogger_def)
  have sp: "spawn_hook ?env (newActorContext ?env) (world m) = HReturn c1 (world m) None None"
    using c1(1) by (simp add: spawn_hook_def gx_env_def)
  let ?c2 = "let c = c1\<lparr>ctrl := invokeLogger f (ctrl c1)\<rparr> in if pdHP d = 0 then set_data (d\<lparr>pdHP := hp, pdLevel := lv\<rparr>) c else c"
  have run: "run_fn ?env (fn ?h) (world m) (c1\<lparr>ctrl := invokeLogger f (ctrl c1)\<rparr>) (gx_ask (GLogin hp lv)) True =
      HReturn ?c2 (world m) (Some GOk) None"
    using c1(3) by (simp add: gx_env_def gx_ask_def gx_Login_def Let_def)
  have act: "gx_active i (wrap64 (gen + 1)) ?c2" "gData (state ?c2) = (if pdHP d = 0 then \<lparr>pdHP = hp, pdLevel = lv\<rparr> else d)"
    using c1(2,3) by (cases d; auto simp: gx_active_def set_data_def invokeLogger_def Let_def)+
  have a2: "active (ctrl ?c2)" using act(1) by (simp only: gx_active_def)
  have h: "allow_spawn ?h" by (simp add: gx_builds)
  have un': "unanswered m (set_option (Some k))" using un by simp
  from msg_step_spawn [OF h un' a2 sp run, of p] act show ?thesis
    by (intro exI [of _ ?c2]) (simp add: gx_mail_def)
qed


definition demo_gxctx :: gxctx where
  "demo_gxctx = \<lparr>ctrl = (newActorControl ''GrainPlayer(1,alice)'')\<lparr>active := True,
       OnQuit := Some (grain_quit ''GrainPlayer'' (IdString gPlayer_ops \<lparr>gServerId = 1, gOpenId = ''alice''\<rparr>))\<rparr>,
     state = \<lparr>gData = \<lparr>pdHP = 70, pdLevel = 1\<rparr>, lease = Some \<lparr>liKey = ''GrainPlayer(1,alice)'', liOwner = ''node-1'', liGeneration = 1\<rparr>,
       gpm = Some (gx_pm no_faults), snap = Some ShotSelf\<rparr>\<rparr>"

definition demo_gxmach :: "(gRep, gxerr, fs) mach" where
  "demo_gxmach = \<lparr>chans = (\<lambda>_. make_chan 1), closedReps = [], gidle = 0, world = Map.empty\<rparr>"


text \<open>The comment above the test in \<open>Login\<close> says that on the first creation the values of the request replace the defaults. The
  defaults are not zero, so on a creation the test fails and the request's values are dropped.\<close>

lemma first_login_ignores_request:
  assumes "w (gx_path i) = None" "state c = zeroState (gx_env no_faults i)"
  shows "\<exists>c1. gx_spawn no_faults i w c = HReturn c1 w None None \<and>
    (\<exists>c2. gx_Login hp lv w c1 = HReturn c2 w (Some GOk) None \<and> gData (state c2) = \<lparr>pdHP = 100, pdLevel = 1\<rparr>)"
proof -
  have "json_Load ''./grain_data'' no_faults pd_codec ''GrainPlayer'' (IdString gPlayer_ops i) ''node-1'' \<lparr>pdHP = 0, pdLevel = 0\<rparr> w =
      Ret ((Some \<lparr>liKey = IdString gPlayer_ops i, liOwner = ''node-1'', liGeneration = 1\<rparr>, Some ErrNotFound, \<lparr>pdHP = 0, pdLevel = 0\<rparr>), w)"
    using assms(1) by (simp add: json_Load_def gx_path_def)
  with assms(2) show ?thesis
    by (simp add: gx_spawn_def grain_OnSpawn_def Activate_def activate_def gx_pm_sel JsonDriver_def ShotSelf_def gx_onActivate_def Let_def
        gx_env_def gx_Login_def set_data_def)
qed

end
