(* ===== verification/Rpc_Example.thy ===== *)
theory Rpc_Example
  imports Rpc Grain_Driver Actor_Context
begin

section \<open>The example of remote calls\<close>

text \<open>
  \<open>cmd/rpc_example/main.go\<close>: players on a server, driven by a client over the JSON transport. The client, the frames, the read loop of
  the server, the codecs and the goroutine of a player are composed: a session of remote operations is a run of a map of players.
  The goroutine of a player serves each message when it arrives, and a player that has closed has left the table when the next
  message arrives. Log lines and the printing of the client are left out.
\<close>

subsection \<open>Types\<close>

record rxPlayerId =
  rxServerId :: int
  rxOpenId :: string

definition rxPlayer_ops :: "rxPlayerId id_ops" where
  "rxPlayer_ops =
     \<lparr>ActorType = (\<lambda>_. ''Player''),
      IdString = (\<lambda>i. ''Player('' @ Itoa (rxServerId i) @ '','' @ rxOpenId i @ '')'')\<rparr>"

record rxPlayerState =
  rxHP :: int
  rxLevel :: int

datatype rxReq = RxLogin int int | RxAttack int | RxHeal int | RxClose

fun rxReqType :: "rxReq \<Rightarrow> string" where
  "rxReqType (RxLogin _ _) = ''Login''"
| "rxReqType (RxAttack _) = ''Attack''"
| "rxReqType (RxHeal _) = ''Heal''"
| "rxReqType RxClose = ''Close''"

datatype rxRep = RxOk | RxAttackReply int bool | RxHealReply int

type_synonym rxerr = "(rxPlayerId, string) goerr"
type_synonym rxctx = "(rxPlayerId, (rxReq, rxerr) request, rxPlayerState, unit, unit) ActorContext"
type_synonym rxoutcome = "(rxctx, unit, rxRep, rxerr) outcome"

subsection \<open>The server's players\<close>

definition rx_Login :: "int \<Rightarrow> int \<Rightarrow> unit \<Rightarrow> rxctx \<Rightarrow> rxoutcome" where
  "rx_Login hp lv w c = HReturn (ctx_SetState \<lparr>rxHP = hp, rxLevel = lv\<rparr> (ctx_Open c)) w (Some RxOk) None"

definition rx_Attack :: "int \<Rightarrow> unit \<Rightarrow> rxctx \<Rightarrow> rxoutcome" where
  "rx_Attack d w c =
     (let hp = wrap64 (rxHP (state c) - d); alive = (hp > 0)
      in HReturn (ctx_SetState ((state c)\<lparr>rxHP := hp\<rparr>) c) w (Some (RxAttackReply hp alive)) None)"

definition rx_Heal :: "int \<Rightarrow> unit \<Rightarrow> rxctx \<Rightarrow> rxoutcome" where
  "rx_Heal n w c =
     (let hp = wrap64 (rxHP (state c) + n)
      in HReturn (ctx_SetState ((state c)\<lparr>rxHP := hp\<rparr>) c) w (Some (RxHealReply hp)) None)"

definition rx_Close :: "unit \<Rightarrow> rxctx \<Rightarrow> rxoutcome" where
  "rx_Close w c = HReturn (ctx_Quit c) w (Some RxOk) None"

definition rx_build :: "(string, unit) RegistryBuilder \<Rightarrow> (string, unit) RegistryBuilder" where
  "rx_build b =
     RegisterQuery ''Close'' ''Close'' (RegisterQuery ''Heal'' ''Heal''
       (RegisterQuery ''Attack'' ''Attack'' (RegisterSpawn ''Login'' ''Login'' b)))"

fun rx_run_fn :: "string \<Rightarrow> unit \<Rightarrow> rxctx \<Rightarrow> (rxReq, rxerr) request \<Rightarrow> bool \<Rightarrow> rxoutcome" where
  "rx_run_fn f w c (UserReq _ (RxLogin hp lv)) sp = rx_Login hp lv w c"
| "rx_run_fn f w c (UserReq _ (RxAttack d)) sp = rx_Attack d w c"
| "rx_run_fn f w c (UserReq _ (RxHeal n)) sp = rx_Heal n w c"
| "rx_run_fn f w c (UserReq _ RxClose) sp = rx_Close w c"
| "rx_run_fn f w c (PanicReq e) sp = HPanic c w e"

text \<open>No spawn hook and no panic handler is set; a player posts nothing.\<close>

definition rx_env :: "rxPlayerId \<Rightarrow> (rxPlayerId, string, rxReq, string, rxPlayerState, unit, unit, rxRep) env" where
  "rx_env i =
     \<lparr>ops = rxPlayer_ops, self = i, zeroState = \<lparr>rxHP = 0, rxLevel = 0\<rparr>, run_fn = rx_run_fn,
      run_cb = (\<lambda>_ w c. (c, w)), onSpawn = None, panicHandler = None, fpostOp = (\<lambda>w f j q. (Some (GroupNotFoundError j), w))\<rparr>"

text \<open>The players that run, with their activations. A request to one that does not run is refused by the group unless it may spawn.\<close>

type_synonym rxworld = "(rxPlayerId \<times> rxctx) list"

definition rx_handler :: "rxReq \<Rightarrow> string handlerEntry" where
  "rx_handler q = the (handlers (rx_build NewRegistryBuilder) (rxReqType q))"

definition rx_mach :: "(rxRep, rxerr, unit) mach" where
  "rx_mach = \<lparr>chans = (\<lambda>_. make_chan 1), closedReps = [], gidle = 1, world = ()\<rparr>"

definition rx_serve ::
  "From \<Rightarrow> nat option \<Rightarrow> rxPlayerId \<Rightarrow> rxReq \<Rightarrow> rxworld \<Rightarrow> ((rxerr + (rxRep, rxerr, unit) mach) \<times> rxworld) go" where
  "rx_serve f ch i q w =
     (let h = rx_handler q in
      if map_of w i = None \<and> \<not> allow_spawn h then Ret (Inl (ActorNotFoundError i), w)
      else (case invokeBatch (rx_env i) [Invoke f h (UserReq (rxReqType q) q) ch False] rx_mach (map_of w i) False of
              BDone m None \<Rightarrow> Ret (Inr m, AList.delete i w)
            | BDone m (Some c) \<Rightarrow> Ret (Inr m, AList.update i c w)
            | BBlocks \<Rightarrow> GoBlocks
            | _ \<Rightarrow> GoPanic))"

definition rx_post :: "From \<Rightarrow> rxPlayerId \<Rightarrow> rxReq \<Rightarrow> rxworld \<Rightarrow> (rxerr option \<times> rxworld) go" where
  "rx_post f i q w = bind_go (rx_serve f None i q w) (\<lambda>(r, w'). Ret (case r of Inl e \<Rightarrow> Some e | Inr m \<Rightarrow> None, w'))"

text \<open>A caller waits on its channel.\<close>

definition rx_call :: "From \<Rightarrow> rxPlayerId \<Rightarrow> rxReq \<Rightarrow> rxworld \<Rightarrow> ((rxerr + rxRep option) \<times> rxworld) go" where
  "rx_call f i q w = bind_go (rx_serve f (Some 0) i q w) (\<lambda>(r, w').
     case r of
       Inl e \<Rightarrow> Ret (Inl e, w')
     | Inr m \<Rightarrow>
         (case items (chans m 0) of
            [] \<Rightarrow> GoBlocks
          | x # _ \<Rightarrow> Ret (case Err x of Some e \<Rightarrow> Inl e | None \<Rightarrow> Inr (Rep x), w')))"

fun rx_post_all :: "From \<Rightarrow> rxPlayerId list \<Rightarrow> rxReq \<Rightarrow> rxworld \<Rightarrow> (int \<times> rxworld) go" where
  "rx_post_all f [] q w = Ret (0, w)"
| "rx_post_all f (i # is) q w =
     bind_go (rx_post f i q w) (\<lambda>(r, w1). bind_go (rx_post_all f is q w1) (\<lambda>(n, w2). Ret (if r = None then n + 1 else n, w2)))"

definition rx_api :: "(rxPlayerId, rxReq, rxRep option, rxerr, rxworld) actor_api" where
  "rx_api =
     \<lparr>apiPost = rx_post (OriginFrom ''rpc''), apiCall = rx_call (OriginFrom ''rpc''),
      apiBroadcast = (\<lambda>q w. bind_go (rx_post_all (OriginFrom ''rpc'') (map fst w) q w) (\<lambda>(n, w'). Ret (Inr n, w'))),
      apiMulticast = (\<lambda>is q w. bind_go (rx_post_all (OriginFrom ''rpc'') is q w) (\<lambda>(n, w'). Ret (Inr n, w'))),
      errText = Error_String rxPlayer_ops (\<lambda>e. e)\<rparr>"

subsection \<open>The reference: a map of players\<close>

type_synonym rxplayers = "rxPlayerId \<rightharpoonup> rxPlayerState"

fun rx_spec :: "rxPlayerId \<Rightarrow> rxReq \<Rightarrow> rxplayers \<Rightarrow> (rxerr + rxRep option) \<times> rxplayers" where
  "rx_spec i (RxLogin hp lv) P =
     (case P i of
        None \<Rightarrow> (Inr (Some RxOk), P(i \<mapsto> \<lparr>rxHP = hp, rxLevel = lv\<rparr>))
      | Some _ \<Rightarrow> (Inl (HandlerNotAllowedError i ''Login''), P))"
| "rx_spec i (RxAttack d) P =
     (case P i of
        None \<Rightarrow> (Inl (ActorNotFoundError i), P)
      | Some s \<Rightarrow> (let h = wrap64 (rxHP s - d) in (Inr (Some (RxAttackReply h (h > 0))), P(i \<mapsto> s\<lparr>rxHP := h\<rparr>))))"
| "rx_spec i (RxHeal n) P =
     (case P i of
        None \<Rightarrow> (Inl (ActorNotFoundError i), P)
      | Some s \<Rightarrow> (let h = wrap64 (rxHP s + n) in (Inr (Some (RxHealReply h)), P(i \<mapsto> s\<lparr>rxHP := h\<rparr>))))"
| "rx_spec i RxClose P =
     (case P i of
        None \<Rightarrow> (Inl (ActorNotFoundError i), P)
      | Some _ \<Rightarrow> (Inr (Some RxOk), P(i := None)))"

definition rx_abs :: "rxworld \<Rightarrow> rxplayers" where
  "rx_abs w i = map_option state (map_of w i)"

definition rx_ok :: "rxworld \<Rightarrow> bool" where
  "rx_ok w \<longleftrightarrow> distinct (map fst w) \<and> (\<forall>c\<in>snd ` set w. active (ctrl c))"

lemma rx_ok_active: "rx_ok w \<Longrightarrow> map_of w i = Some c \<Longrightarrow> active (ctrl c)"
  by (force simp: rx_ok_def dest: map_of_SomeD)

lemma set_update_sub: "set (AList.update k v al) \<subseteq> insert (k, v) (set al)"
  by (induction al) auto

lemma rx_ok_update: "rx_ok w \<Longrightarrow> active (ctrl c) \<Longrightarrow> rx_ok (AList.update i c w)"
  using set_update_sub [of i c w] by (auto simp: rx_ok_def distinct_update)

lemma rx_ok_delete: "rx_ok w \<Longrightarrow> rx_ok (AList.delete i w)"
proof -
  assume w: "rx_ok w"
  have "set (AList.delete i w) \<subseteq> set w" by (auto simp: AList.delete_eq)
  with w show ?thesis by (auto simp: rx_ok_def distinct_delete)
qed

lemma rx_abs_update [simp]: "rx_abs (AList.update i c w) = (rx_abs w)(i \<mapsto> state c)"
  by (auto simp: rx_abs_def fun_eq_iff update_conv)

lemma rx_abs_delete [simp]: "rx_abs (AList.delete i w) = (rx_abs w)(i := None)"
  by (auto simp: rx_abs_def fun_eq_iff delete_conv)

lemmas rx_build_simps = rx_handler_def rx_build_def NewRegistryBuilder_def RegisterSpawn_def RegisterQuery_def register_def

definition rx_answer :: "nat option \<Rightarrow> rxerr + rxRep option \<Rightarrow> (rxRep, rxerr, unit) mach \<Rightarrow> bool" where
  "rx_answer ch r m \<longleftrightarrow> (ch = Some 0 \<longrightarrow> items (chans m 0) =
     [case r of Inl e \<Rightarrow> \<lparr>Rep = None, Err = Some e\<rparr> | Inr x \<Rightarrow> \<lparr>Rep = x, Err = None\<rparr>])"

lemma rx_unanswered: "unanswered rx_mach S"
  by (simp add: unanswered_def rx_mach_def)

lemma rx_items: "chans rx_mach n = make_chan 1"
  by (simp add: rx_mach_def)

text \<open>The goroutine of a player follows the map.\<close>

lemma rx_open_step:
  assumes "rx_ok w" "map_of w i = Some c" "q = RxAttack d \<or> q = RxHeal d"
  shows "\<exists>m w'. rx_serve f ch i q w = Ret (Inr m, w') \<and> rx_ok w' \<and> rx_abs w' = snd (rx_spec i q (rx_abs w))
    \<and> rx_answer ch (fst (rx_spec i q (rx_abs w))) m"
proof -
  obtain c' rep where run: "run_fn (rx_env i) (fn (rx_handler q)) (world rx_mach) (c\<lparr>ctrl := invokeLogger f (ctrl c)\<rparr>) (UserReq (rxReqType q) q) False
      = HReturn c' () (Some rep) None" "active (ctrl c')"
      "rx_spec i q (rx_abs w) = (Inr (Some rep), (rx_abs w)(i \<mapsto> state c'))"
    using assms(3) rx_ok_active [OF assms(1,2)] assms(2)
    by (auto simp: rx_env_def rx_Attack_def rx_Heal_def Let_def rx_abs_def invokeLogger_def)
  have h: "allow_query (rx_handler q)" using assms(3) by (auto simp: rx_build_simps)
  from msg_step_open [OF h rx_ok_active [OF assms(1,2)] run(2) rx_unanswered run(1), of ch False] show ?thesis
    using assms run(2,3) by (auto simp: rx_serve_def Let_def rx_ok_update rx_answer_def put_results_def rx_items make_chan_def)
qed

lemma rx_close_step:
  assumes "rx_ok w" "map_of w i = Some c"
  shows "\<exists>m w'. rx_serve f ch i RxClose w = Ret (Inr m, w') \<and> rx_ok w' \<and> rx_abs w' = snd (rx_spec i RxClose (rx_abs w))
    \<and> rx_answer ch (fst (rx_spec i RxClose (rx_abs w))) m"
  using assms
  by (cases ch) (auto simp: rx_serve_def msg_step_def Let_def invoke_Invoke_def put_opt_def put_result_def chan_send_def settle_def rx_build_simps
      rx_env_def rx_Close_def rx_mach_def make_chan_def rx_answer_def rx_ok_delete rx_abs_def)

lemma rx_login_step:
  assumes "rx_ok w" "map_of w i = None"
  shows "\<exists>m w'. rx_serve f ch i (RxLogin hp lv) w = Ret (Inr m, w') \<and> rx_ok w' \<and> rx_abs w' = snd (rx_spec i (RxLogin hp lv) (rx_abs w))
    \<and> rx_answer ch (fst (rx_spec i (RxLogin hp lv) (rx_abs w))) m"
proof -
  let ?q = "RxLogin hp lv"
  let ?c = "newActorContext (rx_env i)"
  let ?c1 = "?c\<lparr>ctrl := invokeLogger f (ctrl ?c)\<rparr>"
  let ?c2 = "ctx_SetState \<lparr>rxHP = hp, rxLevel = lv\<rparr> (ctx_Open ?c1)"
  have h: "allow_spawn (rx_handler ?q)" by (simp add: rx_build_simps)
  have sp: "spawn_hook (rx_env i) ?c (world rx_mach) = HReturn ?c () None None" by (simp add: spawn_hook_def rx_env_def)
  have run: "run_fn (rx_env i) (fn (rx_handler ?q)) () ?c1 (UserReq (rxReqType ?q) ?q) True = HReturn ?c2 () (Some RxOk) None"
    by (simp add: rx_env_def rx_Login_def)
  have act: "active (ctrl ?c2)" by simp
  from msg_step_spawn [OF h rx_unanswered act sp run, of ch False] assms h show ?thesis
    by (auto simp: rx_serve_def Let_def rx_ok_update rx_answer_def put_results_def rx_items make_chan_def rx_abs_def)
qed

lemma rx_refused_step:
  assumes "rx_ok w" "map_of w i = Some c"
  shows "\<exists>m w'. rx_serve f ch i (RxLogin hp lv) w = Ret (Inr m, w') \<and> rx_ok w' \<and> rx_abs w' = snd (rx_spec i (RxLogin hp lv) (rx_abs w))
    \<and> rx_answer ch (fst (rx_spec i (RxLogin hp lv) (rx_abs w))) m"
  using assms rx_ok_active [OF assms]
  by (cases ch) (auto simp: rx_serve_def msg_step_def Let_def put_opt_def put_result_def chan_send_def rx_build_simps
      rx_env_def rx_mach_def make_chan_def rx_answer_def rx_ok_update rx_abs_def)

lemma rx_serve_spec:
  assumes "rx_ok w"
  shows "rx_serve f ch i q w = Ret (Inl (ActorNotFoundError i), w) \<and> rx_spec i q (rx_abs w) = (Inl (ActorNotFoundError i), rx_abs w)
    \<or> (\<exists>m w'. rx_serve f ch i q w = Ret (Inr m, w') \<and> rx_ok w' \<and> rx_abs w' = snd (rx_spec i q (rx_abs w))
        \<and> rx_answer ch (fst (rx_spec i q (rx_abs w))) m)"
proof (cases "map_of w i")
  case None
  show ?thesis
  proof (cases q)
    case (RxLogin hp lv)
    with rx_login_step [OF assms None] show ?thesis by blast
  qed (use None in \<open>simp_all add: rx_serve_def rx_build_simps rx_abs_def Let_def\<close>)
next
  case (Some c)
  note step = rx_open_step [OF assms Some] rx_close_step [OF assms Some] rx_refused_step [OF assms Some]
  show ?thesis
  proof (cases q)
    case (RxLogin hp lv)
    with step(3) [of f ch hp lv] show ?thesis by simp
  next
    case (RxAttack d)
    with step(1) [of q d f ch] show ?thesis by simp
  next
    case (RxHeal d)
    with step(1) [of q d f ch] show ?thesis by simp
  next
    case RxClose
    with step(2) [of f ch] show ?thesis by simp
  qed
qed

lemma rx_call_spec:
  assumes "rx_ok w"
  shows "\<exists>w'. rx_call f i q w = Ret (fst (rx_spec i q (rx_abs w)), w') \<and> rx_ok w' \<and> rx_abs w' = snd (rx_spec i q (rx_abs w))"
  using rx_serve_spec [OF assms, of f "Some 0" i q] assms
  by (elim disjE exE conjE) (simp_all add: rx_call_def rx_answer_def split: sum.splits)

lemma rx_post_spec:
  assumes "rx_ok w"
  shows "\<exists>e w'. rx_post f i q w = Ret (e, w') \<and> rx_ok w' \<and> rx_abs w' = snd (rx_spec i q (rx_abs w))"
  using rx_serve_spec [OF assms, of f None i q] assms
  by (elim disjE exE conjE) (simp_all add: rx_post_def)

text \<open>A broadcast reaches every player that runs.\<close>

definition rx_spec_all :: "rxReq \<Rightarrow> rxplayers \<Rightarrow> rxplayers" where
  "rx_spec_all q P i = (if P i = None then None else snd (rx_spec i q P) i)"

lemma rx_spec_local:
  "j \<noteq> i \<Longrightarrow> snd (rx_spec i q P) j = P j" "P i = P' i \<Longrightarrow> snd (rx_spec i q P) i = snd (rx_spec i q P') i"
  by (cases q; auto simp: Let_def split: option.splits)+

lemma rx_post_all_spec:
  assumes "rx_ok w" "distinct is" "set is \<subseteq> dom (rx_abs w)"
  shows "\<exists>n w'. rx_post_all f is q w = Ret (n, w') \<and> rx_ok w'
    \<and> rx_abs w' = (\<lambda>i. if i \<in> set is then rx_spec_all q (rx_abs w) i else rx_abs w i)"
  using assms
proof (induction "is" arbitrary: w)
  case Nil
  then show ?case by simp
next
  case (Cons i "is")
  obtain e w1 where w1: "rx_post f i q w = Ret (e, w1)" "rx_ok w1" "rx_abs w1 = snd (rx_spec i q (rx_abs w))"
    using rx_post_spec [OF Cons.prems(1), of f i q] by blast
  have same: "rx_abs w1 j = rx_abs w j" if "j \<noteq> i" for j using w1(3) that by (simp add: rx_spec_local)
  have "set is \<subseteq> dom (rx_abs w1)"
  proof
    fix j
    assume j: "j \<in> set is"
    with Cons.prems(2) have "j \<noteq> i" by auto
    with same j Cons.prems(3) show "j \<in> dom (rx_abs w1)" by (auto simp: dom_def)
  qed
  with Cons.IH [OF w1(2)] Cons.prems(2) obtain n w' where w': "rx_post_all f is q w1 = Ret (n, w')" "rx_ok w'"
      "rx_abs w' = (\<lambda>j. if j \<in> set is then rx_spec_all q (rx_abs w1) j else rx_abs w1 j)" by auto
  have "rx_abs w' j = (if j \<in> set (i # is) then rx_spec_all q (rx_abs w) j else rx_abs w j)" for j
  proof (cases "j = i")
    case True
    with Cons.prems(2,3) w1(3) show ?thesis unfolding w'(3) by (auto simp: rx_spec_all_def)
  next
    case False
    with same [OF False] rx_spec_local(2) [of "rx_abs w1" j "rx_abs w" q] show ?thesis unfolding w'(3) by (auto simp: rx_spec_all_def)
  qed
  with w1(1) w'(1,2) show ?case by auto
qed

lemma rx_broadcast_spec:
  assumes "rx_ok w"
  shows "\<exists>n w'. apiBroadcast rx_api q w = Ret (Inr n, w') \<and> rx_ok w' \<and> rx_abs w' = rx_spec_all q (rx_abs w)"
proof -
  have d: "distinct (map fst w)" "set (map fst w) = dom (rx_abs w)"
    using assms by (auto simp: rx_ok_def rx_abs_def dom_def map_of_eq_None_iff image_iff)
  obtain n w' where w': "rx_post_all (OriginFrom ''rpc'') (map fst w) q w = Ret (n, w')" "rx_ok w'"
      "rx_abs w' = (\<lambda>i. if i \<in> set (map fst w) then rx_spec_all q (rx_abs w) i else rx_abs w i)"
    using rx_post_all_spec [OF assms d(1)] d(2) by blast
  have "rx_abs w' = rx_spec_all q (rx_abs w)" unfolding w'(3) d(2) by (auto simp: rx_spec_all_def fun_eq_iff dom_def)
  with w'(1,2) show ?thesis by (simp add: rx_api_def)
qed

subsection \<open>Codecs\<close>

definition JsonCodec_Encode :: "json \<Rightarrow> string + RawMessage" where
  "JsonCodec_Encode j = Inr (Some j)"

definition JsonCodec_Decode :: "(json \<Rightarrow> string + 'x) \<Rightarrow> RawMessage \<Rightarrow> string + 'x" where
  "JsonCodec_Decode dec m = (case m of None \<Rightarrow> Inl ''unexpected end of JSON input'' | Some j \<Rightarrow> dec j)"

fun dec_bool :: "json \<Rightarrow> bool \<Rightarrow> bool option" where
  "dec_bool (JBool b) old = Some b"
| "dec_bool JNull old = Some old"
| "dec_bool _ old = None"

text \<open>The JSON of the structs, by their tags.\<close>

definition set_id_field :: "string \<Rightarrow> json \<Rightarrow> rxPlayerId \<Rightarrow> rxPlayerId option" where
  "set_id_field f j i =
     (if f = ''serverId'' then map_option (\<lambda>x. i\<lparr>rxServerId := x\<rparr>) (dec_i64 j (rxServerId i))
      else if f = ''openId'' then map_option (\<lambda>x. i\<lparr>rxOpenId := x\<rparr>) (dec_str j (rxOpenId i))
      else Some i)"

definition rx_encId :: "rxPlayerId \<Rightarrow> json" where
  "rx_encId i = JObj [(''serverId'', JNum (rxServerId i)), (''openId'', JStr (rxOpenId i))]"

definition rx_decId :: "json \<Rightarrow> string + rxPlayerId" where
  "rx_decId j = Unmarshal [''serverId'', ''openId''] set_id_field j \<lparr>rxServerId = 0, rxOpenId = []\<rparr>"

fun rx_encReq :: "rxReq \<Rightarrow> json" where
  "rx_encReq (RxLogin hp lv) = JObj [(''initHP'', JNum hp), (''initLevel'', JNum lv)]"
| "rx_encReq (RxAttack d) = JObj [(''damage'', JNum d)]"
| "rx_encReq (RxHeal n) = JObj [(''amount'', JNum n)]"
| "rx_encReq RxClose = JObj []"

definition set_login_field :: "string \<Rightarrow> json \<Rightarrow> int \<times> int \<Rightarrow> (int \<times> int) option" where
  "set_login_field f j x =
     (if f = ''initHP'' then map_option (\<lambda>y. (y, snd x)) (dec_i64 j (fst x))
      else if f = ''initLevel'' then map_option (\<lambda>y. (fst x, y)) (dec_i64 j (snd x))
      else Some x)"

definition rx_decReq :: "string \<Rightarrow> json \<Rightarrow> string + rxReq" where
  "rx_decReq t j =
     (if t = ''Login'' then map_sum id (\<lambda>(a, b). RxLogin a b) (Unmarshal [''initHP'', ''initLevel''] set_login_field j (0, 0))
      else if t = ''Attack'' then map_sum id RxAttack (Unmarshal [''damage''] (\<lambda>_. dec_i64) j 0)
      else if t = ''Heal'' then map_sum id RxHeal (Unmarshal [''amount''] (\<lambda>_. dec_i64) j 0)
      else map_sum id (\<lambda>_. RxClose) (Unmarshal [] (\<lambda>_ _. Some) j ()))"

fun rx_encRep :: "rxRep option \<Rightarrow> json" where
  "rx_encRep None = JNull"
| "rx_encRep (Some RxOk) = JObj []"
| "rx_encRep (Some (RxAttackReply hp alive)) = JObj [(''remainingHP'', JNum hp), (''alive'', JBool alive)]"
| "rx_encRep (Some (RxHealReply hp)) = JObj [(''newHP'', JNum hp)]"

definition set_attack_field :: "string \<Rightarrow> json \<Rightarrow> int \<times> bool \<Rightarrow> (int \<times> bool) option" where
  "set_attack_field f j x =
     (if f = ''remainingHP'' then map_option (\<lambda>y. (y, snd x)) (dec_i64 j (fst x))
      else if f = ''alive'' then map_option (\<lambda>y. (fst x, y)) (dec_bool j (snd x))
      else Some x)"

definition rx_decRep :: "string \<Rightarrow> json \<Rightarrow> string + rxRep option" where
  "rx_decRep t j =
     (if t = ''Attack'' then map_sum id (\<lambda>(a, b). Some (RxAttackReply a b)) (Unmarshal [''remainingHP'', ''alive''] set_attack_field j (0, False))
      else if t = ''Heal'' then map_sum id (Some \<circ> RxHealReply) (Unmarshal [''newHP''] (\<lambda>_. dec_i64) j 0)
      else map_sum id (\<lambda>_. Some RxOk) (Unmarshal [] (\<lambda>_ _. Some) j ()))"

definition rx_codec :: "string \<Rightarrow> (rxPlayerId, rxReq, rxRep option, RawMessage) Codec" where
  "rx_codec t =
     \<lparr>encId = JsonCodec_Encode \<circ> rx_encId, decId = JsonCodec_Decode rx_decId,
      encReq = JsonCodec_Encode \<circ> rx_encReq, decReq = JsonCodec_Decode (rx_decReq t),
      encRep = JsonCodec_Encode \<circ> rx_encRep, decRep = JsonCodec_Decode (rx_decRep t)\<rparr>"

definition rx_register :: "(rxPlayerId, rxReq, rxRep option, RawMessage) entryMap \<Rightarrow> (rxPlayerId, rxReq, rxRep option, RawMessage) entryMap" where
  "rx_register b = fold (\<lambda>t. RegisterRequest ''Player'' t (rx_codec t)) [''Login'', ''Attack'', ''Heal'', ''Close''] b"

definition rx_server :: "(rxPlayerId, rxReq, rxRep option, RawMessage) Server" where
  "rx_server = NewServer ''localhost:8080'' rx_register"

lemma rx_registered: "sentries rx_server (''Player'', rxReqType q) = Some (rx_codec (rxReqType q))"
  by (cases q) (simp_all add: rx_server_def NewServer_def NewServerWith_def rx_register_def RegisterRequest_def)

fun rx_sendable :: "rxReq \<Rightarrow> bool" where
  "rx_sendable (RxLogin hp lv) = (MinInt \<le> hp \<and> hp \<le> MaxInt \<and> MinInt \<le> lv \<and> lv \<le> MaxInt)"
| "rx_sendable (RxAttack d) = (MinInt \<le> d \<and> d \<le> MaxInt)"
| "rx_sendable (RxHeal n) = (MinInt \<le> n \<and> n \<le> MaxInt)"
| "rx_sendable RxClose = True"

definition rx_sendable_id :: "rxPlayerId \<Rightarrow> bool" where
  "rx_sendable_id i = (MinInt \<le> rxServerId i \<and> rxServerId i \<le> MaxInt)"

lemma rx_decReq_enc: "rx_sendable q \<Longrightarrow> rx_decReq (rxReqType q) (rx_encReq q) = Inr q"
  by (cases q) (simp_all add: rx_decReq_def Unmarshal_def set_login_field_def MinInt_def MaxInt_def)

lemma rx_codec_ok:
  assumes "rx_sendable q" "rx_sendable_id i"
  shows "codec_ok (\<lambda>m. m \<noteq> None) (rx_codec (rxReqType q)) i q"
  using assms rx_decReq_enc [OF assms(1)]
  by (cases i) (simp add: codec_ok_def rx_codec_def JsonCodec_Encode_def JsonCodec_Decode_def rx_decId_def rx_encId_def Unmarshal_def set_id_field_def
      rx_sendable_id_def MinInt_def MaxInt_def)

lemma rx_rep_ok:
  assumes "rx_spec i q P = (Inr r, P')"
  shows "rep_ok (\<lambda>m. m \<noteq> None) (rx_codec (rxReqType q)) r"
proof -
  have w: "- (2 ^ 63) \<le> wrap64 x" "wrap64 x < 2 ^ 63" for x using wrap64_range [of x] by (simp_all add: MinInt_def MaxInt_def)
  from assms show ?thesis
    by (cases q) (auto simp: rep_ok_def rx_codec_def JsonCodec_Encode_def JsonCodec_Decode_def rx_decRep_def Unmarshal_def
        set_attack_field_def Let_def w [simplified] split: option.splits)
qed

subsection \<open>A session\<close>

text \<open>One remote operation: the client writes a frame, the server takes it from the connection, the client reads the answer.\<close>

datatype rx_op = RPost rxPlayerId rxReq | RCall rxPlayerId rxReq | RBroadcast rxReq

type_synonym rx_client = "(json, RawMessage) Client"
type_synonym rx_result = "(rpcerr + rxRep option) option"

fun read_all :: "json list \<Rightarrow> rx_client \<Rightarrow> rx_client option" where
  "read_all [] c = Some c"
| "read_all (d # ds) c = Option.bind (readResponse JsonTransport d c) (read_all ds)"

definition last_frame :: "rx_client \<Rightarrow> json" where
  "last_frame c = last (the (conn c))"

definition rx_serve_frame :: "rx_client \<Rightarrow> rxworld \<Rightarrow> (rx_client \<times> rxworld) option" where
  "rx_serve_frame c w =
     (case server_step JsonTransport (sentries rx_server) rx_api (last_frame c) w of
        Ret (out, w') \<Rightarrow> map_option (\<lambda>c'. (c', w')) (read_all out c)
      | _ \<Rightarrow> None)"

definition rx_sent :: "(rpcerr option \<times> rx_client) option \<Rightarrow> rxworld \<Rightarrow> (rx_result \<times> rx_client \<times> rxworld) option" where
  "rx_sent r w =
     (case r of
        None \<Rightarrow> None
      | Some (Some e, c1) \<Rightarrow> Some (Some (Inl e), c1, w)
      | Some (None, c1) \<Rightarrow> map_option (Pair None) (rx_serve_frame c1 w))"

fun remote_op :: "rx_op \<Rightarrow> rx_client \<Rightarrow> rxworld \<Rightarrow> (rx_result \<times> rx_client \<times> rxworld) option" where
  "remote_op (RPost i q) c w =
     rx_sent (rpc_Post JsonTransport (rx_codec (rxReqType q)) (\<lambda>_. None) (\<lambda>_. ''Player'') rxReqType i q c) w"
| "remote_op (RBroadcast q) c w =
     rx_sent (rpc_Broadcast JsonTransport (rx_codec (rxReqType q)) (\<lambda>_. None) (\<lambda>_. ''Player'') rxReqType \<lparr>rxServerId = 0, rxOpenId = []\<rparr> q c) w"
| "remote_op (RCall i q) c w =
     (case call_begin JsonTransport (rx_codec (rxReqType q)) (\<lambda>_. None) (\<lambda>_. ''Player'') rxReqType i q c of
        None \<Rightarrow> None
      | Some (Inl e, c1) \<Rightarrow> Some (Some (Inl e), c1, w)
      | Some (Inr (s, ch), c1) \<Rightarrow>
          Option.bind (rx_serve_frame c1 w) (\<lambda>(c2, w').
            map_option (\<lambda>(r, c3). (Some r, c3, w')) (call_end (rx_codec (rxReqType q)) SelReply s ch c2)))"

fun remote_run :: "rx_op list \<Rightarrow> rx_client \<Rightarrow> rxworld \<Rightarrow> (rx_result list \<times> rx_client \<times> rxworld) option" where
  "remote_run [] c w = Some ([], c, w)"
| "remote_run (x # xs) c w =
     Option.bind (remote_op x c w) (\<lambda>(r, c1, w1). map_option (\<lambda>(rs, cw). (r # rs, cw)) (remote_run xs c1 w1))"

text \<open>The same operations on the map of players.\<close>

fun spec_op :: "rx_op \<Rightarrow> rxplayers \<Rightarrow> rx_result \<times> rxplayers" where
  "spec_op (RPost i q) P = (None, snd (rx_spec i q P))"
| "spec_op (RBroadcast q) P = (None, rx_spec_all q P)"
| "spec_op (RCall i q) P =
     (Some (case fst (rx_spec i q P) of
              Inl e \<Rightarrow> Inl (ErrRpcCallFailed (Error_String rxPlayer_ops (\<lambda>e. e) e))
            | Inr r \<Rightarrow> Inr r), snd (rx_spec i q P))"

fun spec_run :: "rx_op list \<Rightarrow> rxplayers \<Rightarrow> rx_result list \<times> rxplayers" where
  "spec_run [] P = ([], P)"
| "spec_run (x # xs) P = (let (r, P1) = spec_op x P; (rs, P2) = spec_run xs P1 in (r # rs, P2))"

fun op_ok :: "rx_op \<Rightarrow> bool" where
  "op_ok (RPost i q) = (rx_sendable q \<and> rx_sendable_id i)"
| "op_ok (RCall i q) = (rx_sendable q \<and> rx_sendable_id i)"
| "op_ok (RBroadcast q) = rx_sendable q"

lemma call_begin_seq: "call_begin T C wr at rt i q c = Some (Inr (s, ch), c1) \<Longrightarrow> reqIDSeq c1 = reqIDSeq c + 1"
  by (auto simp: call_begin_def newSeq_def Let_def WriteMessage_def split: sum.splits option.splits)

lemma readResponse_keeps: "readResponse T d c = Some c' \<Longrightarrow> conn c' = conn c \<and> reqIDSeq c' = reqIDSeq c"
  by (auto simp: readResponse_def put_reply_def split: sum.splits option.splits if_splits)

lemma call_end_keeps: "call_end C sel s ch c = Some (r, c') \<Longrightarrow> conn c' = conn c \<and> reqIDSeq c' = reqIDSeq c"
  by (auto simp: call_end_def split: select_case.splits list.splits if_splits)

lemma rx_error_text: "fst (rx_spec i q P) = Inl e \<Longrightarrow> Error_String rxPlayer_ops (\<lambda>e. e) e \<noteq> []"
  by (cases q) (auto simp: Let_def split: option.splits)

lemma remote_sent:
  assumes "rx_ok w" "r = Some (None, c\<lparr>conn := Some (fs @ [d])\<rparr>)"
    and "server_step JsonTransport (sentries rx_server) rx_api d w = Ret ([], w')"
  shows "rx_sent r w = Some (None, c\<lparr>conn := Some (fs @ [d])\<rparr>, w')"
  using assms by (simp add: rx_sent_def rx_serve_frame_def last_frame_def)

lemma remote_post_spec:
  assumes w: "rx_ok w" and c: "conn c = Some fs" "reqIDSeq c + 1 \<noteq> 0" and ok: "op_ok (RPost i q)"
  shows "\<exists>c' w' fs'. remote_op (RPost i q) c w = Some (fst (spec_op (RPost i q) (rx_abs w)), c', w') \<and> rx_ok w' \<and> rx_abs w' = snd (spec_op (RPost i q) (rx_abs w))
    \<and> conn c' = Some fs' \<and> (reqIDSeq c' = reqIDSeq c \<or> reqIDSeq c' = reqIDSeq c + 1)"
proof -
  obtain e w' where p: "rx_post (OriginFrom ''rpc'') i q w = Ret (e, w')" "rx_ok w'" "rx_abs w' = snd (rx_spec i q (rx_abs w))"
    using rx_post_spec [OF w] by blast
  have codec: "codec_ok (\<lambda>m. m \<noteq> None) (rx_codec (rxReqType q)) i q" using ok by (intro rx_codec_ok) simp_all
  obtain d where d: "rpc_Post JsonTransport (rx_codec (rxReqType q)) (\<lambda>_. None) (\<lambda>_. ''Player'') rxReqType i q c = Some (None, c\<lparr>conn := Some (fs @ [d])\<rparr>)"
      "server_step JsonTransport (sentries rx_server) rx_api d w = bind_go (apiPost rx_api i q w) (\<lambda>(_, w'). Ret ([], w'))"
    using json_wire.post_frame [OF codec, where em = "sentries rx_server" and at = "\<lambda>_. ''Player''" and rt = rxReqType and api = rx_api and w = w, OF rx_registered c(1)]
    by blast
  have st: "server_step JsonTransport (sentries rx_server) rx_api d w = Ret ([], w')" using d(2) p(1) by (simp add: rx_api_def)
  from remote_sent [OF w d(1) st] p show ?thesis by auto
qed

lemma remote_broadcast_spec:
  assumes w: "rx_ok w" and c: "conn c = Some fs" "reqIDSeq c + 1 \<noteq> 0" and ok: "op_ok (RBroadcast q)"
  shows "\<exists>c' w' fs'. remote_op (RBroadcast q) c w = Some (fst (spec_op (RBroadcast q) (rx_abs w)), c', w') \<and> rx_ok w' \<and> rx_abs w' = snd (spec_op (RBroadcast q) (rx_abs w))
    \<and> conn c' = Some fs' \<and> (reqIDSeq c' = reqIDSeq c \<or> reqIDSeq c' = reqIDSeq c + 1)"
proof -
  obtain n w' where p: "apiBroadcast rx_api q w = Ret (Inr n, w')" "rx_ok w'" "rx_abs w' = rx_spec_all q (rx_abs w)"
    using rx_broadcast_spec [OF w] by blast
  have enc: "encReq (rx_codec (rxReqType q)) q = Inr (Some (rx_encReq q))" "decReq (rx_codec (rxReqType q)) (Some (rx_encReq q)) = Inr q"
    using ok by (simp_all add: rx_codec_def JsonCodec_Encode_def JsonCodec_Decode_def rx_decReq_enc)
  obtain d where d: "rpc_Broadcast JsonTransport (rx_codec (rxReqType q)) (\<lambda>_. None) (\<lambda>_. ''Player'') rxReqType \<lparr>rxServerId = 0, rxOpenId = []\<rparr> q c
        = Some (None, c\<lparr>conn := Some (fs @ [d])\<rparr>)"
      "server_step JsonTransport (sentries rx_server) rx_api d w = bind_go (apiBroadcast rx_api q w) (\<lambda>(_, w'). Ret ([], w'))"
    using json_wire.broadcast_frame [OF enc(1) _ enc(2), where em = "sentries rx_server" and at = "\<lambda>_. ''Player''" and rt = rxReqType
        and api = rx_api and w = w and c = c and fs = fs and ?id0.0 = "\<lparr>rxServerId = 0, rxOpenId = []\<rparr>"] rx_registered [of q] c(1) by auto
  have st: "server_step JsonTransport (sentries rx_server) rx_api d w = Ret ([], w')" using d(2) p(1) by simp
  from remote_sent [OF w d(1) st] p show ?thesis by auto
qed

lemma remote_call_spec:
  assumes w: "rx_ok w" and c: "conn c = Some fs" "reqIDSeq c + 1 \<noteq> 0" and ok: "op_ok (RCall i q)"
  shows "\<exists>c' w' fs'. remote_op (RCall i q) c w = Some (fst (spec_op (RCall i q) (rx_abs w)), c', w') \<and> rx_ok w' \<and> rx_abs w' = snd (spec_op (RCall i q) (rx_abs w))
    \<and> conn c' = Some fs' \<and> (reqIDSeq c' = reqIDSeq c \<or> reqIDSeq c' = reqIDSeq c + 1)"
proof -
  let ?C = "rx_codec (rxReqType q)"
  obtain w' where p: "rx_call (OriginFrom ''rpc'') i q w = Ret (fst (rx_spec i q (rx_abs w)), w')" "rx_ok w'" "rx_abs w' = snd (rx_spec i q (rx_abs w))"
    using rx_call_spec [OF w] by blast
  have codec: "codec_ok (\<lambda>m. m \<noteq> None) ?C i q" using ok by (intro rx_codec_ok) simp_all
  have api: "apiCall rx_api i q w = Ret (fst (rx_spec i q (rx_abs w)), w')" using p(1) by (simp add: rx_api_def)
  have tex: "case fst (rx_spec i q (rx_abs w)) of Inl e \<Rightarrow> errText rx_api e \<noteq> [] | Inr r \<Rightarrow> rep_ok (\<lambda>m. m \<noteq> None) ?C r"
    using rx_error_text [of i q "rx_abs w"] rx_rep_ok [of i q "rx_abs w"] by (cases "rx_spec i q (rx_abs w)") (auto simp: rx_api_def split: sum.splits)
  obtain s ch d c1 d' c2 c3 where f: "call_begin JsonTransport ?C (\<lambda>_. None) (\<lambda>_. ''Player'') rxReqType i q c = Some (Inr (s, ch), c1)"
      "conn c1 = Some (fs @ [d])" "server_step JsonTransport (sentries rx_server) rx_api d w = Ret ([d'], w')" "readResponse JsonTransport d' c1 = Some c2"
      "call_end ?C SelReply s ch c2 = Some (case fst (rx_spec i q (rx_abs w)) of Inl e \<Rightarrow> Inl (ErrRpcCallFailed (errText rx_api e)) | Inr r \<Rightarrow> Inr r, c3)"
    using remote_call [OF json_wire.wire_axioms codec, where em = "sentries rx_server" and at = "\<lambda>_. ''Player''" and rt = rxReqType and api = rx_api and w = w,
        OF rx_registered c(1,2) api tex] by blast
  have "rx_serve_frame c1 w = Some (c2, w')" using f(2-4) by (simp add: rx_serve_frame_def last_frame_def)
  then have "remote_op (RCall i q) c w = Some (fst (spec_op (RCall i q) (rx_abs w)), c3, w')" using f(1,5) by (simp add: rx_api_def split: sum.splits)
  moreover have "conn c3 = Some (fs @ [d])" "reqIDSeq c3 = reqIDSeq c + 1"
    using call_begin_seq [OF f(1)] readResponse_keeps [OF f(4)] call_end_keeps [OF f(5)] f(2) by simp_all
  ultimately show ?thesis using p by simp
qed

lemma remote_op_spec:
  assumes w: "rx_ok w" and c: "conn c = Some fs" "reqIDSeq c + 1 \<noteq> 0" and ok: "op_ok x"
  shows "\<exists>c' w' fs'. remote_op x c w = Some (fst (spec_op x (rx_abs w)), c', w') \<and> rx_ok w' \<and> rx_abs w' = snd (spec_op x (rx_abs w))
    \<and> conn c' = Some fs' \<and> (reqIDSeq c' = reqIDSeq c \<or> reqIDSeq c' = reqIDSeq c + 1)"
  using remote_post_spec [OF w c] remote_broadcast_spec [OF w c] remote_call_spec [OF w c] ok by (cases x) blast+


definition rx_main :: "rx_op list" where
  "rx_main =
     (let player1 = \<lparr>rxServerId = 1, rxOpenId = ''alice''\<rparr>; player2 = \<lparr>rxServerId = 1, rxOpenId = ''bob''\<rparr>
      in [RPost player1 (RxLogin 100 1), RPost player2 (RxLogin 80 2), RCall player1 (RxAttack 30), RCall player1 (RxHeal 20),
          RCall player1 (RxAttack 50), RBroadcast RxClose])"


end
