(* ===== verification/Logger.thy ===== *)
theory Logger
  imports Go_Prelude
begin

section \<open>Logging\<close>

text \<open>
  \<open>logger/logger.go\<close> and \<open>logger/logutil.go\<close>: the handler that writes a log record as one line, and the conversion of a
  Go value to JSON text. A Go value is what the \<open>reflect\<close> package shows of it, a tree: pointer cycles, on which the
  code does not return, are left out. Strings are byte strings. The digits of a floating point number are those
  \<open>strconv.FormatFloat\<close> prints; the text of a time and of an attribute in a tag is a parameter. The cache of field
  descriptions is not modelled: it returns what is computed here. \<open>parse_json\<close> is a reference definition, a parser
  for JSON texts without white space.
\<close>

subsection \<open>Values and field tags\<close>

record fieldOptions =
  skip :: bool
  mask :: bool
  omitempty :: bool
  debug :: bool

record goField =
  fieldName :: string
  pkgPath :: string
  anonymous :: bool
  logTag :: string

text \<open>
  \<open>VNil\<close> is a nil pointer or interface, \<open>VPtr\<close> any other; a nil slice or map is \<^const>\<open>None\<close>; \<open>VOther\<close> is a value of a
  kind that is not printed, with its \<open>IsZero\<close>.
\<close>

datatype gv =
    VInvalid
  | VNil
  | VPtr gv
  | VStruct "(goField \<times> gv) list"
  | VSlice "gv list option"
  | VArray "gv list"
  | VBytes "string option"
  | VMap "(gv \<times> gv) list option"
  | VString string
  | VInt int
  | VUint nat
  | VFloat string
  | VBool bool
  | VOther bool

definition getFieldOptions :: "string \<Rightarrow> fieldOptions" where
  "getFieldOptions tag =
     fold (\<lambda>opt o1.
         if opt = ''-'' then o1\<lparr>skip := True\<rparr>
         else if opt = ''mask'' then o1\<lparr>mask := True\<rparr>
         else if opt = ''omitempty'' then o1\<lparr>omitempty := True\<rparr>
         else if opt = ''debug'' then o1\<lparr>debug := True\<rparr>
         else o1)
       (split_on (CHR '','') tag) \<lparr>skip = False, mask = False, omitempty = False, debug = False\<rparr>"

text \<open>\<open>reflect.Value.IsZero\<close>, negative zero aside: blank fields do not count.\<close>

fun IsZero :: "gv \<Rightarrow> bool" where
  "IsZero VNil = True"
| "IsZero (VStruct fs) = (\<forall>(f, v)\<in>set fs. fieldName f = ''_'' \<or> IsZero v)"
| "IsZero (VSlice vs) = (vs = None)"
| "IsZero (VArray vs) = (\<forall>v\<in>set vs. IsZero v)"
| "IsZero (VBytes b) = (b = None)"
| "IsZero (VMap m) = (m = None)"
| "IsZero (VString s) = (s = [])"
| "IsZero (VInt n) = (n = 0)"
| "IsZero (VUint n) = (n = 0)"
| "IsZero (VFloat t) = (t = ''0'')"
| "IsZero (VBool b) = (\<not> b)"
| "IsZero (VOther z) = z"
| "IsZero _ = False"

definition LevelDebug :: int where
  "LevelDebug = -4"

text \<open>The fields \<open>getFieldMetas\<close> describes: the exported and the embedded ones.\<close>

definition fieldKept :: "goField \<Rightarrow> bool" where
  "fieldKept f \<longleftrightarrow> \<not> (pkgPath f \<noteq> [] \<and> \<not> anonymous f)"

text \<open>
  The fields \<open>writeStruct\<close> writes: those \<open>getFieldMetas\<close> keeps, that can be read (an unexported embedded field cannot),
  and that no tag leaves out.
\<close>

definition shown :: "int \<Rightarrow> goField \<Rightarrow> gv \<Rightarrow> bool" where
  "shown level f v \<longleftrightarrow>
     fieldKept f \<and> pkgPath f = [] \<and>
     (let tag = getFieldOptions (logTag f) in
       \<not> skip tag \<and> \<not> (omitempty tag \<and> IsZero v) \<and> \<not> (debug tag \<and> level \<le> LevelDebug))"

subsection \<open>Escaping\<close>

abbreviation dq :: char where "dq \<equiv> CHR 0x22"
abbreviation bsl :: char where "bsl \<equiv> CHR 0x5C"

definition hexChar :: "nat \<Rightarrow> char" where
  "hexChar b = (if b < 10 then char_of (48 + b) else char_of (97 + b - 10))"

definition escapeChar :: "char \<Rightarrow> string" where
  "escapeChar c =
     (if c = dq then [bsl, dq]
      else if c = bsl then [bsl, bsl]
      else if c = CHR 0x0A then [bsl, CHR ''n'']
      else if c = CHR 0x0D then [bsl, CHR ''r'']
      else if c = CHR 0x09 then [bsl, CHR ''t'']
      else if (of_char c :: nat) < 0x20
        then [bsl, CHR ''u'', CHR ''0'', CHR ''0'', hexChar (of_char c div 16), hexChar (of_char c mod 16)]
      else [c])"

definition escapeString :: "string \<Rightarrow> string" where
  "escapeString s = concat (map escapeChar s)"

definition EncodeToString :: "string \<Rightarrow> string" where
  "EncodeToString b = concat (map (\<lambda>c. [hexChar (of_char c div 16), hexChar (of_char c mod 16)]) b)"

definition FormatBool :: "bool \<Rightarrow> string" where
  "FormatBool b = (if b then ''true'' else ''false'')"

fun formatBasicValue :: "gv \<Rightarrow> string" where
  "formatBasicValue (VString s) = s"
| "formatBasicValue (VInt n) = Itoa n"
| "formatBasicValue (VUint n) = nat_dec n"
| "formatBasicValue (VFloat t) = t"
| "formatBasicValue (VBool b) = FormatBool b"
| "formatBasicValue _ = ''<key>''"

subsection \<open>Writing\<close>

fun unwrapValue :: "gv \<Rightarrow> gv" where
  "unwrapValue (VPtr v) = unwrapValue v"
| "unwrapValue VNil = VInvalid"
| "unwrapValue v = v"

definition maxLen :: nat where
  "maxLen = 1000"

definition truncated :: "nat \<Rightarrow> string" where
  "truncated n = ''{'' @ [dq] @ ''len'' @ [dq] @ '':'' @ nat_dec n @ '','' @ [dq] @ ''truncated'' @ [dq] @ '':true}''"

text \<open>
  \<open>writeValue\<close> with \<open>writeStruct\<close>, \<open>writeSlice\<close> and \<open>writeMap\<close>; the loops carry \<open>needComma\<close>. The pointer steps of \<open>unwrapValue\<close> are
  equations of \<open>writeValue\<close>. A masked field gets the text that the code writes after the colon.
\<close>

fun writeValue :: "int \<Rightarrow> gv \<Rightarrow> string"
  and writeFields :: "int \<Rightarrow> bool \<Rightarrow> (goField \<times> gv) list \<Rightarrow> string"
  and writeElems :: "int \<Rightarrow> bool \<Rightarrow> gv list \<Rightarrow> string"
  and writeEntries :: "int \<Rightarrow> bool \<Rightarrow> (gv \<times> gv) list \<Rightarrow> string" where
  "writeValue l VInvalid = ''null''"
| "writeValue l VNil = ''null''"
| "writeValue l (VPtr v) = writeValue l v"
| "writeValue l (VStruct fs) = ''{'' @ writeFields l False fs @ ''}''"
| "writeValue l (VSlice None) = ''[]''"
| "writeValue l (VSlice (Some vs)) =
     (if length vs > maxLen then truncated (length vs) else ''['' @ writeElems l False vs @ '']'')"
| "writeValue l (VArray vs) =
     (if length vs > maxLen then truncated (length vs) else ''['' @ writeElems l False vs @ '']'')"
| "writeValue l (VBytes b) = [dq] @ EncodeToString (case b of None \<Rightarrow> [] | Some x \<Rightarrow> x) @ [dq]"
| "writeValue l (VMap None) = ''{}''"
| "writeValue l (VMap (Some kvs)) = ''{'' @ writeEntries l False kvs @ ''}''"
| "writeValue l (VString s) = [dq] @ escapeString s @ [dq]"
| "writeValue l (VInt n) = Itoa n"
| "writeValue l (VUint n) = nat_dec n"
| "writeValue l (VFloat t) = t"
| "writeValue l (VBool b) = FormatBool b"
| "writeValue l (VOther z) = [dq] @ ''<unsupported>'' @ [dq]"
| "writeFields l needComma [] = []"
| "writeFields l needComma ((f, v) # fs) =
     (if \<not> shown l f v then writeFields l needComma fs
      else (if needComma then '','' else []) @ [dq] @ fieldName f @ [dq] @ '':'' @
           (if mask (getFieldOptions (logTag f)) then [dq] @ '':'' @ [dq] @ ''***'' @ [dq] else writeValue l v) @
           writeFields l True fs)"
| "writeElems l needComma [] = []"
| "writeElems l needComma (v # vs) = (if needComma then '','' else []) @ writeValue l v @ writeElems l True vs"
| "writeEntries l needComma [] = []"
| "writeEntries l needComma ((k, v) # kvs) =
     (if needComma then '','' else []) @ [dq] @ escapeString (formatBasicValue k) @ [dq] @ '':'' @ writeValue l v @
     writeEntries l True kvs"

definition StructToJSONString :: "gv \<Rightarrow> int \<Rightarrow> string" where
  "StructToJSONString v level = (let val = unwrapValue v in if val = VInvalid then ''null'' else writeValue level val)"

subsection \<open>The handler\<close>

record TracingHandler =
  htag :: string
  lvl :: int

definition NewTracingHandler :: "int \<Rightarrow> TracingHandler" where
  "NewTracingHandler leveler = \<lparr>htag = [], lvl = leveler\<rparr>"

definition Enabled :: "TracingHandler \<Rightarrow> int \<Rightarrow> bool" where
  "Enabled h level \<longleftrightarrow> lvl h \<le> level"

text \<open>\<open>slog.Level.String\<close>: the next lower named level and the distance to it.\<close>

definition Level_String :: "int \<Rightarrow> string" where
  "Level_String l =
     (let str = (\<lambda>base d. if d = 0 then base else base @ (if d < 0 then [] else ''+'') @ Itoa d)
      in if l < 0 then str ''DEBUG'' (l + 4)
         else if l < 4 then str ''INFO'' l
         else if l < 8 then str ''WARN'' (l - 4)
         else str ''ERROR'' (l - 8))"

definition levelAbbr :: "int \<Rightarrow> string" where
  "levelAbbr l =
     (if l = LevelDebug then ''DEB'' else if l = 0 then ''INF'' else if l = 4 then ''WRN'' else if l = 8 then ''ERR''
      else Level_String l)"

definition WithAttrs :: "TracingHandler \<Rightarrow> string list \<Rightarrow> TracingHandler" where
  "WithAttrs h attrs =
     (let tag = join_with ''.'' attrs
      in h\<lparr>htag := (if length (htag h) > 0 then htag h @ ''/'' @ tag else tag)\<rparr>)"

definition WithGroup :: "TracingHandler \<Rightarrow> string \<Rightarrow> TracingHandler" where
  "WithGroup h name = h"

text \<open>The line \<open>Handle\<close> writes for a record: its formatted time, level, message and attributes.\<close>

definition Handle :: "TracingHandler \<Rightarrow> string \<Rightarrow> int \<Rightarrow> string \<Rightarrow> (string \<times> gv) list \<Rightarrow> string" where
  "Handle h time level msg attrs =
     time @ '' '' @ levelAbbr level @ '' '' @ htag h @ '' '' @ msg @
     concat (map (\<lambda>(k, v). '' '' @ k @ ''='' @ StructToJSONString v level) attrs) @ [CHR 0x0A]"

subsection \<open>A reference parser\<close>

datatype jtext = TNull | TBool bool | TNum string | TStr string | TArr "jtext list" | TObj "(string \<times> jtext) list"

definition digit :: "char \<Rightarrow> bool" where
  "digit c \<longleftrightarrow> 48 \<le> (of_char c :: nat) \<and> (of_char c :: nat) < 58"

definition numchar :: "char \<Rightarrow> bool" where
  "numchar c \<longleftrightarrow> digit c \<or> c = CHR ''-'' \<or> c = CHR ''.''"

text \<open>The numbers of JSON without an exponent.\<close>

definition is_digits :: "string \<Rightarrow> bool" where
  "is_digits t \<longleftrightarrow> t \<noteq> [] \<and> list_all digit t"

definition is_whole :: "string \<Rightarrow> bool" where
  "is_whole t \<longleftrightarrow> is_digits t \<and> (length t = 1 \<or> hd t \<noteq> CHR ''0'')"

definition is_number :: "string \<Rightarrow> bool" where
  "is_number t =
     (let u = (if t \<noteq> [] \<and> hd t = CHR ''-'' then tl t else t)
      in is_whole (takeWhile digit u) \<and>
         (case dropWhile digit u of [] \<Rightarrow> True | c # r \<Rightarrow> c = CHR ''.'' \<and> is_digits r))"

fun hexVal :: "char \<Rightarrow> nat option" where
  "hexVal c =
     (let n = of_char c :: nat
      in if 48 \<le> n \<and> n < 58 then Some (n - 48)
         else if 97 \<le> n \<and> n < 103 then Some (n - 87)
         else if 65 \<le> n \<and> n < 71 then Some (n - 55) else None)"

text \<open>The rest of a string after its opening quote: its characters and what follows the closing quote.\<close>

definition unescape :: "char \<Rightarrow> char option" where
  "unescape e =
     (if e = dq \<or> e = bsl \<or> e = CHR ''/'' then Some e
      else if e = CHR ''n'' then Some (CHR 0x0A)
      else if e = CHR ''r'' then Some (CHR 0x0D)
      else if e = CHR ''t'' then Some (CHR 0x09)
      else if e = CHR ''b'' then Some (CHR 0x08)
      else if e = CHR ''f'' then Some (CHR 0x0C)
      else None)"

fun hex4 :: "string \<Rightarrow> (char \<times> string) option" where
  "hex4 (a # b # c # d # r) =
     (case (hexVal a, hexVal b, hexVal c, hexVal d) of
        (Some 0, Some 0, Some x, Some y) \<Rightarrow> if x < 8 then Some (char_of (16 * x + y), r) else None
      | _ \<Rightarrow> None)"
| "hex4 _ = None"

lemma hex4_length: "hex4 s = Some (c, r) \<Longrightarrow> length r < length s"
  by (cases s rule: hex4.cases) (auto split: option.splits nat.splits if_splits)

function parse_str :: "string \<Rightarrow> (string \<times> string) option" where
  "parse_str [] = None"
| "parse_str (c # s) =
     (if c = dq then Some ([], s)
      else if c = bsl
        then (case s of [] \<Rightarrow> None
              | e # s1 \<Rightarrow>
                  (case (if e = CHR ''u'' then hex4 s1 else map_option (\<lambda>x. (x, s1)) (unescape e)) of
                     None \<Rightarrow> None
                   | Some (x, s2) \<Rightarrow> map_option (map_prod ((#) x) (\<lambda>r. r)) (parse_str s2)))
      else if (of_char c :: nat) < 0x20 then None
      else map_option (map_prod ((#) c) (\<lambda>r. r)) (parse_str s))"
  by pat_completeness auto
termination
  by (relation "measure length") (auto split: if_splits dest!: hex4_length)

text \<open>
  A JSON value at the start of a text, with the rest of the text. Every call of the parser consumes a character
  or ends, so the length of the text is enough fuel.
\<close>

fun parse_value :: "nat \<Rightarrow> string \<Rightarrow> (jtext \<times> string) option"
  and parse_elems :: "nat \<Rightarrow> string \<Rightarrow> (jtext list \<times> string) option"
  and parse_members :: "nat \<Rightarrow> string \<Rightarrow> ((string \<times> jtext) list \<times> string) option" where
  "parse_value 0 s = None"
| "parse_value (Suc n) s =
     (case s of
        [] \<Rightarrow> None
      | c # r \<Rightarrow>
          if c = dq then map_option (map_prod TStr (\<lambda>r. r)) (parse_str r)
          else if c = CHR ''['' then
            (if r \<noteq> [] \<and> hd r = CHR '']'' then Some (TArr [], tl r)
             else map_option (map_prod TArr (\<lambda>r. r)) (parse_elems n r))
          else if c = CHR ''{'' then
            (if r \<noteq> [] \<and> hd r = CHR ''}'' then Some (TObj [], tl r)
             else map_option (map_prod TObj (\<lambda>r. r)) (parse_members n r))
          else if take 4 s = ''null'' then Some (TNull, drop 4 s)
          else if take 4 s = ''true'' then Some (TBool True, drop 4 s)
          else if take 5 s = ''false'' then Some (TBool False, drop 5 s)
          else if is_number (takeWhile numchar s) then Some (TNum (takeWhile numchar s), dropWhile numchar s)
          else None)"
| "parse_elems 0 s = None"
| "parse_elems (Suc n) s =
     (case parse_value n s of
        Some (v, c # r) \<Rightarrow>
          if c = CHR '','' then map_option (map_prod ((#) v) (\<lambda>r. r)) (parse_elems n r)
          else if c = CHR '']'' then Some ([v], r) else None
      | _ \<Rightarrow> None)"
| "parse_members 0 s = None"
| "parse_members (Suc n) s =
     (case s of
        [] \<Rightarrow> None
      | q # s0 \<Rightarrow>
          if q \<noteq> dq then None
          else (case parse_str s0 of
                  Some (k, d # s1) \<Rightarrow>
                    if d \<noteq> CHR '':'' then None
                    else (case parse_value n s1 of
                            Some (v, c # r) \<Rightarrow>
                              if c = CHR '','' then map_option (map_prod ((#) (k, v)) (\<lambda>r. r)) (parse_members n r)
                              else if c = CHR ''}'' then Some ([(k, v)], r) else None
                          | _ \<Rightarrow> None)
                | _ \<Rightarrow> None))"

definition parse_json :: "string \<Rightarrow> jtext option" where
  "parse_json s = (case parse_value (length s) s of Some (v, []) \<Rightarrow> Some v | _ \<Rightarrow> None)"

text \<open>
  What the text of a value means: the shown fields of a struct under their names, the entries of a map under the
  text of their keys, bytes as hexadecimal digits, a long slice as its length.
\<close>

fun log_json :: "int \<Rightarrow> gv \<Rightarrow> jtext" where
  "log_json l VInvalid = TNull"
| "log_json l VNil = TNull"
| "log_json l (VPtr v) = log_json l v"
| "log_json l (VStruct fs) =
     TObj (map (\<lambda>(f, v). (fieldName f, log_json l v)) (filter (\<lambda>(f, v). shown l f v) fs))"
| "log_json l (VSlice None) = TArr []"
| "log_json l (VSlice (Some vs)) =
     (if length vs > maxLen then TObj [(''len'', TNum (nat_dec (length vs))), (''truncated'', TBool True)]
      else TArr (map (log_json l) vs))"
| "log_json l (VArray vs) =
     (if length vs > maxLen then TObj [(''len'', TNum (nat_dec (length vs))), (''truncated'', TBool True)]
      else TArr (map (log_json l) vs))"
| "log_json l (VBytes b) = TStr (EncodeToString (case b of None \<Rightarrow> [] | Some x \<Rightarrow> x))"
| "log_json l (VMap None) = TObj []"
| "log_json l (VMap (Some kvs)) = TObj (map (\<lambda>(k, v). (formatBasicValue k, log_json l v)) kvs)"
| "log_json l (VString s) = TStr s"
| "log_json l (VInt n) = TNum (Itoa n)"
| "log_json l (VUint n) = TNum (nat_dec n)"
| "log_json l (VFloat t) = TNum t"
| "log_json l (VBool b) = TBool b"
| "log_json l (VOther z) = TStr ''<unsupported>''"

text \<open>
  The values the text is JSON for: field names are Go identifiers, shown floats are finite, and no shown field is
  masked.
\<close>

definition plain :: "string \<Rightarrow> bool" where
  "plain s \<longleftrightarrow> list_all (\<lambda>c. c \<noteq> dq \<and> c \<noteq> bsl \<and> 0x20 \<le> (of_char c :: nat)) s"

fun loggable :: "int \<Rightarrow> gv \<Rightarrow> bool" where
  "loggable l (VPtr v) = loggable l v"
| "loggable l (VStruct fs) =
     (\<forall>(f, v)\<in>set fs. shown l f v \<longrightarrow> plain (fieldName f) \<and> \<not> mask (getFieldOptions (logTag f)) \<and> loggable l v)"
| "loggable l (VSlice (Some vs)) = (length vs \<le> maxLen \<longrightarrow> (\<forall>v\<in>set vs. loggable l v))"
| "loggable l (VArray vs) = (length vs \<le> maxLen \<longrightarrow> (\<forall>v\<in>set vs. loggable l v))"
| "loggable l (VMap (Some kvs)) = (\<forall>(k, v)\<in>set kvs. loggable l v)"
| "loggable l (VFloat t) = is_number t"
| "loggable l _ = True"

subsection \<open>Strings\<close>

lemma hexVal_hexChar [simp]: "b < 16 \<Longrightarrow> hexVal (hexChar b) = Some b"
  by (auto simp: hexChar_def)

lemma char_halves: "char_of (16 * (of_char c div 16) + of_char c mod 16 :: nat) = c"
  by (simp only: mult_div_mod_eq char_of_char)

declare hexVal.simps [simp del] parse_str.simps [simp del]

lemma hexVal_0 [simp]: "hexVal (CHR ''0'') = Some 0"
  by code_simp

lemma hex4_escape:
  "(of_char c :: nat) < 32 \<Longrightarrow>
   hex4 (CHR ''0'' # CHR ''0'' # hexChar (of_char c div 16) # hexChar (of_char c mod 16) # r) = Some (c, r)"
  using char_halves [of c] by simp

lemma parse_str_close [simp]: "parse_str (dq # r) = Some ([], r)"
  by (simp add: parse_str.simps)

lemma parse_str_escapeChar:
  "parse_str (escapeChar c @ s) = map_option (map_prod ((#) c) (\<lambda>r. r)) (parse_str s)"
proof (cases "c \<in> {dq, bsl, CHR 0x0A, CHR 0x0D, CHR 0x09}")
  case True
  then show ?thesis by (auto simp: escapeChar_def parse_str.simps unescape_def)
next
  case False
  then show ?thesis
    by (cases "(of_char c :: nat) < 32")
       (simp_all add: escapeChar_def parse_str.simps(2) hex4_escape del: hex4.simps)
qed

lemma parse_str_escape [simp]: "parse_str (escapeString t @ dq # r) = Some (t, r)"
  by (induction t) (simp_all add: escapeString_def parse_str_escapeChar)

lemma escapeString_plain: "plain t \<Longrightarrow> escapeString t = t"
  by (induction t) (auto simp: escapeString_def escapeChar_def plain_def)

lemma parse_str_plain: "plain t \<Longrightarrow> parse_str (t @ dq # r) = Some (t, r)"
  using parse_str_escape [of t r] by (simp add: escapeString_plain)

lemma hexChar_range: "b < 16 \<Longrightarrow> 48 \<le> (of_char (hexChar b) :: nat) \<and> (of_char (hexChar b) :: nat) < 103 \<and> (of_char (hexChar b) :: nat) \<noteq> 92"
  by (auto simp: hexChar_def)

lemma high_nibble: "of_char c div 16 < (16 :: nat)"
  by (rule less_mult_imp_div_less) simp

lemma plain_hex: "plain (EncodeToString b)"
proof -
  have "\<forall>c\<in>set (EncodeToString b). \<exists>d < 16. c = hexChar d"
    by (force simp: EncodeToString_def intro: high_nibble mod_less_divisor)
  moreover have "c \<noteq> dq \<and> c \<noteq> bsl \<and> 0x20 \<le> (of_char c :: nat)" if "d < 16" "c = hexChar d" for c d
    using hexChar_range [OF that(1)] that(2) by auto
  ultimately show ?thesis unfolding plain_def list_all_iff by blast
qed

subsection \<open>Numbers\<close>

lemma nat_dec_digit: "list_all digit (nat_dec n)"
  by (auto simp: list_all_iff digit_def dest: nat_dec_digits)

lemma nat_dec_hd: "0 < n \<Longrightarrow> hd (nat_dec n) \<noteq> CHR ''0''"
proof (induction n rule: nat_dec.induct)
  case (1 n)
  show ?case
  proof (cases "n < 10")
    case True
    then have "of_char (char_of (48 + n) :: char) = 48 + n" by simp
    moreover have "(of_char (CHR ''0'') :: nat) = 48" by simp
    ultimately have "char_of (48 + n) \<noteq> CHR ''0''" using "1.prems" by (metis add_cancel_right_right less_irrefl)
    with True show ?thesis by (simp add: nat_dec.simps [of n])
  next
    case False
    with "1.IH" show ?thesis by (simp add: nat_dec.simps [of n])
  qed
qed

lemma nat_dec_whole: "is_whole (nat_dec n)"
proof (cases "n = 0")
  case True
  have "nat_dec 0 = ''0''" by code_simp
  with True show ?thesis by (simp add: is_whole_def is_digits_def digit_def)
next
  case False
  then show ?thesis by (simp add: is_whole_def is_digits_def nat_dec_digit nat_dec_hd)
qed

lemma minus_not_digit [simp]: "\<not> digit (CHR ''-'')" "\<not> digit (CHR ''.'')"
  by (simp_all add: digit_def)

lemma whole_is_number: "is_whole t \<Longrightarrow> is_number t \<and> is_number (CHR ''-'' # t)"
  by (cases t)
     (auto simp: is_number_def is_whole_def is_digits_def list_all_iff Let_def takeWhile_eq_all_conv [THEN iffD2]
        dropWhile_eq_Nil_conv [THEN iffD2])

lemma nat_dec_number [simp]: "is_number (nat_dec n)"
  by (simp add: whole_is_number nat_dec_whole)

lemma Itoa_number [simp]: "is_number (Itoa n)"
  by (simp add: Itoa_def whole_is_number nat_dec_whole)

lemma number_chars: "is_number t \<Longrightarrow> list_all numchar t \<and> t \<noteq> []"
proof -
  assume t: "is_number t"
  define u where "u = (if t \<noteq> [] \<and> hd t = CHR ''-'' then tl t else t)"
  have u: "is_whole (takeWhile digit u)" "case dropWhile digit u of [] \<Rightarrow> True | c # r \<Rightarrow> c = CHR ''.'' \<and> is_digits r"
    using t by (simp_all add: is_number_def u_def Let_def)
  have "list_all numchar (takeWhile digit u)"
    by (auto simp: list_all_iff numchar_def dest: set_takeWhileD)
  moreover have "list_all numchar w" if "case w of [] \<Rightarrow> True | c # r \<Rightarrow> c = CHR ''.'' \<and> is_digits r" for w
    using that by (cases w) (auto simp: list_all_iff numchar_def is_digits_def)
  then have "list_all numchar (dropWhile digit u)" using u(2) .
  ultimately have "list_all numchar u"
    by (metis list_all_append takeWhile_dropWhile_id)
  moreover have "u \<noteq> []" using u(1) by (auto simp: is_whole_def is_digits_def)
  ultimately show ?thesis
    by (cases t) (auto simp: u_def numchar_def split: if_splits)
qed

definition stops :: "string \<Rightarrow> bool" where
  "stops r \<longleftrightarrow> r = [] \<or> \<not> numchar (hd r)"

lemma stops_simps [simp]: "stops []" "stops (c # r) = (\<not> numchar c)"
  by (simp_all add: stops_def)

lemma not_numchar [simp]: "\<not> numchar (CHR '','')" "\<not> numchar (CHR '']'')" "\<not> numchar (CHR ''}'')"
  by (simp_all add: numchar_def digit_def)

lemma numchar_start: "numchar c \<Longrightarrow> c \<noteq> dq \<and> c \<noteq> CHR ''['' \<and> c \<noteq> CHR ''{'' \<and> c \<noteq> CHR ''n'' \<and> c \<noteq> CHR ''t'' \<and> c \<noteq> CHR ''f''"
  by (auto simp: numchar_def digit_def)

lemma parse_number:
  assumes "is_number t" "stops r"
  shows "parse_value (Suc n) (t @ r) = Some (TNum t, r)"
proof -
  obtain c u where t: "t = c # u" "numchar c" "list_all numchar u"
    using number_chars [OF assms(1)] by (cases t) auto
  have r: "takeWhile numchar r = []" "dropWhile numchar r = r"
    using assms(2) by (cases r; simp)+
  have "takeWhile numchar (t @ r) = t" "dropWhile numchar (t @ r) = r"
    using t r by (simp_all add: list_all_iff takeWhile_append2 dropWhile_append2)
  with assms(1) numchar_start [OF t(2)] t(1) show ?thesis
    by (simp add: numeral_eq_Suc)
qed

subsection \<open>The text of a value parses\<close>

lemma writeFields_comma:
  "writeFields l True fs =
     (if \<exists>(f, v)\<in>set fs. shown l f v then CHR '','' # writeFields l False fs else [])"
  by (induction fs) auto

lemma writeFields_none: "\<not> (\<exists>(f, v)\<in>set fs. shown l f v) \<Longrightarrow> writeFields l c fs = []"
  by (induction fs) auto

lemma writeElems_comma: "writeElems l True vs = (if vs = [] then [] else CHR '','' # writeElems l False vs)"
  by (cases vs) auto

lemma writeEntries_comma: "writeEntries l True kvs = (if kvs = [] then [] else CHR '','' # writeEntries l False kvs)"
  by (cases kvs) auto

lemma parse_value_starts [simp]:
  "parse_value (Suc n) (dq # r) = map_option (map_prod TStr (\<lambda>r. r)) (parse_str r)"
  "parse_value (Suc n) (CHR ''['' # CHR '']'' # r) = Some (TArr [], r)"
  "parse_value (Suc n) (CHR ''{'' # CHR ''}'' # r) = Some (TObj [], r)"
  "parse_value (Suc n) (CHR ''n'' # CHR ''u'' # CHR ''l'' # CHR ''l'' # r) = Some (TNull, r)"
  "parse_value (Suc n) (CHR ''t'' # CHR ''r'' # CHR ''u'' # CHR ''e'' # r) = Some (TBool True, r)"
  "parse_value (Suc n) (CHR ''f'' # CHR ''a'' # CHR ''l'' # CHR ''s'' # CHR ''e'' # r) = Some (TBool False, r)"
  by simp_all

lemma parse_value_close: "parse_value n (CHR '']'' # r) = None"
  by (cases n) (simp_all add: is_number_def is_whole_def is_digits_def)

declare parse_value.simps(2) [simp del]

lemma parse_value_arr:
  "parse_elems n s = Some (vs, r) \<Longrightarrow> parse_value (Suc n) (CHR ''['' # s) = Some (TArr vs, r)"
  using parse_value_close [of "n - 1" "tl s"]
  by (cases n; cases s) (auto simp: parse_value.simps(2))

lemma parse_value_obj:
  "parse_members n s = Some (ms, r) \<Longrightarrow> parse_value (Suc n) (CHR ''{'' # s) = Some (TObj ms, r)"
  by (cases n; cases s) (auto simp: parse_value.simps(2))

lemma parse_elems_last:
  "parse_value n s = Some (v, CHR '']'' # r) \<Longrightarrow> parse_elems (Suc n) s = Some ([v], r)"
  by simp

lemma parse_elems_more:
  "parse_value n s = Some (v, CHR '','' # r) \<Longrightarrow> parse_elems n r = Some (vs, q) \<Longrightarrow>
   parse_elems (Suc n) s = Some (v # vs, q)"
  by simp

lemma parse_members_last:
  "parse_str s = Some (k, CHR '':'' # t) \<Longrightarrow> parse_value n t = Some (v, CHR ''}'' # r) \<Longrightarrow>
   parse_members (Suc n) (dq # s) = Some ([(k, v)], r)"
  by simp

lemma parse_members_more:
  "parse_str s = Some (k, CHR '':'' # t) \<Longrightarrow> parse_value n t = Some (v, CHR '','' # r) \<Longrightarrow>
   parse_members n r = Some (ms, q) \<Longrightarrow> parse_members (Suc n) (dq # s) = Some ((k, v) # ms, q)"
  by simp

lemma parse_truncated:
  assumes "length (truncated k) \<le> n"
  shows "parse_value n (truncated k @ r) = Some (TObj [(''len'', TNum (nat_dec k)), (''truncated'', TBool True)], r)"
proof -
  have "4 \<le> n" using assms by (simp add: truncated_def)
  then have n: "n = Suc (Suc (Suc (Suc (n - 4))))" by simp
  have 1: "parse_str (CHR ''l'' # CHR ''e'' # CHR ''n'' # dq # s) = Some (''len'', s)" for s
    using parse_str_plain [of "''len''" s] by (simp add: plain_def)
  have 2: "parse_str (CHR ''t'' # CHR ''r'' # CHR ''u'' # CHR ''n'' # CHR ''c'' # CHR ''a'' # CHR ''t'' # CHR ''e'' # CHR ''d'' # dq # s)
      = Some (''truncated'', s)" for s
    using parse_str_plain [of "''truncated''" s] by (simp add: plain_def)
  have 3: "parse_value (Suc m) (nat_dec k @ CHR '','' # s) = Some (TNum (nat_dec k), CHR '','' # s)" for m s
    by (rule parse_number) simp_all
  show ?thesis
    by (subst n) (simp add: truncated_def, rule parse_value_obj, simp add: 1 2 3)
qed

lemma parse_value_number:
  assumes "is_number t" "stops r" "length t \<le> n"
  shows "parse_value n (t @ r) = Some (TNum t, r)"
proof -
  have "0 < n" using number_chars [OF assms(1)] assms(3) by (cases t) auto
  then show ?thesis using parse_number [OF assms(1,2)] by (cases n) simp_all
qed

lemma parse_written:
  fixes c c1 c2 :: bool
  shows "loggable l v \<Longrightarrow> stops r \<Longrightarrow> length (writeValue l v) \<le> n \<Longrightarrow>
      parse_value n (writeValue l v @ r) = Some (log_json l v, r)"
    and "loggable l (VStruct fs) \<Longrightarrow> \<exists>(f, v)\<in>set fs. shown l f v \<Longrightarrow> length (writeFields l False fs) < n \<Longrightarrow>
      parse_members n (writeFields l False fs @ CHR ''}'' # r) =
      Some (map (\<lambda>(f, v). (fieldName f, log_json l v)) (filter (\<lambda>(f, v). shown l f v) fs), r)"
    and "\<forall>v\<in>set vs. loggable l v \<Longrightarrow> vs \<noteq> [] \<Longrightarrow> length (writeElems l False vs) < n \<Longrightarrow>
      parse_elems n (writeElems l False vs @ CHR '']'' # r) = Some (map (log_json l) vs, r)"
    and "\<forall>(k, v)\<in>set kvs. loggable l v \<Longrightarrow> kvs \<noteq> [] \<Longrightarrow> length (writeEntries l False kvs) < n \<Longrightarrow>
      parse_members n (writeEntries l False kvs @ CHR ''}'' # r) =
      Some (map (\<lambda>(k, v). (formatBasicValue k, log_json l v)) kvs, r)"
proof (induction l v and l c fs and l c1 vs and l c2 kvs arbitrary: r n and r n and r n and r n
    rule: writeValue_writeFields_writeElems_writeEntries.induct)
  case (1 l)
  then show ?case by (cases n) simp_all
next
  case (2 l)
  then show ?case by (cases n) simp_all
next
  case (3 l v)
  then show ?case by simp
next
  case (4 l fs)
  then obtain m where n: "n = Suc m" by (cases n) auto
  show ?case
  proof (cases "\<exists>(f, v)\<in>set fs. shown l f v")
    case True
    then show ?thesis using 4 n by (simp add: parse_value_obj del: loggable.simps)
  next
    case False
    then have "filter (\<lambda>(f, v). shown l f v) fs = []" by (auto simp: filter_empty_conv)
    with False show ?thesis using n by (simp add: writeFields_none)
  qed
next
  case (5 l)
  then show ?case by (cases n) simp_all
next
  case (6 l vs)
  then obtain m where n: "n = Suc m" by (cases n) (auto simp: truncated_def split: if_splits)
  with 6 show ?case
    by (cases "maxLen < length vs"; cases "vs = []") (simp_all add: parse_truncated parse_value_arr)
next
  case (7 l vs)
  then obtain m where n: "n = Suc m" by (cases n) (auto simp: truncated_def split: if_splits)
  with 7 show ?case
    by (cases "maxLen < length vs"; cases "vs = []") (simp_all add: parse_truncated parse_value_arr)
next
  case (8 l b)
  then show ?case by (cases n) (simp_all add: parse_str_plain plain_hex)
next
  case (9 l)
  then show ?case by (cases n) simp_all
next
  case (10 l kvs)
  then show ?case by (cases n; cases "kvs = []") (simp_all add: parse_value_obj)
next
  case (11 l s)
  then show ?case by (cases n) simp_all
next
  case (12 l k)
  then show ?case by (simp add: parse_value_number)
next
  case (13 l k)
  then show ?case by (simp add: parse_value_number)
next
  case (14 l t)
  then show ?case by (simp add: parse_value_number)
next
  case (15 l b)
  then show ?case by (cases n; cases b) (simp_all add: FormatBool_def)
next
  case (16 l z)
  have "plain ''<unsupported>''" by code_simp
  with 16 parse_str_plain [of "''<unsupported>''" r] show ?case by (cases n) simp_all
next
  case (17 l c)
  then show ?case by simp
next
  case (18 l c f v fs)
  show ?case
  proof (cases "shown l f v")
    case False
    with 18 show ?thesis by auto
  next
    case True
    obtain m where n: "n = Suc m" using 18 by (cases n) auto
    have f: "plain (fieldName f)" "\<not> mask (getFieldOptions (logTag f))" "loggable l v" "loggable l (VStruct fs)"
      using 18 True by auto
    note name = parse_str_plain [OF f(1)]
    show ?thesis
    proof (cases "\<exists>(f, v)\<in>set fs. shown l f v")
      case more: True
      show ?thesis
        using True f more n 18
        by (auto simp: writeFields_comma simp del: parse_members.simps loggable.simps
            intro!: parse_members_more [OF name])
    next
      case False
      then have "filter (\<lambda>(f, v). shown l f v) fs = []" by (auto simp: filter_empty_conv)
      with False True f n 18 show ?thesis
        by (auto simp: writeFields_none simp del: parse_members.simps loggable.simps
            intro!: parse_members_last [OF name])
    qed
  qed
next
  case (19 l c)
  then show ?case by simp
next
  case (20 l c v vs)
  then obtain m where n: "n = Suc m" by (cases n) auto
  with 20 show ?case
    by (cases "vs = []") (auto simp: writeElems_comma intro!: parse_elems_last parse_elems_more simp del: parse_elems.simps)
next
  case (21 l c)
  then show ?case by simp
next
  case (22 l c k v kvs)
  then obtain m where n: "n = Suc m" by (cases n) auto
  with 22 show ?case
    by (cases "kvs = []") (auto simp: writeEntries_comma simp del: parse_members.simps
      intro!: parse_members_last [OF parse_str_escape] parse_members_more [OF parse_str_escape])
qed

lemma writeValue_unwrap: "writeValue l (unwrapValue v) = writeValue l v"
  by (induction v rule: unwrapValue.induct) simp_all

lemma StructToJSONString_write: "StructToJSONString v l = writeValue l v"
  using writeValue_unwrap [of l v] by (cases "unwrapValue v = VInvalid") (simp_all add: StructToJSONString_def)

lemma writeFields_filter: "writeFields l c (filter (\<lambda>(f, v). shown l f v) fs) = writeFields l c fs"
  by (induction fs arbitrary: c) auto

subsection \<open>No control characters\<close>

text \<open>Every Go value is printable: its field names are identifiers and its numbers are printed as digits and letters.\<close>

fun printable :: "gv \<Rightarrow> bool" where
  "printable (VPtr v) = printable v"
| "printable (VStruct fs) = (\<forall>(f, v)\<in>set fs. plain (fieldName f) \<and> printable v)"
| "printable (VSlice (Some vs)) = (\<forall>v\<in>set vs. printable v)"
| "printable (VArray vs) = (\<forall>v\<in>set vs. printable v)"
| "printable (VMap (Some kvs)) = (\<forall>(k, v)\<in>set kvs. printable v)"
| "printable (VFloat t) = plain t"
| "printable _ = True"

definition visible :: "string \<Rightarrow> bool" where
  "visible s \<longleftrightarrow> list_all (\<lambda>c. 0x20 \<le> (of_char c :: nat)) s"

lemma visible_simps [simp]:
  "visible []" "visible (c # s) = (0x20 \<le> (of_char c :: nat) \<and> visible s)" "visible (s @ t) = (visible s \<and> visible t)"
  by (simp_all add: visible_def)

lemma plain_visible: "plain s \<Longrightarrow> visible s"
  by (simp add: plain_def visible_def list_all_iff)

lemma visible_digits [simp]: "visible (nat_dec n)" "visible (Itoa i)" "visible (FormatBool b)"
  using nat_dec_digits by (fastforce simp: visible_def list_all_iff Itoa_def FormatBool_def)+

lemma visible_escape [simp]: "visible (escapeString s)"
proof -
  have "of_char c div 16 < (16 :: nat)" for c :: char by (rule high_nibble)
  then have "visible (escapeChar c)" for c
    using hexChar_range [of "of_char c div 16"] hexChar_range [of "of_char c mod 16"] by (auto simp: escapeChar_def)
  then show ?thesis by (induction s) (simp_all add: escapeString_def)
qed

lemma visible_written:
  fixes c c1 c2 :: bool
  shows "printable v \<Longrightarrow> visible (writeValue l v)"
    and "printable (VStruct fs) \<Longrightarrow> visible (writeFields l c fs)"
    and "\<forall>v\<in>set vs. printable v \<Longrightarrow> visible (writeElems l c1 vs)"
    and "\<forall>(k, v)\<in>set kvs. printable v \<Longrightarrow> visible (writeEntries l c2 kvs)"
  by (induction l v and l c fs and l c1 vs and l c2 kvs
      rule: writeValue_writeFields_writeElems_writeEntries.induct)
     (auto simp: truncated_def plain_visible plain_hex)

lemma newlines_visible: "visible s \<Longrightarrow> filter ((=) (CHR 0x0A)) s = []"
  by (auto simp: visible_def list_all_iff filter_empty_conv)

lemma newlines_levelAbbr: "filter ((=) (CHR 0x0A)) (levelAbbr l) = []"
  by (rule newlines_visible) (simp add: levelAbbr_def Level_String_def Let_def)

lemma newlines_attrs:
  assumes "\<forall>(k, v)\<in>set attrs. CHR 0x0A \<notin> set k \<and> printable v"
  shows "filter ((=) (CHR 0x0A)) (concat (map (\<lambda>(k, v). '' '' @ k @ ''='' @ StructToJSONString v level) attrs)) = []"
  using assms
proof (induction attrs)
  case (Cons a attrs)
  obtain k v where a: "a = (k, v)" by fastforce
  have "filter ((=) (CHR 0x0A)) k = []" using Cons.prems a by (auto simp: filter_empty_conv)
  moreover have "filter ((=) (CHR 0x0A)) (writeValue level v) = []"
    using Cons.prems a by (simp add: newlines_visible visible_written)
  ultimately show ?case using Cons a by (simp add: StructToJSONString_write)
qed simp

subsection \<open>Properties\<close>


definition demo_field :: "string \<Rightarrow> string \<Rightarrow> goField" where
  "demo_field name tag = \<lparr>fieldName = name, pkgPath = [], anonymous = False, logTag = tag\<rparr>"

definition demo_login :: "string \<Rightarrow> gv" where
  "demo_login tag =
     VStruct [(demo_field ''Name'' [], VString [CHR ''a'', dq, CHR 0x0A]),
              (demo_field ''Password'' tag, VString ''secret''),
              (demo_field ''Levels'' [], VPtr (VSlice (Some [VInt (- 7), VBool True])))]"


text \<open>A masked field breaks the text: the mask is written with a quote and a colon of its own after the colon of
  the field, so a struct whose first shown field is masked is written as a text that is not JSON.\<close>

theorem mask_breaks_json:
  assumes "filter (\<lambda>(f, v). shown level f v) fs = (f, v) # rest" "plain (fieldName f)"
    and "mask (getFieldOptions (logTag f))"
  shows "parse_json (StructToJSONString (VStruct fs) level) = None"
proof -
  have "shown level f v" using assms(1) by (metis (mono_tags, lifting) case_prod_conv filter_eq_ConsD)
  then obtain t where w: "writeFields level False fs = dq # fieldName f @ dq # CHR '':'' # dq # CHR '':'' # dq # CHR ''*'' # t"
    using assms(3) writeFields_filter [of level False fs, unfolded assms(1), symmetric] by simp
  have s: "parse_str (fieldName f @ dq # CHR '':'' # dq # CHR '':'' # dq # CHR ''*'' # u) =
      Some (fieldName f, CHR '':'' # dq # CHR '':'' # dq # CHR ''*'' # u)" for u
    using parse_str_plain [OF assms(2)] .
  have c: "parse_str (CHR '':'' # dq # u) = Some ('':'', u)" for u
    by (simp add: parse_str.simps)
  have "parse_members n (writeFields level False fs @ u) = None" for n u
    by (cases n; cases "n - 1") (simp_all add: w s c)
  then have "parse_value n (CHR ''{'' # writeFields level False fs @ u) = None" for n u
    by (cases n) (simp_all add: parse_value.simps(2) w)
  then show ?thesis by (simp add: StructToJSONString_write parse_json_def)
qed

lemma mask_breaks_json_witness:
  "parse_json (StructToJSONString (VStruct [(demo_field ''Password'' ''mask'', VString ''secret'')]) 0) = None"
  by (rule mask_breaks_json [where v = "VString ''secret''" and rest = "[]" and f = "demo_field ''Password'' ''mask''"])
     (simp_all add: demo_field_def fieldKept_def shown_def getFieldOptions_def plain_def)

text \<open>One record is one line: whatever strings, bytes and map keys the attribute values hold, the line \<open>Handle\<close>
  writes has its only newline at the end, if the tag, the message and the attribute names have none.\<close>

theorem log_line_single:
  assumes "CHR 0x0A \<notin> set time" "CHR 0x0A \<notin> set (htag h)" "CHR 0x0A \<notin> set msg"
    and "\<forall>(k, v)\<in>set attrs. CHR 0x0A \<notin> set k \<and> printable v"
  shows "filter ((=) (CHR 0x0A)) (Handle h time level msg attrs) = [CHR 0x0A] \<and>
    last (Handle h time level msg attrs) = CHR 0x0A"
proof -
  have no: "filter ((=) (CHR 0x0A)) s = []" if "CHR 0x0A \<notin> set s" for s
    using that by (auto simp: filter_empty_conv)
  show ?thesis
    using no [OF assms(1)] no [OF assms(2)] no [OF assms(3)] newlines_attrs [OF assms(4), of level] newlines_levelAbbr [of level]
    by (simp add: Handle_def)
qed

lemma log_line_single_witness:
  "filter ((=) (CHR 0x0A)) (Handle (NewTracingHandler 0) ''0102'' 8 ''boom'' [(''req'', demo_login ''mask'')]) = [CHR 0x0A]"
  using log_line_single [of "''0102''" "NewTracingHandler 0" "''boom''" "[(''req'', demo_login ''mask'')]" 8]
  by (simp add: NewTracingHandler_def demo_login_def demo_field_def plain_def)

text \<open>
  A field tagged \<open>debug\<close> is left out of the records of the level debug and written in those of every higher level.
\<close>

lemma debug_field_levels:
  assumes "debug (getFieldOptions (logTag f))"
  shows "\<not> shown LevelDebug f v"
    and "fieldKept f \<Longrightarrow> pkgPath f = [] \<Longrightarrow> \<not> skip (getFieldOptions (logTag f)) \<Longrightarrow>
      \<not> omitempty (getFieldOptions (logTag f)) \<Longrightarrow> LevelDebug < level \<Longrightarrow> shown level f v"
  using assms by (simp_all add: shown_def)

text \<open>Numbers that are not finite are written as no JSON number.\<close>

lemma not_a_number_text: "parse_json (StructToJSONString (VFloat ''NaN'') 0) = None"
  by code_simp

lemma writeFields_mask:
  assumes "mask (getFieldOptions (logTag f))" "shown l f v = shown l f w"
  shows "writeFields l c (xs @ (f, v) # ys) = writeFields l c (xs @ (f, w) # ys)"
  using assms by (induction xs arbitrary: c) auto

text \<open>The value of a masked field does not reach the log: two structs that differ only there are written alike,
  also when the mask is combined with \<open>omitempty\<close> and both values are non-zero; nor does the value of a field
  tagged with a dash.\<close>

theorem masked_value_hidden:
  assumes "mask (getFieldOptions (logTag f)) \<or> skip (getFieldOptions (logTag f))"
    and "omitempty (getFieldOptions (logTag f)) \<Longrightarrow> IsZero v = IsZero w"
  shows "StructToJSONString (VStruct (xs @ (f, v) # ys)) level = StructToJSONString (VStruct (xs @ (f, w) # ys)) level"
proof (cases "skip (getFieldOptions (logTag f))")
  case True
  then have "\<not> shown level f u" for u by (simp add: shown_def)
  then have "writeFields level c (xs @ (f, u) # ys) = writeFields level c (xs @ ys)" for c u
    by (induction xs arbitrary: c) auto
  then show ?thesis by (simp add: StructToJSONString_write)
next
  case False
  moreover have "shown level f v = shown level f w" using assms(2) by (auto simp: shown_def Let_def)
  ultimately show ?thesis using writeFields_mask [of f level v w] assms(1) by (simp add: StructToJSONString_write)
qed

lemma masked_value_hidden_witness:
  "StructToJSONString (VStruct [(demo_field ''Password'' ''mask'', VString ''secret'')]) 0 =
   StructToJSONString (VStruct [(demo_field ''Password'' ''mask'', VString ''12345'')]) 0"
  using masked_value_hidden [of "demo_field ''Password'' ''mask''" "VString ''secret''" "VString ''12345''" "[]" "[]" 0]
  by (simp add: demo_field_def getFieldOptions_def)

end
