(* ===== verification/Readmegen.thy ===== *)
theory Readmegen
  imports Go_Strings "HOL-Library.Sublist"
begin

section \<open>The README generator\<close>

text \<open>
  \<open>cmd/readmegen/main.go\<close>, which copies the marked regions of the \<open>example_test.go\<close> files into the READMEs. A file
  is its text, the file system a map from paths; what the operating system refuses is the record \<open>osfail\<close>. White
  space is that of ASCII. The regions are an association list; the order of a Go map decides only which unused
  region is reported. Errors are the datatype \<open>rgerr\<close>, with the values their messages print.
\<close>

subsection \<open>Regions\<close>

definition regionBegin :: string where
  "regionBegin = ''// region: ''"

definition regionEnd :: string where
  "regionEnd = ''// endregion: ''"

definition markerBegin :: string where
  "markerBegin = ''<!-- example: ''"

definition markerEnd :: string where
  "markerEnd = ''<!-- /example: ''"

definition markerClose :: string where
  "markerClose = '' -->''"

datatype rgerr =
    RegionOpen string nat string
  | EndMismatch string nat string string
  | RegionDup string nat string
  | NoRegions string
  | NoSuchRegion string nat string
  | MarkerMismatch string nat string string
  | MarkerOpen string nat string
  | UnmanagedBlock string nat
  | UnusedRegion string string
  | Stale string string
  | OsError string

type_synonym regions = "(string \<times> string list) list"

definition toLF :: "string \<Rightarrow> string" where
  "toLF s = ReplaceAll (ReplaceAll s [CR, LF] [LF]) [CR] []"

fun commonPrefix :: "string \<Rightarrow> string \<Rightarrow> string" where
  "commonPrefix (a # as) (b # bs) = (if a \<noteq> b then [] else a # commonPrefix as bs)"
| "commonPrefix _ _ = []"

definition indent :: "string \<Rightarrow> string" where
  "indent line = take (length line - length (TrimLeft line ([CHR 0x20, CHR 0x09]))) line"

text \<open>The loop of \<open>dedent\<close> over the lines from number \<open>i\<close> on.\<close>

fun dedent_prefix :: "nat \<Rightarrow> string \<Rightarrow> string list \<Rightarrow> string" where
  "dedent_prefix i pre [] = pre"
| "dedent_prefix i pre (line # lines) =
     dedent_prefix (i + 1)
       (if TrimSpace line = [] then pre
        else if i = 0 \<or> pre = [] then indent line
        else commonPrefix pre (indent line)) lines"

definition dedent :: "string list \<Rightarrow> string list" where
  "dedent lines =
     (let pre = dedent_prefix 0 [] lines
      in map (\<lambda>line. if TrimSpace line = [] then [] else TrimPrefix line pre) lines)"

definition trimBlank :: "string list \<Rightarrow> string list" where
  "trimBlank lines = rev (dropWhile (\<lambda>l. TrimSpace l = []) (rev (dropWhile (\<lambda>l. TrimSpace l = []) lines)))"

text \<open>The loop of \<open>parseRegions\<close>: \<open>i\<close> counts lines, \<open>name\<close> is empty outside a region.\<close>

fun parse_lines ::
  "string \<Rightarrow> string \<Rightarrow> nat \<Rightarrow> string list \<Rightarrow> string \<Rightarrow> string list \<Rightarrow> nat \<Rightarrow> regions \<Rightarrow> rgerr + regions" where
  "parse_lines path pkg i [] name body line0 regions =
     (if name \<noteq> [] then Inl (RegionOpen path line0 name) else Inr regions)"
| "parse_lines path pkg i (line # lines) name body line0 regions =
     (let trimmed = TrimSpace line
      in if HasPrefix trimmed regionBegin then
           (if name \<noteq> [] then Inl (RegionOpen path line0 name)
            else parse_lines path pkg (i + 1) lines (TrimSpace (TrimPrefix trimmed regionBegin)) [] (i + 1) regions)
         else if HasPrefix trimmed regionEnd then
           (let end1 = TrimSpace (TrimPrefix trimmed regionEnd); key = pkg @ ''/'' @ name
            in if end1 \<noteq> name then Inl (EndMismatch path (i + 1) end1 name)
               else if map_of regions key \<noteq> None then Inl (RegionDup path line0 key)
               else parse_lines path pkg (i + 1) lines [] body line0 (regions @ [(key, dedent body)]))
         else parse_lines path pkg (i + 1) lines name (if name \<noteq> [] then body @ [line] else body) line0 regions)"

definition parseRegions :: "string \<Rightarrow> string \<Rightarrow> string \<Rightarrow> regions \<Rightarrow> rgerr + regions" where
  "parseRegions path pkg src regions = parse_lines path pkg 0 (split_on LF (toLF src)) [] [] 0 regions"

subsection \<open>Files\<close>

type_synonym files = "string \<rightharpoonup> string"

record osfail =
  readErr :: "string \<Rightarrow> string option"
  writeErr :: "string \<Rightarrow> string option"
  readDir :: "string \<Rightarrow> string + (string \<times> bool) list"

text \<open>\<open>os.ReadFile\<close>: \<open>Inr None\<close> is a file that does not exist.\<close>

definition ReadFile :: "osfail \<Rightarrow> files \<Rightarrow> string \<Rightarrow> string + string option" where
  "ReadFile os w path = (case readErr os path of Some e \<Rightarrow> Inl e | None \<Rightarrow> Inr (w path))"

fun load_entries :: "osfail \<Rightarrow> files \<Rightarrow> string \<Rightarrow> (string \<times> bool) list \<Rightarrow> regions \<Rightarrow> rgerr + regions" where
  "load_entries os w root [] regions = Inr regions"
| "load_entries os w root ((ename, isDir) # entries) regions =
     (if \<not> isDir then load_entries os w root entries regions
      else (let path = Join [root, ename, ''example_test.go'']
            in case ReadFile os w path of
                 Inl e \<Rightarrow> Inl (OsError e)
               | Inr None \<Rightarrow> load_entries os w root entries regions
               | Inr (Some src) \<Rightarrow>
                   (case parseRegions path ename src regions of
                      Inl e \<Rightarrow> Inl e
                    | Inr regions1 \<Rightarrow> load_entries os w root entries regions1)))"

definition loadRegions :: "osfail \<Rightarrow> files \<Rightarrow> string \<Rightarrow> rgerr + regions" where
  "loadRegions os w root =
     (case readDir os root of
        Inl e \<Rightarrow> Inl (OsError e)
      | Inr entries \<Rightarrow>
          (case load_entries os w root entries [] of
             Inl e \<Rightarrow> Inl e
           | Inr regions \<Rightarrow> if regions = [] then Inl (NoRegions root) else Inr regions))"

subsection \<open>Rendering\<close>

definition markerName :: "string \<Rightarrow> string \<Rightarrow> string option" where
  "markerName line p =
     (if \<not> HasPrefix line p \<or> \<not> HasSuffix line markerClose then None
      else Some (TrimSpace (TrimSuffix (TrimPrefix line p) markerClose)))"

fun check_blocks :: "string \<Rightarrow> nat \<Rightarrow> string \<Rightarrow> string list \<Rightarrow> rgerr option" where
  "check_blocks path i prev [] = None"
| "check_blocks path i prev (line # lines) =
     (let trimmed = TrimSpace line
      in if trimmed \<noteq> ''```go'' then check_blocks path (i + 1) (if trimmed \<noteq> [] then trimmed else prev) lines
         else if markerName prev markerBegin = None then Some (UnmanagedBlock path (i + 1))
         else check_blocks path (i + 1) prev lines)"

definition checkUnmanagedGoBlocks :: "string \<Rightarrow> string \<Rightarrow> rgerr option" where
  "checkUnmanagedGoBlocks path src = check_blocks path 0 [] (split_on LF src)"

text \<open>The search for the end marker of the block opened at line \<open>i\<close>: its index and the lines after it.\<close>

fun find_end :: "string \<Rightarrow> string \<Rightarrow> nat \<Rightarrow> nat \<Rightarrow> string list \<Rightarrow> rgerr + nat \<times> string list" where
  "find_end path name i j [] = Inl (MarkerOpen path (i + 1) name)"
| "find_end path name i j (line # lines) =
     (case markerName (TrimSpace line) markerEnd of
        Some endName \<Rightarrow> if endName \<noteq> name then Inl (MarkerMismatch path (j + 1) endName name) else Inr (j, lines)
      | None \<Rightarrow> find_end path name i (j + 1) lines)"

lemma find_end_length: "find_end path name i j ls = Inr (k, rest) \<Longrightarrow> length rest < length ls"
  by (induction path name i j ls rule: find_end.induct) (fastforce split: option.splits if_splits)+

definition block :: "string \<Rightarrow> string list \<Rightarrow> string list" where
  "block name body = [markerBegin @ name @ markerClose, ''```go''] @ body @ [''```'', markerEnd @ name @ markerClose]"

function render_lines :: "string \<Rightarrow> regions \<Rightarrow> nat \<Rightarrow> string list \<Rightarrow> rgerr + string list \<times> string list" where
  "render_lines path regions i [] = Inr ([], [])"
| "render_lines path regions i (line # lines) =
     (case markerName (TrimSpace line) markerBegin of
        None \<Rightarrow> map_sum (\<lambda>e. e) (map_prod ((#) line) (\<lambda>u. u)) (render_lines path regions (i + 1) lines)
      | Some name \<Rightarrow>
          (case map_of regions name of
             None \<Rightarrow> Inl (NoSuchRegion path (i + 1) name)
           | Some body \<Rightarrow>
               (case find_end path name i (i + 1) lines of
                  Inl e \<Rightarrow> Inl e
                | Inr (j, rest) \<Rightarrow>
                    map_sum (\<lambda>e. e) (map_prod ((@) (block name (trimBlank body))) ((#) name))
                      (render_lines path regions (j + 1) rest))))"
  by pat_completeness auto
termination
  by (relation "measure (\<lambda>(path, regions, i, lines). length lines)") (auto dest: find_end_length)

definition render :: "string \<Rightarrow> string \<Rightarrow> regions \<Rightarrow> rgerr + string" where
  "render path src regions =
     (case render_lines path regions 0 (split_on LF src) of
        Inl e \<Rightarrow> Inl e
      | Inr (out, used) \<Rightarrow>
          (let rendered = join_with [LF] out
           in case checkUnmanagedGoBlocks path rendered of
                Some e \<Rightarrow> Inl e
              | None \<Rightarrow>
                  (case filter (\<lambda>name. name \<notin> set used) (map fst regions) of
                     name # _ \<Rightarrow> Inl (UnusedRegion path name)
                   | [] \<Rightarrow> Inr rendered)))"

fun diff_line :: "nat \<Rightarrow> string list \<Rightarrow> string list \<Rightarrow> nat option" where
  "diff_line i (a # as) (b # bs) = (if a \<noteq> b then Some (i + 1) else diff_line (i + 1) as bs)"
| "diff_line i _ _ = None"

text \<open>The position \<open>firstDiff\<close> reports, in English: a line, a line with the remark that the numbers of lines
  differ, or the end.\<close>

definition firstDiff :: "string \<Rightarrow> string \<Rightarrow> string" where
  "firstDiff a b =
     (let al = split_on LF a; bl = split_on LF b
      in case diff_line 0 al bl of
           Some n \<Rightarrow> ''line '' @ nat_dec n
         | None \<Rightarrow> if length al \<noteq> length bl then ''line '' @ nat_dec (min (length al) (length bl) + 1) @ '' (length)''
                   else ''end'')"

definition syncFile :: "osfail \<Rightarrow> string \<Rightarrow> regions \<Rightarrow> bool \<Rightarrow> files \<Rightarrow> rgerr option \<times> files" where
  "syncFile os path regions check w =
     (case ReadFile os w path of
        Inl e \<Rightarrow> (Some (OsError e), w)
      | Inr None \<Rightarrow> (Some (OsError ''not found''), w)
      | Inr (Some data) \<Rightarrow>
          (let crlf = Contains data [CR, LF]
           in case render path (toLF data) regions of
                Inl e \<Rightarrow> (Some e, w)
              | Inr r \<Rightarrow>
                  (let rendered = (if crlf then ReplaceAll r [LF] [CR, LF] else r)
                   in if rendered = data then (None, w)
                      else if check then (Some (Stale path (firstDiff data rendered)), w)
                      else (case writeErr os path of
                              Some e \<Rightarrow> (Some (OsError e), w)
                            | None \<Rightarrow> (None, w(path \<mapsto> rendered))))))"

text \<open>\<open>main\<close> with its flags; a result other than \<^const>\<open>None\<close> is the error \<open>fail\<close> exits with.\<close>

fun sync_all :: "osfail \<Rightarrow> string \<Rightarrow> regions \<Rightarrow> bool \<Rightarrow> string list \<Rightarrow> files \<Rightarrow> rgerr option \<times> files" where
  "sync_all os root regions check [] w = (None, w)"
| "sync_all os root regions check (n # names) w =
     (let name = TrimSpace n
      in if name = [] then sync_all os root regions check names w
         else (case syncFile os (Join [root, name]) regions check w of
                 (Some e, w1) \<Rightarrow> (Some e, w1)
               | (None, w1) \<Rightarrow> sync_all os root regions check names w1))"

definition main :: "osfail \<Rightarrow> string \<Rightarrow> bool \<Rightarrow> string \<Rightarrow> files \<Rightarrow> rgerr option \<times> files" where
  "main os root check readmes w =
     (case loadRegions os w root of
        Inl e \<Rightarrow> (Some e, w)
      | Inr regions \<Rightarrow> sync_all os root regions check (split_on (CHR '','') readmes) w)"

subsection \<open>Trimming and markers\<close>

lemma HasPrefix_append [simp]: "HasPrefix (p @ s) p"
  by (simp add: HasPrefix_def)

lemma TrimPrefix_append [simp]: "TrimPrefix (p @ s) p = s"
  by (simp add: TrimPrefix_def)

lemma HasSuffix_append [simp]: "HasSuffix (s @ p) p"
  by (simp add: HasSuffix_def)

lemma TrimSuffix_append [simp]: "TrimSuffix (s @ p) p = s"
  by (simp add: TrimSuffix_def)

lemma TrimSpace_Nil [simp]: "TrimSpace [] = []"
  by (simp add: TrimSpace_def)

lemma TrimSpace_fixed: "s \<noteq> [] \<Longrightarrow> \<not> ws (hd s) \<Longrightarrow> \<not> ws (last s) \<Longrightarrow> TrimSpace s = s"
proof -
  assume s: "s \<noteq> []" "\<not> ws (hd s)" "\<not> ws (last s)"
  have "dropWhile ws s = s" "dropWhile ws (rev s) = rev s"
    using s by (simp_all add: dropWhile_eq_self_iff hd_rev)
  then show ?thesis by (simp add: TrimSpace_def)
qed

lemma TrimSpace_idem [simp]: "TrimSpace (TrimSpace s) = TrimSpace s"
proof (cases "TrimSpace s = []")
  case True
  then show ?thesis by simp
next
  case False
  define u where "u = dropWhile ws s"
  obtain v where v: "u = TrimSpace s @ v"
    by (metis TrimSpace_def rev_append rev_rev_ident takeWhile_dropWhile_id u_def)
  have "\<not> ws (hd u)" using False v by (metis append_is_Nil_conv hd_dropWhile u_def)
  then have "\<not> ws (hd (TrimSpace s))" using False v by (metis hd_append2)
  moreover have "\<not> ws (last (TrimSpace s))"
    using False by (metis TrimSpace_def hd_dropWhile hd_rev rev_is_Nil_conv rev_rev_ident)
  ultimately show ?thesis using False by (simp add: TrimSpace_fixed)
qed

lemma set_TrimSpace: "set (TrimSpace s) \<subseteq> set s"
  unfolding TrimSpace_def by (metis set_dropWhileD set_rev subsetI)

lemma marker_fixed:
  assumes "p \<in> {markerBegin, markerEnd}"
  shows "TrimSpace (p @ name @ markerClose) = p @ name @ markerClose"
  using assms by (auto intro!: TrimSpace_fixed simp: markerBegin_def markerEnd_def markerClose_def ws_def)

lemma markerName_marker:
  assumes "p \<in> {markerBegin, markerEnd}" "TrimSpace name = name"
  shows "markerName (TrimSpace (p @ name @ markerClose)) p = Some name"
  using assms marker_fixed [OF assms(1)] HasSuffix_append [of "p @ name" markerClose] by (simp add: markerName_def)

lemma markerName_trimmed: "markerName line p = Some name \<Longrightarrow> TrimSpace name = name"
  by (auto simp: markerName_def split: if_splits)

lemma set_markerName: "markerName line p = Some name \<Longrightarrow> set name \<subseteq> set line"
  using set_TrimSpace
  by (fastforce simp: markerName_def TrimPrefix_def TrimSuffix_def split: if_splits dest: in_set_takeD in_set_dropD)

lemma fence_not_marker [simp]:
  "markerName ''```go'' markerEnd = None" "markerName ''```'' markerEnd = None"
  "TrimSpace ''```go'' = ''```go''" "TrimSpace ''```'' = ''```''"
  by code_simp+

subsection \<open>Rendering is idempotent\<close>

definition no_end :: "string list \<Rightarrow> bool" where
  "no_end body \<longleftrightarrow> (\<forall>l\<in>set body. markerName (TrimSpace l) markerEnd = None)"

lemma find_end_skip:
  "no_end body \<Longrightarrow> find_end path name i j (body @ rest) = find_end path name i (j + length body) rest"
  by (induction body arbitrary: j) (auto simp: no_end_def)

lemma trimBlank_subset: "set (trimBlank body) \<subseteq> set body"
  unfolding trimBlank_def by (metis set_dropWhileD set_rev subsetI)

lemma no_end_trimBlank: "no_end body \<Longrightarrow> no_end (trimBlank body)"
  using trimBlank_subset by (fastforce simp: no_end_def)

lemma find_end_block:
  assumes "no_end body" "TrimSpace name = name"
  shows "find_end path name i j (tl (block name body) @ rest) = Inr (j + length body + 2, rest)"
proof -
  have "find_end path name i j (tl (block name body) @ rest) =
      find_end path name i (Suc j) (body @ ''```'' # (markerEnd @ name @ markerClose) # rest)"
    by (simp add: block_def)
  also have "\<dots> = Inr (j + length body + 2, rest)"
    using markerName_marker [of markerEnd name] assms by (simp add: find_end_skip)
  finally show ?thesis .
qed

lemma render_lines_block:
  assumes "map_of regions name = Some body" "no_end body" "TrimSpace name = name"
  shows "render_lines path regions i (block name (trimBlank body) @ rest) =
    map_sum (\<lambda>e. e) (map_prod ((@) (block name (trimBlank body))) ((#) name))
      (render_lines path regions (i + length (block name (trimBlank body))) rest)"
proof -
  have b: "block name (trimBlank body) = (markerBegin @ name @ markerClose) # tl (block name (trimBlank body))"
    by (simp add: block_def)
  have "find_end path name i (i + 1) (tl (block name (trimBlank body)) @ rest) =
      Inr (i + 1 + length (trimBlank body) + 2, rest)"
    using find_end_block [OF no_end_trimBlank [OF assms(2)] assms(3)] .
  then show ?thesis
    using markerName_marker [of markerBegin name] assms
    by (subst b) (simp add: block_def)
qed

lemma map_result_Inr:
  "map_sum (\<lambda>e. e) (map_prod f g) x = Inr (a, b) \<longleftrightarrow> (\<exists>a1 b1. x = Inr (a1, b1) \<and> a = f a1 \<and> b = g b1)"
  by (cases x) auto

lemma render_lines_idem:
  assumes "\<forall>body\<in>set (map snd regions). no_end body" "render_lines path regions i ls = Inr (out, used)"
  shows "render_lines path regions k out = Inr (out, used)"
  using assms
proof (induction path regions i ls arbitrary: out used k rule: render_lines.induct)
  case (1 path regions i)
  then show ?case by simp
next
  case (2 path regions i line lines)
  show ?case
  proof (cases "markerName (TrimSpace line) markerBegin")
    case None
    then obtain o1 where r: "render_lines path regions (i + 1) lines = Inr (o1, used)" "out = line # o1"
      using 2(4) by (auto simp: map_result_Inr)
    show ?thesis using 2(1) [OF None 2(3) r(1)] None r(2) by simp
  next
    case (Some name)
    then obtain body j rest o1 u1 where r: "map_of regions name = Some body"
        "find_end path name i (i + 1) lines = Inr (j, rest)" "render_lines path regions (j + 1) rest = Inr (o1, u1)"
        "out = block name (trimBlank body) @ o1" "used = name # u1"
      using 2(4) by (auto split: option.splits sum.splits simp: map_result_Inr)
    have "no_end body" using 2(3) map_of_SomeD [OF r(1)] by force
    then show ?thesis
      using 2(2) [OF Some r(1,2) _ 2(3) r(3)] Some r markerName_trimmed [OF Some]
      by (simp add: render_lines_block)
  qed
qed

subsection \<open>Line ends\<close>

lemma drop_CR: "ReplaceAll s [CR] [] = filter (\<lambda>c. c \<noteq> CR) s"
  by (induction s) (auto simp: HasPrefix_def)

lemma filter_CRLF: "filter (\<lambda>c. c \<noteq> CR) (ReplaceAll s [CR, LF] [LF]) = filter (\<lambda>c. c \<noteq> CR) s"
proof (induction s "[CR, LF]" "[LF]" rule: ReplaceAll.induct)
  case (2 c s)
  then show ?case by (cases s) (auto simp: HasPrefix_def)
qed simp

lemma toLF_filter: "toLF s = filter (\<lambda>c. c \<noteq> CR) s"
  by (simp add: toLF_def drop_CR filter_CRLF)

lemma add_CR: "ReplaceAll s [LF] [CR, LF] = concat (map (\<lambda>c. if c = LF then [CR, LF] else [c]) s)"
  by (induction s) (auto simp: HasPrefix_def)

lemma toLF_add_CR: "CR \<notin> set s \<Longrightarrow> toLF (ReplaceAll s [LF] [CR, LF]) = s"
  by (induction s) (auto simp: toLF_filter add_CR)

lemma toLF_id: "CR \<notin> set s \<Longrightarrow> toLF s = s"
  by (auto simp: toLF_filter filter_id_conv)

lemma Contains_CR: "Contains s [CR, LF] \<Longrightarrow> CR \<in> set s"
  by (induction s) (auto simp: HasPrefix_def)

lemma Contains_add_CR: "LF \<in> set s \<Longrightarrow> Contains (ReplaceAll s [LF] [CR, LF]) [CR, LF]"
  by (induction s) (auto simp: add_CR HasPrefix_def)

lemma add_CR_id: "LF \<notin> set s \<Longrightarrow> ReplaceAll s [LF] [CR, LF] = s"
  by (induction s) (auto simp: add_CR)

text \<open>The text a README is written with reads back as the text that was rendered, and is written the same way again.\<close>

lemma written_again:
  assumes "CR \<notin> set r"
  shows "toLF (if crlf then ReplaceAll r [LF] [CR, LF] else r) = r"
    and "(if Contains (if crlf then ReplaceAll r [LF] [CR, LF] else r) [CR, LF] then ReplaceAll r [LF] [CR, LF] else r) =
         (if crlf then ReplaceAll r [LF] [CR, LF] else r)"
  using assms Contains_CR [of r] Contains_add_CR [of r] add_CR_id [of r]
  by (simp_all add: toLF_add_CR toLF_id) (cases "LF \<in> set r"; auto)

definition line_ok :: "string \<Rightarrow> bool" where
  "line_ok l \<longleftrightarrow> CR \<notin> set l \<and> LF \<notin> set l"

definition regions_ok :: "regions \<Rightarrow> bool" where
  "regions_ok regions \<longleftrightarrow> (\<forall>body\<in>set (map snd regions). \<forall>l\<in>set body. line_ok l)"

lemma line_ok_subset: "set l \<subseteq> set k \<Longrightarrow> line_ok k \<Longrightarrow> line_ok l"
  by (auto simp: line_ok_def)

lemma split_lines_ok: "CR \<notin> set s \<Longrightarrow> \<forall>l\<in>set (split_on LF s). line_ok l"
  using split_on_parts by (fastforce simp: line_ok_def)

lemma dedent_ok: "\<forall>l\<in>set body. line_ok l \<Longrightarrow> \<forall>l\<in>set (dedent body). line_ok l"
proof -
  have "line_ok (TrimPrefix l p)" if "line_ok l" for l p
    using that by (auto simp: TrimPrefix_def line_ok_def dest: in_set_dropD)
  moreover have "line_ok []" by (simp add: line_ok_def)
  ultimately show "\<forall>l\<in>set body. line_ok l \<Longrightarrow> \<forall>l\<in>set (dedent body). line_ok l"
    by (auto simp: dedent_def Let_def)
qed

lemma parse_lines_ok:
  assumes "\<forall>l\<in>set ls. line_ok l" "\<forall>l\<in>set body. line_ok l" "regions_ok regions"
    and "parse_lines path pkg i ls name body line0 regions = Inr regions1"
  shows "regions_ok regions1"
  using assms
proof (induction path pkg i ls name body line0 regions arbitrary: regions1 rule: parse_lines.induct)
  case (1 path pkg i name body line0 regions)
  then show ?case by (simp split: if_splits)
next
  case (2 path pkg i line lines name body line0 regions)
  have "regions_ok (regions @ [(pkg @ ''/'' @ name, dedent body)])"
    using 2(5,6) dedent_ok [of body] by (auto simp: regions_ok_def)
  with 2 show ?case by (auto simp: Let_def split: if_splits)
qed

lemma loadRegions_ok:
  assumes "loadRegions os w root = Inr regions"
  shows "regions_ok regions"
proof -
  have "regions_ok r1" if "load_entries os w root es r = Inr r1" "regions_ok r" for es r r1
    using that
  proof (induction os w root es r rule: load_entries.induct)
    case (2 os w root ename isDir entries regions)
    have "regions_ok r2" if "parseRegions path ename src regions = Inr r2" for path src r2
      using that 2(5) split_lines_ok [of "toLF src"]
      by (auto simp: parseRegions_def toLF_filter intro!: parse_lines_ok [of _ "[]" regions])
    with 2 show ?case by (auto simp: Let_def split: if_splits sum.splits option.splits)
  qed simp
  then show ?thesis
    using assms by (auto simp: loadRegions_def regions_ok_def split: sum.splits if_splits)
qed

lemma line_ok_fixed:
  "line_ok ''```go''" "line_ok ''```''" "line_ok (markerBegin @ name @ markerClose) = line_ok name"
  "line_ok (markerEnd @ name @ markerClose) = line_ok name"
  by (simp_all add: line_ok_def markerBegin_def markerEnd_def markerClose_def)

lemma find_end_rest: "find_end path name i j ls = Inr (k, rest) \<Longrightarrow> set rest \<subseteq> set ls"
  by (induction path name i j ls rule: find_end.induct) (fastforce split: option.splits if_splits)+

lemma render_lines_ok:
  assumes "regions_ok regions" "\<forall>l\<in>set ls. line_ok l" "render_lines path regions i ls = Inr (out, used)"
  shows "(\<forall>l\<in>set out. line_ok l) \<and> (ls \<noteq> [] \<longrightarrow> out \<noteq> [])"
  using assms
proof (induction path regions i ls arbitrary: out used rule: render_lines.induct)
  case (1 path regions i)
  then show ?case by simp
next
  case (2 path regions i line lines)
  show ?case
  proof (cases "markerName (TrimSpace line) markerBegin")
    case None
    then obtain o1 where r: "render_lines path regions (i + 1) lines = Inr (o1, used)" "out = line # o1"
      using 2(5) by (auto simp: map_result_Inr)
    show ?thesis using 2(1) [OF None 2(3) _ r(1)] 2(4) r(2) by simp
  next
    case (Some name)
    then obtain body j rest o1 u1 where r: "map_of regions name = Some body"
        "find_end path name i (i + 1) lines = Inr (j, rest)" "render_lines path regions (j + 1) rest = Inr (o1, u1)"
        "out = block name (trimBlank body) @ o1"
      using 2(5) by (auto split: option.splits sum.splits simp: map_result_Inr)
    have name: "line_ok name"
      using set_markerName [OF Some] set_TrimSpace [of line] 2(4) by (auto simp: line_ok_def)
    have "\<forall>l\<in>set body. line_ok l"
      using 2(3) map_of_SomeD [OF r(1)] by (force simp: regions_ok_def)
    then have "\<forall>l\<in>set (block name (trimBlank body)). line_ok l"
      using name trimBlank_subset [of body] by (auto simp: block_def line_ok_fixed)
    moreover have "\<forall>l\<in>set o1. line_ok l"
      using 2(2) [OF Some r(1,2) _ 2(3) _ r(3)] 2(4) find_end_rest [OF r(2)] by auto
    ultimately show ?thesis by (auto simp: r(4) block_def)
  qed
qed

lemma render_idem:
  assumes "regions_ok regions" "\<forall>body\<in>set (map snd regions). no_end body" "CR \<notin> set src"
    and "render path src regions = Inr r"
  shows "CR \<notin> set r \<and> render path r regions = Inr r"
proof -
  obtain out used where o: "render_lines path regions 0 (split_on LF src) = Inr (out, used)" "r = join_with [LF] out"
      "checkUnmanagedGoBlocks path r = None" "filter (\<lambda>name. name \<notin> set used) (map fst regions) = []"
    using assms(4) by (auto simp: render_def Let_def split: sum.splits option.splits list.splits)
  have ok: "\<forall>l\<in>set out. line_ok l" "out \<noteq> []"
    using render_lines_ok [OF assms(1) split_lines_ok [OF assms(3)] o(1)] by auto
  then have "split_on LF r = out" by (simp add: o(2) split_on_join line_ok_def)
  moreover have "CR \<notin> set r" using ok set_join_with [of "[LF]" out] by (auto simp: o(2) line_ok_def)
  moreover have "render_lines path regions 0 out = Inr (out, used)"
    by (rule render_lines_idem [OF assms(2) o(1)])
  ultimately show ?thesis using o by (simp add: render_def)
qed

subsection \<open>Synchronising, then checking\<close>

lemma syncFile_fresh:
  assumes "regions_ok regions" "\<forall>body\<in>set (map snd regions). no_end body"
    and "syncFile os path regions False w = (None, w1)"
  shows "syncFile os path regions check w1 = (None, w1)"
proof -
  obtain data r where d: "readErr os path = None" "w path = Some data" "render path (toLF data) regions = Inr r"
    using assms(3) by (auto simp: syncFile_def ReadFile_def Let_def split: option.splits sum.splits)
  define crlf where "crlf = Contains data [CR, LF]"
  define t where "t = (if crlf then ReplaceAll r [LF] [CR, LF] else r)"
  have "CR \<notin> set (toLF data)" by (simp add: toLF_filter)
  note r = render_idem [OF assms(1,2) this d(3)]
  have w1: "w1 path = Some t"
    using assms(3) d by (auto simp: syncFile_def ReadFile_def Let_def t_def crlf_def split: if_splits option.splits)
  have "toLF t = r" "(if Contains t [CR, LF] then ReplaceAll r [LF] [CR, LF] else r) = t"
    using written_again [of r crlf] r unfolding t_def by blast+
  then show ?thesis using d(1) w1 r by (simp add: syncFile_def ReadFile_def)
qed

lemma syncFile_keeps:
  assumes "regions_ok regions" "\<forall>body\<in>set (map snd regions). no_end body"
    and "syncFile os q regions False w = (None, w1)" "syncFile os p regions True w = (None, w)"
  shows "syncFile os p regions True w1 = (None, w1)"
proof (cases "p = q")
  case True
  then show ?thesis using syncFile_fresh [OF assms(1-3)] by simp
next
  case False
  then have "w1 p = w p" using assms(3)
    by (auto simp: syncFile_def ReadFile_def Let_def split: option.splits sum.splits if_splits)
  with assms(4) show ?thesis
    by (auto simp: syncFile_def ReadFile_def Let_def split: option.splits sum.splits if_splits)
qed

lemma sync_all_keeps:
  assumes "regions_ok regions" "\<forall>body\<in>set (map snd regions). no_end body"
    and "sync_all os root regions False names w = (None, w1)" "syncFile os p regions True w = (None, w)"
  shows "syncFile os p regions True w1 = (None, w1)"
  using assms(3,4)
proof (induction names arbitrary: w)
  case (Cons n names)
  then show ?case
    using syncFile_keeps [OF assms(1,2)] by (auto simp: Let_def split: if_splits prod.splits option.splits)
qed simp

lemma sync_all_fresh:
  assumes "regions_ok regions" "\<forall>body\<in>set (map snd regions). no_end body"
    and "sync_all os root regions False names w = (None, w1)"
  shows "sync_all os root regions True names w1 = (None, w1)"
  using assms(3)
proof (induction names arbitrary: w)
  case (Cons n names)
  show ?case
  proof (cases "TrimSpace n = []")
    case True
    with Cons show ?thesis by auto
  next
    case False
    then obtain w2 where w2: "syncFile os (Join [root, TrimSpace n]) regions False w = (None, w2)"
        "sync_all os root regions False names w2 = (None, w1)"
      using Cons.prems by (auto simp: Let_def split: prod.splits option.splits)
    have "syncFile os (Join [root, TrimSpace n]) regions True w1 = (None, w1)"
      by (rule sync_all_keeps [OF assms(1,2) w2(2) syncFile_fresh [OF assms(1,2) w2(1)]])
    with Cons.IH [OF w2(2)] False show ?thesis by simp
  qed
qed simp

lemma load_entries_cong:
  assumes "\<forall>(e, d)\<in>set es. w1 (Join [root, e, ''example_test.go'']) = w (Join [root, e, ''example_test.go''])"
  shows "load_entries os w1 root es r = load_entries os w root es r"
  using assms
proof (induction es arbitrary: r)
  case (Cons a es)
  obtain e d where a: "a = (e, d)" by fastforce
  have "ReadFile os w1 (Join [root, e, ''example_test.go'']) = ReadFile os w (Join [root, e, ''example_test.go''])"
    using Cons.prems a by (auto simp: ReadFile_def split: option.split)
  moreover have "load_entries os w1 root es r = load_entries os w root es r" for r
    using Cons by auto
  ultimately show ?case by (simp add: a Let_def cong: option.case_cong sum.case_cong)
qed simp

lemma sync_all_other:
  assumes "sync_all os root regions check names w = (e, w1)" "\<forall>n\<in>set names. Join [root, TrimSpace n] \<noteq> p"
  shows "w1 p = w p"
  using assms
proof (induction names arbitrary: w)
  case (Cons n names)
  have "w2 p = w p" if "syncFile os (Join [root, TrimSpace n]) regions check w = (e2, w2)" for e2 w2
    using that Cons.prems(2)
    by (auto simp: syncFile_def Let_def split: option.splits sum.splits if_splits)
  with Cons show ?case by (auto simp: Let_def split: if_splits prod.splits option.splits)
qed simp

subsection \<open>Properties\<close>

text \<open>C40: after a run of \<open>readmegen\<close> that succeeds, a run with \<open>-check\<close> on the files it left succeeds and changes
  nothing, whatever line ends the READMEs use, if no region holds the text of an end marker and no README is one of
  the \<open>example_test.go\<close> files.\<close>

theorem sync_then_check:
  assumes "main os root False readmes w = (None, w1)"
    and "readDir os root = Inr entries" "loadRegions os w root = Inr regions"
    and "\<forall>body\<in>set (map snd regions). no_end body"
    and "\<forall>n\<in>set (split_on (CHR '','') readmes). \<forall>(e, d)\<in>set entries.
      Join [root, TrimSpace n] \<noteq> Join [root, e, ''example_test.go'']"
  shows "main os root True readmes w1 = (None, w1)"
proof -
  have m: "sync_all os root regions False (split_on (CHR '','') readmes) w = (None, w1)"
    using assms(1,3) by (simp add: main_def)
  have "w1 (Join [root, e, ''example_test.go'']) = w (Join [root, e, ''example_test.go''])" if "(e, d) \<in> set entries" for e d
    by (rule sync_all_other [OF m]) (use assms(5) that in fastforce)
  then have "load_entries os w1 root entries [] = load_entries os w root entries []"
    by (intro load_entries_cong) auto
  then have "loadRegions os w1 root = Inr regions"
    using assms(2,3) by (simp add: loadRegions_def)
  then show ?thesis
    using sync_all_fresh [OF loadRegions_ok [OF assms(3)] assms(4) m] by (simp add: main_def)
qed

definition demo_os :: osfail where
  "demo_os = \<lparr>readErr = (\<lambda>_. None), writeErr = (\<lambda>_. None), readDir = (\<lambda>_. Inr [(''actor'', True)])\<rparr>"

definition demo_files :: files where
  "demo_files =
     [''actor/example_test.go'' \<mapsto> ''// region: send'' @ [LF, CHR 0x09] @ ''f()'' @ [LF] @ ''// endregion: send'' @ [LF],
      ''README.md'' \<mapsto> ''hello'' @ [CR, LF] @ ''<!-- example: actor/send -->'' @ [CR, LF] @ ''<!-- /example: actor/send -->'']"

lemma demo_run:
  "loadRegions demo_os demo_files ''.'' = Inr [(''actor/send'', [''f()''])]"
  "fst (main demo_os ''.'' False ''README.md'' demo_files) = None"
  "no_end [''f()'']"
  "Join [''.'', TrimSpace ''README.md''] \<noteq> Join [''.'', ''actor'', ''example_test.go'']"
  by code_simp+

lemma sync_then_check_witness:
  "main demo_os ''.'' True ''README.md'' (snd (main demo_os ''.'' False ''README.md'' demo_files)) =
     (None, snd (main demo_os ''.'' False ''README.md'' demo_files))"
  by (rule sync_then_check [where w = demo_files and regions = "[(''actor/send'', [''f()''])]"
        and entries = "[(''actor'', True)]"])
     (use demo_run in \<open>simp_all add: prod_eq_iff demo_os_def\<close>)

subsection \<open>What is written where\<close>

text \<open>
  The segments of a document: its lines outside blocks, and its blocks with the name of their marker and the lines
  up to the end marker.
\<close>

function segments :: "string list \<Rightarrow> (string + string \<times> string list) list" where
  "segments [] = []"
| "segments (line # lines) =
     (case markerName (TrimSpace line) markerBegin of
        None \<Rightarrow> Inl line # segments lines
      | Some name \<Rightarrow>
          Inr (name, takeWhile (\<lambda>l. markerName (TrimSpace l) markerEnd = None) lines) #
          segments (tl (dropWhile (\<lambda>l. markerName (TrimSpace l) markerEnd = None) lines)))"
  by pat_completeness auto
termination
  by (relation "measure length") (auto simp: less_Suc_eq_le le_diff_conv intro: le_SucI length_dropWhile_le)

definition refreshed :: "regions \<Rightarrow> string + string \<times> string list \<Rightarrow> string + string \<times> string list" where
  "refreshed regions =
     map_sum (\<lambda>l. l) (\<lambda>(name, _). (name, [''```go''] @ trimBlank (the (map_of regions name)) @ [''```'']))"

lemma find_end_split:
  "find_end path name i j ls = Inr (k, rest) \<Longrightarrow>
   rest = tl (dropWhile (\<lambda>l. markerName (TrimSpace l) markerEnd = None) ls)"
  by (induction path name i j ls rule: find_end.induct) (auto split: option.splits if_splits)

lemma takeWhile_no_end:
  assumes "no_end body" "markerName (TrimSpace e) markerEnd = Some name"
  shows "takeWhile (\<lambda>l. markerName (TrimSpace l) markerEnd = None) (body @ e # rest) = body"
    and "dropWhile (\<lambda>l. markerName (TrimSpace l) markerEnd = None) (body @ e # rest) = e # rest"
  using assms by (induction body) (auto simp: no_end_def)

lemma segments_block:
  assumes "no_end body" "TrimSpace name = name"
  shows "segments (block name body @ rest) = Inr (name, [''```go''] @ body @ [''```'']) # segments rest"
proof -
  have "no_end ([''```go''] @ body @ [''```''])" using assms(1) by (auto simp: no_end_def)
  note t = takeWhile_no_end [OF this markerName_marker [OF _ assms(2), of markerEnd]]
  show ?thesis
    using t markerName_marker [OF _ assms(2), of markerBegin] by (simp add: block_def)
qed

lemma render_lines_segments:
  assumes "\<forall>body\<in>set (map snd regions). no_end body" "render_lines path regions i ls = Inr (out, used)"
  shows "segments out = map (refreshed regions) (segments ls) \<and>
    used = [name. Inr (name, _) \<leftarrow> segments ls]"
  using assms
proof (induction path regions i ls arbitrary: out used rule: render_lines.induct)
  case (1 path regions i)
  then show ?case by simp
next
  case (2 path regions i line lines)
  show ?case
  proof (cases "markerName (TrimSpace line) markerBegin")
    case None
    then obtain o1 where r: "render_lines path regions (i + 1) lines = Inr (o1, used)" "out = line # o1"
      using 2(4) by (auto simp: map_result_Inr)
    show ?thesis using 2(1) [OF None 2(3) r(1)] None r(2) by (simp add: refreshed_def)
  next
    case (Some name)
    then obtain body j rest o1 u1 where r: "map_of regions name = Some body"
        "find_end path name i (i + 1) lines = Inr (j, rest)" "render_lines path regions (j + 1) rest = Inr (o1, u1)"
        "out = block name (trimBlank body) @ o1" "used = name # u1"
      using 2(4) by (auto split: option.splits sum.splits simp: map_result_Inr)
    have "no_end (trimBlank body)" using 2(3) map_of_SomeD [OF r(1)] by (force intro: no_end_trimBlank)
    then show ?thesis
      using 2(2) [OF Some r(1,2) _ 2(3) r(3)] Some r markerName_trimmed [OF Some] find_end_split [OF r(2)]
      by (auto simp: segments_block refreshed_def)
  qed
qed

text \<open>What \<open>render\<close> writes: the lines outside the marked blocks are those of the source in the same order, every
  block holds the trimmed region its marker names between code fences, and every region of the examples is shown
  by some block.\<close>

theorem render_spec:
  assumes "render path src regions = Inr r" "regions_ok regions" "\<forall>body\<in>set (map snd regions). no_end body"
    and "CR \<notin> set src"
  shows "segments (split_on LF r) = map (refreshed regions) (segments (split_on LF src)) \<and>
    (\<forall>(name, body)\<in>set regions. \<exists>c. Inr (name, c) \<in> set (segments (split_on LF src)))"
proof -
  obtain out used where o: "render_lines path regions 0 (split_on LF src) = Inr (out, used)" "r = join_with [LF] out"
      "filter (\<lambda>name. name \<notin> set used) (map fst regions) = []"
    using assms(1) by (auto simp: render_def Let_def split: sum.splits option.splits list.splits)
  have ok: "\<forall>l\<in>set out. line_ok l" "out \<noteq> []"
    using render_lines_ok [OF assms(2) split_lines_ok [OF assms(4)] o(1)] by auto
  then have s: "split_on LF r = out" by (simp add: o(2) split_on_join line_ok_def)
  have g: "segments out = map (refreshed regions) (segments (split_on LF src))"
      "used = [name. Inr (name, _) \<leftarrow> segments (split_on LF src)]"
    using render_lines_segments [OF assms(3) o(1)] by auto
  have "\<exists>c. Inr (name, c) \<in> set (segments (split_on LF src))" if "(name, body) \<in> set regions" for name body
  proof -
    have "name \<in> set used" using o(3) that by (force simp: filter_empty_conv)
    then show ?thesis unfolding g(2) by (auto split: sum.splits)
  qed
  with g(1) s show ?thesis by auto
qed

lemma demo_render:
  "render ''R'' (''a'' @ [LF] @ ''<!-- example: s -->'' @ [LF] @ ''<!-- /example: s -->'') [(''s'', [''f()''])] =
     Inr (''a'' @ [LF] @ ''<!-- example: s -->'' @ [LF] @ ''```go'' @ [LF] @ ''f()'' @ [LF] @ ''```'' @ [LF] @ ''<!-- /example: s -->'')"
  "regions_ok [(''s'', [''f()''])]"
  by code_simp+

lemma render_spec_witness:
  "segments (split_on LF (''a'' @ [LF] @ ''<!-- example: s -->'' @ [LF] @ ''```go'' @ [LF] @ ''f()'' @ [LF] @ ''```'' @ [LF] @ ''<!-- /example: s -->'')) =
   map (refreshed [(''s'', [''f()''])]) (segments (split_on LF (''a'' @ [LF] @ ''<!-- example: s -->'' @ [LF] @ ''<!-- /example: s -->'')))"
proof -
  have "\<forall>body\<in>set (map snd [(''s'', [''f()''])]). no_end body" using demo_run(3) by simp
  from render_spec [OF demo_render this] show ?thesis by simp
qed

subsection \<open>Indentation\<close>

lemma commonPrefix_longest: "commonPrefix a b = longest_common_prefix a b"
  by (induction a b rule: commonPrefix.induct) auto

abbreviation indents :: "string list \<Rightarrow> string set" where
  "indents lines \<equiv> indent ` {l \<in> set lines. TrimSpace l \<noteq> []}"

lemma common_insert:
  "Longest_common_prefix (insert (longest_common_prefix a b) I) = Longest_common_prefix (insert a (insert b I))"
proof (rule Longest_common_prefix_eq [symmetric], goal_cases)
  case 2
  let ?L = "insert (longest_common_prefix a b) I"
  have "prefix (Longest_common_prefix ?L) (longest_common_prefix a b)"
    by (rule Longest_common_prefix_prefix) simp
  then have "prefix (Longest_common_prefix ?L) a" "prefix (Longest_common_prefix ?L) b"
    using longest_common_prefix_prefix1 longest_common_prefix_prefix2 prefix_order.trans by blast+
  then show ?case by (auto intro: Longest_common_prefix_prefix)
next
  case 3
  show ?case
  proof (intro allI impI)
    fix q assume q: "\<forall>xs\<in>insert a (insert b I). prefix q xs"
    then have "\<forall>xs\<in>insert (longest_common_prefix a b) I. prefix q xs"
      using longest_common_prefix_max_prefix by auto
    then show "length q \<le> length (Longest_common_prefix (insert (longest_common_prefix a b) I))"
      by (intro Longest_common_prefix_longest) auto
  qed
qed simp

lemma dedent_prefix_common:
  assumes "Longest_common_prefix (insert pre (indents lines)) \<noteq> []" "i \<noteq> 0"
  shows "dedent_prefix i pre lines = Longest_common_prefix (insert pre (indents lines))"
  using assms
proof (induction lines arbitrary: i pre)
  case Nil
  have "Longest_common_prefix {pre} = pre" by (rule Longest_common_prefix_eq) (auto simp: prefix_length_le)
  then show ?case by simp
next
  case (Cons l lines)
  show ?case
  proof (cases "TrimSpace l = []")
    case True
    then have "indents (l # lines) = indents lines" by auto
    with True Cons show ?thesis by simp
  next
    case False
    then have e: "indents (l # lines) = insert (indent l) (indents lines)" by auto
    have "pre \<noteq> []"
      using Cons.prems(1) Longest_common_prefix_Nil [of "insert pre (indents (l # lines))"] by (cases pre) simp_all
    then show ?thesis
      using False Cons.prems [unfolded e] Cons.IH [of "longest_common_prefix pre (indent l)" "i + 1"]
      unfolding e by (simp add: commonPrefix_longest common_insert)
  qed
qed

lemma dedent_prefix_start:
  assumes "\<exists>l\<in>set lines. TrimSpace l \<noteq> []" "Longest_common_prefix (indents lines) \<noteq> []"
  shows "dedent_prefix i [] lines = Longest_common_prefix (indents lines)"
  using assms
proof (induction lines arbitrary: i)
  case (Cons l lines)
  show ?case
  proof (cases "TrimSpace l = []")
    case True
    then have "indents (l # lines) = indents lines" by auto
    with True Cons show ?thesis by simp
  next
    case False
    then have "indents (l # lines) = insert (indent l) (indents lines)" by auto
    with False Cons.prems show ?thesis by (simp add: dedent_prefix_common)
  qed
qed simp

lemma indent_prefix: "HasPrefix l p \<longleftrightarrow> prefix p l"
  by (auto simp: HasPrefix_def prefix_def) (metis append_take_drop_id)

text \<open>
  \<open>dedent\<close> removes the longest common indentation of the lines that are not blank, when there is one.
\<close>

theorem dedent_longest:
  assumes "\<exists>l\<in>set lines. TrimSpace l \<noteq> []" "Longest_common_prefix (indents lines) \<noteq> []"
  shows "dedent lines =
    map (\<lambda>l. if TrimSpace l = [] then [] else drop (length (Longest_common_prefix (indents lines))) l) lines"
proof -
  let ?p = "Longest_common_prefix (indents lines)"
  have "TrimPrefix l ?p = drop (length ?p) l" if "l \<in> set lines" "TrimSpace l \<noteq> []" for l
  proof -
    have "prefix ?p (indent l)" using that by (intro Longest_common_prefix_prefix) auto
    moreover have "prefix (indent l) l" by (simp add: indent_def take_is_prefix)
    ultimately show ?thesis by (simp add: TrimPrefix_def indent_prefix prefix_order.trans)
  qed
  then show ?thesis by (simp add: dedent_def dedent_prefix_start [OF assms])
qed

text \<open>
  Without one it does not leave the lines alone: after a line with no indentation the loop starts again, and the
  lines are stripped of the indentation common to those after it.
\<close>

lemma dedent_prefix_index: "0 < i \<Longrightarrow> 0 < j \<Longrightarrow> dedent_prefix i p lines = dedent_prefix j p lines"
proof (induction lines arbitrary: i j p)
  case (Cons l lines)
  have "dedent_prefix (i + 1) q lines = dedent_prefix (j + 1) q lines" for q
    by (rule Cons.IH) simp_all
  with Cons.prems show ?case by simp
qed simp

lemma dedent_prefix_zero: "dedent_prefix i [] lines = dedent_prefix 0 [] lines"
proof (cases lines)
  case (Cons l ls)
  have "dedent_prefix (Suc i) q ls = dedent_prefix (Suc 0) q ls" for q
    by (rule dedent_prefix_index) simp_all
  with Cons show ?thesis by simp
qed simp

theorem dedent_restarts:
  assumes "TrimSpace l \<noteq> []" "indent l = []"
  shows "dedent (xs @ l # ys) =
    map (\<lambda>k. if TrimSpace k = [] then [] else TrimPrefix k (dedent_prefix 0 [] ys)) (xs @ l # ys)"
proof -
  have "dedent_prefix i p (xs @ l # ys) = dedent_prefix 0 [] ys" for i p
  proof (induction xs arbitrary: i p)
    case Nil
    show ?case using assms dedent_prefix_zero [of "Suc i" ys] by (simp add: commonPrefix_longest)
  qed simp
  then show ?thesis by (simp add: dedent_def Let_def)
qed

lemma dedent_example:
  "dedent [CHR 0x09 # ''a'', ''b'', CHR 0x09 # ''c''] = [''a'', ''b'', ''c'']"
  by code_simp

end
