(* ===== verification/Spec2Isabelle.thy ===== *)
theory Spec2Isabelle
  imports Hold_Protocol Group_Soundness Cluster_Lease Cluster_Node Grain_Redis_Expiry Grain_Mongo Grain_Yaml Game_Demo
    Shared_Example Actor_Example Grain_Example Rpc_Example Logger Readmegen
begin

section \<open>The actor library: overview of the development\<close>

text \<open>
  \<^bold>\<open>The program.\<close> \<open>actor-go\<close> is a library of virtual actors. A \<open>Manager\<close> (\<open>actor/manager.go\<close>) maps the type of an actor to
  a group (\<open>actor/group.go\<close>), the table of that type's actors. A sender resolves a target in the group, takes a
  reference on it, puts an entry into its mailbox and drops the reference. Each actor has a goroutine
  (\<open>actor/actor.go\<close>) that takes batches from the mailbox, calls the registered handlers (\<open>actor/invoke.go\<close>,
  \<open>actor/registry_builder.go\<close>), recovers from their panics, and leaves when the actor is idle or closed. A handler
  works on its activation: the user's state and a control block (\<open>actor/actor_control.go\<close>) with timers and a queue
  of postponed messages to busy targets. Around this core stand remote calls over a message transport (\<open>rpc/\<close>),
  consistent-hash placement and routing between nodes (\<open>cluster/\<close>), actors that own persistent state under a lease
  (\<open>grain/\<close>), and values that one actor publishes and many read from local caches (\<open>shared/\<close>).

  \<^bold>\<open>Theories.\<close>

  \<^item> \<open>Go_Prelude\<close>, \<open>Go_Strings\<close>: what all theories share: buffered channels, decimal printing, 64-bit wrap-around, splitting and
    joining of strings, file paths, facts on lists and association lists, the collections of rewrite rules; the functions of
    \<open>strings\<close> and \<open>strconv\<close> that the programs under \<open>cmd/\<close> use.
  \<^item> \<open>Actor_Types\<close>: \<open>actor/types.go\<close>, \<open>errors.go\<close>, \<open>trace.go\<close>. Identities, the error values with their texts, provenance.
  \<^item> \<open>Actor_Control\<close>: \<open>actor/actor_control.go\<close>. Timers, the postpone queue, \<open>APost\<close>, \<open>ACall\<close>, \<open>AMulticast\<close>. The locale
    \<open>mailer\<close> is what the control block relies on from the manager's send; the refinement of \<open>APost\<close> to appending to
    one outbox per target is proved in it. \<open>ACall\<close> makes at most three attempts.
  \<^item> \<open>Actor_Invoke\<close>: \<open>actor/handler.go\<close>, \<open>registry_builder.go\<close>, \<open>actor_context.go\<close>, \<open>invoke.go\<close>, \<open>timer.go\<close>, \<open>close.go\<close>. Handler entries,
    activations, the kinds of mailbox entry with \<open>Allow\<close>, \<open>Invoke\<close> and \<open>Fail\<close>.
  \<^item> \<open>Actor_Runtime\<close>: \<open>actor/actor.go\<close>. The runtime object, \<open>invokeBatch\<close>, \<open>run\<close>. Every caller is answered exactly once,
    the idle counter is restored, the inner loop ends; the two ways in which these fail are theorems too.
  \<^item> \<open>Actor_Group\<close>: \<open>actor/group.go\<close>. Reference counts and their invariant, broadcast, multicast, closing, the idle quit.
  \<^item> \<open>Group_Soundness\<close>: every interleaving of the operations of \<open>actor/group.go\<close>, as the group's lock admits them, is a
    transition system; progress and preservation of the reference counts.
  \<^item> \<open>Actor_Context\<close>: the methods of \<open>actor/actor_context.go\<close> a handler calls, and the rule for users of the library: an open activation
    serves a batch as if its handlers were called one after the other on its state. The programs under \<open>cmd/\<close> rest on it.
  \<^item> \<open>Actor_Manager\<close>: \<open>actor/manager.go\<close>, the senders of \<open>actor/handler.go\<close>, \<open>actor/ref.go\<close>. Routing, posting, calling, safe calls,
    closing, held references. It interprets \<open>mailer\<close> on \<open>FPost\<close>.
  \<^item> \<open>Hold_Protocol\<close>: the instruction-level interleavings of senders, closers and the quitting goroutine on one actor,
    as a step relation. Idle quitting is safe in all of them; closing is not, and a respawn can deadlock.
  \<^item> \<open>Cluster_Placement\<close>: \<open>cluster/node.go\<close>, \<open>placement.go\<close>, \<open>membership.go\<close> and the ownership tests of \<open>migration.go\<close>. The CRC-32 ring
    and its binary search implement the clockwise successor; a membership change moves only what it must; exactly
    one member owns an actor. The locale \<open>slice_sort\<close> states what the ring needs of \<open>sort.Slice\<close>.
  \<^item> \<open>Rpc_Json\<close>, \<open>Rpc\<close>: \<open>rpc/types.go\<close>, \<open>json.go\<close>, \<open>registry.go\<close>, \<open>entry.go\<close>, \<open>server.go\<close>, \<open>client.go\<close>. The locale \<open>wire\<close> is the
    contract of a transport, interpreted on the JSON transport. A remote call is the local call on the server; in
    every interleaving on one client a reply reaches the call with its number. A server's life by its listeners.
  \<^item> \<open>Cluster_Router\<close>: \<open>cluster/cluster.go\<close> and the coordinator of \<open>cluster/migration.go\<close>. The client pool, dispatch, lease
    retries, routed broadcast and multicast, differences of member lists.
  \<^item> \<open>Grain_Driver\<close>: \<open>grain/manager.go\<close>, \<open>snapshot.go\<close>, \<open>driver_json.go\<close>. The driver interface and the JSON file driver: files of
    different actors differ, a saved state is loaded again.
  \<^item> \<open>Grain_Redis\<close>: \<open>grain/driver_redis.go\<close>. The Lua scripts over the commands of the server; the locale \<open>redis_hash\<close> is
    their documented contract, interpreted on a map. After a takeover the former holder is fenced off.
  \<^item> \<open>Grain_Redis_Expiry\<close>: time in the Redis driver. The locale \<open>redis_time\<close> extends \<open>redis_hash\<close> by the expiry of keys; in every run of the
    scripts all stored keys expire with their data. The type switches of \<open>marshalData\<close> and \<open>unmarshalData\<close>.
  \<^item> \<open>Grain_Mongo\<close>: \<open>grain/driver_mongo.go\<close>. The filters and the update pipeline as BSON values, with the meaning of the operators
    they use; the locale \<open>mongo_server\<close> is the contract of the commands, interpreted on a map. A takeover fences; a
    second load by the holder invalidates its own lease.
  \<^item> \<open>Grain_Lifecycle\<close>: \<open>grain/lifecycle.go\<close>, \<open>grain_lifecycle.go\<close>. Activation, persisting, the hooks of \<open>SetupGrain\<close>. A grain hands
    its last state to the next activation.
  \<^item> \<open>Grain_Yaml\<close>: \<open>grain/driver_yaml.go\<close>. The YAML driver over the locale \<open>yaml_lib\<close>, the contract of \<open>yaml.v3\<close>, interpreted on
    trees; data survive renewals and forced releases.
  \<^item> \<open>Cluster_Lease\<close>: the router's lease retries over a grain's store on Redis. A takeover from an unreachable node resumes with
    the data last saved; a business error of a healthy holder costs it its lease.
  \<^item> \<open>Shared\<close>: \<open>shared/\<close>. A shard with its handlers and timers, bindings, the reader's cache. Readers converge to the
    highest version; a fetch returns what was published; what the sweep can and cannot remove.
  \<^item> \<open>Shared_Delivery\<close>, \<open>Shared_Serve\<close>: a shard as a whole. It implements a map from names to versioned values, and in every order of
    messages and timers each reader has been handed the current value or an armed timer will push it; the messages, the
    process-wide number of shards and the bindings as they are put into a manager.
  \<^item> \<open>Logger\<close>: \<open>logger/\<close>. The line of a record and the text of a value; a reference JSON parser reads the text back.
  \<^item> \<open>Readmegen\<close>: \<open>cmd/readmegen/main.go\<close>. Regions, rendering, synchronising; a run of the generator satisfies its own check.
  \<^item> \<open>Game\<close>, \<open>Game_Actors\<close>, \<open>Game_Play\<close>: \<open>cmd/engineering_example/\<close>, the application that uses the whole library. Combat rules and
    the player's data; the handlers of connections, players, rooms and the world over the control block, the grain and the
    shared reader; the player's invariant, rewards, restarts, and what happens to a member whose mailbox is full.
  \<^item> \<open>Game_Demo\<close>: \<open>cmd/engineering_example/demo/demo.go\<close>. The scripted client over an environment of calls and a clock; its polling ends.
  \<^item> \<open>Actor_Example\<close>, \<open>Grain_Example\<close>, \<open>Shared_Example\<close>, \<open>Rpc_Example\<close>: the programs \<open>cmd/actor_example\<close>, \<open>grain_example\<close>, \<open>shared_example\<close> and
    \<open>rpc_example\<close>, each with the theorem a user of that part of the library wants: a batch of requests is a run of the players' state
    machine; a player that quits is restored from its file; a region reads what a world published through the shards; a
    remote session is a run of a map of players.
  \<^item> \<open>Cluster_Example\<close>, \<open>Cluster_Node\<close>: \<open>cmd/cluster_example/main.go\<close>. The handlers, the membership and the commands; a request is
    placed on a node that serves it. A node from its start on, with the command line and the migration coordinator at work:
    the coordinator sees every change of the membership; what \<open>info\<close> and \<open>status\<close> show.

  \<^bold>\<open>Conventions.\<close> A Go struct is a record, an operation is a function that returns the changed state, an error is a
  value of a sum or option type. \<open>'x go\<close> is the result of an operation that may panic (\<open>GoPanic\<close>) or block for ever
  (\<open>GoBlocks\<close>). A pointer that is shared is an index into a heap: the actors of a group, the entries of a shard.
  A mutex-protected section is one step, except in \<open>Hold_Protocol\<close>, where the lock itself is modelled. Integers
  are unbounded except where wrap-around can be reached: timer identifiers, sequence numbers, generations,
  versions, hashes and checksums.

  \<^bold>\<open>Parameters.\<close> Code outside the repository is an argument with its documented behaviour as a hypothesis: user
  handlers and hooks, codecs, \<open>sort.Slice\<close>, the websocket's write errors, the Redis and MongoDB commands, the refusals of
  the operating system, the JSON mapping of a user's snapshot type, the encoders and decoders of \<open>yaml.v3\<close>, the clock.

  \<^bold>\<open>Bounds and fuel.\<close> The timer-id probe takes the number of timers as fuel, which \<open>probe_total\<close> shows to be enough. The
  inner loop of \<open>run\<close> takes twice the buffer's length plus one, which \<open>inner_loop_terminates\<close> shows to be enough. The
  outer loop of \<open>run\<close> is driven by a finite list of rounds, one for each time the goroutine wakes up.

  \<^bold>\<open>Not modelled.\<close> Which operations write to the log, and trace output; the texts the programs under \<open>cmd/\<close> print and their sleeps;
  sockets, the upgrade of a connection and connections that are open when a server shuts down; a membership protocol behind
  \<open>Membership\<close> (the example's own list is modelled); deadlines of contexts, except that a caller may give up at any moment;
  accessors that return a field.
\<close>

end
